(* ===== verification/Prelude.thy ===== *)
theory Prelude
  imports Main "HOL-Library.Word"
begin

text \<open>
  Shared vocabulary of the HepOS development.

  \<^item> the machine integer types of the Rust sources as words;
  \<^item> a Rust panic as a value: every function that can reach \<open>panic!\<close>, \<open>assert!\<close>,
    \<open>expect\<close> or an out-of-range index returns \<open>panic + 'a\<close>; \<open>rbind\<close> is the sequencing of
    such calls and \<open>wp\<close> the total-correctness weakest precondition of one that threads a state;
  \<^item> the byte codecs \<open>from_le_bytes\<close> / \<open>to_le_bytes\<close> and their big-endian twins;
  \<^item> buffers as functions from an offset to a byte, with slice reads and writes.
\<close>

unbundle bit_operations_syntax

section \<open>Machine integers\<close>

type_synonym u8 = "8 word"
type_synonym u16 = "16 word"
type_synonym u32 = "32 word"
type_synonym u64 = "64 word"

lemma unat_less_2p: "unat (w :: 'a::len word) < 2 ^ LENGTH('a)"
  by (rule unsigned_less)

lemma unat_u8_less [simp]: "unat (w :: u8) < 256"
  and unat_u16_less [simp]: "unat (x :: u16) < 65536"
  and unat_u32_less [simp]: "unat (y :: u32) < 4294967296"
  and unat_u64_less [simp]: "unat (z :: u64) < 18446744073709551616"
  using unat_less_2p [of w] unat_less_2p [of x] unat_less_2p [of y] unat_less_2p [of z]
  by simp_all

lemma unat_of_nat_less: "n < 2 ^ LENGTH('a) \<Longrightarrow> unat (word_of_nat n :: 'a::len word) = n"
  by (simp add: unsigned_of_nat take_bit_nat_eq_self)

lemma unat_u32_of_nat: "n < 2 ^ 32 \<Longrightarrow> unat (word_of_nat n :: u32) = n"
  and unat_u64_of_nat: "n < 2 ^ 64 \<Longrightarrow> unat (word_of_nat n :: u64) = n"
  using unat_of_nat_less [of n, where 'a = 32] unat_of_nat_less [of n, where 'a = 64] by simp_all

lemma unat_eq_iff: "unat (a :: 'a::len word) = unat b \<longleftrightarrow> a = b"
  by (auto intro: unsigned_word_eqI)

text \<open>Facts that the component proofs use by name as a group.\<close>

named_theorems wp_rules "weakest-precondition rules of the modelled operations"

section \<open>Panics as values\<close>

datatype panic = Panic string

definition rbind :: "'e + 'a \<Rightarrow> ('a \<Rightarrow> 'e + 'b) \<Rightarrow> 'e + 'b" where
  "rbind m f = (case m of Inl e \<Rightarrow> Inl e | Inr x \<Rightarrow> f x)"

definition wp :: "panic + ('a \<times> 's) \<Rightarrow> ('a \<Rightarrow> 's \<Rightarrow> bool) \<Rightarrow> bool" where
  "wp m Q = (case m of Inl e \<Rightarrow> False | Inr r \<Rightarrow> Q (fst r) (snd r))"

lemma rbind_simps [simp]:
  "rbind (Inl e) f = Inl e"
  "rbind (Inr x) f = f x"
  by (simp_all add: rbind_def)

lemma rbind_eq_Inr: "rbind m f = Inr y \<longleftrightarrow> (\<exists>x. m = Inr x \<and> f x = Inr y)"
  by (cases m) simp_all

lemma rbind_assoc: "rbind (rbind m f) g = rbind m (\<lambda>x. rbind (f x) g)"
  by (cases m) simp_all

lemma wp_Inl [simp]: "wp (Inl e) Q \<longleftrightarrow> False"
  and wp_Inr [simp]: "wp (Inr r) Q \<longleftrightarrow> Q (fst r) (snd r)"
  by (simp_all add: wp_def)

lemma wp_rbind: "wp (rbind m f) Q \<longleftrightarrow> wp m (\<lambda>x s. wp (f (x, s)) Q)"
  by (cases m) simp_all

lemma wp_mono: "wp m P \<Longrightarrow> (\<And>x s. P x s \<Longrightarrow> Q x s) \<Longrightarrow> wp m Q"
  by (cases m) simp_all

lemma wp_iff_ex: "wp m Q \<longleftrightarrow> (\<exists>x s. m = Inr (x, s) \<and> Q x s)"
  by (cases m) auto

lemma wp_conj: "wp m P \<Longrightarrow> wp m Q \<Longrightarrow> wp m (\<lambda>x s. P x s \<and> Q x s)"
  by (cases m) simp_all

lemma wp_if: "wp (if b then m else n) Q \<longleftrightarrow> (if b then wp m Q else wp n Q)"
  by simp

section \<open>Byte codecs\<close>

text \<open>\<open>le_nat\<close> reads a little-endian byte string; \<open>le_bytes n x\<close> writes \<open>n\<close> bytes of \<open>x\<close>.\<close>

fun le_nat :: "u8 list \<Rightarrow> nat" where
  "le_nat [] = 0"
| "le_nat (b # bs) = unat b + 256 * le_nat bs"

fun le_bytes :: "nat \<Rightarrow> nat \<Rightarrow> u8 list" where
  "le_bytes 0 x = []"
| "le_bytes (Suc n) x = word_of_nat (x mod 256) # le_bytes n (x div 256)"

definition be_nat :: "u8 list \<Rightarrow> nat" where
  "be_nat bs = le_nat (rev bs)"

definition be_bytes :: "nat \<Rightarrow> nat \<Rightarrow> u8 list" where
  "be_bytes n x = rev (le_bytes n x)"

lemma length_le_bytes [simp]: "length (le_bytes n x) = n"
  by (induction n arbitrary: x) simp_all

lemma length_be_bytes [simp]: "length (be_bytes n x) = n"
  by (simp add: be_bytes_def)

lemma unat_u8_of_nat [simp]: "unat (word_of_nat (x mod 256) :: u8) = x mod 256"
  by (simp add: unat_of_nat)

lemma le_nat_bound: "le_nat bs < 256 ^ length bs"
proof (induction bs)
  case Nil
  then show ?case by simp
next
  case (Cons b bs)
  then show ?case using unat_u8_less [of b] by (simp del: unat_u8_less)
qed

lemma le_nat_le_bytes: "le_nat (le_bytes n x) = x mod 256 ^ n"
proof (induction n arbitrary: x)
  case 0
  then show ?case by simp
next
  case (Suc n)
  have "x mod 256 + 256 * (x div 256 mod 256 ^ n) = x mod (256 * 256 ^ n)"
    by (simp add: mod_mult2_eq)
  with Suc show ?case by simp
qed

lemma le_bytes_le_nat: "length bs = n \<Longrightarrow> le_bytes n (le_nat bs) = bs"
proof (induction bs arbitrary: n)
  case Nil
  then show ?case by simp
next
  case (Cons b bs)
  have "unat b < 256" by simp
  moreover have "(word_of_nat (unat b) :: u8) = b" by simp
  ultimately show ?case using Cons by (auto simp: div_add1_eq)
qed

lemma be_nat_be_bytes: "be_nat (be_bytes n x) = x mod 256 ^ n"
  by (simp add: be_nat_def be_bytes_def le_nat_le_bytes)

lemma be_nat_bound: "be_nat bs < 256 ^ length bs"
  using le_nat_bound [of "rev bs"] by (simp add: be_nat_def)

text \<open>The fixed-width instances the sources call.\<close>

definition u16_from_le_bytes :: "u8 list \<Rightarrow> u16" where
  "u16_from_le_bytes bs = word_of_nat (le_nat bs)"

definition u32_from_le_bytes :: "u8 list \<Rightarrow> u32" where
  "u32_from_le_bytes bs = word_of_nat (le_nat bs)"

definition u64_from_le_bytes :: "u8 list \<Rightarrow> u64" where
  "u64_from_le_bytes bs = word_of_nat (le_nat bs)"

definition u16_to_le_bytes :: "u16 \<Rightarrow> u8 list" where
  "u16_to_le_bytes w = le_bytes 2 (unat w)"

definition u32_to_le_bytes :: "u32 \<Rightarrow> u8 list" where
  "u32_to_le_bytes w = le_bytes 4 (unat w)"

definition u64_to_le_bytes :: "u64 \<Rightarrow> u8 list" where
  "u64_to_le_bytes w = le_bytes 8 (unat w)"

lemma length_to_le_bytes [simp]:
  "length (u16_to_le_bytes w2) = 2"
  "length (u32_to_le_bytes w4) = 4"
  "length (u64_to_le_bytes w8) = 8"
  by (simp_all add: u16_to_le_bytes_def u32_to_le_bytes_def u64_to_le_bytes_def)

lemma u32_le_roundtrip [simp]: "u32_from_le_bytes (u32_to_le_bytes w) = w"
  by (simp add: u32_from_le_bytes_def u32_to_le_bytes_def le_nat_le_bytes)

lemma u64_le_roundtrip [simp]: "u64_from_le_bytes (u64_to_le_bytes w) = w"
  by (simp add: u64_from_le_bytes_def u64_to_le_bytes_def le_nat_le_bytes)

lemma u32_le_roundtrip_bytes: "length bs = 4 \<Longrightarrow> u32_to_le_bytes (u32_from_le_bytes bs) = bs"
  using le_nat_bound [of bs]
  by (simp add: u32_from_le_bytes_def u32_to_le_bytes_def unat_of_nat le_bytes_le_nat)

section \<open>Buffers as functions\<close>

text \<open>
  A fixed-size buffer (a 4 KB page, a disk block, physical memory) is a function from the offset
  to the byte. \<open>get_bytes\<close> is a slice read \<open>buf[off..off+n]\<close>, \<open>put_bytes\<close> a
  \<open>copy_from_slice\<close> into \<open>buf[off..off+len]\<close>.
\<close>

type_synonym buffer = "nat \<Rightarrow> u8"

definition get_bytes :: "buffer \<Rightarrow> nat \<Rightarrow> nat \<Rightarrow> u8 list" where
  "get_bytes buf off n = map buf [off ..< off + n]"

definition put_bytes :: "buffer \<Rightarrow> nat \<Rightarrow> u8 list \<Rightarrow> buffer" where
  "put_bytes buf off bs = (\<lambda>i. if off \<le> i \<and> i < off + length bs then bs ! (i - off) else buf i)"

lemma length_get_bytes [simp]: "length (get_bytes buf off n) = n"
  by (simp add: get_bytes_def)

lemma get_put_bytes_same [simp]:
  "n = length bs \<Longrightarrow> get_bytes (put_bytes buf off bs) off n = bs"
  by (rule nth_equalityI) (simp_all add: get_bytes_def put_bytes_def)

lemma get_put_bytes_other:
  "off' + n \<le> off \<or> off + length bs \<le> off' \<Longrightarrow>
   get_bytes (put_bytes buf off bs) off' n = get_bytes buf off' n"
  by (auto simp: get_bytes_def put_bytes_def)

lemma get_bytes_cong:
  "(\<And>i. off \<le> i \<Longrightarrow> i < off + n \<Longrightarrow> f i = g i) \<Longrightarrow> get_bytes f off n = get_bytes g off n"
  by (simp add: get_bytes_def)

lemma nth_get_bytes [simp]: "i < n \<Longrightarrow> get_bytes buf off n ! i = buf (off + i)"
  by (simp add: get_bytes_def)

end
