(* ===== verification/Pmm.thy ===== *)
theory Pmm
  imports Prelude
begin

text \<open>
  The physical memory manager, \<open>kernel/src/pmm.rs\<close>, and the boot memory map entry it reads
  (\<open>kernel/src/bootinfo.rs\<close>).

  The statics \<open>BITMAP\<close>, \<open>TOTAL_PAGES\<close> and \<open>FREE_PAGES\<close> are the record \<open>pmm_state\<close>, which later
  components extend with their own statics. The bitmap array is a function from the word index.
  Shown here: every operation changes exactly the bits it should, allocation is first-fit and
  complete, and \<open>FREE_PAGES\<close> counts the free pages as long as clients free what they own. The
  locale \<open>frame_allocator\<close> is what the clients of the allocator rely on.
\<close>

section \<open>State and bit operations\<close>

definition PAGE_SIZE :: nat where
  "PAGE_SIZE = 4096"

definition MAX_PAGES :: nat where
  "MAX_PAGES = 512 * 1024"

record mem_region =
  mr_base :: u64
  mr_len :: u64
  mr_typ :: u64

record pmm_state =
  BITMAP :: "nat \<Rightarrow> u64"
  TOTAL_PAGES :: u64
  FREE_PAGES :: u64

definition set_used :: "nat \<Rightarrow> 'a pmm_state_scheme \<Rightarrow> 'a pmm_state_scheme" where
  "set_used page s = s\<lparr>BITMAP := (BITMAP s)
     (page div 64 := BITMAP s (page div 64) OR push_bit (page mod 64) 1)\<rparr>"

definition set_free :: "nat \<Rightarrow> 'a pmm_state_scheme \<Rightarrow> 'a pmm_state_scheme" where
  "set_free page s = s\<lparr>BITMAP := (BITMAP s)
     (page div 64 := BITMAP s (page div 64) AND NOT (push_bit (page mod 64) 1))\<rparr>"

definition is_used :: "'a pmm_state_scheme \<Rightarrow> nat \<Rightarrow> bool" where
  "is_used s page = (BITMAP s (page div 64) AND push_bit (page mod 64) 1 \<noteq> 0)"

section \<open>Initialisation from the memory map\<close>

text \<open>
  The page loop of one region: \<open>break\<close> at the first page beyond the tracked range, otherwise
  count it and free it when the region is usable RAM above 1 MB. The accumulator is
  \<open>(total, free, state)\<close>.
\<close>

fun init_pages :: "bool \<Rightarrow> nat list \<Rightarrow> u64 \<times> u64 \<times> 'a pmm_state_scheme \<Rightarrow>
    u64 \<times> u64 \<times> 'a pmm_state_scheme" where
  "init_pages usable [] acc = acc"
| "init_pages usable (page # pages) (tot, free, s) =
     (if MAX_PAGES \<le> page then (tot, free, s)
      else if usable then init_pages usable pages (tot + 1, free + 1, set_free page s)
      else init_pages usable pages (tot + 1, free, s))"

definition region_first :: "mem_region \<Rightarrow> nat" where
  "region_first e = unat (mr_base e) div PAGE_SIZE"

definition region_last :: "mem_region \<Rightarrow> nat" where
  "region_last e = unat (mr_base e + mr_len e) div PAGE_SIZE"

definition region_usable :: "mem_region \<Rightarrow> bool" where
  "region_usable e \<longleftrightarrow> mr_typ e = 1 \<and> 0x100000 \<le> mr_base e"

definition init_region :: "mem_region \<Rightarrow> u64 \<times> u64 \<times> 'a pmm_state_scheme \<Rightarrow>
    u64 \<times> u64 \<times> 'a pmm_state_scheme" where
  "init_region e acc = init_pages (region_usable e) [region_first e ..< region_last e] acc"

definition pmm_init :: "mem_region list \<Rightarrow> 'a pmm_state_scheme \<Rightarrow> 'a pmm_state_scheme" where
  "pmm_init memmap s =
     (let (tot, free, s') = fold init_region memmap (0, 0, s\<lparr>BITMAP := (\<lambda>_. - 1)\<rparr>)
      in s'\<lparr>TOTAL_PAGES := tot, FREE_PAGES := free\<rparr>)"

section \<open>Allocation and release\<close>

definition trailing_ones :: "u64 \<Rightarrow> nat" where
  "trailing_ones w = length (takeWhile (bit w) [0 ..< 64])"

definition page_addr :: "nat \<Rightarrow> u64" where
  "page_addr page = word_of_nat (page * PAGE_SIZE)"

text \<open>
  The scan over the bitmap words from word \<open>i\<close>. The value loaded and the old value \<open>fetch_or\<close>
  returns are the same word here; the version split at the
  atomic operations is in \<open>Pmm_Concurrent\<close>.
\<close>

function alloc_from :: "nat \<Rightarrow> 'a pmm_state_scheme \<Rightarrow> (u64 \<times> 'a pmm_state_scheme) option" where
  "alloc_from i s =
     (if MAX_PAGES div 64 \<le> i then None
      else let val = BITMAP s i in
        if val = - 1 then alloc_from (Suc i) s
        else let bt = trailing_ones val; page = i * 64 + bt in
          if MAX_PAGES \<le> page then None
          else let old = BITMAP s i; s' = s\<lparr>BITMAP := (BITMAP s)(i := old OR push_bit bt 1)\<rparr> in
            if old AND push_bit bt 1 = 0
            then Some (page_addr page, s'\<lparr>FREE_PAGES := FREE_PAGES s' - 1\<rparr>)
            else alloc_from (Suc i) s')"
  by pat_completeness auto
termination
  by (relation "measure (\<lambda>(i, s). MAX_PAGES div 64 - i)") auto

declare alloc_from.simps [simp del]

definition alloc_page :: "'a pmm_state_scheme \<Rightarrow> (u64 \<times> 'a pmm_state_scheme) option" where
  "alloc_page s = alloc_from 0 s"

definition free_page :: "u64 \<Rightarrow> 'a pmm_state_scheme \<Rightarrow> 'a pmm_state_scheme" where
  "free_page addr s =
     (let page = unat addr div PAGE_SIZE in
      if MAX_PAGES \<le> page then s
      else let s' = set_free page s in s'\<lparr>FREE_PAGES := FREE_PAGES s' + 1\<rparr>)"

definition free_pages :: "'a pmm_state_scheme \<Rightarrow> u64" where
  "free_pages s = FREE_PAGES s"

definition total_pages :: "'a pmm_state_scheme \<Rightarrow> u64" where
  "total_pages s = TOTAL_PAGES s"

text \<open>
  \<open>alloc_contiguous\<close>: the inner check loop ends in one of three ways, all free, one used
  (\<open>continue 'outer\<close>) or past the end (\<open>break 'outer\<close>).
\<close>

datatype run_check = RunFree | RunUsed | RunEnd

function check_run :: "'a pmm_state_scheme \<Rightarrow> nat \<Rightarrow> nat \<Rightarrow> nat \<Rightarrow> run_check" where
  "check_run s i j count =
     (if count \<le> j then RunFree
      else if MAX_PAGES \<le> i + j then RunEnd
      else if is_used s (i + j) then RunUsed
      else check_run s i (Suc j) count)"
  by pat_completeness auto
termination
  by (relation "measure (\<lambda>(s, i, j, count). count - j)") auto

declare check_run.simps [simp del]

function contiguous_from :: "nat \<Rightarrow> nat \<Rightarrow> 'a pmm_state_scheme \<Rightarrow> nat option" where
  "contiguous_from i count s =
     (if MAX_PAGES \<le> i then None
      else case check_run s i 0 count of
          RunEnd \<Rightarrow> None
        | RunUsed \<Rightarrow> contiguous_from (Suc i) count s
        | RunFree \<Rightarrow> Some i)"
  by pat_completeness auto
termination
  by (relation "measure (\<lambda>(i, count, s). MAX_PAGES - i)") auto

declare contiguous_from.simps [simp del]

definition alloc_contiguous :: "nat \<Rightarrow> 'a pmm_state_scheme \<Rightarrow>
    (u64 \<times> 'a pmm_state_scheme) option" where
  "alloc_contiguous count s =
     (case contiguous_from 0 count s of
        None \<Rightarrow> None
      | Some i \<Rightarrow>
          let s' = fold set_used [i ..< i + count] s
          in Some (word_of_nat i * word_of_nat PAGE_SIZE,
                   s'\<lparr>FREE_PAGES := FREE_PAGES s' - word_of_nat count\<rparr>))"

section \<open>Bit-level effect of the operations\<close>

lemma is_used_bit: "is_used s p \<longleftrightarrow> bit (BITMAP s (p div 64)) (p mod 64)"
  by (simp add: is_used_def bit_iff_and_push_bit_not_eq_0)

lemma div_mod_64_eq: "p div 64 = q div 64 \<Longrightarrow> p mod 64 = q mod 64 \<Longrightarrow> p = (q :: nat)"
  by (metis div_mult_mod_eq)

lemma bit_pow_u64: "n < 64 \<Longrightarrow> bit ((2 :: u64) ^ m) n \<longleftrightarrow> n = m"
  by (auto simp: bit_simps)

lemma is_used_set_used [simp]: "is_used (set_used p s) q \<longleftrightarrow> q = p \<or> is_used s q"
  by (auto simp: is_used_bit set_used_def bit_or_iff bit_pow_u64 dest: div_mod_64_eq)

lemma is_used_set_free [simp]: "is_used (set_free p s) q \<longleftrightarrow> q \<noteq> p \<and> is_used s q"
  by (auto simp: is_used_bit set_free_def bit_and_iff bit_not_iff bit_pow_u64
      dest: div_mod_64_eq)

lemma is_used_update [simp]:
  "is_used (s\<lparr>TOTAL_PAGES := t\<rparr>) = is_used s"
  "is_used (s\<lparr>FREE_PAGES := f\<rparr>) = is_used s"
  by (simp_all add: is_used_def fun_eq_iff)

lemma pmm_state_set_used [simp]:
  "FREE_PAGES (set_used p s) = FREE_PAGES s" "TOTAL_PAGES (set_used p s) = TOTAL_PAGES s"
  "pmm_state.more (set_used p s) = pmm_state.more s"
  by (simp_all add: set_used_def)

lemma pmm_state_set_free [simp]:
  "FREE_PAGES (set_free p s) = FREE_PAGES s" "TOTAL_PAGES (set_free p s) = TOTAL_PAGES s"
  "pmm_state.more (set_free p s) = pmm_state.more s"
  by (simp_all add: set_free_def)

text \<open>\<open>trailing_ones\<close> finds the lowest clear bit.\<close>

lemma trailing_ones_least:
  assumes "w \<noteq> - 1"
  shows "trailing_ones w < 64 \<and> \<not> bit w (trailing_ones w) \<and> (\<forall>n < trailing_ones w. bit w n)"
proof -
  let ?t = "takeWhile (bit w) [0 ..< 64]"
  have "\<exists>n < 64. \<not> bit w n"
  proof (rule ccontr)
    assume "\<not> (\<exists>n < 64. \<not> bit w n)"
    then have "w = - 1" by (intro bit_word_eqI) (simp add: bit_minus_1_iff)
    with assms show False by contradiction
  qed
  then have "?t \<noteq> [0 ..< 64]"
    using takeWhile_eq_all_conv [of "bit w" "[0 ..< 64]"] by auto
  then have lt: "length ?t < 64"
    using length_takeWhile_le [of "bit w" "[0 ..< 64]"] takeWhile_eq_take [of "bit w" "[0 ..< 64]"]
    by (metis le_neq_implies_less length_upt diff_zero take_all order_refl)
  then have "\<not> bit w ([0 ..< 64] ! length ?t)"
    using nth_length_takeWhile [of "bit w" "[0 ..< 64]"] by simp
  moreover have "\<forall>n < length ?t. bit w n"
  proof (intro allI impI)
    fix n assume n: "n < length ?t"
    then have "bit w (?t ! n)" using nth_mem set_takeWhileD by fastforce
    moreover have "?t ! n = n" using n lt takeWhile_nth [of n "bit w" "[0 ..< 64]"] by simp
    ultimately show "bit w n" by simp
  qed
  ultimately show ?thesis using lt by (simp add: trailing_ones_def)
qed

lemma MAX_PAGES_words: "i < MAX_PAGES div 64 \<Longrightarrow> n < 64 \<Longrightarrow> i * 64 + n < MAX_PAGES"
  by (simp add: MAX_PAGES_def)

lemma word_full_iff: "BITMAP s i = - 1 \<longleftrightarrow> (\<forall>n < 64. is_used s (i * 64 + n))"
proof
  assume "BITMAP s i = - 1"
  then show "\<forall>n < 64. is_used s (i * 64 + n)" by (simp add: is_used_bit bit_minus_1_iff)
next
  assume "\<forall>n < 64. is_used s (i * 64 + n)"
  then show "BITMAP s i = - 1"
    by (intro bit_word_eqI) (auto simp: is_used_bit bit_minus_1_iff)
qed

text \<open>One step of the scan, in terms of the used bits.\<close>

lemma alloc_from_full:
  "i < MAX_PAGES div 64 \<Longrightarrow> BITMAP s i = - 1 \<Longrightarrow> alloc_from i s = alloc_from (Suc i) s"
  by (subst alloc_from.simps) simp

lemma word_index:
  fixes i q t :: nat
  assumes "i * 64 \<le> q" "q < i * 64 + t" "t < 64"
  shows "q div 64 = i" "q mod 64 = q - i * 64"
proof -
  from assms show "q div 64 = i" by (intro div_nat_eqI) auto
  then show "q mod 64 = q - i * 64" by (simp add: modulo_nat_def mult.commute)
qed

lemma alloc_from_hit:
  assumes i: "i < MAX_PAGES div 64" and v: "BITMAP s i \<noteq> - 1"
    and p: "p = i * 64 + trailing_ones (BITMAP s i)"
  shows "alloc_from i s =
    Some (page_addr p, (set_used p s)\<lparr>FREE_PAGES := FREE_PAGES s - 1\<rparr>)"
    and "p < MAX_PAGES" and "\<not> is_used s p"
    and "\<And>q. i * 64 \<le> q \<Longrightarrow> q < p \<Longrightarrow> is_used s q"
proof -
  let ?t = "trailing_ones (BITMAP s i)"
  have t: "?t < 64" "\<not> bit (BITMAP s i) ?t" "\<forall>n < ?t. bit (BITMAP s i) n"
    using trailing_ones_least [OF v] by auto
  have dm: "p div 64 = i" "p mod 64 = ?t"
    using t(1) by (simp_all add: p)
  show lt: "p < MAX_PAGES" using i t(1) MAX_PAGES_words by (simp add: p)
  have clear: "BITMAP s i AND push_bit ?t 1 = 0"
    using t(2) bit_iff_and_push_bit_not_eq_0 by blast
  have "\<not> MAX_PAGES div 64 \<le> i" "\<not> MAX_PAGES \<le> p" using i lt by auto
  then show "alloc_from i s =
    Some (page_addr p, (set_used p s)\<lparr>FREE_PAGES := FREE_PAGES s - 1\<rparr>)"
    unfolding alloc_from.simps [of i s] Let_def p [symmetric] set_used_def dm
    using v clear by simp
  show "\<not> is_used s p" using t(2) by (simp add: is_used_bit dm)
  show "is_used s q" if "i * 64 \<le> q" "q < p" for q
    using word_index [of i q ?t] that t by (simp add: is_used_bit p)
qed

text \<open>The scan as a whole: it claims the lowest free page at or above its starting word.\<close>

lemma alloc_from_first:
  assumes "p < MAX_PAGES" "\<not> is_used s p" "i * 64 \<le> p" "\<And>q. i * 64 \<le> q \<Longrightarrow> q < p \<Longrightarrow> is_used s q"
  shows "alloc_from i s =
    Some (page_addr p, (set_used p s)\<lparr>FREE_PAGES := FREE_PAGES s - 1\<rparr>)"
  using assms
proof (induction "p div 64 - i" arbitrary: i)
  case 0
  then have i: "p div 64 = i" using div_le_mono [of "i * 64" p 64] by simp
  have "i * 64 + p mod 64 = p" using div_mult_mod_eq [of p 64] i by simp
  then have "BITMAP s i \<noteq> - 1"
    using 0(3) word_full_iff [of s i] by (metis mod_less_divisor zero_less_numeral)
  moreover have lt: "i < MAX_PAGES div 64" using 0 i by (auto simp: MAX_PAGES_def)
  ultimately show ?case
    using alloc_from_hit [OF lt, of s "i * 64 + trailing_ones (BITMAP s i)"] 0
    by (metis le_add1 linorder_neqE_nat)
next
  case (Suc n)
  then have i: "i < p div 64" by simp
  then have le: "Suc i * 64 \<le> p" by (simp add: less_eq_div_iff_mult_less_eq [symmetric] Suc_le_eq)
  have "BITMAP s i = - 1"
    unfolding word_full_iff using Suc.prems(4) le by simp
  moreover have "i < MAX_PAGES div 64" using i Suc.prems(1) by (auto simp: MAX_PAGES_def)
  ultimately show ?case using Suc le by (simp add: alloc_from_full)
qed

lemma alloc_from_none:
  assumes "\<And>q. i * 64 \<le> q \<Longrightarrow> q < MAX_PAGES \<Longrightarrow> is_used s q"
  shows "alloc_from i s = None"
  using assms
proof (induction "MAX_PAGES div 64 - i" arbitrary: i)
  case 0
  then show ?case by (subst alloc_from.simps) simp
next
  case (Suc n)
  then have i: "i < MAX_PAGES div 64" by simp
  have "BITMAP s i = - 1"
    unfolding word_full_iff using Suc.prems i MAX_PAGES_words by simp
  then show ?case using Suc i by (simp add: alloc_from_full)
qed

section \<open>The free pages as a set\<close>

definition free_set :: "'a pmm_state_scheme \<Rightarrow> nat set" where
  "free_set s = {p. p < MAX_PAGES \<and> \<not> is_used s p}"

definition frames :: "'a pmm_state_scheme \<Rightarrow> nat" where
  "frames s = card (free_set s)"

lemma finite_free_set [simp]: "finite (free_set s)"
  by (simp add: free_set_def)

lemma free_set_less: "p \<in> free_set s \<Longrightarrow> p < MAX_PAGES"
  by (simp add: free_set_def)

lemma free_set_simps [simp]:
  "free_set (set_used p s) = free_set s - {p}"
  "free_set (s\<lparr>TOTAL_PAGES := t\<rparr>) = free_set s"
  "free_set (s\<lparr>FREE_PAGES := f\<rparr>) = free_set s"
  by (auto simp: free_set_def)

lemma free_set_set_free: "p < MAX_PAGES \<Longrightarrow> free_set (set_free p s) = insert p (free_set s)"
  by (auto simp: free_set_def)

lemma frames_le: "frames s \<le> MAX_PAGES"
proof -
  have "free_set s \<subseteq> {..< MAX_PAGES}" by (auto simp: free_set_def)
  then show ?thesis using card_mono [of "{..< MAX_PAGES}" "free_set s"] by (simp add: frames_def)
qed

text \<open>\<open>alloc_page\<close> in closed form.\<close>

lemma alloc_page_eq:
  "alloc_page s =
     (if free_set s = {} then None
      else let p = Min (free_set s)
        in Some (page_addr p, (set_used p s)\<lparr>FREE_PAGES := FREE_PAGES s - 1\<rparr>))"
proof (cases "free_set s = {}")
  case True
  then show ?thesis by (auto simp: alloc_page_def free_set_def intro!: alloc_from_none)
next
  case False
  define p where "p = Min (free_set s)"
  have p: "p \<in> free_set s" and least: "\<And>q. q \<in> free_set s \<Longrightarrow> p \<le> q"
    using False Min_in [of "free_set s"] by (auto simp: p_def)
  have "is_used s q" if "q < p" for q
    using least [of q] that p by (auto simp: free_set_def)
  then have "alloc_page s = Some (page_addr p, (set_used p s)\<lparr>FREE_PAGES := FREE_PAGES s - 1\<rparr>)"
    unfolding alloc_page_def using p by (intro alloc_from_first) (auto simp: free_set_def)
  then show ?thesis using False by (simp add: p_def [symmetric])
qed

lemma alloc_page_SomeD:
  assumes "alloc_page s = Some (a, s')"
  obtains p where "p = Min (free_set s)" "p \<in> free_set s" "p < MAX_PAGES"
    "a = page_addr p" "s' = (set_used p s)\<lparr>FREE_PAGES := FREE_PAGES s - 1\<rparr>"
    "free_set s' = free_set s - {p}"
proof -
  have ne: "free_set s \<noteq> {}" using assms by (auto simp: alloc_page_eq)
  then have "Min (free_set s) \<in> free_set s" by (simp add: Min_in)
  moreover from this have "Min (free_set s) < MAX_PAGES" by (rule free_set_less)
  ultimately show thesis using that assms ne by (auto simp: alloc_page_eq Let_def)
qed

lemma alloc_page_None: "alloc_page s = None \<longleftrightarrow> free_set s = {}"
  by (simp add: alloc_page_eq Let_def)

lemma unat_page_addr:
  assumes "p < MAX_PAGES"
  shows "unat (page_addr p) = p * PAGE_SIZE"
proof -
  have "p * PAGE_SIZE < 2 ^ 64" using assms by (simp add: MAX_PAGES_def PAGE_SIZE_def)
  then show ?thesis by (simp only: page_addr_def unat_u64_of_nat)
qed

section \<open>The interface clients rely on\<close>

text \<open>
  What a client of the allocator relies on: it fails only when nothing is free, it hands out an
  address of a page that was free, it takes that page only, and it leaves everything outside its own
  statics (\<open>rest\<close>) alone.
\<close>

locale frame_allocator =
  fixes alloc :: "'s \<Rightarrow> (u64 \<times> 's) option"
    and frees :: "'s \<Rightarrow> nat set"
    and rest :: "'s \<Rightarrow> 'r"
  assumes frees_finite: "finite (frees s)"
    and frees_bound: "p \<in> frees s \<Longrightarrow> p < MAX_PAGES"
    and alloc_none: "alloc s = None \<Longrightarrow> frees s = {}"
    and alloc_some: "alloc s = Some (a, s') \<Longrightarrow>
      \<exists>p. p \<in> frees s \<and> a = page_addr p \<and> frees s' = frees s - {p} \<and> rest s' = rest s"

context frame_allocator
begin

lemma alloc_total:
  assumes "0 < card (frees s)"
  obtains p s' where "alloc s = Some (page_addr p, s')" "p \<in> frees s"
    "frees s' = frees s - {p}" "rest s' = rest s" "card (frees s') = card (frees s) - 1"
proof (cases "alloc s")
  case None
  then show thesis using alloc_none assms by fastforce
next
  case (Some r)
  then obtain a s' where r: "alloc s = Some (a, s')" by (cases r) auto
  then obtain p where "p \<in> frees s" "a = page_addr p" "frees s' = frees s - {p}"
    "rest s' = rest s" using alloc_some by blast
  then show thesis using that r frees_finite by simp
qed

text \<open>An address just handed out is page-aligned, below 2 GB, and never handed out again.\<close>

lemma alloc_fresh:
  assumes "alloc s = Some (a, s')" "alloc s' = Some (b, s'')"
  shows "a \<noteq> b"
proof -
  obtain p where p: "p \<in> frees s" "a = page_addr p" "frees s' = frees s - {p}"
    using alloc_some [OF assms(1)] by blast
  obtain q where q: "q \<in> frees s'" "b = page_addr q"
    using alloc_some [OF assms(2)] by blast
  have "unat a = p * PAGE_SIZE" "unat b = q * PAGE_SIZE" "p \<noteq> q"
    using p q frees_bound unat_page_addr by auto
  then show ?thesis by (auto simp: PAGE_SIZE_def)
qed

lemma alloc_aligned:
  assumes "alloc s = Some (a, s')"
  shows "unat a mod PAGE_SIZE = 0" "unat a < MAX_PAGES * PAGE_SIZE" "unat a div PAGE_SIZE \<in> frees s"
proof -
  obtain p where "p \<in> frees s" "a = page_addr p"
    using alloc_some [OF assms] by blast
  then show "unat a mod PAGE_SIZE = 0" "unat a < MAX_PAGES * PAGE_SIZE"
    "unat a div PAGE_SIZE \<in> frees s"
    using frees_bound unat_page_addr by (auto simp: PAGE_SIZE_def)
qed

end

interpretation pmm: frame_allocator alloc_page free_set pmm_state.more
proof
  show "\<exists>p. p \<in> free_set s \<and> a = page_addr p \<and> free_set s' = free_set s - {p} \<and>
      pmm_state.more s' = pmm_state.more s"
    if "alloc_page s = Some (a, s')" for s a s'
    using that by (elim alloc_page_SomeD) auto
qed (auto simp: alloc_page_None free_set_less)

section \<open>Contiguous allocation\<close>

definition free_run :: "'a pmm_state_scheme \<Rightarrow> nat \<Rightarrow> nat \<Rightarrow> bool" where
  "free_run s i count \<longleftrightarrow>
     i < MAX_PAGES \<and> i + count \<le> MAX_PAGES \<and> (\<forall>j < count. \<not> is_used s (i + j))"

lemma check_run_cases:
  "case check_run s i j count of
     RunFree \<Rightarrow> (\<forall>k. j \<le> k \<and> k < count \<longrightarrow> i + k < MAX_PAGES \<and> \<not> is_used s (i + k))
   | RunUsed \<Rightarrow> (\<exists>k. j \<le> k \<and> k < count \<and> is_used s (i + k))
   | RunEnd \<Rightarrow> (\<exists>k. j \<le> k \<and> k < count \<and> MAX_PAGES \<le> i + k)"
proof (induction s i j count rule: check_run.induct)
  case (1 s i j count)
  consider "count \<le> j" | "j < count" "MAX_PAGES \<le> i + j"
    | "j < count" "i + j < MAX_PAGES" "is_used s (i + j)"
    | "j < count" "i + j < MAX_PAGES" "\<not> is_used s (i + j)" by linarith
  then show ?case
  proof cases
    case 4
    then have "check_run s i j count = check_run s i (Suc j) count"
      by (subst check_run.simps) simp
    then show ?thesis using 1 4
      by (auto split: run_check.splits dest: Suc_leD) (metis le_antisym not_less_eq_eq)+
  qed (subst check_run.simps; auto)+
qed

lemma check_run_RunFree: "i < MAX_PAGES \<Longrightarrow> check_run s i 0 count = RunFree \<longleftrightarrow> free_run s i count"
  and check_run_RunEnd: "check_run s i 0 count = RunEnd \<Longrightarrow> i \<le> k \<Longrightarrow> \<not> free_run s k count"
proof -
  show "check_run s i 0 count = RunFree \<longleftrightarrow> free_run s i count" if "i < MAX_PAGES"
  proof
    assume "check_run s i 0 count = RunFree"
    then have k: "i + k < MAX_PAGES" "\<not> is_used s (i + k)" if "k < count" for k
      using check_run_cases [where s = s and i = i and j = 0 and count = count] that by auto
    have "i + count \<le> MAX_PAGES" using k(1) [of "count - 1"] \<open>i < MAX_PAGES\<close> by (cases count) auto
    then show "free_run s i count" using k that by (simp add: free_run_def)
  next
    assume "free_run s i count"
    then show "check_run s i 0 count = RunFree"
      using check_run_cases [where s = s and i = i and j = 0 and count = count] by (auto simp: free_run_def split: run_check.splits)
  qed
  show "\<not> free_run s k count" if "check_run s i 0 count = RunEnd" "i \<le> k"
    using check_run_cases [where s = s and i = i and j = 0 and count = count] that by (auto simp: free_run_def)
qed

lemma contiguous_from_Some:
  "contiguous_from i count s = Some k \<Longrightarrow>
     i \<le> k \<and> free_run s k count \<and> (\<forall>l. i \<le> l \<and> l < k \<longrightarrow> \<not> free_run s l count)"
proof (induction i count s rule: contiguous_from.induct)
  case (1 i count s)
  then have i: "i < MAX_PAGES" by (auto simp: contiguous_from.simps [of i] split: if_splits)
  show ?case
  proof (cases "check_run s i 0 count")
    case RunFree
    then show ?thesis
      using 1 i check_run_RunFree [OF i] by (auto simp: contiguous_from.simps [of i])
  next
    case RunUsed
    then have "\<not> free_run s i count" using check_run_RunFree [OF i, of s count] by simp
    then show ?thesis
      using 1 i RunUsed by (auto simp: contiguous_from.simps [of i] dest: Suc_leD)
        (metis le_antisym not_less_eq_eq)
  next
    case RunEnd
    then show ?thesis using 1 i by (auto simp: contiguous_from.simps [of i])
  qed
qed

lemma contiguous_from_None:
  "contiguous_from i count s = None \<Longrightarrow> i \<le> k \<Longrightarrow> \<not> free_run s k count"
proof (induction i count s rule: contiguous_from.induct)
  case (1 i count s)
  show ?case
  proof (cases "i < MAX_PAGES")
    case False
    then show ?thesis using 1 by (auto simp: free_run_def)
  next
    case True
    show ?thesis
    proof (cases "check_run s i 0 count")
      case RunFree
      then show ?thesis using 1 True by (auto simp: contiguous_from.simps [of i])
    next
      case RunUsed
      then have "\<not> free_run s i count" using check_run_RunFree [OF True, of s count] by simp
      then show ?thesis using 1 True RunUsed
        by (cases "i = k") (auto simp: contiguous_from.simps [of i])
    next
      case RunEnd
      then show ?thesis using check_run_RunEnd 1 by blast
    qed
  qed
qed

lemma fold_set_used:
  "is_used (fold set_used ps s) q \<longleftrightarrow> q \<in> set ps \<or> is_used s q"
  "FREE_PAGES (fold set_used ps s) = FREE_PAGES s"
  "TOTAL_PAGES (fold set_used ps s) = TOTAL_PAGES s"
  "pmm_state.more (fold set_used ps s) = pmm_state.more s"
  by (induction ps arbitrary: s) auto

lemma free_set_fold_set_used: "free_set (fold set_used ps s) = free_set s - set ps"
  by (auto simp: free_set_def fold_set_used)

lemma alloc_contiguous_SomeD:
  assumes "alloc_contiguous count s = Some (a, s')"
  obtains i where "a = page_addr i" "free_run s i count" "\<And>k. k < i \<Longrightarrow> \<not> free_run s k count"
    "free_set s' = free_set s - {i ..< i + count}" "FREE_PAGES s' = FREE_PAGES s - word_of_nat count"
    "pmm_state.more s' = pmm_state.more s"
proof -
  obtain i where i: "contiguous_from 0 count s = Some i" "a = page_addr i"
    "s' = (fold set_used [i ..< i + count] s)
       \<lparr>FREE_PAGES := FREE_PAGES (fold set_used [i ..< i + count] s) - word_of_nat count\<rparr>"
    using assms by (auto simp: alloc_contiguous_def page_addr_def Let_def split: option.splits)
  then show thesis
    using contiguous_from_Some [OF i(1)]
    by (intro that [of i]) (auto simp: fold_set_used free_set_fold_set_used)
qed

lemma alloc_contiguous_None: "alloc_contiguous count s = None \<Longrightarrow> \<not> free_run s i count"
  using contiguous_from_None [of 0 count s i]
  by (auto simp: alloc_contiguous_def Let_def split: option.splits)

section \<open>The state after initialisation\<close>

definition region_pages :: "mem_region \<Rightarrow> nat list" where
  "region_pages e = [region_first e ..< min (region_last e) MAX_PAGES]"

definition usable_pages :: "mem_region list \<Rightarrow> nat list" where
  "usable_pages memmap = concat (map region_pages (filter region_usable memmap))"

lemma fold_set_free:
  "is_used (fold set_free ps s) q \<longleftrightarrow> q \<notin> set ps \<and> is_used s q"
  "FREE_PAGES (fold set_free ps s) = FREE_PAGES s"
  "pmm_state.more (fold set_free ps s) = pmm_state.more s"
  by (induction ps arbitrary: s) auto

text \<open>The page loop stops at the first page out of range, which in an ascending range is a cut.\<close>

lemma init_pages_upt:
  "init_pages usable [i ..< j] (tot, free, s) =
     (let ps = [i ..< min j MAX_PAGES] in
      (tot + word_of_nat (length ps),
       if usable then free + word_of_nat (length ps) else free,
       if usable then fold set_free ps s else s))"
proof (induction "j - i" arbitrary: i tot free s)
  case 0
  then show ?case by (simp add: Let_def)
next
  case (Suc n)
  then have ij: "i < j" by simp
  show ?case
  proof (cases "MAX_PAGES \<le> i")
    case True
    then show ?thesis using ij by (simp add: upt_conv_Cons Let_def)
  next
    case False
    have n: "n = j - Suc i" using Suc(2) by simp
    have m: "[i ..< min j MAX_PAGES] = i # [Suc i ..< min j MAX_PAGES]"
      using ij False by (simp add: upt_conv_Cons)
    have l: "(1 :: u64) + word_of_nat (min j MAX_PAGES - Suc i) = word_of_nat (min j MAX_PAGES - i)"
      using ij False by (metis (no_types) Suc_diff_Suc min_less_iff_conj not_le of_nat_Suc)
    show ?thesis using ij False Suc(1) [OF n] l
      by (cases usable) (simp_all add: upt_conv_Cons [OF ij] m Let_def add.assoc del: of_nat_diff)
  qed
qed

lemma init_region_eq:
  "init_region e (tot, free, s) =
     (tot + word_of_nat (length (region_pages e)),
      if region_usable e then free + word_of_nat (length (region_pages e)) else free,
      if region_usable e then fold set_free (region_pages e) s else s)"
  by (simp add: init_region_def init_pages_upt region_pages_def Let_def)

lemma init_regions_eq:
  "\<exists>tot'. fold init_region memmap (tot, free, s) =
     (tot', free + word_of_nat (length (usable_pages memmap)), fold set_free (usable_pages memmap) s)"
proof (induction memmap arbitrary: tot free s)
  case Nil
  then show ?case by (simp add: usable_pages_def)
next
  case (Cons e memmap)
  let ?n = "word_of_nat (length (region_pages e)) :: u64"
  show ?case
    using Cons.IH [of "tot + ?n" "free + ?n" "fold set_free (region_pages e) s"]
      Cons.IH [of "tot + ?n" free s]
    by (cases "region_usable e") (simp_all add: init_region_eq usable_pages_def add.assoc)
qed

lemma pmm_init_eq:
  "free_set (pmm_init memmap s) = set (usable_pages memmap)"
  "FREE_PAGES (pmm_init memmap s) = word_of_nat (length (usable_pages memmap))"
  "pmm_state.more (pmm_init memmap s) = pmm_state.more s"
proof -
  let ?s = "s\<lparr>BITMAP := \<lambda>_. - 1\<rparr>"
  obtain t where t: "fold init_region memmap (0, 0, ?s) =
      (t, word_of_nat (length (usable_pages memmap)), fold set_free (usable_pages memmap) ?s)"
    using init_regions_eq [of memmap 0 0 ?s] by auto
  have "is_used ?s q" for q by (simp add: is_used_bit bit_minus_1_iff)
  moreover have "p < MAX_PAGES" if "p \<in> set (usable_pages memmap)" for p
    using that by (auto simp: usable_pages_def region_pages_def)
  ultimately show "free_set (pmm_init memmap s) = set (usable_pages memmap)"
    by (auto simp: pmm_init_def t free_set_def fold_set_free)
  show "FREE_PAGES (pmm_init memmap s) = word_of_nat (length (usable_pages memmap))"
    "pmm_state.more (pmm_init memmap s) = pmm_state.more s"
    by (simp_all add: pmm_init_def t fold_set_free)
qed

lemma usable_page_iff:
  "p \<in> set (usable_pages memmap) \<longleftrightarrow>
     (\<exists>e \<in> set memmap. region_usable e \<and> region_first e \<le> p \<and> p < region_last e \<and> p < MAX_PAGES)"
  by (auto simp: usable_pages_def region_pages_def)

lemma usable_page_above_1mb: "p \<in> set (usable_pages memmap) \<Longrightarrow> 256 \<le> p"
proof -
  assume "p \<in> set (usable_pages memmap)"
  then obtain e where e: "region_usable e" "region_first e \<le> p" by (auto simp: usable_page_iff)
  have "(0x100000 :: nat) \<le> unat (mr_base e)"
    using e(1) by (simp add: region_usable_def word_le_nat_alt)
  then have "256 \<le> region_first e"
    using div_le_mono [of "0x100000" "unat (mr_base e)" 4096]
    by (simp add: region_first_def PAGE_SIZE_def)
  then show "256 \<le> p" using e(2) by simp
qed

section \<open>The allocator over a whole run\<close>

text \<open>
  \<open>pmm_run memmap s owned\<close>: the state after initialisation and any sequence of allocator calls in
  which a page is freed only while a client owns it; \<open>owned\<close> is the set of pages clients hold.
\<close>

inductive pmm_run :: "mem_region list \<Rightarrow> 'a pmm_state_scheme \<Rightarrow> nat set \<Rightarrow> bool" for memmap where
  run_init: "pmm_run memmap (pmm_init memmap s) {}"
| run_alloc: "pmm_run memmap s owned \<Longrightarrow> alloc_page s = Some (a, s') \<Longrightarrow>
    pmm_run memmap s' (insert (unat a div PAGE_SIZE) owned)"
| run_contig: "pmm_run memmap s owned \<Longrightarrow> alloc_contiguous count s = Some (a, s') \<Longrightarrow>
    pmm_run memmap s' (owned \<union> {unat a div PAGE_SIZE ..< unat a div PAGE_SIZE + count})"
| run_free: "pmm_run memmap s owned \<Longrightarrow> unat a div PAGE_SIZE \<in> owned \<Longrightarrow>
    pmm_run memmap (free_page a s) (owned - {unat a div PAGE_SIZE})"

definition pmm_inv :: "mem_region list \<Rightarrow> 'a pmm_state_scheme \<Rightarrow> nat set \<Rightarrow> bool" where
  "pmm_inv memmap s owned \<longleftrightarrow> owned \<inter> free_set s = {} \<and>
     owned \<union> free_set s = set (usable_pages memmap) \<and> unat (FREE_PAGES s) = frames s"

lemma frames_less_2p: "frames s < 2 ^ 64"
  using frames_le [of s] by (simp add: MAX_PAGES_def)

lemma unat_FREE_sub:
  assumes "unat (f :: u64) = card A" "finite A" "B \<subseteq> A" "card B = n"
  shows "unat (f - word_of_nat n) = card (A - B)"
proof -
  have n: "n \<le> unat f" using assms card_mono by metis
  then have "unat (word_of_nat n :: u64) = n"
    using unat_u64_less [of f] by (intro unat_u64_of_nat) (simp del: unat_u64_less)
  then show ?thesis
    using assms n finite_subset [OF assms(3,2)]
    by (simp add: unat_sub word_le_nat_alt card_Diff_subset)
qed

lemma unat_FREE_add:
  assumes "unat (f :: u64) = card A" "finite A" "p \<notin> A" "card (insert p A) < 2 ^ 64"
  shows "unat (f + 1) = card (insert p A)"
proof -
  have "unat f + 1 < 2 ^ 64" using assms by simp
  then show ?thesis using assms by (simp add: unat_word_ariths)
qed

lemma pmm_inv_alloc:
  assumes "pmm_inv memmap s owned" "alloc_page s = Some (a, s')"
  shows "pmm_inv memmap s' (insert (unat a div PAGE_SIZE) owned)"
  using assms(2)
proof (rule alloc_page_SomeD)
  fix p assume p: "p \<in> free_set s" "p < MAX_PAGES" "a = page_addr p"
    "s' = (set_used p s)\<lparr>FREE_PAGES := FREE_PAGES s - 1\<rparr>" "free_set s' = free_set s - {p}"
  have "unat a div PAGE_SIZE = p" using p by (simp add: unat_page_addr PAGE_SIZE_def)
  moreover have "unat (FREE_PAGES s - 1) = card (free_set s - {p})"
    using unat_FREE_sub [of "FREE_PAGES s" "free_set s" "{p}" 1] assms(1) p
    by (simp add: pmm_inv_def frames_def)
  ultimately show ?thesis using assms(1) p by (auto simp: pmm_inv_def frames_def)
qed

lemma pmm_inv_contig:
  assumes "pmm_inv memmap s owned" "alloc_contiguous count s = Some (a, s')"
  shows "pmm_inv memmap s' (owned \<union> {unat a div PAGE_SIZE ..< unat a div PAGE_SIZE + count})"
  using assms(2)
proof (rule alloc_contiguous_SomeD)
  fix i assume i: "a = page_addr i" "free_run s i count"
    "free_set s' = free_set s - {i ..< i + count}" "FREE_PAGES s' = FREE_PAGES s - word_of_nat count"
  have a: "unat a div PAGE_SIZE = i" using i by (simp add: free_run_def unat_page_addr PAGE_SIZE_def)
  have "\<not> is_used s q" if "i \<le> q" "q < i + count" for q
    using i(2) that le_Suc_ex [of i q] by (auto simp: free_run_def)
  then have sub: "{i ..< i + count} \<subseteq> free_set s"
    using i(2) by (auto simp: free_run_def free_set_def)
  then have "unat (FREE_PAGES s') = card (free_set s - {i ..< i + count})"
    unfolding i(4) using assms(1)
    by (intro unat_FREE_sub) (auto simp: pmm_inv_def frames_def)
  then show ?thesis using assms(1) i a sub by (auto simp: pmm_inv_def frames_def)
qed

lemma pmm_inv_free:
  assumes "pmm_inv memmap s owned" "unat a div PAGE_SIZE \<in> owned"
  shows "pmm_inv memmap (free_page a s) (owned - {unat a div PAGE_SIZE})"
proof -
  define p where "p = unat a div PAGE_SIZE"
  have p: "p < MAX_PAGES" "p \<notin> free_set s" "p \<in> set (usable_pages memmap)"
    using assms by (auto simp: pmm_inv_def p_def usable_page_iff)
  then have s': "free_page a s = (set_free p s)\<lparr>FREE_PAGES := FREE_PAGES s + 1\<rparr>"
    by (simp add: free_page_def p_def [symmetric] Let_def)
  have f: "free_set (free_page a s) = insert p (free_set s)"
    using p by (simp add: s' free_set_set_free)
  have "unat (FREE_PAGES s + 1) = card (insert p (free_set s))"
    using assms p frames_less_2p [of "free_page a s"] f
    by (intro unat_FREE_add) (auto simp: pmm_inv_def frames_def)
  then show ?thesis using assms p f by (auto simp: pmm_inv_def frames_def s' p_def [symmetric])
qed

lemma pmm_inv_init:
  assumes "distinct (usable_pages memmap)"
  shows "pmm_inv memmap (pmm_init memmap s) {}"
proof -
  have "length (usable_pages memmap) = frames (pmm_init memmap s)"
    using assms by (simp add: frames_def pmm_init_eq distinct_card)
  then show ?thesis
    using frames_less_2p [of "pmm_init memmap s"]
    by (simp add: pmm_inv_def pmm_init_eq unat_u64_of_nat)
qed

lemma pmm_run_inv:
  assumes "pmm_run memmap s owned" "distinct (usable_pages memmap)"
  shows "pmm_inv memmap s owned"
  using assms
  by (induction rule: pmm_run.induct)
    (simp_all add: pmm_inv_init pmm_inv_alloc pmm_inv_contig pmm_inv_free)

section \<open>Properties\<close>

text \<open>
  C1: \<open>alloc_page\<close> is first-fit and complete: it fails exactly when every tracked page is in use;
  otherwise it returns the address of the lowest free page, marks that page and no other, lowers
  \<open>FREE_PAGES\<close> by one and touches nothing else.
\<close>

theorem alloc_page_first_fit:
  "case alloc_page s of
     None \<Rightarrow> free_set s = {}
   | Some (a, s') \<Rightarrow> (\<exists>p. p \<in> free_set s \<and> free_set s \<subseteq> {p ..} \<and> unat a = p * PAGE_SIZE \<and>
       (\<forall>q. is_used s' q \<longleftrightarrow> q = p \<or> is_used s q) \<and>
       FREE_PAGES s' = FREE_PAGES s - 1 \<and> TOTAL_PAGES s' = TOTAL_PAGES s \<and>
       pmm_state.more s' = pmm_state.more s)"
proof (cases "alloc_page s")
  case None
  then show ?thesis by (simp add: alloc_page_None [symmetric])
next
  case (Some r)
  then obtain a s' where r: "alloc_page s = Some (a, s')" by (cases r) auto
  then obtain p where p: "p = Min (free_set s)" "p \<in> free_set s" "p < MAX_PAGES"
    "a = page_addr p" "s' = (set_used p s)\<lparr>FREE_PAGES := FREE_PAGES s - 1\<rparr>"
    by (rule alloc_page_SomeD)
  have "free_set s \<subseteq> {p ..}" using p(1) by auto
  then show ?thesis using p(2-) r by (auto simp: unat_page_addr intro!: exI [of _ p])
qed

text \<open>
  after \<open>init\<close> a tracked page is free exactly when some usable region of the memory map that
  starts at or above 1 MB covers it; so no page below 1 MB is ever free.
\<close>

lemma pmm_init_free_iff:
  "(p \<in> free_set (pmm_init memmap s) \<longleftrightarrow>
     (\<exists>e \<in> set memmap. mr_typ e = 1 \<and> 0x100000 \<le> mr_base e \<and> p < MAX_PAGES \<and>
        unat (mr_base e) div PAGE_SIZE \<le> p \<and> p < unat (mr_base e + mr_len e) div PAGE_SIZE)) \<and>
   free_set (pmm_init memmap s) \<subseteq> {256 ..}"
  using usable_page_above_1mb
  by (auto simp: pmm_init_eq usable_page_iff region_usable_def region_first_def region_last_def)

text \<open>
  C2: over every run in which clients free only pages they own, and with a memory map whose usable
  regions do not overlap, the pages clients hold and the free pages are disjoint, together they are
  the usable pages of the memory map, all of them above 1 MB, and \<open>free_pages()\<close> is the number of
  free pages.
\<close>

theorem pmm_run_safe:
  assumes "pmm_run memmap s owned" and "distinct (usable_pages memmap)"
  shows "owned \<inter> free_set s = {} \<and> owned \<union> free_set s = set (usable_pages memmap) \<and>
    unat (free_pages s) = card (free_set s) \<and> (\<forall>p \<in> owned. 256 \<le> p)"
  using pmm_run_inv [OF assms] usable_page_above_1mb
  by (auto simp: pmm_inv_def frames_def free_pages_def)

lemma usable_pages_example:
  "usable_pages [\<lparr>mr_base = 0x100000, mr_len = 0x3000, mr_typ = 1\<rparr>] = [256, 257, 258]"
  by (simp add: usable_pages_def region_pages_def region_usable_def region_first_def
      region_last_def PAGE_SIZE_def MAX_PAGES_def upt_rec)

theorem pmm_run_safe_witness:
  "\<exists>s :: pmm_state. let m = [\<lparr>mr_base = 0x100000, mr_len = 0x3000, mr_typ = 1\<rparr>] in
     pmm_run m s {256} \<and> 256 \<notin> free_set s \<and> unat (free_pages s) = 2"
proof -
  define m :: "mem_region list" where "m = [\<lparr>mr_base = 0x100000, mr_len = 0x3000, mr_typ = 1\<rparr>]"
  define s0 :: pmm_state where "s0 = pmm_init m \<lparr>BITMAP = \<lambda>_. 0, TOTAL_PAGES = 0, FREE_PAGES = 0\<rparr>"
  have u: "usable_pages m = [256, 257, 258]" by (simp add: m_def usable_pages_example)
  have f: "free_set s0 = {256, 257, 258}" by (simp add: s0_def pmm_init_eq u)
  obtain s1 where s1: "alloc_page s0 = Some (page_addr 256, s1)" "free_set s1 = {257, 258}"
    by (simp add: alloc_page_eq f Let_def insert_Diff_if)
  have "pmm_run m s1 (insert (unat (page_addr 256) div PAGE_SIZE) {})"
    using s1(1) by (auto simp: s0_def intro: pmm_run.intros)
  then have r: "pmm_run m s1 {256}"
    by (simp add: unat_page_addr MAX_PAGES_def PAGE_SIZE_def)
  then show ?thesis
    using pmm_run_safe [OF r] s1(2) by (auto simp: u m_def [symmetric] intro!: exI [of _ s1])
qed

text \<open>
  \<open>alloc_contiguous\<close> fails only when there is no run of free pages of that length, and
  otherwise returns the first such run, claims exactly its pages and lowers \<open>FREE_PAGES\<close> by its
  length.
\<close>

lemma alloc_contiguous_first_run:
  "case alloc_contiguous count s of
     None \<Rightarrow> \<not> (\<exists>i. free_run s i count)
   | Some (a, s') \<Rightarrow> (\<exists>i. free_run s i count \<and> i = (LEAST k. free_run s k count) \<and>
       unat a = i * PAGE_SIZE \<and> free_set s' = free_set s - {i ..< i + count} \<and>
       FREE_PAGES s' = FREE_PAGES s - word_of_nat count)"
proof (cases "alloc_contiguous count s")
  case None
  then show ?thesis using alloc_contiguous_None by auto
next
  case (Some r)
  then obtain a s' where r: "alloc_contiguous count s = Some (a, s')" by (cases r) auto
  then obtain i where i: "a = page_addr i" "free_run s i count" "\<And>k. k < i \<Longrightarrow> \<not> free_run s k count"
    "free_set s' = free_set s - {i ..< i + count}" "FREE_PAGES s' = FREE_PAGES s - word_of_nat count"
    by (rule alloc_contiguous_SomeD) blast
  moreover have "unat a = i * PAGE_SIZE" using i(1,2) by (simp add: free_run_def unat_page_addr)
  moreover have "i = (LEAST k. free_run s k count)"
    using i(2,3) by (metis LeastI not_less_Least linorder_neqE_nat)
  ultimately show ?thesis unfolding r option.case prod.case by blast
qed

end
