(* ===== verification/Pmm_Concurrent.thy ===== *)
theory Pmm_Concurrent
  imports Pmm
begin

text \<open>
  \<open>alloc_page\<close> of \<open>kernel/src/pmm.rs\<close> under preemption. The timer may switch tasks between any two
  atomic operations of the scan, so a call is cut at its \<open>load\<close>, \<open>fetch_or\<close> and \<open>fetch_sub\<close>:
  \<open>claim_step\<close> is one of them, \<open>interleave\<close> lets any task take the next one. Shown here: the
  atomic-operation model run alone is \<open>Pmm.alloc_page\<close>, and however the tasks interleave no page
  is handed out twice.
\<close>

section \<open>One call, one atomic operation at a time\<close>

datatype claim_pc =
    Scan nat                      \<comment> \<open>about to load bitmap word \<open>i\<close>\<close>
  | Loaded nat nat                \<comment> \<open>word \<open>i\<close> had its lowest clear bit at \<open>bit\<close>\<close>
  | Claimed nat                   \<comment> \<open>the \<open>fetch_or\<close> won; \<open>FREE_PAGES\<close> not lowered yet\<close>
  | Finished "nat option"         \<comment> \<open>returned\<close>

fun claim_step :: "claim_pc \<times> 'a pmm_state_scheme \<Rightarrow> claim_pc \<times> 'a pmm_state_scheme" where
  "claim_step (Scan i, s) =
     (if MAX_PAGES div 64 \<le> i then (Finished None, s)
      else let val = BITMAP s i in
        if val = - 1 then (Scan (Suc i), s)
        else let bt = trailing_ones val in
          if MAX_PAGES \<le> i * 64 + bt then (Finished None, s)
          else (Loaded i bt, s))"
| "claim_step (Loaded i bt, s) =
     (let old = BITMAP s i; s' = s\<lparr>BITMAP := (BITMAP s)(i := old OR push_bit bt 1)\<rparr> in
      if old AND push_bit bt 1 = 0 then (Claimed (i * 64 + bt), s') else (Scan (Suc i), s'))"
| "claim_step (Claimed p, s) = (Finished (Some p), s\<lparr>FREE_PAGES := FREE_PAGES s - 1\<rparr>)"
| "claim_step (Finished r, s) = (Finished r, s)"

section \<open>Any number of tasks\<close>

text \<open>The state of the system: a program counter per task, and the allocator's statics.\<close>

inductive interleave ::
    "(nat \<Rightarrow> claim_pc) \<times> 'a pmm_state_scheme \<Rightarrow> (nat \<Rightarrow> claim_pc) \<times> 'a pmm_state_scheme \<Rightarrow> bool" where
  interleave_init: "interleave (pcs, s) (pcs, s)"
| interleave_step: "interleave (pcs0, s0) (pcs, s) \<Longrightarrow> claim_step (pcs t, s) = (pc', s') \<Longrightarrow>
    interleave (pcs0, s0) (pcs(t := pc'), s')"

text \<open>The page a task has won, if any.\<close>

fun holds_page :: "claim_pc \<Rightarrow> nat option" where
  "holds_page (Claimed p) = Some p"
| "holds_page (Finished r) = r"
| "holds_page _ = None"

fun loaded_ok :: "claim_pc \<Rightarrow> bool" where
  "loaded_ok (Loaded i bt) \<longleftrightarrow> i < MAX_PAGES div 64 \<and> bt < 64"
| "loaded_ok _ \<longleftrightarrow> True"

definition held :: "(nat \<Rightarrow> claim_pc) \<Rightarrow> nat set" where
  "held pcs = {p. \<exists>t. holds_page (pcs t) = Some p}"

section \<open>What one atomic operation does\<close>

lemma fetch_or_is_set_used:
  assumes "bt < 64"
  shows "s\<lparr>BITMAP := (BITMAP s)(i := BITMAP s i OR push_bit bt 1)\<rparr> = set_used (i * 64 + bt) s"
proof -
  have "(i * 64 + bt) div 64 = i" "(i * 64 + bt) mod 64 = bt" using assms by auto
  then show ?thesis by (simp only: set_used_def)
qed

lemma old_bit_clear:
  assumes "bt < 64"
  shows "BITMAP s i AND push_bit bt 1 = 0 \<longleftrightarrow> \<not> is_used s (i * 64 + bt)"
proof -
  have "(i * 64 + bt) div 64 = i" "(i * 64 + bt) mod 64 = bt" using assms by auto
  then show ?thesis by (simp only: is_used_def) blast
qed

text \<open>
  A step either wins a page that was free, and then takes that page only, or leaves the free pages
  and the pages the task holds as they were.
\<close>

lemma claim_step_cases:
  assumes "claim_step (pc, s) = (pc', s')" "loaded_ok pc"
  obtains (win) p where "holds_page pc = None" "holds_page pc' = Some p" "p \<in> free_set s"
      "free_set s' = free_set s - {p}" "loaded_ok pc'"
    | (keep) "holds_page pc' = holds_page pc" "free_set s' = free_set s" "loaded_ok pc'"
proof (cases pc)
  case (Scan i)
  then have "holds_page pc' = None" "s' = s"
    using assms(1) by (auto simp: Let_def split: if_splits)
  moreover have "loaded_ok pc'"
    using assms(1) Scan trailing_ones_least [of "BITMAP s i"]
    by (auto simp: Let_def split: if_splits)
  ultimately show ?thesis using keep Scan by simp
next
  case (Loaded i bt)
  then have bt: "i < MAX_PAGES div 64" "bt < 64" using assms(2) by auto
  then have m: "i * 64 + bt < MAX_PAGES" by (rule MAX_PAGES_words)
  have s': "s' = set_used (i * 64 + bt) s"
    using assms(1) Loaded fetch_or_is_set_used [OF bt(2), of s i]
    by (auto simp: Let_def split: if_splits)
  show ?thesis
  proof (cases "is_used s (i * 64 + bt)")
    case True
    then have "pc' = Scan (Suc i)"
      using assms(1) Loaded old_bit_clear [OF bt(2), of s i] by (simp add: Let_def split: if_splits)
    moreover have "free_set s' = free_set s" using True by (simp add: s') (simp add: free_set_def)
    ultimately show ?thesis using keep Loaded by simp
  next
    case False
    then have "pc' = Claimed (i * 64 + bt)"
      using assms(1) Loaded old_bit_clear [OF bt(2), of s i] by (simp add: Let_def split: if_splits)
    moreover have "i * 64 + bt \<in> free_set s" using False m by (simp add: free_set_def)
    ultimately show ?thesis using win [of "i * 64 + bt"] Loaded by (simp add: s')
  qed
next
  case (Claimed p)
  then show ?thesis using assms(1) keep by auto
next
  case (Finished r)
  then show ?thesis using assms(1) keep by auto
qed

section \<open>The invariant of every interleaving\<close>

definition claims_ok :: "nat set \<Rightarrow> (nat \<Rightarrow> claim_pc) \<Rightarrow> 'a pmm_state_scheme \<Rightarrow> bool" where
  "claims_ok F pcs s \<longleftrightarrow> (\<forall>t. loaded_ok (pcs t)) \<and>
     (\<forall>t u p. holds_page (pcs t) = Some p \<and> holds_page (pcs u) = Some p \<longrightarrow> t = u) \<and>
     held pcs \<inter> free_set s = {} \<and> held pcs \<union> free_set s = F"

lemma claims_ok_step:
  assumes inv: "claims_ok F pcs s" and step: "claim_step (pcs t, s) = (pc', s')"
  shows "claims_ok F (pcs(t := pc')) s'"
  using step
proof (rule claim_step_cases)
  show "loaded_ok (pcs t)" using inv by (simp add: claims_ok_def)
next
  fix p assume p: "holds_page (pcs t) = None" "holds_page pc' = Some p" "p \<in> free_set s"
    "free_set s' = free_set s - {p}" "loaded_ok pc'"
  have "held (pcs(t := pc')) = insert p (held pcs)"
    using p(1,2) unfolding held_def by (auto split: if_splits) (metis option.distinct(1))
  moreover have "holds_page (pcs u) \<noteq> Some p" for u
    using inv p(3) by (auto simp: claims_ok_def held_def)
  ultimately show ?thesis using inv p by (auto simp: claims_ok_def)
next
  assume k: "holds_page pc' = holds_page (pcs t)" "free_set s' = free_set s" "loaded_ok pc'"
  then have h: "holds_page ((pcs(t := pc')) u) = holds_page (pcs u)" for u by simp
  then have "held (pcs(t := pc')) = held pcs" by (simp only: held_def)
  then show ?thesis using inv k h unfolding claims_ok_def by (metis fun_upd_apply)
qed

lemma interleave_claims_ok:
  "interleave c d \<Longrightarrow> c = ((\<lambda>_. Scan 0), s0) \<Longrightarrow> claims_ok (free_set s0) (fst d) (snd d)"
proof (induction rule: interleave.induct)
  case (interleave_init pcs s)
  then show ?case by (auto simp: claims_ok_def held_def)
next
  case (interleave_step pcs0 s1 pcs s t pc' s')
  then have "claims_ok (free_set s0) pcs s" by simp
  then show ?case using claims_ok_step interleave_step by (metis fst_conv snd_conv prod.inject)
qed

section \<open>A call that is not interrupted\<close>

lemma claim_run_alloc_from:
  "\<exists>n. (claim_step ^^ n) (Scan i, s) =
     (case alloc_from i s of
        None \<Rightarrow> (Finished None, s)
      | Some (a, s') \<Rightarrow> (Finished (Some (unat a div PAGE_SIZE)), s'))"
proof (induction "MAX_PAGES div 64 - i" arbitrary: i)
  case 0
  then have "alloc_from i s = None" by (subst alloc_from.simps) simp
  then show ?case using 0 by (intro exI [of _ 1]) simp
next
  case (Suc n)
  then have i: "i < MAX_PAGES div 64" by simp
  show ?case
  proof (cases "BITMAP s i = - 1")
    case True
    have "claim_step (Scan i, s) = (Scan (Suc i), s)" using i True by simp
    moreover obtain m where "(claim_step ^^ m) (Scan (Suc i), s) =
      (case alloc_from (Suc i) s of None \<Rightarrow> (Finished None, s)
       | Some (a, s') \<Rightarrow> (Finished (Some (unat a div PAGE_SIZE)), s'))"
      using Suc by (metis Suc_diff_Suc diff_Suc_1' i)
    ultimately show ?thesis using alloc_from_full [OF i True]
      by (intro exI [of _ "Suc m"]) (simp add: funpow_Suc_right del: funpow.simps)
  next
    case False
    define p where "p = i * 64 + trailing_ones (BITMAP s i)"
    note hit = alloc_from_hit [OF i False p_def]
    have t: "trailing_ones (BITMAP s i) < 64" using trailing_ones_least [OF False] by simp
    have "(claim_step ^^ 3) (Scan i, s) = (Finished (Some p), (set_used p s)\<lparr>FREE_PAGES := FREE_PAGES s - 1\<rparr>)"
      using i False hit(2,3) old_bit_clear [OF t, of s i] fetch_or_is_set_used [OF t, of s i]
      by (simp add: numeral_3_eq_3 p_def [symmetric] Let_def)
    then show ?thesis using hit
      by (intro exI [of _ 3]) (simp add: unat_page_addr PAGE_SIZE_def)
  qed
qed

section \<open>Properties\<close>

text \<open>
  an \<open>alloc_page\<close> call that is not interrupted takes finitely many atomic operations and does
  what the sequential \<open>alloc_page\<close> does: the interleaved model refines the sequential one.
\<close>

lemma claim_run_alloc_page:
  "\<exists>n. (claim_step ^^ n) (Scan 0, s) =
     (case alloc_page s of
        None \<Rightarrow> (Finished None, s)
      | Some (a, s') \<Rightarrow> (Finished (Some (unat a div PAGE_SIZE)), s'))"
  unfolding alloc_page_def by (rule claim_run_alloc_from)

text \<open>
  C3: however the \<open>alloc_page\<close> calls of any number of tasks interleave, no page is won by two of
  them, every page won was free at the start, and every other free page is still free.
\<close>

theorem interleaved_alloc_exclusive:
  assumes "interleave ((\<lambda>_. Scan 0), s0) (pcs, s)"
  shows "(\<forall>t u p. holds_page (pcs t) = Some p \<and> holds_page (pcs u) = Some p \<longrightarrow> t = u) \<and>
    held pcs \<subseteq> free_set s0 \<and> free_set s = free_set s0 - held pcs"
  using interleave_claims_ok [OF assms refl] by (auto simp: claims_ok_def)

text \<open>Two tasks that load the same word before either claims: the first wins page 0.\<close>

theorem interleaved_alloc_exclusive_witness:
  "\<exists>pcs s. interleave ((\<lambda>_. Scan 0), \<lparr>BITMAP = \<lambda>_. 0, TOTAL_PAGES = 1, FREE_PAGES = 1\<rparr>) (pcs, s) \<and>
     pcs 0 = Claimed 0 \<and> pcs 1 = Scan 1 \<and> 0 \<notin> free_set s"
proof -
  define s0 :: pmm_state where "s0 = \<lparr>BITMAP = \<lambda>_. 0, TOTAL_PAGES = 1, FREE_PAGES = 1\<rparr>"
  define s1 where "s1 = s0\<lparr>BITMAP := (\<lambda>_. 0)(0 := 1)\<rparr>"
  have t0: "trailing_ones 0 = 0" by (simp add: trailing_ones_def upt_rec)
  have l: "claim_step (Scan 0, s0) = (Loaded 0 0, s0)"
    by (simp add: s0_def t0 MAX_PAGES_def)
  have w: "claim_step (Loaded 0 0, s0) = (Claimed 0, s1)"
    and f: "claim_step (Loaded 0 0, s1) = (Scan 1, s1)" by (simp_all add: s0_def s1_def fun_eq_iff)
  let ?p0 = "\<lambda>_ :: nat. Scan 0"
  let ?p1 = "?p0(0 := Loaded 0 0)" and ?p2 = "?p0(0 := Loaded 0 0, 1 := Loaded 0 0)"
  have "interleave (?p0, s0) (?p1, s0)" by (rule interleave_step [OF interleave_init]) (simp add: l del: claim_step.simps)
  then have "interleave (?p0, s0) (?p2, s0)" by (rule interleave_step) (simp add: l del: claim_step.simps)
  then have "interleave (?p0, s0) (?p2(0 := Claimed 0), s1)" by (rule interleave_step) (simp add: w del: claim_step.simps)
  then have i: "interleave (?p0, s0) (?p2(0 := Claimed 0, 1 := Scan 1), s1)"
    by (rule interleave_step) (simp add: f del: claim_step.simps)
  have "0 \<in> held (?p2(0 := Claimed 0, 1 := Scan 1))" by (auto simp: held_def intro!: exI [of _ 0])
  then have "0 \<notin> free_set s1" using interleaved_alloc_exclusive [OF i] by auto
  then show ?thesis using i unfolding s0_def by fastforce
qed

end
