(* ===== verification/Memory.thy ===== *)
theory Memory
  imports Pmm
begin

text \<open>
  Kernel memory as the kernel reads and writes it: \<open>kernel/src/vmm.rs\<close> (the higher-half direct
  map) and the raw pointer accesses \<open>ptr::read\<close>, \<open>ptr::write\<close>, \<open>write_bytes\<close> and
  \<open>copy_nonoverlapping\<close> that \<open>heap.rs\<close>, \<open>paging.rs\<close>, \<open>elf.rs\<close> and \<open>process.rs\<close> make through it.

  \<open>MEM\<close> is indexed by the kernel pointer. The boot loader maps physical 0 to 4 GB at
  \<open>HHDM_OFFSET\<close>, which \<open>hhdm_ok\<close> states: the window is page-aligned and does not wrap. \<open>CR3\<close> and
  the translations the processor may have cached (\<open>TLB\<close>) are hardware state.
\<close>

record kmem_state = pmm_state +
  HHDM_OFFSET :: u64
  MEM :: buffer
  CR3 :: u64
  TLB :: "u64 set"

definition vmm_init :: "u64 \<Rightarrow> 'a kmem_state_scheme \<Rightarrow> 'a kmem_state_scheme" where
  "vmm_init hhdm s = s\<lparr>HHDM_OFFSET := hhdm\<rparr>"

definition phys_to_virt :: "'a kmem_state_scheme \<Rightarrow> u64 \<Rightarrow> u64" where
  "phys_to_virt s phys = HHDM_OFFSET s + phys"

definition hhdm_offset :: "'a kmem_state_scheme \<Rightarrow> u64" where
  "hhdm_offset s = HHDM_OFFSET s"

section \<open>Raw accesses\<close>

definition read_u64 :: "'a kmem_state_scheme \<Rightarrow> u64 \<Rightarrow> u64" where
  "read_u64 s ptr = u64_from_le_bytes (get_bytes (MEM s) (unat ptr) 8)"

definition write_u64 :: "u64 \<Rightarrow> u64 \<Rightarrow> 'a kmem_state_scheme \<Rightarrow> 'a kmem_state_scheme" where
  "write_u64 ptr v s = s\<lparr>MEM := put_bytes (MEM s) (unat ptr) (u64_to_le_bytes v)\<rparr>"

definition write_bytes :: "u64 \<Rightarrow> u8 \<Rightarrow> nat \<Rightarrow> 'a kmem_state_scheme \<Rightarrow> 'a kmem_state_scheme" where
  "write_bytes ptr v n s =
     s\<lparr>MEM := \<lambda>a. if unat ptr \<le> a \<and> a < unat ptr + n then v else MEM s a\<rparr>"

definition copy_to :: "u64 \<Rightarrow> u8 list \<Rightarrow> 'a kmem_state_scheme \<Rightarrow> 'a kmem_state_scheme" where
  "copy_to ptr bs s = s\<lparr>MEM := put_bytes (MEM s) (unat ptr) bs\<rparr>"

lemma read_write_u64_same [simp]: "read_u64 (write_u64 p v s) p = v"
  by (simp add: read_u64_def write_u64_def)

lemma read_write_u64_other:
  "unat q + 8 \<le> unat p \<or> unat p + 8 \<le> unat q \<Longrightarrow> read_u64 (write_u64 p v s) q = read_u64 s q"
  by (simp add: read_u64_def write_u64_def get_put_bytes_other)

lemma read_u64_cong:
  "(\<And>i. unat p \<le> i \<Longrightarrow> i < unat p + 8 \<Longrightarrow> MEM s i = MEM s' i) \<Longrightarrow> read_u64 s p = read_u64 s' p"
  unfolding read_u64_def by (metis get_bytes_cong)

lemma memory_fields [simp]:
  "HHDM_OFFSET (write_u64 p v s) = HHDM_OFFSET s" "CR3 (write_u64 p v s) = CR3 s"
  "TLB (write_u64 p v s) = TLB s" "free_set (write_u64 p v s) = free_set s"
  "FREE_PAGES (write_u64 p v s) = FREE_PAGES s" "is_used (write_u64 p v s) = is_used s"
  "kmem_state.more (write_u64 p v s) = kmem_state.more s"
  "HHDM_OFFSET (write_bytes p b n s) = HHDM_OFFSET s" "CR3 (write_bytes p b n s) = CR3 s"
  "TLB (write_bytes p b n s) = TLB s" "free_set (write_bytes p b n s) = free_set s"
  "FREE_PAGES (write_bytes p b n s) = FREE_PAGES s" "is_used (write_bytes p b n s) = is_used s"
  "kmem_state.more (write_bytes p b n s) = kmem_state.more s"
  "HHDM_OFFSET (copy_to p bs s) = HHDM_OFFSET s" "CR3 (copy_to p bs s) = CR3 s"
  "TLB (copy_to p bs s) = TLB s" "free_set (copy_to p bs s) = free_set s"
  "FREE_PAGES (copy_to p bs s) = FREE_PAGES s" "is_used (copy_to p bs s) = is_used s"
  "kmem_state.more (copy_to p bs s) = kmem_state.more s"
  by (simp_all add: write_u64_def write_bytes_def copy_to_def free_set_def is_used_def fun_eq_iff)

text \<open>Allocation leaves memory and the rest of the machine alone.\<close>

lemma set_used_kmem [simp]:
  "HHDM_OFFSET (set_used p s) = HHDM_OFFSET s" "MEM (set_used p s) = MEM s"
  "CR3 (set_used p s) = CR3 s" "TLB (set_used p s) = TLB s"
  "kmem_state.more (set_used p s) = kmem_state.more s"
  by (simp_all add: set_used_def)

lemma alloc_page_kmem:
  assumes "alloc_page s = Some (a, s')"
  shows "HHDM_OFFSET s' = HHDM_OFFSET s" "MEM s' = MEM s" "CR3 s' = CR3 s" "TLB s' = TLB s"
    "kmem_state.more s' = kmem_state.more s"
proof -
  obtain p where "s' = (set_used p s)\<lparr>FREE_PAGES := FREE_PAGES s - 1\<rparr>"
    using assms by (rule alloc_page_SomeD)
  then show "HHDM_OFFSET s' = HHDM_OFFSET s" "MEM s' = MEM s" "CR3 s' = CR3 s" "TLB s' = TLB s"
    "kmem_state.more s' = kmem_state.more s" by simp_all
qed

lemma alloc_contiguous_kmem:
  assumes "alloc_contiguous n s = Some (a, s')"
  shows "HHDM_OFFSET s' = HHDM_OFFSET s" "MEM s' = MEM s" "CR3 s' = CR3 s" "TLB s' = TLB s"
    "kmem_state.more s' = kmem_state.more s"
proof -
  have "HHDM_OFFSET (fold set_used ps s) = HHDM_OFFSET s \<and> MEM (fold set_used ps s) = MEM s \<and>
      CR3 (fold set_used ps s) = CR3 s \<and> TLB (fold set_used ps s) = TLB s \<and>
      kmem_state.more (fold set_used ps s) = kmem_state.more s" for ps
    by (induction ps arbitrary: s) simp_all
  then show "HHDM_OFFSET s' = HHDM_OFFSET s" "MEM s' = MEM s" "CR3 s' = CR3 s" "TLB s' = TLB s"
    "kmem_state.more s' = kmem_state.more s"
    using assms by (auto simp: alloc_contiguous_def Let_def split: option.splits)
qed

section \<open>The direct map\<close>

definition hhdm_ok :: "'a kmem_state_scheme \<Rightarrow> bool" where
  "hhdm_ok s \<longleftrightarrow> unat (HHDM_OFFSET s) mod PAGE_SIZE = 0 \<and>
     0 < unat (HHDM_OFFSET s) \<and> unat (HHDM_OFFSET s) + 2 ^ 32 \<le> 2 ^ 64"

abbreviation page_base :: "'a kmem_state_scheme \<Rightarrow> nat \<Rightarrow> nat" where
  "page_base s p \<equiv> unat (HHDM_OFFSET s) + p * PAGE_SIZE"

lemma hhdm_ok_cong: "HHDM_OFFSET s' = HHDM_OFFSET s \<Longrightarrow> hhdm_ok s' = hhdm_ok s"
  by (simp add: hhdm_ok_def)

lemma unat_add_u64: "unat (a :: u64) + unat b < 2 ^ 64 \<Longrightarrow> unat (a + b) = unat a + unat b"
  by (simp add: unat_word_ariths)

lemma unat_phys_to_virt:
  assumes "hhdm_ok s" "unat phys < 2 ^ 32"
  shows "unat (phys_to_virt s phys) = unat (HHDM_OFFSET s) + unat phys"
  using assms by (simp add: phys_to_virt_def hhdm_ok_def unat_add_u64)

lemma unat_phys_to_virt_page:
  assumes "hhdm_ok s" "p < MAX_PAGES"
  shows "unat (phys_to_virt s (page_addr p)) = page_base s p"
  using assms by (simp add: unat_phys_to_virt unat_page_addr MAX_PAGES_def PAGE_SIZE_def)

text \<open>A write into one page leaves the bytes of every other page alone.\<close>

lemma page_offset_inj:
  fixes p q j k :: nat
  assumes "p * PAGE_SIZE + j = q * PAGE_SIZE + k" "j < PAGE_SIZE" "k < PAGE_SIZE"
  shows "p = q" "j = k"
proof -
  have "(p * PAGE_SIZE + j) div PAGE_SIZE = p" "(q * PAGE_SIZE + k) div PAGE_SIZE = q"
    using assms(2,3) by simp_all
  then show "p = q" using assms(1) by simp
  then show "j = k" using assms(1) by simp
qed

lemma outside_page:
  fixes H a p q k n j :: nat
  assumes "a = H + q * PAGE_SIZE + k" "k + n \<le> PAGE_SIZE" "p \<noteq> q" "j < PAGE_SIZE"
  shows "\<not> (a \<le> H + p * PAGE_SIZE + j \<and> H + p * PAGE_SIZE + j < a + n)"
proof
  assume "a \<le> H + p * PAGE_SIZE + j \<and> H + p * PAGE_SIZE + j < a + n"
  then obtain d where "H + p * PAGE_SIZE + j = a + d" "d < n"
    by (metis add_less_cancel_left le_Suc_ex)
  then have "p * PAGE_SIZE + j = q * PAGE_SIZE + (k + d)" "k + d < PAGE_SIZE"
    using assms(1,2) by simp_all
  then show False using page_offset_inj(1) assms(3,4) by blast
qed

lemma write_bytes_other_page:
  assumes "unat ptr = page_base s q + k" "k + n \<le> PAGE_SIZE" "p \<noteq> q" "j < PAGE_SIZE"
  shows "MEM (write_bytes ptr v n s) (page_base s p + j) = MEM s (page_base s p + j)"
  using outside_page [OF assms] by (auto simp: write_bytes_def)

lemma copy_to_other_page:
  assumes "unat ptr = page_base s q + k" "k + length bs \<le> PAGE_SIZE" "p \<noteq> q" "j < PAGE_SIZE"
  shows "MEM (copy_to ptr bs s) (page_base s p + j) = MEM s (page_base s p + j)"
  using outside_page [OF assms] by (auto simp: copy_to_def put_bytes_def)

lemma write_u64_copy: "write_u64 ptr v s = copy_to ptr (u64_to_le_bytes v) s"
  by (simp add: write_u64_def copy_to_def)

lemma write_u64_other_page:
  assumes "unat ptr = page_base s q + k" "k + 8 \<le> PAGE_SIZE" "p \<noteq> q" "j < PAGE_SIZE"
  shows "MEM (write_u64 ptr v s) (page_base s p + j) = MEM s (page_base s p + j)"
  unfolding write_u64_copy using assms by (intro copy_to_other_page) simp_all

text \<open>A bitmap with the first two pages in use, for examples.\<close>

lemma bit_3: "bit (3 :: u64) p \<longleftrightarrow> p < 2"
proof -
  have "(3 :: u64) = mask 2" by (simp add: mask_eq_exp_minus_1)
  then have "bit (3 :: u64) p = bit (mask 2 :: u64) p" by (rule arg_cong)
  then show ?thesis unfolding bit_mask_iff by auto
qed

lemma two_pages_is_used:
  assumes B: "BITMAP s = (\<lambda>_. 0)(0 := 3)"
  shows "is_used s p \<longleftrightarrow> p < 2"
proof (cases "p < 64")
  case True
  then have "p div 64 = 0" "p mod 64 = p" by auto
  then show ?thesis by (simp only: is_used_bit B fun_upd_same bit_3)
next
  case False
  then have "p div 64 \<noteq> 0" by auto
  then show ?thesis using False by (simp add: is_used_bit B)
qed

lemma two_pages_used: "BITMAP s = (\<lambda>_. 0)(0 := 3) \<Longrightarrow> free_set s = {2 ..< MAX_PAGES}"
  unfolding free_set_def by (simp add: two_pages_is_used not_less set_eq_iff conj_commute)

end
