(* ===== verification/Paging.thy ===== *)
theory Paging
  imports Memory
begin

text \<open>
  The four-level page tables, \<open>kernel/src/paging.rs\<close>.

  The mapping functions are translated over the byte-addressed kernel memory of \<open>Memory\<close>. The
  processor's page walk (\<open>walk\<close>) is the specification they are proved against: \<open>map_page_into\<close>,
  \<open>map_page\<close> and \<open>map_page_current_user\<close> make exactly the requested page translate to the requested
  frame, and change no other translation that does not go through the same last-level entry. The
  well-formedness \<open>pt_wf\<close> gives every table frame a level; it allows the sharing the kernel uses (the
  boot loader's identity map and direct map share their tables, a process shares the kernel half).
\<close>

section \<open>The operations\<close>

definition PRESENT :: u64 where "PRESENT = push_bit 0 1"
definition WRITE :: u64 where "WRITE = push_bit 1 1"
definition USER :: u64 where "USER = push_bit 2 1"
definition NOCACHE :: u64 where "NOCACHE = push_bit 4 1"

definition cr3_phys :: "'a kmem_state_scheme \<Rightarrow> u64" where
  "cr3_phys s = CR3 s AND NOT 0xFFF"

definition invlpg :: "u64 \<Rightarrow> 'a kmem_state_scheme \<Rightarrow> 'a kmem_state_scheme" where
  "invlpg virt s = s\<lparr>TLB := TLB s - {virt AND NOT 0xFFF}\<rparr>"

definition entry_ptr :: "'a kmem_state_scheme \<Rightarrow> u64 \<Rightarrow> nat \<Rightarrow> u64" where
  "entry_ptr s table_phys idx = phys_to_virt s table_phys + 8 * word_of_nat idx"

definition get_or_make :: "u64 \<Rightarrow> nat \<Rightarrow> 'a kmem_state_scheme \<Rightarrow> panic + (u64 \<times> 'a kmem_state_scheme)" where
  "get_or_make table_phys idx s =
     (let ptr = entry_ptr s table_phys idx; e = read_u64 s ptr in
      if e AND PRESENT \<noteq> 0 then Inr (e AND 0x000FFFFFFFFFF000, s)
      else case alloc_page s of
          None \<Rightarrow> Inl (Panic ''paging: OOM'')
        | Some (p, s1) \<Rightarrow>
            let s2 = write_bytes (phys_to_virt s1 p) 0 4096 s1
            in Inr (p, write_u64 ptr (p OR PRESENT OR WRITE) s2))"

definition get_or_make_user ::
    "u64 \<Rightarrow> nat \<Rightarrow> 'a kmem_state_scheme \<Rightarrow> panic + (u64 \<times> 'a kmem_state_scheme)" where
  "get_or_make_user table_phys idx s =
     (let ptr = entry_ptr s table_phys idx; e = read_u64 s ptr in
      if e AND PRESENT \<noteq> 0 then Inr (e AND 0x000FFFFFFFFFF000, s)
      else case alloc_page s of
          None \<Rightarrow> Inl (Panic ''paging: OOM'')
        | Some (p, s1) \<Rightarrow>
            let s2 = write_bytes (phys_to_virt s1 p) 0 4096 s1
            in Inr (p, write_u64 ptr (p OR PRESENT OR WRITE OR USER) s2))"

text \<open>The index of \<open>virt\<close> in a table of level \<open>l\<close> (4 is the PML4): \<open>(virt >> (12 + 9 * (l-1))) & 0x1FF\<close>.\<close>

definition table_index :: "nat \<Rightarrow> u64 \<Rightarrow> nat" where
  "table_index l virt = unat (drop_bit (12 + 9 * (l - 1)) virt AND 0x1FF)"

definition map_page :: "u64 \<Rightarrow> u64 \<Rightarrow> u64 \<Rightarrow> 'a kmem_state_scheme \<Rightarrow> panic + (unit \<times> 'a kmem_state_scheme)" where
  "map_page virt phys flags s =
     (let i4 = table_index 4 virt; i3 = table_index 3 virt;
          i2 = table_index 2 virt; i1 = table_index 1 virt in
      rbind (get_or_make (cr3_phys s) i4 s) (\<lambda>(p3, s).
      rbind (get_or_make p3 i3 s) (\<lambda>(p2, s).
      rbind (get_or_make p2 i2 s) (\<lambda>(p1, s).
        let pt = entry_ptr s p1 i1
        in Inr ((), invlpg virt (write_u64 pt (phys OR flags OR PRESENT OR WRITE) s))))))"

definition map_page_current_user ::
    "u64 \<Rightarrow> u64 \<Rightarrow> u64 \<Rightarrow> 'a kmem_state_scheme \<Rightarrow> panic + (unit \<times> 'a kmem_state_scheme)" where
  "map_page_current_user virt phys flags s =
     (let i4 = table_index 4 virt; i3 = table_index 3 virt;
          i2 = table_index 2 virt; i1 = table_index 1 virt in
      rbind (get_or_make_user (cr3_phys s) i4 s) (\<lambda>(p3, s).
      rbind (get_or_make_user p3 i3 s) (\<lambda>(p2, s).
      rbind (get_or_make_user p2 i2 s) (\<lambda>(p1, s).
        let pt = entry_ptr s p1 i1
        in Inr ((), invlpg virt (write_u64 pt (phys OR flags OR PRESENT OR USER) s))))))"

definition map_page_into ::
    "u64 \<Rightarrow> u64 \<Rightarrow> u64 \<Rightarrow> u64 \<Rightarrow> 'a kmem_state_scheme \<Rightarrow> panic + (unit \<times> 'a kmem_state_scheme)" where
  "map_page_into pml4_phys virt phys flags s =
     (let i4 = table_index 4 virt; i3 = table_index 3 virt;
          i2 = table_index 2 virt; i1 = table_index 1 virt in
      rbind (get_or_make_user pml4_phys i4 s) (\<lambda>(p3, s).
      rbind (get_or_make_user p3 i3 s) (\<lambda>(p2, s).
      rbind (get_or_make_user p2 i2 s) (\<lambda>(p1, s).
        let pt = entry_ptr s p1 i1
        in Inr ((), write_u64 pt (phys OR flags OR PRESENT) s)))))"

text \<open>\<open>map_mmio\<close>: its loop runs over \<open>0..pages\<close>.\<close>

fun map_mmio_pages :: "u64 \<Rightarrow> nat list \<Rightarrow> 'a kmem_state_scheme \<Rightarrow> panic + (unit \<times> 'a kmem_state_scheme)" where
  "map_mmio_pages phys [] s = Inr ((), s)"
| "map_mmio_pages phys (i # is) s =
     rbind (map_page (hhdm_offset s + phys + word_of_nat i * 4096) (phys + word_of_nat i * 4096) NOCACHE s)
       (\<lambda>(_, s). map_mmio_pages phys is s)"

definition map_mmio :: "u64 \<Rightarrow> u64 \<Rightarrow> 'a kmem_state_scheme \<Rightarrow> panic + (u64 \<times> 'a kmem_state_scheme)" where
  "map_mmio phys len s =
     (let hhdm = hhdm_offset s; pages = unat ((len + 4095) div 4096) in
      rbind (map_mmio_pages phys [0 ..< pages] s) (\<lambda>(_, s). Inr (hhdm + phys, s)))"

section \<open>The processor's page walk\<close>

text \<open>
  The tables as a function of frame number and index. \<open>follow\<close> goes down a path of indices as long
  as the entries are present; \<open>walk\<close> is the walk from a PML4 to the last-level entry of an address.
\<close>

type_synonym tables = "nat \<Rightarrow> nat \<Rightarrow> u64"

definition pte :: "'a kmem_state_scheme \<Rightarrow> tables" where
  "pte s t i = u64_from_le_bytes (get_bytes (MEM s) (page_base s t + 8 * i) 8)"

definition present :: "u64 \<Rightarrow> bool" where
  "present e \<longleftrightarrow> e AND PRESENT \<noteq> 0"

definition entry_page :: "u64 \<Rightarrow> nat" where
  "entry_page e = unat (e AND 0x000FFFFFFFFFF000) div PAGE_SIZE"

fun follow :: "tables \<Rightarrow> nat \<Rightarrow> nat list \<Rightarrow> nat option" where
  "follow f t [] = Some t"
| "follow f t (i # is) = (if present (f t i) then follow f (entry_page (f t i)) is else None)"

definition upper_path :: "u64 \<Rightarrow> nat list" where
  "upper_path virt = [table_index 4 virt, table_index 3 virt, table_index 2 virt]"

definition leaf_slot :: "tables \<Rightarrow> nat \<Rightarrow> u64 \<Rightarrow> (nat \<times> nat) option" where
  "leaf_slot f root virt = map_option (\<lambda>t. (t, table_index 1 virt)) (follow f root (upper_path virt))"

definition walk :: "tables \<Rightarrow> nat \<Rightarrow> u64 \<Rightarrow> u64 option" where
  "walk f root virt =
     (case leaf_slot f root virt of
        None \<Rightarrow> None
      | Some (t, i) \<Rightarrow> if present (f t i) then Some (f t i) else None)"

section \<open>Levelled tables\<close>

text \<open>\<open>lv t\<close> is the level of the table in frame \<open>t\<close>, 0 for a frame that holds no table.\<close>

definition levelled :: "tables \<Rightarrow> (nat \<Rightarrow> nat) \<Rightarrow> bool" where
  "levelled f lv \<longleftrightarrow>
     (\<forall>t i. 1 < lv t \<and> i < 512 \<and> present (f t i) \<longrightarrow> lv (entry_page (f t i)) = lv t - 1)"

definition pt_wf :: "'a kmem_state_scheme \<Rightarrow> (nat \<Rightarrow> nat) \<Rightarrow> bool" where
  "pt_wf s lv \<longleftrightarrow> hhdm_ok s \<and> levelled (pte s) lv \<and>
     (\<forall>t. 0 < lv t \<longrightarrow> t < 2 ^ 20 \<and> t \<notin> free_set s)"

lemma table_index_less [simp]: "table_index l virt < 512"
proof -
  have "drop_bit (12 + 9 * (l - 1)) virt AND (0x1FF :: u64) \<le> 0x1FF"
    by (metis and.commute word_and_le1)
  then show ?thesis by (simp add: table_index_def word_le_nat_alt)
qed

definition path_ok :: "nat list \<Rightarrow> bool" where
  "path_ok is \<longleftrightarrow> length is \<le> 3 \<and> (\<forall>i \<in> set is. i < 512)"

lemma path_ok_upper [simp]: "path_ok (upper_path virt)"
  by (simp add: path_ok_def upper_path_def)

lemma path_ok_snoc: "path_ok (is @ [j]) \<Longrightarrow> path_ok is \<and> j < 512 \<and> length is < 3"
  by (simp add: path_ok_def)

lemma levelled_entry:
  "levelled f lv \<Longrightarrow> lv t = Suc (Suc n) \<Longrightarrow> i < 512 \<Longrightarrow> present (f t i) \<Longrightarrow>
    lv (entry_page (f t i)) = Suc n"
  by (simp add: levelled_def)

lemma follow_snoc:
  "follow f t (is @ [j]) =
     (case follow f t is of None \<Rightarrow> None
      | Some u \<Rightarrow> if present (f u j) then Some (entry_page (f u j)) else None)"
  by (induction "is" arbitrary: t) (auto split: option.splits)

lemma follow_level:
  "levelled f lv \<Longrightarrow> lv r = 4 \<Longrightarrow> path_ok is \<Longrightarrow> follow f r is = Some u \<Longrightarrow> lv u = 4 - length is"
proof (induction "is" arbitrary: u rule: rev_induct)
  case Nil
  then show ?case by simp
next
  case (snoc j "is")
  note p = path_ok_snoc [OF snoc.prems(3)]
  obtain t where t: "follow f r is = Some t" "present (f t j)" "u = entry_page (f t j)"
    using snoc.prems(4) by (auto simp: follow_snoc split: option.splits if_splits)
  have "lv t = 4 - length is" using snoc.IH snoc.prems(1,2) p t(1) by simp
  then have "lv t = Suc (Suc (2 - length is))" using p by linarith
  then have "lv u = Suc (2 - length is)" using levelled_entry snoc.prems(1) p t by blast
  then have "lv u = 3 - length is" using p by linarith
  then show ?case by simp
qed

text \<open>A write to a last-level table does not change where any path leads.\<close>

lemma follow_leaf_update:
  assumes "levelled f lv" "lv u = 1" "lv r = 4" "path_ok is"
    and f': "\<And>t' i'. i' < 512 \<Longrightarrow> (t', i') \<noteq> (u, i) \<Longrightarrow> f' t' i' = f t' i'"
  shows "follow f' r is = follow f r is"
  using assms(4)
proof (induction "is" rule: rev_induct)
  case Nil
  then show ?case by simp
next
  case (snoc j "is")
  note p = path_ok_snoc [OF snoc.prems]
  have "f' t j = f t j" if "follow f r is = Some t" for t
    using follow_level [OF assms(1,3) _ that] p assms(2) by (intro f') auto
  then show ?case using snoc.IH p by (auto simp: follow_snoc split: option.splits)
qed

text \<open>
  Linking a fresh table, empty, into an entry that was not present changes no translation.
\<close>

definition table_linked :: "tables \<Rightarrow> tables \<Rightarrow> nat \<Rightarrow> nat \<Rightarrow> nat \<Rightarrow> bool" where
  "table_linked f f' t i q \<longleftrightarrow>
     present (f' t i) \<and> entry_page (f' t i) = q \<and> q \<noteq> t \<and> (\<forall>i' < 512. f' q i' = 0) \<and>
     (\<forall>t' i'. i' < 512 \<and> t' \<noteq> q \<and> (t', i') \<noteq> (t, i) \<longrightarrow> f' t' i' = f t' i')"

lemma not_present_0 [simp]: "\<not> present 0"
  by (simp add: present_def)

lemma follow_linked:
  assumes "levelled f lv" "table_linked f f' t i q" "\<not> present (f t i)" "lv q = 0" "lv r = 4"
    "path_ok is"
  shows "follow f' r is = (if \<exists>js. is = js @ [i] \<and> follow f r js = Some t then Some q else follow f r is)"
  using assms(6)
proof (induction "is" rule: rev_induct)
  case Nil
  then show ?case by simp
next
  case (snoc j "is")
  note p = path_ok_snoc [OF snoc.prems]
  have IH: "follow f' r is = (if \<exists>js. is = js @ [i] \<and> follow f r js = Some t then Some q else follow f r is)"
    using snoc.IH p by simp
  show ?case
  proof (cases "follow f r is")
    case None
    have "follow f' r is = None \<or> follow f' r is = Some q" using IH None by presburger
    then have "follow f' r (is @ [j]) = None"
      using assms(2) p by (auto simp: follow_snoc table_linked_def)
    moreover have "\<not> (\<exists>js. is @ [j] = js @ [i] \<and> follow f r js = Some t)" using None by auto
    ultimately show ?thesis using None by (simp add: follow_snoc)
  next
    case (Some u)
    have "\<not> (\<exists>js. is = js @ [i] \<and> follow f r js = Some t)"
      using Some assms(3) by (auto simp: follow_snoc)
    then have u: "follow f' r is = Some u" unfolding IH Some [symmetric] by (rule if_not_P)
    have uq: "u \<noteq> q" using follow_level [OF assms(1,5) _ Some] p assms(4) by auto
    show ?thesis
    proof (cases "u = t \<and> j = i")
      case True
      then have "follow f' r (is @ [j]) = Some q" using u assms(2) by (simp add: follow_snoc table_linked_def)
      moreover have "\<exists>js. is @ [j] = js @ [i] \<and> follow f r js = Some t" using True Some by auto
      ultimately show ?thesis by presburger
    next
      case False
      then have "f' u j = f u j" using assms(2) uq p by (auto simp: table_linked_def)
      then have "follow f' r (is @ [j]) = follow f r (is @ [j])" using u Some by (simp add: follow_snoc)
      moreover have "\<not> (\<exists>js. is @ [j] = js @ [i] \<and> follow f r js = Some t)" using False Some by auto
      ultimately show ?thesis by (subst if_not_P) assumption+
    qed
  qed
qed

lemma walk_linked:
  assumes "levelled f lv" "table_linked f f' t i q" "\<not> present (f t i)" "lv q = 0" "lv r = 4"
    and t: "1 < lv t"
  shows "walk f' r virt = walk f r virt"
proof -
  note fl = follow_linked [OF assms(1-5) path_ok_upper [of virt]]
  show ?thesis
  proof (cases "follow f r (upper_path virt)")
    case None
    then show ?thesis using fl assms(2)
      by (auto simp: walk_def leaf_slot_def table_linked_def split: if_splits)
  next
    case (Some u)
    then have "lv u = 1" using follow_level [OF assms(1,5) path_ok_upper] by (auto simp: upper_path_def)
    then have "u \<noteq> q" "u \<noteq> t" using assms(4) t by auto
    then have "f' u (table_index 1 virt) = f u (table_index 1 virt)"
      using assms(2) by (auto simp: table_linked_def)
    moreover have "follow f' r (upper_path virt) = Some u"
      using fl Some assms(3) by (auto simp: follow_snoc split: if_splits)
    ultimately show ?thesis using Some by (simp add: walk_def leaf_slot_def)
  qed
qed

text \<open>
  A tree without sharing: no table is reached by two paths. Then two addresses have the same
  last-level slot only when they are in the same page.
\<close>

definition unshared :: "tables \<Rightarrow> nat \<Rightarrow> bool" where
  "unshared f r \<longleftrightarrow> (\<forall>is js t. path_ok is \<and> path_ok js \<and> length is = length js \<and>
     follow f r is = Some t \<and> follow f r js = Some t \<longrightarrow> is = js)"

lemma unshared_linked:
  assumes "levelled f lv" "table_linked f f' t i q" "\<not> present (f t i)" "lv q = 0" "lv r = 4"
    and un: "unshared f r"
  shows "unshared f' r"
  unfolding unshared_def
proof (intro allI impI)
  fix "is" js u
  assume a: "path_ok is \<and> path_ok js \<and> length is = length js \<and>
    follow f' r is = Some u \<and> follow f' r js = Some u"
  note fl = follow_linked [OF assms(1-5)]
  have old: "u \<noteq> q" if "follow f r ks = Some u" "path_ok ks" for ks
    using follow_level [OF assms(1,5) that(2,1)] that(2) assms(4) by (auto simp: path_ok_def)
  let ?new = "\<lambda>ks. \<exists>ls. ks = ls @ [i] \<and> follow f r ls = Some t"
  show "is = js"
  proof (cases "?new is")
    case True
    then have "u = q" using fl [of "is"] a by auto
    then have "?new js" using fl [of js] a old by (auto split: if_splits)
    then obtain ls ms where l: "is = ls @ [i]" "js = ms @ [i]" "follow f r ls = Some t" "follow f r ms = Some t"
      using True by blast
    then have "ls = ms" using un a path_ok_snoc unfolding unshared_def by (metis length_append_singleton nat.inject)
    then show ?thesis using l by simp
  next
    case False
    then have i: "follow f r is = Some u" using fl [of "is"] a by (metis (no_types, lifting))
    then have nj: "\<not> ?new js" using fl [of js] a old by auto
    then have "follow f r js = Some u" using fl [of js] a by (metis (no_types, lifting))
    then show ?thesis using un i a unfolding unshared_def by blast
  qed
qed

lemma unshared_slot_inj:
  assumes "unshared f r" "leaf_slot f r v = Some x" "leaf_slot f r w = Some x"
  shows "drop_bit 12 v AND mask 36 = drop_bit 12 w AND (mask 36 :: u64)"
proof -
  obtain t where t: "follow f r (upper_path v) = Some t" "follow f r (upper_path w) = Some t"
    and i1: "table_index 1 v = table_index 1 w"
    using assms(2,3) by (auto simp: leaf_slot_def)
  then have "upper_path v = upper_path w"
    using assms(1) unfolding unshared_def by (metis path_ok_upper upper_path_def list.size(3,4))
  then have ix: "table_index l v = table_index l w" if "l \<in> {1, 2, 3, 4}" for l
    using that i1 by (auto simp: upper_path_def)
  have nine: "(0x1FF :: u64) = mask 9" by (simp add: mask_eq_exp_minus_1)
  have b: "bit v (12 + 9 * (l - 1) + n) = bit w (12 + 9 * (l - 1) + n)" if "l \<in> {1, 2, 3, 4}" "n < 9" for l n
  proof -
    have "drop_bit (12 + 9 * (l - 1)) v AND mask 9 = drop_bit (12 + 9 * (l - 1)) w AND (mask 9 :: u64)"
      using ix [OF that(1)] unfolding table_index_def nine by (rule unsigned_word_eqI)
    then have "bit (drop_bit (12 + 9 * (l - 1)) v AND mask 9) n =
        bit (drop_bit (12 + 9 * (l - 1)) w AND (mask 9 :: u64)) n" by (rule arg_cong)
    then show ?thesis using that(2) by (simp add: bit_and_iff bit_mask_iff bit_drop_bit_eq)
  qed
  have "bit v (12 + k) = bit w (12 + k)" if "k < 36" for k
  proof -
    have "Suc (k div 9) \<in> {1, 2, 3, 4}" using that by auto
    from b [OF this, of "k mod 9"] show ?thesis by (simp add: add.assoc)
  qed
  then show ?thesis by (intro bit_word_eqI) (auto simp: bit_and_iff bit_mask_iff bit_drop_bit_eq)
qed

lemma table_index_same_page:
  assumes "drop_bit 12 v AND mask 36 = drop_bit 12 w AND (mask 36 :: u64)" "l \<in> {1, 2, 3, 4}"
  shows "table_index l v = table_index l w"
proof -
  have nine: "(0x1FF :: u64) = mask 9" by (simp add: mask_eq_exp_minus_1)
  have eq: "bit v (12 + k) = bit w (12 + k)" if "k < 36" for k
  proof -
    have "bit (drop_bit 12 v AND mask 36) k = bit (drop_bit 12 w AND (mask 36 :: u64)) k"
      using assms(1) by (rule arg_cong)
    then show ?thesis using that by (simp add: bit_and_iff bit_mask_iff bit_drop_bit_eq)
  qed
  have "drop_bit (12 + 9 * (l - 1)) v AND mask 9 = drop_bit (12 + 9 * (l - 1)) w AND (mask 9 :: u64)"
  proof (rule bit_word_eqI)
    fix n
    have "n < 9 \<Longrightarrow> 9 * (l - 1) + n < 36" using assms(2) by auto
    then show "bit (drop_bit (12 + 9 * (l - 1)) v AND mask 9) n =
        bit (drop_bit (12 + 9 * (l - 1)) w AND (mask 9 :: u64)) n"
      using eq [of "9 * (l - 1) + n"] by (auto simp: bit_and_iff bit_mask_iff bit_drop_bit_eq add.assoc)
  qed
  then show ?thesis unfolding table_index_def nine by simp
qed

lemma leaf_slot_same_page:
  "drop_bit 12 v AND mask 36 = drop_bit 12 w AND (mask 36 :: u64) \<Longrightarrow> leaf_slot f r v = leaf_slot f r w"
  unfolding leaf_slot_def upper_path_def by (simp add: table_index_same_page [of v w])

section \<open>Entries in memory\<close>

lemma entry_slots_disjoint:
  fixes t t' i i' :: nat
  assumes "(t', i') \<noteq> (t, i)" "i < 512" "i' < 512"
  shows "t' * PAGE_SIZE + 8 * i' + 8 \<le> t * PAGE_SIZE + 8 * i \<or>
    t * PAGE_SIZE + 8 * i + 8 \<le> t' * PAGE_SIZE + 8 * i'"
proof -
  consider "t < t'" | "t' < t" | "t = t'" "i \<noteq> i'" using assms(1) by fastforce
  then show ?thesis
  proof cases
    case 1
    then have "Suc t * PAGE_SIZE \<le> t' * PAGE_SIZE" by (intro mult_le_mono1) simp
    then show ?thesis using assms(2) by (simp add: PAGE_SIZE_def)
  next
    case 2
    then have "Suc t' * PAGE_SIZE \<le> t * PAGE_SIZE" by (intro mult_le_mono1) simp
    then show ?thesis using assms(3) by (simp add: PAGE_SIZE_def)
  next
    case 3
    then show ?thesis by (cases "i < i'") auto
  qed
qed

lemma unat_entry_ptr:
  assumes "hhdm_ok s" "unat table = t * PAGE_SIZE" "t < 2 ^ 20" "i < 512"
  shows "unat (entry_ptr s table i) = page_base s t + 8 * i"
proof -
  have u: "unat table < 2 ^ 32" using assms(2,3) by (simp add: PAGE_SIZE_def)
  have i: "unat (8 * word_of_nat i :: u64) = 8 * i"
    using assms(4) unat_u64_of_nat [of "8 * i"] by simp
  have b: "unat (HHDM_OFFSET s) + 2 ^ 32 \<le> 2 ^ 64" using assms(1) by (simp add: hhdm_ok_def)
  have "unat (phys_to_virt s table) + 8 * i < 2 ^ 64"
    using assms u b by (simp add: unat_phys_to_virt PAGE_SIZE_def)
  then have "unat (entry_ptr s table i) = unat (phys_to_virt s table) + 8 * i"
    using i by (simp add: entry_ptr_def unat_add_u64)
  then show ?thesis using assms u by (simp add: unat_phys_to_virt)
qed

lemma read_entry:
  assumes "hhdm_ok s" "unat table = t * PAGE_SIZE" "t < 2 ^ 20" "i < 512"
  shows "read_u64 s (entry_ptr s table i) = pte s t i"
  using unat_entry_ptr [OF assms] by (simp add: read_u64_def pte_def)

lemma pte_write_entry:
  assumes "unat ptr = page_base s t + 8 * i" "i < 512" "i' < 512"
  shows "pte (write_u64 ptr v s) t' i' = (if (t', i') = (t, i) then v else pte s t' i')"
proof (cases "(t', i') = (t, i)")
  case True
  then show ?thesis using assms(1) by (simp add: pte_def) (simp add: write_u64_def)
next
  case False
  then have "page_base s t' + 8 * i' + 8 \<le> unat ptr \<or> unat ptr + 8 \<le> page_base s t' + 8 * i'"
    using entry_slots_disjoint [OF False assms(2,3)] unfolding assms(1) by linarith
  then have "pte (write_u64 ptr v s) t' i' = pte s t' i'"
    by (simp add: pte_def) (simp add: write_u64_def get_put_bytes_other)
  then show ?thesis using False by auto
qed

lemma get_bytes_zero: "get_bytes (\<lambda>_. 0) off n = replicate n 0"
  by (simp add: get_bytes_def map_replicate_const)

lemma u64_from_zero_bytes: "u64_from_le_bytes (replicate 8 0) = 0"
  by (simp add: u64_from_le_bytes_def eval_nat_numeral)

lemma pte_zero_page:
  assumes "unat ptr = page_base s q" "i < 512"
  shows "pte (write_bytes ptr 0 4096 s) t i = (if t = q then 0 else pte s t i)"
proof (cases "t = q")
  case True
  have "get_bytes (MEM (write_bytes ptr 0 4096 s)) (page_base s t + 8 * i) 8 =
      get_bytes (\<lambda>_. 0) (page_base s t + 8 * i) 8"
    using assms True by (intro get_bytes_cong) (auto simp: write_bytes_def)
  then show ?thesis using True by (simp add: pte_def get_bytes_zero u64_from_zero_bytes)
next
  case False
  then consider "Suc t * PAGE_SIZE \<le> q * PAGE_SIZE" | "Suc q * PAGE_SIZE \<le> t * PAGE_SIZE"
    by (metis Suc_leI linorder_neqE_nat mult_le_mono1)
  then have "get_bytes (MEM (write_bytes ptr 0 4096 s)) (page_base s t + 8 * i) 8 =
      get_bytes (MEM s) (page_base s t + 8 * i) 8"
    using assms by cases (intro get_bytes_cong; simp add: write_bytes_def PAGE_SIZE_def)+
  then show ?thesis using False by (simp add: pte_def)
qed

lemma addr_mask: "(0x000FFFFFFFFFF000 :: u64) = push_bit 12 (mask 40)"
  by (simp add: mask_eq_exp_minus_1 push_bit_eq_mult)

lemma page_addr_push: "page_addr p = push_bit 12 (word_of_nat p)"
  by (simp add: page_addr_def PAGE_SIZE_def push_bit_eq_mult)

lemma page_addr_masked:
  assumes "p < MAX_PAGES" "fl AND 0x000FFFFFFFFFF000 = 0"
  shows "(page_addr p OR fl) AND 0x000FFFFFFFFFF000 = page_addr p"
proof -
  have "p < 2 ^ 40" using assms(1) by (simp add: MAX_PAGES_def)
  then have p: "n < 40" if "bit p n" for n
    using that by (metis bit_take_bit_iff take_bit_nat_eq_self)
  have "page_addr p AND 0x000FFFFFFFFFF000 = page_addr p"
    unfolding addr_mask page_addr_push
    by (rule bit_word_eqI) (auto simp: bit_simps intro: p)
  then show ?thesis using assms(2) by (simp add: bit.conj_disj_distrib2)
qed

lemma entry_page_linked:
  assumes "p < MAX_PAGES" "fl AND 0x000FFFFFFFFFF000 = 0"
  shows "entry_page (page_addr p OR fl) = p"
  using assms by (simp add: entry_page_def page_addr_masked unat_page_addr PAGE_SIZE_def)

section \<open>One step of the walk, made where missing\<close>

text \<open>\<open>get_or_make\<close> and \<open>get_or_make_user\<close> differ in the bits they put on a new entry.\<close>

definition next_table ::
    "u64 \<Rightarrow> u64 \<Rightarrow> nat \<Rightarrow> 'a kmem_state_scheme \<Rightarrow> panic + (u64 \<times> 'a kmem_state_scheme)" where
  "next_table fl table_phys idx s =
     (let ptr = entry_ptr s table_phys idx; e = read_u64 s ptr in
      if present e then Inr (e AND 0x000FFFFFFFFFF000, s)
      else case alloc_page s of
          None \<Rightarrow> Inl (Panic ''paging: OOM'')
        | Some (p, s1) \<Rightarrow>
            Inr (p, write_u64 ptr (p OR fl) (write_bytes (phys_to_virt s1 p) 0 4096 s1)))"

lemma get_or_make_eq: "get_or_make = next_table (PRESENT OR WRITE)"
  and get_or_make_user_eq: "get_or_make_user = next_table (PRESENT OR WRITE OR USER)"
  by (simp_all add: get_or_make_def get_or_make_user_def next_table_def present_def Let_def fun_eq_iff
      or.assoc split: option.split)

definition table_flags :: "u64 \<Rightarrow> bool" where
  "table_flags fl \<longleftrightarrow> fl AND 0x000FFFFFFFFFF000 = 0 \<and> (\<forall>a. present (a OR fl))"

lemma present_bit: "present e \<longleftrightarrow> bit e 0"
  by (simp add: present_def PRESENT_def bit_iff_and_push_bit_not_eq_0)

lemma table_flags_kernel: "table_flags (PRESENT OR WRITE)"
  and table_flags_user: "table_flags (PRESENT OR WRITE OR USER)"
  by (simp_all add: table_flags_def present_bit PRESENT_def WRITE_def USER_def bit_or_iff)

lemma masked_aligned: "unat (e AND 0x000FFFFFFFFFF000) = entry_page e * PAGE_SIZE"
proof -
  define x where "x = e AND 0x000FFFFFFFFFF000"
  have "take_bit 12 x = 0"
    unfolding x_def addr_mask by (rule bit_word_eqI) (auto simp: bit_simps)
  then have "take_bit 12 (unat x) = 0" by (metis unsigned_0 unsigned_take_bit_eq)
  then have "unat x mod 4096 = 0" by (simp add: take_bit_eq_mod)
  then have "unat x = unat x div 4096 * 4096" using div_mult_mod_eq [of "unat x" 4096] by simp
  then show ?thesis unfolding entry_page_def PAGE_SIZE_def x_def .
qed

text \<open>
  What a step that may add a table keeps: the levels of every frame in use, every translation, every
  present entry, and the contents of every frame in use that is not a table.
\<close>

definition pt_ext :: "'a kmem_state_scheme \<Rightarrow> (nat \<Rightarrow> nat) \<Rightarrow> 'a kmem_state_scheme \<Rightarrow> (nat \<Rightarrow> nat) \<Rightarrow> bool"
  where
  "pt_ext s lv s' lv' \<longleftrightarrow>
     (\<forall>p. p \<notin> free_set s \<longrightarrow> lv' p = lv p) \<and> free_set s' \<subseteq> free_set s \<and>
     (\<forall>r virt. lv r = 4 \<longrightarrow> walk (pte s') r virt = walk (pte s) r virt) \<and>
     (\<forall>r. lv r = 4 \<and> unshared (pte s) r \<longrightarrow> unshared (pte s') r) \<and>
     (\<forall>t i. 0 < lv t \<and> i < 512 \<and> present (pte s t i) \<longrightarrow> pte s' t i = pte s t i) \<and>
     (\<forall>p k. p \<notin> free_set s \<and> lv p = 0 \<and> k < PAGE_SIZE \<longrightarrow>
        MEM s' (page_base s p + k) = MEM s (page_base s p + k)) \<and>
     HHDM_OFFSET s' = HHDM_OFFSET s \<and> CR3 s' = CR3 s \<and> TLB s' = TLB s \<and>
     kmem_state.more s' = kmem_state.more s"

lemma pt_ext_refl: "pt_ext s lv s lv"
  by (simp add: pt_ext_def)

lemma pt_ext_trans:
  assumes "pt_ext s lv s1 lv1" "pt_ext s1 lv1 s2 lv2" "pt_wf s lv"
  shows "pt_ext s lv s2 lv2"
proof -
  have nf: "p \<notin> free_set s" if "0 < lv p" for p using assms(3) that by (auto simp: pt_wf_def)
  have sub: "free_set s1 \<subseteq> free_set s" using assms(1) by (simp add: pt_ext_def)
  show ?thesis
    unfolding pt_ext_def
  proof (intro conjI allI impI)
    show "lv2 p = lv p" if "p \<notin> free_set s" for p
      using that assms(1,2) sub by (auto simp: pt_ext_def)
    show "free_set s2 \<subseteq> free_set s" using assms(1,2) by (auto simp: pt_ext_def)
    show "walk (pte s2) r virt = walk (pte s) r virt" if "lv r = 4" for r virt
      using that assms(1,2) nf [of r] by (simp add: pt_ext_def)
    show "unshared (pte s2) r" if "lv r = 4 \<and> unshared (pte s) r" for r
      using that assms(1,2) nf [of r] by (simp add: pt_ext_def)
    show "pte s2 t i = pte s t i" if "0 < lv t \<and> i < 512 \<and> present (pte s t i)" for t i
      using that assms(1,2) nf [of t] by (simp add: pt_ext_def)
    show "MEM s2 (page_base s p + k) = MEM s (page_base s p + k)"
      if "p \<notin> free_set s \<and> lv p = 0 \<and> k < PAGE_SIZE" for p k
    proof -
      have "MEM s1 (page_base s p + k) = MEM s (page_base s p + k)" "lv1 p = 0" "p \<notin> free_set s1"
        using that assms(1) sub by (auto simp: pt_ext_def)
      then show ?thesis using that assms(1,2) by (auto simp: pt_ext_def)
    qed
  qed (use assms(1,2) in \<open>simp_all add: pt_ext_def\<close>)
qed

text \<open>The fresh table, linked.\<close>

lemma levelled_linked:
  assumes "levelled f lv" "table_linked f f' t i q" "lv q = 0"
  shows "levelled f' (lv(q := lv t - 1))"
  unfolding levelled_def
proof (intro allI impI)
  fix t' i' assume a: "1 < (lv(q := lv t - 1)) t' \<and> i' < 512 \<and> present (f' t' i')"
  show "(lv(q := lv t - 1)) (entry_page (f' t' i')) = (lv(q := lv t - 1)) t' - 1"
  proof (cases "(t', i') = (t, i)")
    case True
    then show ?thesis using assms(2) by (auto simp: table_linked_def)
  next
    case False
    have tq: "t' \<noteq> q" using a assms(2) by (auto simp: table_linked_def)
    then have e: "f' t' i' = f t' i'" using a False assms(2) by (auto simp: table_linked_def)
    then have "lv (entry_page (f t' i')) = lv t' - 1"
      using a tq assms(1) by (auto simp: levelled_def)
    moreover from this have "entry_page (f t' i') \<noteq> q" using a tq assms(3) by auto
    ultimately show ?thesis using e tq by simp
  qed
qed

lemma link_page:
  assumes h: "hhdm_ok s" and t: "t < 2 ^ 20" "unat table = t * PAGE_SIZE" "i < 512"
    and q: "q < MAX_PAGES" "q \<noteq> t" and al: "alloc_page s = Some (page_addr q, s1)"
    and s': "s' = write_u64 (entry_ptr s table i) e
      (write_bytes (phys_to_virt s1 (page_addr q)) 0 4096 s1)"
  shows "i' < 512 \<Longrightarrow> pte s' t' i' =
      (if t' = t \<and> i' = i then e else if t' = q then 0 else pte s t' i')"
    and "p \<noteq> t \<Longrightarrow> p \<noteq> q \<Longrightarrow> j < PAGE_SIZE \<Longrightarrow>
      MEM s' (page_base s p + j) = MEM s (page_base s p + j)"
proof -
  note k = alloc_page_kmem [OF al]
  let ?z = "write_bytes (phys_to_virt s1 (page_addr q)) 0 4096 s1"
  have p1: "unat (phys_to_virt s1 (page_addr q)) = page_base s1 q"
    using unat_phys_to_virt_page [of s1 q] h q(1) hhdm_ok_cong [OF k(1)] by simp
  have p2: "unat (entry_ptr s table i) = page_base ?z t + 8 * i"
    using unat_entry_ptr [OF h t(2,1,3)] by (simp add: k)
  have m1: "pte s1 = pte s" by (simp add: pte_def fun_eq_iff k)
  show "pte s' t' i' = (if t' = t \<and> i' = i then e else if t' = q then 0 else pte s t' i')"
    if "i' < 512"
    using pte_write_entry [OF p2 t(3) that, of e t'] pte_zero_page [OF p1 that, of t'] q(2)
    by (auto simp: s' m1)
  assume p: "p \<noteq> t" "p \<noteq> q" "j < PAGE_SIZE"
  have "MEM s' (page_base ?z p + j) = MEM ?z (page_base ?z p + j)"
    unfolding s' using p t(3) p2
    by (intro write_u64_other_page [where q = t and k = "8 * i"]) (auto simp: PAGE_SIZE_def)
  moreover have "MEM ?z (page_base s1 p + j) = MEM s1 (page_base s1 p + j)"
    using p p1
    by (intro write_bytes_other_page [where q = q and k = 0]) (auto simp: PAGE_SIZE_def)
  ultimately show "MEM s' (page_base s p + j) = MEM s (page_base s p + j)" by (simp add: k)
qed

lemma next_table_fresh:
  assumes wf: "pt_wf s lv" and t: "1 < lv t" "unat table = t * PAGE_SIZE" "i < 512"
    and fl: "table_flags fl" and np: "\<not> present (pte s t i)" and q: "q \<in> free_set s"
    and al: "alloc_page s = Some (page_addr q, s1)" "free_set s1 = free_set s - {q}"
    and s': "s' = write_u64 (entry_ptr s table i) (page_addr q OR fl)
      (write_bytes (phys_to_virt s1 (page_addr q)) 0 4096 s1)"
  shows "table_linked (pte s) (pte s') t i q" "pt_wf s' (lv(q := lv t - 1))"
    "pt_ext s lv s' (lv(q := lv t - 1))"
proof -
  have h: "hhdm_ok s" and lvl: "levelled (pte s) lv" and tb: "t < 2 ^ 20" "t \<notin> free_set s"
    using wf t(1) by (auto simp: pt_wf_def)
  have qm: "q < MAX_PAGES" "q \<noteq> t" using q tb by (auto dest: free_set_less)
  have lq: "lv q = 0" using wf q by (auto simp: pt_wf_def)
  note k = alloc_page_kmem [OF al(1)]
  note link = link_page [OF h tb(1) t(2,3) qm al(1) s']
  show lk: "table_linked (pte s) (pte s') t i q"
    using fl t(3) qm entry_page_linked [OF qm(1)]
    by (auto simp: table_linked_def link(1) table_flags_def)
  have fs: "free_set s' = free_set s - {q}" by (simp add: s' al(2))
  have "hhdm_ok s'" using h by (simp add: hhdm_ok_def s' k)
  moreover have "q < 2 ^ 20" using qm by (simp add: MAX_PAGES_def)
  ultimately show "pt_wf s' (lv(q := lv t - 1))"
    using wf levelled_linked [OF lvl lk lq] fs by (auto simp: pt_wf_def)
  have w: "walk (pte s') r virt = walk (pte s) r virt" if "lv r = 4" for r virt
    using walk_linked [OF lvl lk np lq that t(1)] .
  have un: "unshared (pte s') r" if "lv r = 4" "unshared (pte s) r" for r
    using unshared_linked [OF lvl lk np lq that] .
  have e: "pte s' t' i' = pte s t' i'" if "0 < lv t'" "i' < 512" "present (pte s t' i')" for t' i'
    using that np lq by (auto simp: link(1))
  have m: "MEM s' (page_base s p + j) = MEM s (page_base s p + j)"
    if "p \<notin> free_set s" "lv p = 0" "j < PAGE_SIZE" for p j
    using that t(1) q by (intro link(2)) auto
  have "HHDM_OFFSET s' = HHDM_OFFSET s" "CR3 s' = CR3 s" "TLB s' = TLB s"
    "kmem_state.more s' = kmem_state.more s" by (simp_all add: s' k)
  then show "pt_ext s lv s' (lv(q := lv t - 1))"
    unfolding pt_ext_def using fs q w un m e by auto
qed

lemma next_table_spec:
  assumes wf: "pt_wf s lv" and t: "lv t = Suc (Suc n)" "unat table = t * PAGE_SIZE" "i < 512"
    and fl: "table_flags fl" and fr: "0 < frames s"
  obtains q qa s' lv' where "next_table fl table i s = Inr (qa, s')" "unat qa = q * PAGE_SIZE"
    "pt_wf s' lv'" "lv' q = Suc n" "pt_ext s lv s' lv'" "frames s - 1 \<le> frames s'"
    "present (pte s' t i)" "entry_page (pte s' t i) = q"
    "pte s' t i = pte s t i \<or> pte s' t i = qa OR fl"
proof -
  have h: "hhdm_ok s" and lvl: "levelled (pte s) lv" and tb: "t < 2 ^ 20"
    using wf t(1) by (auto simp: pt_wf_def)
  note r = read_entry [OF h t(2) tb t(3)]
  show thesis
  proof (cases "present (pte s t i)")
    case True
    then have "next_table fl table i s = Inr (pte s t i AND 0x000FFFFFFFFFF000, s)"
      by (simp add: next_table_def r)
    moreover have "lv (entry_page (pte s t i)) = Suc n"
      using levelled_entry [OF lvl t(1,3) True] .
    ultimately show thesis
      using that [of _ s "entry_page (pte s t i)" lv] masked_aligned wf pt_ext_refl [of s lv] True by simp
  next
    case False
    obtain q s1 where q: "alloc_page s = Some (page_addr q, s1)" "q \<in> free_set s"
      "free_set s1 = free_set s - {q}" "card (free_set s1) = card (free_set s) - 1"
      using pmm.alloc_total fr by (metis frames_def)
    define s' where "s' = write_u64 (entry_ptr s table i) (page_addr q OR fl)
      (write_bytes (phys_to_virt s1 (page_addr q)) 0 4096 s1)"
    note f = next_table_fresh [OF wf _ t(2,3) fl False q(2,1,3) s'_def]
    have "next_table fl table i s = Inr (page_addr q, s')"
      using False q by (simp add: next_table_def r s'_def)
    moreover have "frames s - 1 \<le> frames s'" using q(3,4) by (simp add: frames_def s'_def)
    moreover have "q \<noteq> t" using q(2) wf t(1) by (auto simp: pt_wf_def)
    moreover from this have "pte s' t i = page_addr q OR fl"
      using link_page(1) [OF h tb t(2,3) free_set_less [OF q(2)] _ q(1) s'_def t(3), of t] by simp
    ultimately show thesis
      using that [of "page_addr q" s' q "lv(q := lv t - 1)"] f t(1) unat_page_addr [OF free_set_less [OF q(2)]]
      by (simp add: table_linked_def)
  qed
qed

section \<open>Mapping a page\<close>

text \<open>The common part of the three mapping functions.\<close>

definition map_entry ::
    "u64 \<Rightarrow> u64 \<Rightarrow> u64 \<Rightarrow> u64 \<Rightarrow> 'a kmem_state_scheme \<Rightarrow> panic + (unit \<times> 'a kmem_state_scheme)" where
  "map_entry fl pml4_phys virt e s =
     rbind (next_table fl pml4_phys (table_index 4 virt) s) (\<lambda>(p3, s).
     rbind (next_table fl p3 (table_index 3 virt) s) (\<lambda>(p2, s).
     rbind (next_table fl p2 (table_index 2 virt) s) (\<lambda>(p1, s).
       Inr ((), write_u64 (entry_ptr s p1 (table_index 1 virt)) e s))))"

lemma map_page_into_eq:
  "map_page_into pml4_phys virt phys flags s =
     map_entry (PRESENT OR WRITE OR USER) pml4_phys virt (phys OR flags OR PRESENT) s"
  by (simp add: map_page_into_def map_entry_def get_or_make_user_eq Let_def)

lemma map_page_eq:
  "map_page virt phys flags s =
     rbind (map_entry (PRESENT OR WRITE) (cr3_phys s) virt (phys OR flags OR PRESENT OR WRITE) s)
       (\<lambda>(_, s). Inr ((), invlpg virt s))"
  by (simp add: map_page_def map_entry_def get_or_make_eq rbind_assoc Let_def split_def)

lemma map_page_current_user_eq:
  "map_page_current_user virt phys flags s =
     rbind (map_entry (PRESENT OR WRITE OR USER) (cr3_phys s) virt (phys OR flags OR PRESENT OR USER) s)
       (\<lambda>(_, s). Inr ((), invlpg virt s))"
  by (simp add: map_page_current_user_def map_entry_def get_or_make_user_eq rbind_assoc Let_def split_def)

text \<open>
  \<open>mapped s lv s' lv' root virt e\<close>: from \<open>s\<close> to \<open>s'\<close> the page of \<open>virt\<close> under \<open>root\<close> came to
  translate by the entry \<open>e\<close>, and so did exactly the addresses that share its last-level slot;
  every other translation, the contents of all frames in use that are not tables, and the rest of
  the state are as before.
\<close>

definition mapped ::
    "'a kmem_state_scheme \<Rightarrow> (nat \<Rightarrow> nat) \<Rightarrow> 'a kmem_state_scheme \<Rightarrow> (nat \<Rightarrow> nat) \<Rightarrow> nat \<Rightarrow> u64 \<Rightarrow> u64 \<Rightarrow> bool" where
  "mapped s lv s' lv' root virt e \<longleftrightarrow>
     pt_wf s' lv' \<and> (\<forall>p. p \<notin> free_set s \<longrightarrow> lv' p = lv p) \<and> free_set s' \<subseteq> free_set s \<and>
     frames s - 3 \<le> frames s' \<and> walk (pte s') root virt = Some e \<and>
     (\<forall>r v. lv r = 4 \<longrightarrow> walk (pte s') r v =
        (if leaf_slot (pte s') r v = leaf_slot (pte s') root virt then Some e else walk (pte s) r v)) \<and>
     (\<forall>r. lv r = 4 \<and> unshared (pte s) r \<longrightarrow> unshared (pte s') r) \<and>
     (\<forall>p k. p \<notin> free_set s \<and> lv p = 0 \<and> k < PAGE_SIZE \<longrightarrow>
        MEM s' (page_base s p + k) = MEM s (page_base s p + k)) \<and>
     HHDM_OFFSET s' = HHDM_OFFSET s \<and> CR3 s' = CR3 s \<and> kmem_state.more s' = kmem_state.more s"

text \<open>Writing the last-level entry.\<close>

lemma leaf_write:
  assumes wf: "pt_wf s lv" and u: "lv u = 1" "unat table = u * PAGE_SIZE" "i < 512" and e: "present e"
    and s': "s' = write_u64 (entry_ptr s table i) e s"
  shows "pt_wf s' lv" "lv r = 4 \<Longrightarrow> leaf_slot (pte s') r v = leaf_slot (pte s) r v"
    "lv r = 4 \<Longrightarrow> walk (pte s') r v = (if leaf_slot (pte s) r v = Some (u, i) then Some e else walk (pte s) r v)"
    "p \<noteq> u \<Longrightarrow> j < PAGE_SIZE \<Longrightarrow> MEM s' (page_base s p + j) = MEM s (page_base s p + j)"
    "lv r = 4 \<Longrightarrow> unshared (pte s') r = unshared (pte s) r"
proof -
  have h: "hhdm_ok s" and lvl: "levelled (pte s) lv" and ub: "u < 2 ^ 20"
    using wf u(1) by (auto simp: pt_wf_def)
  note ptr = unat_entry_ptr [OF h u(2) ub u(3)]
  have pte': "pte s' t' i' = (if (t', i') = (u, i) then e else pte s t' i')" if "i' < 512" for t' i'
    unfolding s' using pte_write_entry [OF ptr u(3) that] .
  have "levelled (pte s') lv"
    using lvl u(1) by (auto simp: levelled_def pte')
  then show "pt_wf s' lv" using wf by (simp add: pt_wf_def hhdm_ok_def s')
  have d: "follow (pte s') r is = follow (pte s) r is" if "lv r = 4" "path_ok is" for r "is"
    using that by (intro follow_leaf_update [OF lvl u(1)]) (auto simp: pte')
  then show ls: "leaf_slot (pte s') r v = leaf_slot (pte s) r v" if "lv r = 4" for r v
    using that by (simp add: leaf_slot_def)
  show "walk (pte s') r v = (if leaf_slot (pte s) r v = Some (u, i) then Some e else walk (pte s) r v)"
    if "lv r = 4"
  proof (cases "leaf_slot (pte s) r v")
    case (Some x)
    then obtain t' where x: "x = (t', table_index 1 v)" by (auto simp: leaf_slot_def)
    then show ?thesis using Some ls [OF that, of v] e by (auto simp: walk_def pte')
  qed (use ls [OF that, of v] in \<open>simp add: walk_def\<close>)
  show "MEM s' (page_base s p + j) = MEM s (page_base s p + j)" if "p \<noteq> u" "j < PAGE_SIZE"
    unfolding s' using that u(3) ptr
    by (intro write_u64_other_page [where q = u and k = "8 * i"]) (auto simp: PAGE_SIZE_def)
  show "unshared (pte s') r = unshared (pte s) r" if "lv r = 4"
    using d [OF that] unfolding unshared_def by metis
qed

lemma pt_ext_entry:
  "pt_ext s lv s' lv' \<Longrightarrow> 0 < lv t \<Longrightarrow> i < 512 \<Longrightarrow> present (pte s t i) \<Longrightarrow> pte s' t i = pte s t i"
  by (simp add: pt_ext_def)

lemma pt_ext_level: "pt_ext s lv s' lv' \<Longrightarrow> pt_wf s lv \<Longrightarrow> 0 < lv t \<Longrightarrow> lv' t = lv t"
  by (auto simp: pt_ext_def pt_wf_def)

text \<open>The three steps down to the last-level table.\<close>

lemma three_tables:
  assumes wf: "pt_wf s lv" and root: "lv root = 4" "unat pml4 = root * PAGE_SIZE"
    and fl: "table_flags fl" and fr: "3 \<le> frames s"
  obtains p1 u s' lv' where
    "map_entry fl pml4 virt e s = Inr ((), write_u64 (entry_ptr s' p1 (table_index 1 virt)) e s')"
    "unat p1 = u * PAGE_SIZE" "lv' u = 1" "pt_wf s' lv'" "pt_ext s lv s' lv'"
    "frames s - 3 \<le> frames s'" "leaf_slot (pte s') root virt = Some (u, table_index 1 virt)"
proof -
  let ?i4 = "table_index 4 virt" and ?i3 = "table_index 3 virt" and ?i2 = "table_index 2 virt"
  have r4: "lv root = Suc (Suc 2)" and f0: "0 < frames s" using root fr by simp_all
  obtain t3 a3 s1 lv1 where 1: "next_table fl pml4 ?i4 s = Inr (a3, s1)" "unat a3 = t3 * PAGE_SIZE"
    "pt_wf s1 lv1" "lv1 t3 = Suc 2" "pt_ext s lv s1 lv1" "frames s - 1 \<le> frames s1"
    "present (pte s1 root ?i4)" "entry_page (pte s1 root ?i4) = t3"
    "pte s1 root ?i4 = pte s root ?i4 \<or> pte s1 root ?i4 = a3 OR fl"
    by (rule next_table_spec [OF wf r4 root(2) table_index_less [of 4 virt] fl f0])
  have r3: "lv1 t3 = Suc (Suc 1)" and f1: "0 < frames s1" using 1 fr by simp_all
  obtain t2 a2 s2 lv2 where 2: "next_table fl a3 ?i3 s1 = Inr (a2, s2)" "unat a2 = t2 * PAGE_SIZE"
    "pt_wf s2 lv2" "lv2 t2 = Suc 1" "pt_ext s1 lv1 s2 lv2" "frames s1 - 1 \<le> frames s2"
    "present (pte s2 t3 ?i3)" "entry_page (pte s2 t3 ?i3) = t2"
    "pte s2 t3 ?i3 = pte s1 t3 ?i3 \<or> pte s2 t3 ?i3 = a2 OR fl"
    by (rule next_table_spec [OF 1(3) r3 1(2) table_index_less [of 3 virt] fl f1])
  have r2: "lv2 t2 = Suc (Suc 0)" and f2: "0 < frames s2" using 1(6) 2 fr by simp_all
  obtain t1 a1 s3 lv3 where 3: "next_table fl a2 ?i2 s2 = Inr (a1, s3)" "unat a1 = t1 * PAGE_SIZE"
    "pt_wf s3 lv3" "lv3 t1 = Suc 0" "pt_ext s2 lv2 s3 lv3" "frames s2 - 1 \<le> frames s3"
    "present (pte s3 t2 ?i2)" "entry_page (pte s3 t2 ?i2) = t1"
    "pte s3 t2 ?i2 = pte s2 t2 ?i2 \<or> pte s3 t2 ?i2 = a1 OR fl"
    by (rule next_table_spec [OF 2(3) r2 2(2) table_index_less [of 2 virt] fl f2])
  have l: "lv1 root = 4" "lv2 root = 4" "lv2 t3 = 3"
    using pt_ext_level [OF 1(5) wf, of root] pt_ext_level [OF 2(5) 1(3), of root]
      pt_ext_level [OF 2(5) 1(3), of t3] root(1) 1(4) by auto
  have "pte s3 root ?i4 = pte s1 root ?i4" "pte s3 t3 ?i3 = pte s2 t3 ?i3"
    using pt_ext_entry [OF 2(5), of root ?i4] pt_ext_entry [OF 3(5), of root ?i4]
      pt_ext_entry [OF 3(5), of t3 ?i3] 1(7) 2(7) l by auto
  then have "follow (pte s3) root (upper_path virt) = Some t1"
    using 1(7,8) 2(7,8) 3(7,8) by (simp add: upper_path_def)
  moreover have "pt_ext s lv s3 lv3"
    using pt_ext_trans [OF pt_ext_trans [OF 1(5) 2(5) wf] 3(5) wf] .
  ultimately show thesis
    using that [of s3 a1 t1 lv3] 1 2 3
    by (simp add: map_entry_def leaf_slot_def)
qed

lemma map_entry_spec:
  assumes wf: "pt_wf s lv" and root: "lv root = 4" "unat pml4 = root * PAGE_SIZE"
    and fl: "table_flags fl" and e: "present e" and fr: "3 \<le> frames s"
  shows "\<exists>s' lv'. map_entry fl pml4 virt e s = Inr ((), s') \<and> mapped s lv s' lv' root virt e \<and>
    TLB s' = TLB s"
proof -
  let ?i = "table_index 1 virt"
  obtain p1 u s1 lv1 where t: "map_entry fl pml4 virt e s = Inr ((), write_u64 (entry_ptr s1 p1 ?i) e s1)"
    "unat p1 = u * PAGE_SIZE" "lv1 u = 1" "pt_wf s1 lv1" "pt_ext s lv s1 lv1"
    "frames s - 3 \<le> frames s1" "leaf_slot (pte s1) root virt = Some (u, ?i)"
    by (rule three_tables [OF wf root fl fr, of virt e]) blast
  define s' where "s' = write_u64 (entry_ptr s1 p1 ?i) e s1"
  note lw = leaf_write [OF t(4,3,2) _ e s'_def, OF table_index_less]
  have lv4: "lv1 r = 4" if "lv r = 4" for r using pt_ext_level [OF t(5) wf, of r] that by simp
  have w: "walk (pte s') r v = (if leaf_slot (pte s') r v = leaf_slot (pte s') root virt
      then Some e else walk (pte s) r v)" if "lv r = 4" for r v
    using lw(2,3) [OF lv4 [OF that]] lw(2) [OF lv4 [OF root(1)]] t(5,7) that
    by (simp add: pt_ext_def)
  have ext: "\<forall>p. p \<notin> free_set s \<longrightarrow> lv1 p = lv p" "free_set s1 \<subseteq> free_set s" "HHDM_OFFSET s1 = HHDM_OFFSET s"
    "CR3 s1 = CR3 s" "kmem_state.more s1 = kmem_state.more s" "TLB s1 = TLB s"
    using t(5) by (auto simp: pt_ext_def)
  have m: "MEM s' (page_base s p + k) = MEM s (page_base s p + k)"
    if "p \<notin> free_set s" "lv p = 0" "k < PAGE_SIZE" for p k
  proof -
    have "p \<noteq> u" using that ext(1) t(3) by auto
    then show ?thesis using lw(4) [of p k] that t(5) ext(3) by (auto simp: pt_ext_def)
  qed
  have un: "unshared (pte s') r" if "lv r = 4" "unshared (pte s) r" for r
    using lw(5) [OF lv4 [OF that(1)]] t(5) that by (simp add: pt_ext_def)
  have "mapped s lv s' lv1 root virt e"
    unfolding mapped_def using lw(1) ext w root(1) t(6) m un
    by (simp add: s'_def frames_def)
  then show ?thesis using t(1) ext(6) by (auto simp: s'_def)
qed

lemma present_leaf: "present (a OR b OR PRESENT)" "present (a OR b OR PRESENT OR c)"
  by (simp_all add: present_bit PRESENT_def bit_or_iff)

lemma invlpg_fields [simp]:
  "HHDM_OFFSET (invlpg v s) = HHDM_OFFSET s" "CR3 (invlpg v s) = CR3 s" "MEM (invlpg v s) = MEM s"
  "TLB (invlpg v s) = TLB s - {v AND NOT 0xFFF}" "kmem_state.more (invlpg v s) = kmem_state.more s"
  "free_set (invlpg v s) = free_set s" "frames (invlpg v s) = frames s"
  by (simp_all add: invlpg_def free_set_def frames_def is_used_def)

lemma pte_invlpg [simp]: "pte (invlpg v s) = pte s"
  by (simp add: pte_def fun_eq_iff)

lemma mapped_invlpg: "mapped s lv (invlpg v s') lv' root virt e = mapped s lv s' lv' root virt e"
  by (simp add: mapped_def pt_wf_def hhdm_ok_def)

lemma mapped_unshared:
  assumes m: "mapped s lv s' lv' root virt e" and u: "unshared (pte s) root" "lv root = 4"
  shows "walk (pte s') root v =
    (if drop_bit 12 v AND mask 36 = drop_bit 12 virt AND (mask 36 :: u64) then Some e else walk (pte s) root v)"
proof -
  have "walk (pte s') root virt = Some e" using m by (simp add: mapped_def)
  then obtain x where x: "leaf_slot (pte s') root virt = Some x" by (auto simp: walk_def split: option.splits)
  have un: "unshared (pte s') root" using m u by (simp add: mapped_def)
  have same: "leaf_slot (pte s') root v = leaf_slot (pte s') root virt"
    if "drop_bit 12 v AND mask 36 = drop_bit 12 virt AND (mask 36 :: u64)"
    using leaf_slot_same_page [OF that] .
  have "leaf_slot (pte s') root v = leaf_slot (pte s') root virt \<longleftrightarrow>
      drop_bit 12 v AND mask 36 = drop_bit 12 virt AND (mask 36 :: u64)"
    using unshared_slot_inj [OF un] x same by metis
  then show ?thesis using m u(2) by (simp add: mapped_def)
qed

section \<open>Properties\<close>

text \<open>
  C4: \<open>map_page_into\<close>, given well-formed tables and three free frames, returns; afterwards the
  processor's walk of that PML4 finds the requested frame with the requested flags at the requested
  address, no translation changes that does not share that last-level entry, the tables stay
  well-formed, and no frame in use other than a table is written. Where no table is shared inside that
  PML4, exactly the addresses of the requested page change.
\<close>

theorem map_page_into_translates:
  assumes "pt_wf s lv" "lv root = 4" "unat pml4 = root * PAGE_SIZE" "3 \<le> frames s"
  shows "\<exists>s' lv'. map_page_into pml4 virt phys flags s = Inr ((), s') \<and>
    mapped s lv s' lv' root virt (phys OR flags OR PRESENT) \<and>
    (unshared (pte s) root \<longrightarrow> (\<forall>v. walk (pte s') root v =
       (if drop_bit 12 v AND mask 36 = drop_bit 12 virt AND (mask 36 :: u64)
        then Some (phys OR flags OR PRESENT) else walk (pte s) root v)))"
  unfolding map_page_into_eq
  using map_entry_spec [OF assms(1-3) table_flags_user present_leaf(1) assms(4), of virt phys flags]
    mapped_unshared assms(2) by blast

text \<open>A machine with an empty PML4 in frame 1 and every frame from 2 on free.\<close>

definition example_kmem :: kmem_state where
  "example_kmem = \<lparr>BITMAP = (\<lambda>_. 0)(0 := 3), TOTAL_PAGES = 0, FREE_PAGES = 0,
     HHDM_OFFSET = 0xFFFF800000000000, MEM = \<lambda>_. 0, CR3 = 0x1000, TLB = {0x400000}\<rparr>"

definition example_levels :: "nat \<Rightarrow> nat" where
  "example_levels = (\<lambda>_. 0)(1 := 4)"

lemma example_free_set: "free_set example_kmem = {2 ..< MAX_PAGES}"
  by (rule two_pages_used) (simp add: example_kmem_def)

lemma example_pte: "pte example_kmem t i = 0"
  by (simp add: pte_def example_kmem_def get_bytes_zero u64_from_zero_bytes)

lemma example_unshared: "unshared (pte example_kmem) 1"
proof -
  have "follow (pte example_kmem) 1 is = Some t \<longleftrightarrow> is = [] \<and> t = 1" for "is" t
    by (cases "is") (auto simp: example_pte)
  then show ?thesis by (simp add: unshared_def)
qed

lemma example_pt_wf: "pt_wf example_kmem example_levels" "3 \<le> frames example_kmem"
proof -
  have "hhdm_ok example_kmem" by (simp add: hhdm_ok_def example_kmem_def PAGE_SIZE_def)
  then show "pt_wf example_kmem example_levels"
    by (simp add: pt_wf_def levelled_def example_pte example_free_set example_levels_def)
  show "3 \<le> frames example_kmem" by (simp add: frames_def example_free_set MAX_PAGES_def)
qed

theorem map_page_into_translates_witness:
  "\<exists>s'. map_page_into 0x1000 0x400000 0x200000 (WRITE OR USER) example_kmem = Inr ((), s') \<and>
     walk (pte s') 1 0x400123 = Some (0x200000 OR (WRITE OR USER) OR PRESENT) \<and>
     walk (pte s') 1 0x401000 = walk (pte example_kmem) 1 0x401000"
proof -
  have "\<exists>s' lv'. map_page_into 0x1000 0x400000 0x200000 (WRITE OR USER) example_kmem = Inr ((), s') \<and>
      (unshared (pte example_kmem) 1 \<longrightarrow> (\<forall>v. walk (pte s') 1 v =
        (if drop_bit 12 v AND mask 36 = drop_bit 12 0x400000 AND (mask 36 :: u64)
         then Some (0x200000 OR (WRITE OR USER) OR PRESENT) else walk (pte example_kmem) 1 v)))"
    using map_page_into_translates [OF example_pt_wf(1) _ _ example_pt_wf(2), where root = 1
        and ?pml4.0 = "0x1000" and virt = "0x400000" and phys = "0x200000" and flags = "WRITE OR USER"]
    by (auto simp: example_levels_def PAGE_SIZE_def)
  moreover have "drop_bit 12 0x400123 AND mask 36 = drop_bit 12 0x400000 AND (mask 36 :: u64)"
    "drop_bit 12 0x401000 AND mask 36 \<noteq> drop_bit 12 0x400000 AND (mask 36 :: u64)"
    by (simp_all add: mask_eq_exp_minus_1 drop_bit_eq_div)
  ultimately show ?thesis using example_unshared by auto
qed

text \<open>
  \<open>map_page\<close> and \<open>map_page_current_user\<close> do the same in the address space that is loaded, with
  their own leaf bits, and leave no stale translation of that page cached.
\<close>

lemma map_page_loaded_translates:
  assumes "pt_wf s lv" "lv root = 4" "unat (cr3_phys s) = root * PAGE_SIZE" "3 \<le> frames s"
  shows "(\<exists>s' lv'. map_page virt phys flags s = Inr ((), s') \<and>
      mapped s lv s' lv' root virt (phys OR flags OR PRESENT OR WRITE) \<and>
      TLB s' = TLB s - {virt AND NOT 0xFFF}) \<and>
    (\<exists>s' lv'. map_page_current_user virt phys flags s = Inr ((), s') \<and>
      mapped s lv s' lv' root virt (phys OR flags OR PRESENT OR USER) \<and>
      TLB s' = TLB s - {virt AND NOT 0xFFF})"
proof -
  note ks = map_entry_spec [OF assms(1-3) table_flags_kernel present_leaf(2) assms(4)]
  note us = map_entry_spec [OF assms(1-3) table_flags_user present_leaf(2) assms(4)]
  show ?thesis
  proof
    obtain s' lv' where "map_entry (PRESENT OR WRITE) (cr3_phys s) virt (phys OR flags OR PRESENT OR WRITE) s =
        Inr ((), s')" "mapped s lv s' lv' root virt (phys OR flags OR PRESENT OR WRITE)" "TLB s' = TLB s"
      using ks by blast
    then show "\<exists>s' lv'. map_page virt phys flags s = Inr ((), s') \<and>
        mapped s lv s' lv' root virt (phys OR flags OR PRESENT OR WRITE) \<and>
        TLB s' = TLB s - {virt AND NOT 0xFFF}"
      by (intro exI [of _ "invlpg virt s'"] exI [of _ lv']) (simp add: map_page_eq mapped_invlpg)
    obtain s' lv' where "map_entry (PRESENT OR WRITE OR USER) (cr3_phys s) virt (phys OR flags OR PRESENT OR USER) s =
        Inr ((), s')" "mapped s lv s' lv' root virt (phys OR flags OR PRESENT OR USER)" "TLB s' = TLB s"
      using us by blast
    then show "\<exists>s' lv'. map_page_current_user virt phys flags s = Inr ((), s') \<and>
        mapped s lv s' lv' root virt (phys OR flags OR PRESENT OR USER) \<and>
        TLB s' = TLB s - {virt AND NOT 0xFFF}"
      by (intro exI [of _ "invlpg virt s'"] exI [of _ lv'])
        (simp add: map_page_current_user_eq mapped_invlpg)
  qed
qed

end
