(* ===== verification/Heap.thy ===== *)
theory Heap
  imports Memory
begin

text \<open>
  The kernel heap, \<open>kernel/src/heap.rs\<close>: ten size classes with intrusive free lists in kernel memory,
  refilled a page at a time from the page allocator; larger requests go to contiguous pages.

  The free lists are pointers threaded through \<open>MEM\<close>; \<open>chain\<close> is the list they spell.
  The invariant \<open>heap_inv\<close> relates the memory to the free chunks per class and to the blocks the
  clients hold (\<open>live\<close>): all of them are disjoint, aligned and outside the free pages. Every allocation and
  release preserves it, a granted block is large and aligned enough, and no byte of another live
  block changes.
\<close>

section \<open>State and operations\<close>

record heap_state = kmem_state +
  FREE_LISTS :: "nat \<Rightarrow> u64"

text \<open>\<open>core::alloc::Layout\<close>: a size and a power-of-two alignment.\<close>

record layout =
  l_size :: nat
  l_align :: nat

definition layout_ok :: "layout \<Rightarrow> bool" where
  "layout_ok l \<longleftrightarrow> l_size l < 2 ^ 63 \<and> (\<exists>k. l_align l = 2 ^ k)"

definition SIZE_CLASSES :: "nat list" where
  "SIZE_CLASSES = [8, 16, 32, 64, 128, 256, 512, 1024, 2048, 4096]"

definition NUM_CLASSES :: nat where
  "NUM_CLASSES = 10"

fun position :: "('a \<Rightarrow> bool) \<Rightarrow> 'a list \<Rightarrow> nat option" where
  "position P [] = None"
| "position P (x # xs) = (if P x then Some 0 else map_option Suc (position P xs))"

definition class_for :: "layout \<Rightarrow> nat option" where
  "class_for l = (let m = max (max (l_size l) (l_align l)) 8 in position (\<lambda>sz. m \<le> sz) SIZE_CLASSES)"

definition pages_for :: "nat \<Rightarrow> nat" where
  "pages_for bytes = (bytes + PAGE_SIZE - 1) div PAGE_SIZE"

text \<open>The loop that threads the chunks of a fresh page, over the given chunk numbers.\<close>

fun thread_chunks :: "nat \<Rightarrow> u64 \<Rightarrow> nat \<Rightarrow> nat list \<Rightarrow> 'a heap_state_scheme \<Rightarrow> 'a heap_state_scheme" where
  "thread_chunks ci base chunk_size [] s = s"
| "thread_chunks ci base chunk_size (i # is) s =
     (let chunk = base + word_of_nat (i * chunk_size);
          s1 = write_u64 chunk (FREE_LISTS s ci) s
      in thread_chunks ci base chunk_size is (s1\<lparr>FREE_LISTS := (FREE_LISTS s1)(ci := chunk)\<rparr>))"

definition slab_alloc :: "layout \<Rightarrow> 'a heap_state_scheme \<Rightarrow> u64 \<times> 'a heap_state_scheme" where
  "slab_alloc l s =
     (if l_size l = 0 then (word_of_nat (l_align l), s)
      else if PAGE_SIZE < l_size l then
        case alloc_contiguous (pages_for (l_size l)) s of
          Some (phys, s1) \<Rightarrow> (phys_to_virt s1 phys, s1)
        | None \<Rightarrow> (0, s)
      else case class_for l of
          None \<Rightarrow> (0, s)
        | Some ci \<Rightarrow>
            let chunk_size = SIZE_CLASSES ! ci in
            if FREE_LISTS s ci \<noteq> 0 then
              let node = FREE_LISTS s ci
              in (node, s\<lparr>FREE_LISTS := (FREE_LISTS s)(ci := read_u64 s node)\<rparr>)
            else case alloc_page s of
                None \<Rightarrow> (0, s)
              | Some (phys, s1) \<Rightarrow>
                  let base = phys_to_virt s1 phys; count = PAGE_SIZE div chunk_size
                  in (base, thread_chunks ci base chunk_size (rev [1 ..< count]) s1))"

fun free_run_pages :: "u64 \<Rightarrow> nat list \<Rightarrow> 'a pmm_state_scheme \<Rightarrow> 'a pmm_state_scheme" where
  "free_run_pages phys [] s = s"
| "free_run_pages phys (i # is) s = free_run_pages phys is (free_page (phys + word_of_nat (i * PAGE_SIZE)) s)"

definition slab_dealloc :: "u64 \<Rightarrow> layout \<Rightarrow> 'a heap_state_scheme \<Rightarrow> 'a heap_state_scheme" where
  "slab_dealloc ptr l s =
     (if ptr = 0 \<or> l_size l = 0 then s
      else if PAGE_SIZE < l_size l then
        let n = pages_for (l_size l); phys = ptr - hhdm_offset s
        in free_run_pages phys [0 ..< n] s
      else case class_for l of
          None \<Rightarrow> s
        | Some ci \<Rightarrow>
            let s1 = write_u64 ptr (FREE_LISTS s ci) s
            in s1\<lparr>FREE_LISTS := (FREE_LISTS s1)(ci := ptr)\<rparr>)"

section \<open>Size classes\<close>

abbreviation class_size :: "nat \<Rightarrow> nat" where
  "class_size ci \<equiv> SIZE_CLASSES ! ci"

lemma class_size_pow: "ci < 10 \<Longrightarrow> class_size ci = 2 ^ (ci + 3)"
proof -
  assume "ci < 10"
  then have "ci \<in> {0, 1, 2, 3, 4, 5, 6, 7, 8, 9}" by auto
  then show ?thesis by (auto simp: SIZE_CLASSES_def)
qed

lemma class_size_bounds:
  assumes "ci < 10"
  shows "8 \<le> class_size ci" "class_size ci \<le> PAGE_SIZE" "class_size ci dvd PAGE_SIZE"
proof -
  have "(2 :: nat) ^ (ci + 3) dvd 2 ^ 12" using assms by (intro le_imp_power_dvd) simp
  then show dvd: "class_size ci dvd PAGE_SIZE" by (simp add: class_size_pow assms PAGE_SIZE_def)
  show "class_size ci \<le> PAGE_SIZE" using dvd by (rule dvd_imp_le) (simp add: PAGE_SIZE_def)
  have "(2 :: nat) ^ 3 \<le> 2 ^ (ci + 3)" by (rule power_increasing) auto
  then show "8 \<le> class_size ci" by (simp add: class_size_pow assms)
qed

lemma class_size_inj: "ci < 10 \<Longrightarrow> cj < 10 \<Longrightarrow> class_size ci = class_size cj \<Longrightarrow> ci = cj"
  by (simp add: class_size_pow)

lemma position_SomeD:
  "position P xs = Some i \<Longrightarrow> i < length xs \<and> P (xs ! i) \<and> (\<forall>j < i. \<not> P (xs ! j))"
proof (induction xs arbitrary: i)
  case Nil
  then show ?case by simp
next
  case (Cons x xs)
  then show ?case by (auto split: if_splits simp: less_Suc_eq_0_disj)
qed

lemma position_None: "position P xs = None \<longleftrightarrow> (\<forall>x \<in> set xs. \<not> P x)"
  by (induction xs) auto

lemma class_for_Some:
  assumes "class_for l = Some ci"
  shows "ci < 10" "l_size l \<le> class_size ci" "l_align l \<le> class_size ci"
proof -
  have "position (\<lambda>sz. max (max (l_size l) (l_align l)) 8 \<le> sz) SIZE_CLASSES = Some ci"
    using assms by (simp only: class_for_def Let_def)
  then have "ci < length SIZE_CLASSES \<and> max (max (l_size l) (l_align l)) 8 \<le> class_size ci"
    using position_SomeD by metis
  moreover have "length SIZE_CLASSES = 10" by (simp add: SIZE_CLASSES_def)
  ultimately show "ci < 10" "l_size l \<le> class_size ci" "l_align l \<le> class_size ci" by auto
qed

lemma class_for_None: "class_for l = None \<longleftrightarrow> PAGE_SIZE < l_size l \<or> PAGE_SIZE < l_align l"
proof -
  have "4096 \<in> set SIZE_CLASSES" "\<forall>x \<in> set SIZE_CLASSES. x \<le> 4096" by (simp_all add: SIZE_CLASSES_def)
  then have "(\<forall>x \<in> set SIZE_CLASSES. \<not> m \<le> x) \<longleftrightarrow> 4096 < m" for m by fastforce
  note k = this [of "max (max (l_size l) (l_align l)) 8"]
  show ?thesis unfolding class_for_def Let_def position_None k PAGE_SIZE_def by auto
qed

section \<open>Blocks and chains\<close>

text \<open>A block is its start address and its length.\<close>

type_synonym block = "nat \<times> nat"

definition span :: "block \<Rightarrow> nat set" where
  "span b = {fst b ..< fst b + snd b}"

fun chain :: "'a heap_state_scheme \<Rightarrow> u64 \<Rightarrow> u64 list \<Rightarrow> bool" where
  "chain s p [] \<longleftrightarrow> p = 0"
| "chain s p (x # xs) \<longleftrightarrow> p = x \<and> x \<noteq> 0 \<and> chain s (read_u64 s x) xs"

definition free_blocks :: "(nat \<Rightarrow> u64 list) \<Rightarrow> block set" where
  "free_blocks L = (\<Union>ci < 10. (\<lambda>p. (unat p, class_size ci)) ` set (L ci))"

definition block_ok :: "'a kmem_state_scheme \<Rightarrow> block \<Rightarrow> bool" where
  "block_ok s b \<longleftrightarrow>
     (\<exists>p k. p < MAX_PAGES \<and> snd b dvd PAGE_SIZE \<and> 8 \<le> snd b \<and> k * snd b + snd b \<le> PAGE_SIZE \<and>
        fst b = page_base s p + k * snd b) \<or>
     (\<exists>p m. snd b = m * PAGE_SIZE \<and> 0 < m \<and> p + m \<le> MAX_PAGES \<and> fst b = page_base s p)"

definition free_bytes :: "'a kmem_state_scheme \<Rightarrow> nat set" where
  "free_bytes s = (\<Union>p \<in> free_set s. {page_base s p ..< page_base s p + PAGE_SIZE})"

definition disjoint_blocks :: "block set \<Rightarrow> bool" where
  "disjoint_blocks B \<longleftrightarrow> (\<forall>b \<in> B. \<forall>c \<in> B. b \<noteq> c \<longrightarrow> span b \<inter> span c = {})"

definition heap_inv :: "'a heap_state_scheme \<Rightarrow> (nat \<Rightarrow> u64 list) \<Rightarrow> block set \<Rightarrow> bool" where
  "heap_inv s L live \<longleftrightarrow> hhdm_ok s \<and>
     (\<forall>ci < 10. chain s (FREE_LISTS s ci) (L ci) \<and> distinct (L ci)) \<and>
     free_blocks L \<inter> live = {} \<and> disjoint_blocks (free_blocks L \<union> live) \<and>
     (\<forall>b \<in> free_blocks L \<union> live. block_ok s b \<and> span b \<inter> free_bytes s = {})"

lemma chain_cong:
  assumes "\<And>x a. x \<in> set xs \<Longrightarrow> unat x \<le> a \<Longrightarrow> a < unat x + 8 \<Longrightarrow> MEM s' a = MEM s a"
  shows "chain s' p xs = chain s p xs"
  using assms
proof (induction xs arbitrary: p)
  case Nil
  then show ?case by simp
next
  case (Cons x xs)
  have "read_u64 s' x = read_u64 s x" using Cons.prems by (intro read_u64_cong) auto
  moreover have "chain s' q xs = chain s q xs" for q using Cons.prems by (intro Cons.IH) auto
  ultimately show ?case by simp
qed

lemma chain_field [simp]: "chain (s\<lparr>FREE_LISTS := f\<rparr>) p xs = chain s p xs"
  by (intro chain_cong) simp

lemma block_ok_pos: "block_ok s b \<Longrightarrow> 0 < snd b"
  by (auto simp: block_ok_def PAGE_SIZE_def)

lemma block_ok_cong: "HHDM_OFFSET s' = HHDM_OFFSET s \<Longrightarrow> block_ok s' b = block_ok s b"
  by (simp add: block_ok_def)

lemma free_bytes_cong:
  "HHDM_OFFSET s' = HHDM_OFFSET s \<Longrightarrow> free_set s' = free_set s \<Longrightarrow> free_bytes s' = free_bytes s"
  by (simp add: free_bytes_def)

lemma free_bytes_mono:
  "HHDM_OFFSET s' = HHDM_OFFSET s \<Longrightarrow> free_set s' \<subseteq> free_set s \<Longrightarrow> free_bytes s' \<subseteq> free_bytes s"
  by (auto simp: free_bytes_def)

lemma heap_fields [simp]:
  "HHDM_OFFSET (s\<lparr>FREE_LISTS := f\<rparr>) = HHDM_OFFSET s" "MEM (s\<lparr>FREE_LISTS := f\<rparr>) = MEM s"
  "free_set (s\<lparr>FREE_LISTS := f\<rparr>) = free_set s" "hhdm_ok (s\<lparr>FREE_LISTS := f\<rparr>) = hhdm_ok s"
  "block_ok (s\<lparr>FREE_LISTS := f\<rparr>) b = block_ok s b" "free_bytes (s\<lparr>FREE_LISTS := f\<rparr>) = free_bytes s"
  "read_u64 (s\<lparr>FREE_LISTS := f\<rparr>) p = read_u64 s p"
  by (simp_all add: free_set_def is_used_def hhdm_ok_def block_ok_def free_bytes_def read_u64_def)

text \<open>Replacing the chunks of one class.\<close>

definition other_blocks :: "(nat \<Rightarrow> u64 list) \<Rightarrow> nat \<Rightarrow> block set" where
  "other_blocks L ci = (\<Union>cj \<in> {..< 10} - {ci}. (\<lambda>p. (unat p, class_size cj)) ` set (L cj))"

lemma free_blocks_upd:
  assumes "ci < 10"
  shows "free_blocks (L(ci := xs)) = (\<lambda>p. (unat p, class_size ci)) ` set xs \<union> other_blocks L ci"
proof -
  have "{..< 10} = insert ci ({..< 10} - {ci})" using assms by auto
  then have "free_blocks (L(ci := xs)) =
      (\<Union>cj \<in> insert ci ({..< 10} - {ci}). (\<lambda>p. (unat p, class_size cj)) ` set ((L(ci := xs)) cj))"
    unfolding free_blocks_def by simp
  moreover have "(\<Union>cj \<in> {..< 10} - {ci}. (\<lambda>p. (unat p, class_size cj)) ` set ((L(ci := xs)) cj)) =
      other_blocks L ci"
    unfolding other_blocks_def by (intro SUP_cong) auto
  ultimately show ?thesis by (simp only: UN_insert fun_upd_same)
qed

lemma free_blocks_at: "ci < 10 \<Longrightarrow> free_blocks L = (\<lambda>p. (unat p, class_size ci)) ` set (L ci) \<union> other_blocks L ci"
  using free_blocks_upd [of ci L "L ci"] by simp

lemma not_in_other_blocks: "ci < 10 \<Longrightarrow> (a, class_size ci) \<notin> other_blocks L ci"
  by (auto simp: other_blocks_def dest: class_size_inj)

lemma free_blocks_pop:
  assumes "ci < 10" "L ci = x # xs" "distinct (L ci)"
  shows "free_blocks L = insert (unat x, class_size ci) (free_blocks (L(ci := xs)))"
    "(unat x, class_size ci) \<notin> free_blocks (L(ci := xs))"
  using assms not_in_other_blocks [OF assms(1)]
  by (auto simp: free_blocks_upd [OF assms(1)] free_blocks_at [OF assms(1), of L] unat_eq_iff)

lemma free_blocks_push:
  assumes "ci < 10"
  shows "free_blocks (L(ci := x # L ci)) = insert (unat x, class_size ci) (free_blocks L)"
  using assms by (simp add: free_blocks_upd free_blocks_at [OF assms, of L])

section \<open>Popping and pushing a chunk\<close>

lemma heap_inv_pop:
  assumes inv: "heap_inv s L live" and ci: "ci < 10" and L: "L ci = x # xs"
  shows "heap_inv (s\<lparr>FREE_LISTS := (FREE_LISTS s)(ci := read_u64 s x)\<rparr>) (L(ci := xs))
      (insert (unat x, class_size ci) live)"
    and "(unat x, class_size ci) \<notin> live" and "x \<noteq> 0"
proof -
  have c: "chain s (FREE_LISTS s cj) (L cj)" "distinct (L cj)" if "cj < 10" for cj
    using inv that by (auto simp: heap_inv_def)
  note pop = free_blocks_pop [of ci L x xs, OF ci L c(2) [OF ci]]
  have all: "free_blocks (L(ci := xs)) \<union> insert (unat x, class_size ci) live = free_blocks L \<union> live"
    using pop by auto
  have x: "(unat x, class_size ci) \<in> free_blocks L" using pop by simp
  then show notl: "(unat x, class_size ci) \<notin> live" using inv by (auto simp: heap_inv_def)
  have "free_blocks (L(ci := xs)) \<inter> insert (unat x, class_size ci) live = {}"
    using pop inv by (auto simp: heap_inv_def)
  then show "heap_inv (s\<lparr>FREE_LISTS := (FREE_LISTS s)(ci := read_u64 s x)\<rparr>) (L(ci := xs))
      (insert (unat x, class_size ci) live)"
    using inv c c(1,2) [OF ci] L unfolding heap_inv_def all by auto
  show "x \<noteq> 0" using c(1) [OF ci] L by simp
qed

lemma span_first_word: "8 \<le> n \<Longrightarrow> {a ..< a + 8} \<subseteq> span (a, n)"
  by (auto simp: span_def)

lemma block_start: "hhdm_ok s \<Longrightarrow> block_ok s b \<Longrightarrow> 0 < fst b"
  by (auto simp: block_ok_def hhdm_ok_def)

lemma heap_inv_apart:
  assumes "heap_inv s L live" "b \<in> free_blocks L" "c \<in> live"
  shows "span b \<inter> span c = {}"
proof -
  have "b \<noteq> c" using assms by (auto simp: heap_inv_def)
  moreover have "disjoint_blocks (free_blocks L \<union> live)" using assms(1) by (simp add: heap_inv_def)
  ultimately show ?thesis using assms(2,3) by (simp add: disjoint_blocks_def)
qed

lemma heap_inv_push:
  assumes inv: "heap_inv s L live" and ci: "ci < 10" and x: "(unat x, class_size ci) \<in> live"
    and s': "s' = (write_u64 x (FREE_LISTS s ci) s)\<lparr>FREE_LISTS := (FREE_LISTS s)(ci := x)\<rparr>"
  shows "heap_inv s' (L(ci := x # L ci)) (live - {(unat x, class_size ci)})"
    and "a \<notin> span (unat x, class_size ci) \<Longrightarrow> MEM s' a = MEM s a"
proof -
  let ?b = "(unat x, class_size ci)"
  have c: "chain s (FREE_LISTS s cj) (L cj)" "distinct (L cj)" if "cj < 10" for cj
    using inv that by (auto simp: heap_inv_def)
  have fb: "free_blocks L \<inter> live = {}" using inv by (simp add: heap_inv_def)
  have m8: "MEM s' a = MEM s a" if "a \<notin> {unat x ..< unat x + 8}" for a
    using that by (auto simp: s' write_u64_def put_bytes_def)
  have w: "{unat x ..< unat x + 8} \<subseteq> span ?b"
    using span_first_word [OF class_size_bounds(1) [OF ci]] .
  show mem: "MEM s' a = MEM s a" if "a \<notin> span ?b" for a
    using m8 [of a] subsetD [OF w, of a] that by fast
  have other: "chain s' q (L cj) = chain s q (L cj)" if "cj < 10" for q cj
  proof (rule chain_cong)
    fix y a assume y: "y \<in> set (L cj)" "unat y \<le> a" "a < unat y + 8"
    have yb: "(unat y, class_size cj) \<in> free_blocks L" using y(1) that by (auto simp: free_blocks_def)
    then have "span (unat y, class_size cj) \<inter> span ?b = {}"
      using heap_inv_apart [OF inv _ x] by simp
    moreover have "a \<in> span (unat y, class_size cj)"
      using y(2,3) class_size_bounds(1) [OF that] by (simp add: span_def)
    ultimately show "MEM s' a = MEM s a" by (intro mem) blast
  qed
  have "block_ok s ?b" using inv x by (auto simp: heap_inv_def)
  then have "x \<noteq> 0" using block_start [of s ?b] inv by (auto simp: heap_inv_def)
  then have cx: "chain s' x (x # L ci)"
    using other [OF ci] c(1) [OF ci] by (simp add: s')
  have dx: "distinct (x # L ci)" using fb x ci c(2) by (auto simp: free_blocks_def)
  have all: "free_blocks (L(ci := x # L ci)) \<union> (live - {?b}) = free_blocks L \<union> live"
    and dis: "free_blocks (L(ci := x # L ci)) \<inter> (live - {?b}) = {}"
    using x fb unfolding free_blocks_push [OF ci] by auto
  have same: "block_ok s' b = block_ok s b" "free_bytes s' = free_bytes s" "hhdm_ok s' = hhdm_ok s" for b
    by (simp_all add: s' block_ok_def free_bytes_def hhdm_ok_def)
  have fl: "FREE_LISTS s' = (FREE_LISTS s)(ci := x)" by (simp add: s')
  have chains: "chain s' (FREE_LISTS s' cj) ((L(ci := x # L ci)) cj) \<and> distinct ((L(ci := x # L ci)) cj)"
    if "cj < 10" for cj
    using cx dx c [OF that] other [OF that] by (cases "cj = ci") (simp_all add: fl del: chain.simps)
  show "heap_inv s' (L(ci := x # L ci)) (live - {?b})"
    using inv chains dis unfolding heap_inv_def all same by blast
qed

section \<open>Adding and removing whole blocks\<close>

lemma write_u64_FREE_LISTS [simp]: "FREE_LISTS (write_u64 p v s) = FREE_LISTS s"
  by (simp add: write_u64_def)

lemma set_used_FREE_LISTS [simp]: "FREE_LISTS (set_used p s) = FREE_LISTS s"
  by (simp add: set_used_def)

lemma set_free_heap [simp]:
  "FREE_LISTS (set_free p s) = FREE_LISTS s" "MEM (set_free p s) = MEM s"
  "HHDM_OFFSET (set_free p s) = HHDM_OFFSET s"
  by (simp_all add: set_free_def)

lemma alloc_page_FREE_LISTS: "alloc_page s = Some (a, s') \<Longrightarrow> FREE_LISTS s' = FREE_LISTS s"
  by (erule alloc_page_SomeD) simp

lemma alloc_contiguous_FREE_LISTS: "alloc_contiguous n s = Some (a, s') \<Longrightarrow> FREE_LISTS s' = FREE_LISTS s"
proof -
  have "FREE_LISTS (fold set_used ps s) = FREE_LISTS s" for ps
    by (induction ps arbitrary: s) simp_all
  then show "alloc_contiguous n s = Some (a, s') \<Longrightarrow> FREE_LISTS s' = FREE_LISTS s"
    by (auto simp: alloc_contiguous_def Let_def split: option.splits)
qed

lemma disjoint_blocks_Un:
  assumes "disjoint_blocks A" "disjoint_blocks B" "\<And>a b. a \<in> A \<Longrightarrow> b \<in> B \<Longrightarrow> span a \<inter> span b = {}"
  shows "disjoint_blocks (A \<union> B)"
  using assms unfolding disjoint_blocks_def by (metis Int_commute Un_iff)

lemma disjoint_blocks_mono: "disjoint_blocks A \<Longrightarrow> B \<subseteq> A \<Longrightarrow> disjoint_blocks B"
  unfolding disjoint_blocks_def by blast

lemma heap_inv_add:
  assumes inv: "heap_inv s L live" and N: "disjoint_blocks N"
    "\<And>b. b \<in> N \<Longrightarrow> block_ok s b \<and> span b \<subseteq> free_bytes s \<and> span b \<inter> free_bytes s1 = {}"
    and s1: "HHDM_OFFSET s1 = HHDM_OFFSET s" "MEM s1 = MEM s" "FREE_LISTS s1 = FREE_LISTS s"
      "free_set s1 \<subseteq> free_set s"
  shows "heap_inv s1 L (live \<union> N)" "live \<inter> N = {}"
proof -
  let ?B = "free_blocks L \<union> live"
  have old: "block_ok s b" "span b \<inter> free_bytes s = {}" if "b \<in> ?B" for b
    using inv that by (auto simp: heap_inv_def)
  have apart: "span b \<inter> span c = {}" if "b \<in> ?B" "c \<in> N" for b c
    using old(2) [OF that(1)] N(2) [OF that(2)] by blast
  have ne: "?B \<inter> N = {}"
  proof -
    have "b \<notin> N" if "b \<in> ?B" for b
      using apart [OF that, of b] block_ok_pos [OF old(1) [OF that]] by (auto simp: span_def)
    then show ?thesis by blast
  qed
  then show "live \<inter> N = {}" by blast
  have "disjoint_blocks ?B" using inv by (simp add: heap_inv_def)
  then have d: "disjoint_blocks (?B \<union> N)" using N(1) apart by (rule disjoint_blocks_Un)
  have chains: "chain s1 p xs = chain s p xs" for p xs by (rule chain_cong) (simp add: s1(2))
  have ok: "block_ok s1 b \<and> span b \<inter> free_bytes s1 = {}" if "b \<in> ?B \<union> N" for b
    using that old N(2) free_bytes_mono [OF s1(1,4)] block_ok_cong [OF s1(1), of b] by blast
  have un: "free_blocks L \<union> (live \<union> N) = ?B \<union> N" by blast
  show "heap_inv s1 L (live \<union> N)"
    using inv ne d ok hhdm_ok_cong [OF s1(1)] unfolding heap_inv_def un chains s1(3) by blast
qed

lemma heap_inv_drop_block:
  assumes inv: "heap_inv s L live" and b: "b \<in> live"
    and s1: "HHDM_OFFSET s1 = HHDM_OFFSET s" "MEM s1 = MEM s" "FREE_LISTS s1 = FREE_LISTS s"
      "free_bytes s1 \<subseteq> free_bytes s \<union> span b"
  shows "heap_inv s1 L (live - {b})"
proof -
  have chains: "chain s1 p xs = chain s p xs" for p xs by (rule chain_cong) (simp add: s1(2))
  have d: "disjoint_blocks (free_blocks L \<union> live)" and fb: "free_blocks L \<inter> live = {}"
    using inv by (auto simp: heap_inv_def)
  have ok: "block_ok s1 c \<and> span c \<inter> free_bytes s1 = {}" if "c \<in> free_blocks L \<union> (live - {b})" for c
  proof -
    have "c \<noteq> b" using that b fb by blast
    then have "span c \<inter> span b = {}" using d that b unfolding disjoint_blocks_def by blast
    moreover have "block_ok s c" "span c \<inter> free_bytes s = {}" using inv that by (auto simp: heap_inv_def)
    ultimately show ?thesis using s1(4) block_ok_cong [OF s1(1), of c] by blast
  qed
  have "disjoint_blocks (free_blocks L \<union> (live - {b}))" using d unfolding disjoint_blocks_def by blast
  then show ?thesis
    using inv ok fb hhdm_ok_cong [OF s1(1)] unfolding heap_inv_def chains s1(3) by blast
qed

section \<open>Refilling a class from a fresh page\<close>

definition chunk_at :: "'a kmem_state_scheme \<Rightarrow> nat \<Rightarrow> nat \<Rightarrow> nat \<Rightarrow> block" where
  "chunk_at s q sz k = (page_base s q + k * sz, sz)"

lemma chunk_fits: "k < PAGE_SIZE div sz \<Longrightarrow> k * sz + sz \<le> PAGE_SIZE"
proof -
  assume "k < PAGE_SIZE div sz"
  then have "Suc k * sz \<le> PAGE_SIZE div sz * sz" by (intro mult_le_mono1) simp
  also have "\<dots> \<le> PAGE_SIZE" by (rule div_times_less_eq_dividend)
  finally show ?thesis by simp
qed

lemma page_of_unique:
  assumes "a \<in> {page_base s p ..< page_base s p + PAGE_SIZE}" "a \<in> {page_base s q ..< page_base s q + PAGE_SIZE}"
  shows "p = q"
proof -
  obtain j k where "a = page_base s p + j" "j < PAGE_SIZE" "a = page_base s q + k" "k < PAGE_SIZE"
    using assms by (metis atLeastLessThan_iff le_Suc_ex nat_add_left_cancel_less)
  then show ?thesis using page_offset_inj(1) [of p j q k] by simp
qed

lemma not_in_free_bytes:
  assumes "q \<notin> free_set s" "a \<in> {page_base s q ..< page_base s q + PAGE_SIZE}"
  shows "a \<notin> free_bytes s"
proof
  assume "a \<in> free_bytes s"
  then obtain p where "p \<in> free_set s" "a \<in> {page_base s p ..< page_base s p + PAGE_SIZE}"
    by (auto simp: free_bytes_def)
  then show False using page_of_unique [OF _ assms(2)] assms(1) by blast
qed

lemma chunk_blocks:
  assumes "ci < 10" "q \<in> free_set s" "free_set s1 = free_set s - {q}" "HHDM_OFFSET s1 = HHDM_OFFSET s"
  defines "N \<equiv> chunk_at s q (class_size ci) ` {..< PAGE_SIZE div class_size ci}"
  shows "disjoint_blocks N"
    "\<And>b. b \<in> N \<Longrightarrow> block_ok s b \<and> span b \<subseteq> free_bytes s \<and> span b \<inter> free_bytes s1 = {}"
proof -
  let ?sz = "class_size ci"
  have far: "k * ?sz + ?sz \<le> l * ?sz" if "k < l" for k l
    using mult_le_mono1 [of "Suc k" l ?sz] that by simp
  show "disjoint_blocks N"
    unfolding disjoint_blocks_def
  proof (intro ballI impI)
    fix b c assume "b \<in> N" "c \<in> N" "b \<noteq> c"
    then obtain k l where kl: "b = chunk_at s q ?sz k" "c = chunk_at s q ?sz l" "k \<noteq> l" by (auto simp: N_def)
    then consider "k < l" | "l < k" by linarith
    then show "span b \<inter> span c = {}"
      using far [of k l] far [of l k] kl by cases (auto simp: span_def chunk_at_def)
  qed
  fix b assume "b \<in> N"
  then obtain k where k: "b = chunk_at s q ?sz k" "k < PAGE_SIZE div ?sz" by (auto simp: N_def)
  note fit = chunk_fits [OF k(2)]
  have "block_ok s b"
    unfolding block_ok_def using class_size_bounds [OF assms(1)] free_set_less [OF assms(2)] fit k(1)
    by (intro disjI1 exI [of _ q] exI [of _ k]) (simp add: chunk_at_def)
  moreover have sub: "span b \<subseteq> {page_base s q ..< page_base s q + PAGE_SIZE}"
    using fit k(1) by (auto simp: span_def chunk_at_def)
  then have "span b \<subseteq> free_bytes s" using assms(2) by (auto simp: free_bytes_def)
  moreover have "span b \<inter> free_bytes s1 = {}"
    using sub not_in_free_bytes [of q s1] assms(3,4) by auto
  ultimately show "block_ok s b \<and> span b \<subseteq> free_bytes s \<and> span b \<inter> free_bytes s1 = {}" by simp
qed

text \<open>Threading the chunks is a sequence of pushes.\<close>

lemma thread_chunks_inv:
  assumes "heap_inv s L (live \<union> chunk_at s q (class_size ci) ` set is)" "ci < 10"
    and "live \<inter> chunk_at s q (class_size ci) ` set is = {}" "distinct is"
    and "\<And>i. i \<in> set is \<Longrightarrow> unat (base + word_of_nat (i * class_size ci)) = page_base s q + i * class_size ci"
    and "\<And>i. i \<in> set is \<Longrightarrow> i < PAGE_SIZE div class_size ci"
  shows "\<exists>L'. heap_inv (thread_chunks ci base (class_size ci) is s) L' live \<and>
    (\<forall>a. a \<notin> {page_base s q ..< page_base s q + PAGE_SIZE} \<longrightarrow>
       MEM (thread_chunks ci base (class_size ci) is s) a = MEM s a)"
  using assms
proof (induction "is" arbitrary: s L)
  case Nil
  then show ?case by auto
next
  case (Cons i "is")
  let ?sz = "class_size ci"
  let ?x = "base + word_of_nat (i * ?sz)"
  let ?b = "chunk_at s q ?sz i"
  define s1 where "s1 = (write_u64 ?x (FREE_LISTS s ci) s)\<lparr>FREE_LISTS := (FREE_LISTS s)(ci := ?x)\<rparr>"
  have x: "(unat ?x, ?sz) = ?b" using Cons.prems(5) [of i] by (simp add: chunk_at_def)
  have "(unat ?x, ?sz) \<in> live \<union> chunk_at s q ?sz ` set (i # is)" unfolding x by simp
  note push = heap_inv_push [OF Cons.prems(1,2) this s1_def]
  have h: "HHDM_OFFSET s1 = HHDM_OFFSET s" by (simp add: s1_def)
  have sz: "0 < ?sz" using class_size_bounds(1) [OF Cons.prems(2)] by simp
  then have "?b \<notin> chunk_at s q ?sz ` set is" using Cons.prems(4) by (auto simp: chunk_at_def)
  moreover have "?b \<notin> live" using Cons.prems(3) by auto
  ultimately have "(live \<union> chunk_at s q ?sz ` set (i # is)) - {?b} = live \<union> chunk_at s1 q ?sz ` set is"
    by (auto simp: chunk_at_def h)
  then have inv1: "heap_inv s1 (L(ci := ?x # L ci)) (live \<union> chunk_at s1 q ?sz ` set is)"
    using push(1) x by simp
  have "\<exists>L'. heap_inv (thread_chunks ci base ?sz is s1) L' live \<and>
      (\<forall>a. a \<notin> {page_base s1 q ..< page_base s1 q + PAGE_SIZE} \<longrightarrow>
         MEM (thread_chunks ci base ?sz is s1) a = MEM s1 a)"
    using Cons.prems by (intro Cons.IH [OF inv1]) (auto simp: chunk_at_def h)
  moreover have "MEM s1 a = MEM s a" if "a \<notin> {page_base s q ..< page_base s q + PAGE_SIZE}" for a
    using push(2) [of a] that chunk_fits [OF Cons.prems(6) [of i]] x by (auto simp: span_def chunk_at_def)
  moreover have "thread_chunks ci base ?sz (i # is) s = thread_chunks ci base ?sz is s1"
    by (simp add: Let_def s1_def)
  ultimately show ?case by (metis h)
qed

lemma chunk_addr:
  assumes "hhdm_ok s" "q < MAX_PAGES" "k < PAGE_SIZE div class_size ci"
  shows "unat (phys_to_virt s (page_addr q) + word_of_nat (k * class_size ci)) =
    page_base s q + k * class_size ci"
proof -
  let ?o = "k * class_size ci"
  have o: "?o \<le> PAGE_SIZE" using chunk_fits [OF assms(3)] by simp
  then have u: "unat (word_of_nat ?o :: u64) = ?o" by (intro unat_u64_of_nat) (simp add: PAGE_SIZE_def)
  have "unat (phys_to_virt s (page_addr q)) + ?o < 2 ^ 64"
    using assms(1,2) o by (simp add: unat_phys_to_virt_page hhdm_ok_def MAX_PAGES_def PAGE_SIZE_def)
  then have "unat (phys_to_virt s (page_addr q) + word_of_nat ?o) = unat (phys_to_virt s (page_addr q)) + ?o"
    using u unat_add_u64 [of "phys_to_virt s (page_addr q)" "word_of_nat ?o"] by simp
  then show ?thesis using unat_phys_to_virt_page [OF assms(1,2)] by simp
qed

lemma refill:
  assumes inv: "heap_inv s L live" and ci: "ci < 10"
    and al: "alloc_page s = Some (page_addr q, s1)" "q \<in> free_set s" "free_set s1 = free_set s - {q}"
    and base: "base = phys_to_virt s1 (page_addr q)"
    and s': "s' = thread_chunks ci base (class_size ci) (rev [1 ..< PAGE_SIZE div class_size ci]) s1"
  shows "\<exists>L'. heap_inv s' L' (insert (unat base, class_size ci) live)"
    and "(unat base, class_size ci) \<notin> live"
    and "\<forall>a. a \<notin> {page_base s q ..< page_base s q + PAGE_SIZE} \<longrightarrow> MEM s' a = MEM s a"
proof -
  let ?sz = "class_size ci" and ?n = "PAGE_SIZE div class_size ci"
  note k = alloc_page_kmem [OF al(1)]
  have h: "hhdm_ok s1" using inv hhdm_ok_cong [OF k(1)] by (auto simp: heap_inv_def)
  have q: "q < MAX_PAGES" using al(2) by (rule free_set_less)
  note N = chunk_blocks [OF ci al(2,3) k(1)]
  have inv1: "heap_inv s1 L (live \<union> chunk_at s q ?sz ` {..< ?n})"
    and new: "live \<inter> chunk_at s q ?sz ` {..< ?n} = {}"
    using heap_inv_add [OF inv N k(1,2) alloc_page_FREE_LISTS [OF al(1)]] al(3) by auto
  have n0: "0 < ?n" using class_size_bounds [OF ci] by (simp add: div_greater_zero_iff)
  have b0: "chunk_at s q ?sz 0 = (unat base, ?sz)"
    using unat_phys_to_virt_page [OF h q] by (simp add: chunk_at_def base k)
  show notl: "(unat base, ?sz) \<notin> live" using new n0 unfolding b0 [symmetric] by blast
  have c: "chunk_at s q ?sz = chunk_at s1 q ?sz" by (simp add: chunk_at_def k fun_eq_iff)
  have split: "{..< ?n} = insert 0 (set (rev [1 ..< ?n]))" using n0 by auto
  have "live \<union> chunk_at s q ?sz ` {..< ?n} =
      insert (unat base, ?sz) live \<union> chunk_at s1 q ?sz ` set (rev [1 ..< ?n])"
    unfolding split image_insert b0 c [symmetric] by blast
  then have inv2: "heap_inv s1 L (insert (unat base, ?sz) live \<union> chunk_at s1 q ?sz ` set (rev [1 ..< ?n]))"
    using inv1 by simp
  have "(unat base, ?sz) \<notin> chunk_at s1 q ?sz ` set (rev [1 ..< ?n])"
    using class_size_bounds(1) [OF ci] unfolding b0 [symmetric] c by (auto simp: chunk_at_def)
  moreover have "live \<inter> chunk_at s1 q ?sz ` set (rev [1 ..< ?n]) = {}"
    using new unfolding split image_insert c by blast
  ultimately have dis: "insert (unat base, ?sz) live \<inter> chunk_at s1 q ?sz ` set (rev [1 ..< ?n]) = {}" by blast
  have th: "\<exists>L'. heap_inv s' L' (insert (unat base, ?sz) live) \<and>
      (\<forall>a. a \<notin> {page_base s1 q ..< page_base s1 q + PAGE_SIZE} \<longrightarrow> MEM s' a = MEM s1 a)"
    unfolding s' using chunk_addr [OF h q] unfolding base [symmetric]
    by (intro thread_chunks_inv [OF inv2 ci dis]) auto
  then show "\<exists>L'. heap_inv s' L' (insert (unat base, ?sz) live)" by blast
  show "\<forall>a. a \<notin> {page_base s q ..< page_base s q + PAGE_SIZE} \<longrightarrow> MEM s' a = MEM s a"
    using th by (simp add: k)
qed

section \<open>Runs of pages\<close>

lemma run_bytes:
  "{page_base s i ..< page_base s i + n * PAGE_SIZE} =
     (\<Union>p \<in> {i ..< i + n}. {page_base s p ..< page_base s p + PAGE_SIZE})"
proof (induction n)
  case 0
  then show ?case by simp
next
  case (Suc n)
  have "{page_base s i ..< page_base s i + Suc n * PAGE_SIZE} =
      {page_base s i ..< page_base s i + n * PAGE_SIZE} \<union>
      {page_base s (i + n) ..< page_base s (i + n) + PAGE_SIZE}"
    by (auto simp: algebra_simps)
  moreover have "{i ..< i + Suc n} = insert (i + n) {i ..< i + n}" by auto
  ultimately show ?case using Suc by (simp add: Un_commute)
qed

lemma run_blocks:
  assumes "free_run s i n" "0 < n" "free_set s1 = free_set s - {i ..< i + n}" "HHDM_OFFSET s1 = HHDM_OFFSET s"
  defines "b \<equiv> (page_base s i, n * PAGE_SIZE)"
  shows "block_ok s b \<and> span b \<subseteq> free_bytes s \<and> span b \<inter> free_bytes s1 = {}"
proof -
  have pages: "p \<in> free_set s" if "p \<in> {i ..< i + n}" for p
    using assms(1) that le_Suc_ex [of i p] by (auto simp: free_run_def free_set_def)
  have "block_ok s b"
    using assms(1,2) unfolding block_ok_def free_run_def b_def
    by (intro disjI2 exI [of _ i] exI [of _ n]) simp
  moreover have "span b \<subseteq> free_bytes s"
    using pages unfolding span_def b_def fst_conv snd_conv run_bytes free_bytes_def by blast
  moreover have "a \<notin> free_bytes s1" if a: "a \<in> span b" for a
  proof -
    obtain p where "p \<in> {i ..< i + n}" "a \<in> {page_base s1 p ..< page_base s1 p + PAGE_SIZE}"
      using a unfolding span_def b_def fst_conv snd_conv run_bytes by (auto simp: assms(4))
    then show ?thesis using not_in_free_bytes [of p s1 a] assms(3) by blast
  qed
  ultimately show ?thesis by blast
qed

lemma free_page_addr:
  assumes "p < MAX_PAGES"
  shows "free_page (page_addr p) s = (set_free p s)\<lparr>FREE_PAGES := FREE_PAGES s + 1\<rparr>"
  using unat_page_addr [OF assms] assms by (simp add: free_page_def PAGE_SIZE_def Let_def)

lemma free_run_pages_fields:
  assumes "\<And>i. i \<in> set is \<Longrightarrow> p + i < MAX_PAGES"
  shows "free_set (free_run_pages (page_addr p) is s) = free_set s \<union> (\<lambda>i. p + i) ` set is \<and>
    MEM (free_run_pages (page_addr p) is s) = MEM s \<and>
    HHDM_OFFSET (free_run_pages (page_addr p) is s) = HHDM_OFFSET s \<and>
    FREE_LISTS (free_run_pages (page_addr p) is s) = FREE_LISTS s"
  using assms
proof (induction "is" arbitrary: s)
  case Nil
  then show ?case by simp
next
  case (Cons i "is")
  define s1 where "s1 = free_page (page_addr (p + i)) s"
  have pm: "p + i < MAX_PAGES" using Cons.prems by simp
  have "page_addr p + word_of_nat (i * PAGE_SIZE) = page_addr (p + i)"
    by (simp add: page_addr_def algebra_simps)
  then have "free_run_pages (page_addr p) (i # is) s = free_run_pages (page_addr p) is s1"
    by (simp add: s1_def)
  moreover have "free_set s1 = insert (p + i) (free_set s)" "MEM s1 = MEM s"
    "HHDM_OFFSET s1 = HHDM_OFFSET s" "FREE_LISTS s1 = FREE_LISTS s"
    using pm by (simp_all add: s1_def free_page_addr free_set_set_free)
  ultimately show ?case using Cons.IH [of s1] Cons.prems by auto
qed

lemma block_aligned:
  assumes "hhdm_ok s" "block_ok s b" "2 ^ k dvd snd b" "2 ^ k \<le> PAGE_SIZE"
  shows "2 ^ k dvd fst b"
proof -
  have "k \<le> 12" using power_le_imp_le_exp [of "2 :: nat" k 12] assms(4) by (simp add: PAGE_SIZE_def)
  then have kp: "2 ^ k dvd PAGE_SIZE" using le_imp_power_dvd [of k 12 "2 :: nat"] by (simp add: PAGE_SIZE_def)
  have "PAGE_SIZE dvd unat (HHDM_OFFSET s)" using assms(1) by (simp add: hhdm_ok_def mod_eq_0_iff_dvd)
  then have "2 ^ k dvd page_base s p" for p using kp by (meson dvd_add dvd_mult dvd_trans)
  then show ?thesis using assms(2,3) unfolding block_ok_def by (auto intro: dvd_add)
qed

definition granted :: "layout \<Rightarrow> nat" where
  "granted l = (if PAGE_SIZE < l_size l then pages_for (l_size l) * PAGE_SIZE
                else class_size (the (class_for l)))"

lemma pages_for_bounds: "0 < n \<Longrightarrow> n \<le> pages_for n * PAGE_SIZE \<and> 0 < pages_for n"
  by (simp add: pages_for_def PAGE_SIZE_def) linarith

section \<open>Allocation and release preserve the invariant\<close>

lemma slab_alloc_large:
  assumes inv: "heap_inv s L live" and l: "PAGE_SIZE < l_size l"
    and r: "slab_alloc l s = (p, s')" and p: "p \<noteq> 0"
  shows "heap_inv s' L (insert (unat p, granted l) live)" "(unat p, granted l) \<notin> live" "MEM s' = MEM s"
proof -
  let ?n = "pages_for (l_size l)"
  obtain phys where al: "alloc_contiguous ?n s = Some (phys, s')" and pv: "p = phys_to_virt s' phys"
    using r l p by (auto simp: slab_alloc_def PAGE_SIZE_def split: option.splits)
  note k = alloc_contiguous_kmem [OF al]
  obtain i where i: "phys = page_addr i" "free_run s i ?n" "free_set s' = free_set s - {i ..< i + ?n}"
    by (rule alloc_contiguous_SomeD [OF al]) blast
  have n: "0 < ?n" using l pages_for_bounds [of "l_size l"] by simp
  have h: "hhdm_ok s'" using inv hhdm_ok_cong [OF k(1)] by (simp add: heap_inv_def)
  have "i < MAX_PAGES" using i(2) by (simp add: free_run_def)
  then have up: "unat p = page_base s i"
    using unat_phys_to_virt_page [OF h] by (simp add: pv i(1) k(1))
  have b: "(unat p, granted l) = (page_base s i, ?n * PAGE_SIZE)" using l by (simp add: up granted_def)
  have N: "disjoint_blocks {(unat p, granted l)}" by (simp add: disjoint_blocks_def)
  note add = heap_inv_add [OF inv N _ k(1,2) alloc_contiguous_FREE_LISTS [OF al]]
  show "heap_inv s' L (insert (unat p, granted l) live)" "(unat p, granted l) \<notin> live"
    using add run_blocks [OF i(2) n i(3) k(1)] i(3) unfolding b by auto
  show "MEM s' = MEM s" by (rule k(2))
qed

lemma slab_alloc_small:
  assumes inv: "heap_inv s L live" and l: "0 < l_size l" "\<not> PAGE_SIZE < l_size l"
    and r: "slab_alloc l s = (p, s')" and p: "p \<noteq> 0"
  shows "(\<exists>L'. heap_inv s' L' (insert (unat p, granted l) live)) \<and> (unat p, granted l) \<notin> live \<and>
    (\<forall>a. a \<notin> free_bytes s \<longrightarrow> MEM s' a = MEM s a)"
proof -
  obtain ci where ci: "class_for l = Some ci" using r l p by (auto simp: slab_alloc_def split: option.splits)
  have c: "ci < 10" using class_for_Some(1) [OF ci] .
  have g: "granted l = class_size ci" using l ci by (simp add: granted_def)
  have ch: "chain s (FREE_LISTS s ci) (L ci)" using inv c by (simp add: heap_inv_def)
  show ?thesis
  proof (cases "FREE_LISTS s ci = 0")
    case False
    then obtain x xs where L: "L ci = x # xs" "FREE_LISTS s ci = x" using ch by (cases "L ci") auto
    then have "p = x" "s' = s\<lparr>FREE_LISTS := (FREE_LISTS s)(ci := read_u64 s x)\<rparr>"
      using r l ci False by (auto simp: slab_alloc_def Let_def)
    then show ?thesis using heap_inv_pop [OF inv c L(1)] g by auto
  next
    case True
    then obtain phys s1 where al: "alloc_page s = Some (phys, s1)" and pv: "p = phys_to_virt s1 phys"
      and s': "s' = thread_chunks ci p (class_size ci) (rev [1 ..< PAGE_SIZE div class_size ci]) s1"
      using r l ci p by (auto simp: slab_alloc_def Let_def split: option.splits)
    obtain q where q: "q \<in> free_set s" "phys = page_addr q" "free_set s1 = free_set s - {q}"
      by (rule alloc_page_SomeD [OF al]) blast
    note rf = refill [OF inv c al [unfolded q(2)] q(1,3) pv [unfolded q(2)] s']
    have "{page_base s q ..< page_base s q + PAGE_SIZE} \<subseteq> free_bytes s"
      using q(1) by (auto simp: free_bytes_def)
    then show ?thesis using rf unfolding g by blast
  qed
qed

lemma granted_size:
  assumes "0 < l_size l" "PAGE_SIZE < l_size l \<or> class_for l \<noteq> None"
  shows "l_size l \<le> granted l"
  using assms pages_for_bounds [of "l_size l"] class_for_Some(2) [of l] by (auto simp: granted_def)

lemma granted_align:
  assumes "layout_ok l" "l_align l \<le> PAGE_SIZE" "PAGE_SIZE < l_size l \<or> class_for l \<noteq> None"
  shows "l_align l dvd granted l"
proof (cases "PAGE_SIZE < l_size l")
  case True
  obtain k where k: "l_align l = 2 ^ k" using assms(1) by (auto simp: layout_ok_def)
  then have "k \<le> 12" using power_le_imp_le_exp [of "2 :: nat" k 12] assms(2) by (simp add: PAGE_SIZE_def)
  then have "l_align l dvd PAGE_SIZE" using le_imp_power_dvd [of k 12 "2 :: nat"] k by (simp add: PAGE_SIZE_def)
  then show ?thesis using True by (simp add: granted_def)
next
  case False
  then obtain ci where ci: "class_for l = Some ci" using assms(3) by auto
  obtain k where k: "l_align l = 2 ^ k" using assms(1) by (auto simp: layout_ok_def)
  have "k \<le> ci + 3"
    using class_for_Some(1,3) [OF ci] power_le_imp_le_exp [of "2 :: nat" k "ci + 3"] k by (simp add: class_size_pow)
  then have "(2 :: nat) ^ k dvd 2 ^ (ci + 3)" by (rule le_imp_power_dvd)
  then show ?thesis using False ci k class_for_Some(1) [OF ci] by (simp add: granted_def class_size_pow)
qed

lemma slab_alloc_correct:
  assumes "heap_inv s L live" "0 < l_size l" "slab_alloc l s = (p, s')" "p \<noteq> 0"
  shows "(\<exists>L'. heap_inv s' L' (insert (unat p, granted l) live)) \<and> (unat p, granted l) \<notin> live \<and>
    (\<forall>b \<in> live. \<forall>a \<in> span b. MEM s' a = MEM s a)"
proof -
  have "(\<exists>L'. heap_inv s' L' (insert (unat p, granted l) live)) \<and> (unat p, granted l) \<notin> live \<and>
      (\<forall>a. a \<notin> free_bytes s \<longrightarrow> MEM s' a = MEM s a)"
  proof (cases "PAGE_SIZE < l_size l")
    case True
    show ?thesis using slab_alloc_large [OF assms(1) True assms(3,4)] by auto
  next
    case False
    show ?thesis using slab_alloc_small [OF assms(1,2) False assms(3,4)] .
  qed
  moreover have "a \<notin> free_bytes s" if "b \<in> live" "a \<in> span b" for a b
    using assms(1) that by (auto simp: heap_inv_def)
  ultimately show ?thesis by blast
qed

lemma slab_dealloc_correct:
  assumes inv: "heap_inv s L live" and l: "0 < l_size l" "l_align l \<le> PAGE_SIZE"
    and b: "(unat p, granted l) \<in> live"
  shows "(\<exists>L'. heap_inv (slab_dealloc p l s) L' (live - {(unat p, granted l)})) \<and>
    (\<forall>c \<in> live - {(unat p, granted l)}. \<forall>a \<in> span c. MEM (slab_dealloc p l s) a = MEM s a)"
proof -
  let ?b = "(unat p, granted l)"
  have h: "hhdm_ok s" "block_ok s ?b" using inv b by (auto simp: heap_inv_def)
  then have p0: "p \<noteq> 0" using block_start by fastforce
  have apart: "span c \<inter> span ?b = {}" if "c \<in> live - {?b}" for c
    using inv b that unfolding heap_inv_def disjoint_blocks_def by blast
  show ?thesis
  proof (cases "PAGE_SIZE < l_size l")
    case False
    then obtain ci where ci: "class_for l = Some ci" using l(2) class_for_None [of l] by auto
    have g: "granted l = class_size ci" using False ci by (simp add: granted_def)
    have d: "slab_dealloc p l s = (write_u64 p (FREE_LISTS s ci) s)\<lparr>FREE_LISTS := (FREE_LISTS s)(ci := p)\<rparr>"
      using False ci p0 l by (simp add: slab_dealloc_def Let_def)
    note push = heap_inv_push [OF inv class_for_Some(1) [OF ci] b [unfolded g] d]
    show ?thesis using push apart unfolding g by blast
  next
    case True
    let ?n = "pages_for (l_size l)"
    have g: "granted l = ?n * PAGE_SIZE" using True by (simp add: granted_def)
    have n2: "PAGE_SIZE < ?n * PAGE_SIZE" using True pages_for_bounds [OF l(1)] by linarith
    obtain q where q: "q + ?n \<le> MAX_PAGES" "unat p = page_base s q"
      using h(2) n2 unfolding block_ok_def g by (auto dest: dvd_imp_le simp: PAGE_SIZE_def)
    have "q < MAX_PAGES" using q(1) n2 by (cases ?n) auto
    then have "p = phys_to_virt s (page_addr q)"
      using unat_phys_to_virt_page [OF h(1)] q(2) by (simp flip: unat_eq_iff)
    then have d: "slab_dealloc p l s = free_run_pages (page_addr q) [0 ..< ?n] s"
      using True p0 l by (simp add: slab_dealloc_def Let_def hhdm_offset_def phys_to_virt_def)
    note f = free_run_pages_fields [of "[0 ..< ?n]" q s, folded d]
    have im: "(\<lambda>i. q + i) ` set [0 ..< ?n] = {q ..< q + ?n}" by (simp add: image_add_atLeastLessThan add.commute)
    have fs: "free_set (slab_dealloc p l s) = free_set s \<union> {q ..< q + ?n}" "MEM (slab_dealloc p l s) = MEM s"
      "HHDM_OFFSET (slab_dealloc p l s) = HHDM_OFFSET s" "FREE_LISTS (slab_dealloc p l s) = FREE_LISTS s"
      using f q(1) unfolding im by auto
    have "free_bytes (slab_dealloc p l s) \<subseteq> free_bytes s \<union> span ?b"
      unfolding free_bytes_def span_def fst_conv snd_conv q(2) g run_bytes fs(1,3) by blast
    then show ?thesis using heap_inv_drop_block [OF inv b fs(3,2,4)] fs(2) by auto
  qed
qed

section \<open>The interface of a block allocator\<close>

text \<open>
  What a client of the global allocator relies on. \<open>holds s B\<close>: in state \<open>s\<close> the blocks handed out
  are \<open>B\<close>; \<open>byte s\<close> is the memory.
\<close>

locale block_allocator =
  fixes alloc :: "'r \<Rightarrow> 's \<Rightarrow> u64 \<times> 's"
    and dealloc :: "u64 \<Rightarrow> 'r \<Rightarrow> 's \<Rightarrow> 's"
    and holds :: "'s \<Rightarrow> block set \<Rightarrow> bool"
    and block_len :: "'r \<Rightarrow> nat"
    and req_ok :: "'r \<Rightarrow> bool"
    and byte :: "'s \<Rightarrow> nat \<Rightarrow> u8"
  assumes holds_disjoint: "holds s B \<Longrightarrow> disjoint_blocks B"
    and alloc_new: "holds s B \<Longrightarrow> req_ok r \<Longrightarrow> alloc r s = (p, s') \<Longrightarrow> p \<noteq> 0 \<Longrightarrow>
      holds s' (insert (unat p, block_len r) B) \<and> (unat p, block_len r) \<notin> B \<and>
      (\<forall>b \<in> B. \<forall>a \<in> span b. byte s' a = byte s a)"
    and dealloc_old: "holds s B \<Longrightarrow> req_ok r \<Longrightarrow> (unat p, block_len r) \<in> B \<Longrightarrow>
      holds (dealloc p r s) (B - {(unat p, block_len r)}) \<and>
      (\<forall>b \<in> B - {(unat p, block_len r)}. \<forall>a \<in> span b. byte (dealloc p r s) a = byte s a)"

context block_allocator
begin

lemma new_block_apart:
  assumes "holds s B" "req_ok r" "alloc r s = (p, s')" "p \<noteq> 0" "b \<in> B"
  shows "span (unat p, block_len r) \<inter> span b = {}"
proof -
  have "holds s' (insert (unat p, block_len r) B)" "(unat p, block_len r) \<notin> B"
    using alloc_new [OF assms(1-4)] by auto
  then have "disjoint_blocks (insert (unat p, block_len r) B)" "(unat p, block_len r) \<noteq> b"
    using holds_disjoint assms(5) by blast+
  then show ?thesis using assms(5) by (simp add: disjoint_blocks_def)
qed

text \<open>An allocation followed by the release of the new block leaves the client's view as it was.\<close>

lemma alloc_dealloc:
  assumes "holds s B" "req_ok r" "alloc r s = (p, s')" "p \<noteq> 0"
  shows "holds (dealloc p r s') B \<and> (\<forall>b \<in> B. \<forall>a \<in> span b. byte (dealloc p r s') a = byte s a)"
proof -
  have h: "holds s' (insert (unat p, block_len r) B)" "(unat p, block_len r) \<notin> B"
    "\<forall>b \<in> B. \<forall>a \<in> span b. byte s' a = byte s a"
    using alloc_new [OF assms] by auto
  then show ?thesis using dealloc_old [OF h(1) assms(2), of p] by auto
qed

end

definition slab_request :: "layout \<Rightarrow> bool" where
  "slab_request l \<longleftrightarrow> 0 < l_size l \<and> l_align l \<le> PAGE_SIZE"

interpretation slab: block_allocator slab_alloc slab_dealloc "\<lambda>s B. \<exists>L. heap_inv s L B" granted
  slab_request MEM
proof
  show "disjoint_blocks B" if "\<exists>L. heap_inv s L B" for s :: "'a heap_state_scheme" and B
    using that disjoint_blocks_mono unfolding heap_inv_def by (metis Un_upper2)
  show "(\<exists>L. heap_inv s' L (insert (unat p, granted l) B)) \<and> (unat p, granted l) \<notin> B \<and>
      (\<forall>b \<in> B. \<forall>a \<in> span b. MEM s' a = MEM s a)"
    if h: "\<exists>L. heap_inv s L B" "slab_request l" "slab_alloc l s = (p, s')" "p \<noteq> 0"
    for s s' :: "'a heap_state_scheme" and B l p
  proof -
    obtain L where "heap_inv s L B" using h(1) by blast
    then show ?thesis using slab_alloc_correct h(2-4) unfolding slab_request_def by blast
  qed
  show "(\<exists>L. heap_inv (slab_dealloc p l s) L (B - {(unat p, granted l)})) \<and>
      (\<forall>b \<in> B - {(unat p, granted l)}. \<forall>a \<in> span b. MEM (slab_dealloc p l s) a = MEM s a)"
    if h: "\<exists>L. heap_inv s L B" "slab_request l" "(unat p, granted l) \<in> B"
    for s :: "'a heap_state_scheme" and B l p
  proof -
    obtain L where "heap_inv s L B" using h(1) by blast
    then show ?thesis using slab_dealloc_correct h(2,3) unfolding slab_request_def by blast
  qed
qed

section \<open>Properties\<close>

text \<open>
  C5: a non-null pointer returned by the heap is a block that was not in use before: the heap
  invariant holds with it added to the live blocks, so it overlaps neither another live block nor a free
  chunk nor a free page; it is at least as long as requested and, for alignments up to a page, aligned as
  requested; and no byte of any other live block has changed.
\<close>

theorem slab_alloc_sound:
  assumes "heap_inv s L live" "layout_ok l" "0 < l_size l" "slab_alloc l s = (p, s')" "p \<noteq> 0"
  shows "(\<exists>L'. heap_inv s' L' (insert (unat p, granted l) live)) \<and> (unat p, granted l) \<notin> live \<and>
    l_size l \<le> granted l \<and> (l_align l \<le> PAGE_SIZE \<longrightarrow> l_align l dvd unat p) \<and>
    (\<forall>b \<in> live. \<forall>a \<in> span b. MEM s' a = MEM s a)"
proof -
  have cls: "PAGE_SIZE < l_size l \<or> class_for l \<noteq> None"
    using assms(3-5) by (auto simp: slab_alloc_def split: if_splits option.splits)
  note main = slab_alloc_correct [OF assms(1,3-5)]
  then obtain L' where L': "heap_inv s' L' (insert (unat p, granted l) live)" by blast
  then have "hhdm_ok s'" "block_ok s' (unat p, granted l)" by (auto simp: heap_inv_def)
  then have "l_align l dvd unat p" if "l_align l \<le> PAGE_SIZE"
    using block_aligned [of s' "(unat p, granted l)"] granted_align [OF assms(2) that cls] assms(2) that
    by (auto simp: layout_ok_def)
  then show ?thesis using main granted_size [OF assms(3) cls] by blast
qed

text \<open>
  the heap returns null for a non-empty request exactly when it has to: for a request larger than
  a page, when there is no run of enough free pages; for a smaller one, when its alignment is above a page,
  or its class has no free chunk and there is no free page to refill it from.
\<close>

lemma slab_alloc_null_iff:
  assumes "heap_inv s L live" "0 < l_size l"
  shows "fst (slab_alloc l s) = 0 \<longleftrightarrow>
    (if PAGE_SIZE < l_size l then \<not> (\<exists>i. free_run s i (pages_for (l_size l)))
     else PAGE_SIZE < l_align l \<or> (L (the (class_for l)) = [] \<and> free_set s = {}))"
proof (cases "PAGE_SIZE < l_size l")
  case True
  have h: "hhdm_ok s" using assms(1) by (simp add: heap_inv_def)
  show ?thesis
  proof (cases "alloc_contiguous (pages_for (l_size l)) s")
    case None
    then show ?thesis using True assms(2) alloc_contiguous_None by (auto simp: slab_alloc_def)
  next
    case (Some r)
    then obtain a s' where r: "alloc_contiguous (pages_for (l_size l)) s = Some (a, s')" by (cases r) auto
    obtain i where i: "a = page_addr i" "free_run s i (pages_for (l_size l))"
      by (rule alloc_contiguous_SomeD [OF r]) blast
    have h': "hhdm_ok s'" using h hhdm_ok_cong [OF alloc_contiguous_kmem(1) [OF r]] by simp
    have "i < MAX_PAGES" using i(2) by (simp add: free_run_def)
    then have "unat (phys_to_virt s' a) \<noteq> 0"
      using unat_phys_to_virt_page [OF h'] h' i(1) by (simp add: hhdm_ok_def)
    then have "phys_to_virt s' a \<noteq> 0" by auto
    then show ?thesis using True assms(2) r i(2) by (auto simp: slab_alloc_def)
  qed
next
  case False
  show ?thesis
  proof (cases "class_for l")
    case None
    then show ?thesis using False assms(2) class_for_None [of l] by (auto simp: slab_alloc_def)
  next
    case (Some ci)
    then have al: "\<not> PAGE_SIZE < l_align l" using class_for_None [of l] by auto
    have "chain s (FREE_LISTS s ci) (L ci)"
      using assms(1) class_for_Some(1) [OF Some] by (simp add: heap_inv_def)
    then have e: "FREE_LISTS s ci = 0 \<longleftrightarrow> L ci = []" by (cases "L ci") auto
    have "phys_to_virt s' a \<noteq> 0" if r: "alloc_page s = Some (a, s')" for a s'
    proof -
      obtain q where "a = page_addr q" "q < MAX_PAGES" by (rule alloc_page_SomeD [OF r]) blast
      moreover have "hhdm_ok s'"
        using assms(1) hhdm_ok_cong [OF alloc_page_kmem(1) [OF r]] by (simp add: heap_inv_def)
      ultimately have "unat (phys_to_virt s' a) \<noteq> 0"
        by (simp add: unat_phys_to_virt_page hhdm_ok_def)
      then show ?thesis by auto
    qed
    then show ?thesis
      using False assms(2) Some al e alloc_page_None [of s]
      by (auto simp: slab_alloc_def Let_def split: option.splits)
  qed
qed

text \<open>
  C6: releasing a live block with the layout it was granted for returns it: the invariant holds with
  the block taken out of the live set, no byte of any other live block has changed, and a block of a size
  class is handed out again by the next request with that layout.
\<close>

theorem slab_dealloc_reuse:
  assumes "heap_inv s L live" "0 < l_size l" "l_align l \<le> PAGE_SIZE" "(unat p, granted l) \<in> live"
  shows "(\<exists>L'. heap_inv (slab_dealloc p l s) L' (live - {(unat p, granted l)})) \<and>
    (\<forall>c \<in> live - {(unat p, granted l)}. \<forall>a \<in> span c. MEM (slab_dealloc p l s) a = MEM s a) \<and>
    (l_size l \<le> PAGE_SIZE \<longrightarrow> fst (slab_alloc l (slab_dealloc p l s)) = p)"
proof -
  have "p \<noteq> 0" using assms(1,4) block_start by (fastforce simp: heap_inv_def)
  then have "fst (slab_alloc l (slab_dealloc p l s)) = p" if "l_size l \<le> PAGE_SIZE"
    using that assms(2,3) class_for_None [of l] by (auto simp: slab_alloc_def slab_dealloc_def Let_def split: option.splits)
  then show ?thesis using slab_dealloc_correct [OF assms] by blast
qed

section \<open>Witnesses\<close>

definition example_heap :: heap_state where
  "example_heap = \<lparr>BITMAP = (\<lambda>_. 0)(0 := 3), TOTAL_PAGES = 0, FREE_PAGES = 0,
     HHDM_OFFSET = 0xFFFF800000000000, MEM = \<lambda>_. 0, CR3 = 0, TLB = {}, FREE_LISTS = \<lambda>_. 0\<rparr>"

definition example_layout :: layout where
  "example_layout = \<lparr>l_size = 24, l_align = 8\<rparr>"

lemma example_heap_inv: "heap_inv example_heap (\<lambda>_. []) {}"
  by (simp add: heap_inv_def free_blocks_def disjoint_blocks_def hhdm_ok_def PAGE_SIZE_def)
    (simp add: example_heap_def)

lemma example_class: "class_for example_layout = Some 2"
  by (simp add: class_for_def example_layout_def SIZE_CLASSES_def)

lemma example_layout_ok: "layout_ok example_layout" "0 < l_size example_layout"
  "l_align example_layout \<le> PAGE_SIZE" "\<not> PAGE_SIZE < l_size example_layout" "granted example_layout = 32"
proof -
  show "layout_ok example_layout"
    by (auto simp: layout_ok_def example_layout_def intro: exI [of _ 3])
qed (simp_all add: example_layout_def PAGE_SIZE_def granted_def example_class [unfolded example_layout_def]
    SIZE_CLASSES_def)

lemma example_heap_free: "free_set example_heap = {2 ..< MAX_PAGES}"
  by (rule two_pages_used) (simp add: example_heap_def)

lemma example_alloc: "\<exists>s'. slab_alloc example_layout example_heap = (0xFFFF800000002000, s')"
proof -
  have m: "Min {2 ..< MAX_PAGES} = 2" by (rule Min_eqI) (auto simp: MAX_PAGES_def)
  have "{2 ..< MAX_PAGES} \<noteq> {}" by (simp add: MAX_PAGES_def)
  then obtain s1 where s1: "alloc_page example_heap = Some (page_addr 2, s1)"
    by (simp add: alloc_page_eq example_heap_free m Let_def)
  have "phys_to_virt s1 (page_addr 2) = 0xFFFF800000002000"
    using alloc_page_kmem(1) [OF s1]
    by (simp add: phys_to_virt_def page_addr_def PAGE_SIZE_def) (simp add: example_heap_def)
  then show ?thesis
    using s1 example_layout_ok(2,4) example_class
    by (simp add: slab_alloc_def Let_def) (simp add: example_heap_def)
qed

theorem slab_alloc_sound_witness:
  "\<exists>s' L'. slab_alloc example_layout example_heap = (0xFFFF800000002000, s') \<and>
     heap_inv s' L' {(0xFFFF800000002000, 32)} \<and> (8 :: nat) dvd 0xFFFF800000002000"
proof -
  obtain s' where s': "slab_alloc example_layout example_heap = (0xFFFF800000002000, s')"
    using example_alloc by blast
  show ?thesis
    using slab_alloc_sound [OF example_heap_inv example_layout_ok(1,2) s'] s' example_layout_ok(5)
    by (auto simp: example_layout_def)
qed

theorem slab_dealloc_reuse_witness:
  "\<exists>s'. slab_alloc example_layout example_heap = (0xFFFF800000002000, s') \<and>
     fst (slab_alloc example_layout (slab_dealloc 0xFFFF800000002000 example_layout s')) = 0xFFFF800000002000"
proof -
  obtain s' where s': "slab_alloc example_layout example_heap = (0xFFFF800000002000, s')"
    using example_alloc by blast
  obtain L' where L': "heap_inv s' L' {(0xFFFF800000002000, 32)}"
    using slab_alloc_correct [OF example_heap_inv example_layout_ok(2) s'] example_layout_ok(5) by auto
  have b: "(unat (0xFFFF800000002000 :: u64), granted example_layout) \<in> {(0xFFFF800000002000, 32)}"
    using example_layout_ok(5) by simp
  show ?thesis
    using slab_dealloc_reuse [OF L' example_layout_ok(2,3) b] s' example_layout_ok(4) by auto
qed

end
