(* ===== verification/Scheduler.thy ===== *)
theory Scheduler
  imports Heap
begin

text \<open>
  The preemptive scheduler, \<open>kernel/src/scheduler.rs\<close>.

  Task records, the round-robin choice \<open>next\<close>, \<open>spawn\<close>, \<open>exit_current\<close>, \<open>sleep_ms\<close>,
  \<open>block_on_irq\<close>, \<open>wake_irq_waiters\<close>, the timer \<open>tick\<close>, and the stack switch itself over kernel
  memory and the callee-saved registers. A task's two stacks are heap blocks. The pointer
  \<open>old_rsp\<close> that \<open>next\<close> returns is the index of the task whose \<open>rsp\<close> field it points to. The timer
  vector (\<open>apic::timer_vector\<close>) and the address of \<open>task_trampoline\<close> are parameters.

  Shown: the scheduler's state invariant, that \<open>next\<close> takes the first ready task after the current
  one, that a ready task runs within one round of ticks, when a blocked task is woken, and that
  switching away and back restores the registers.
\<close>

section \<open>Tasks and the scheduler's statics\<close>

definition STACK_SIZE :: nat where "STACK_SIZE = 64 * 1024"
definition KSTACK_SIZE :: nat where "KSTACK_SIZE = 4 * 4096"

datatype task_state = Running | Ready | Blocked | Dead

record task =
  t_id :: u64
  t_name :: string
  t_state :: task_state
  wake_at :: u64
  waiting_irq :: "u8 option"
  t_cr3 :: u64
  t_rsp :: u64
  kstack_top :: u64

record cpu_regs =
  rbx :: u64
  rbp :: u64
  r12 :: u64
  r13 :: u64
  r14 :: u64
  r15 :: u64
  rsp :: u64
  rip :: u64

text \<open>
  \<open>PERCPU_kernel_stack\<close>, \<open>PERCPU_user_rsp\<close> and \<open>TSS_rsp0\<close> are the per-CPU slots of \<open>syscall.rs\<close> and
  \<open>gdt.rs\<close> that a switch repoints; \<open>gs_swapped\<close> is the state of the \<open>swapgs\<close> toggle.
\<close>

record sched_state = heap_state +
  tasks :: "task list"
  current :: nat
  NEXT_TASK_ID :: u64
  TICK_COUNT :: u64
  CPU :: cpu_regs
  PERCPU_kernel_stack :: u64
  PERCPU_user_rsp :: u64
  TSS_rsp0 :: u64
  gs_swapped :: bool

definition read_cr3 :: "'a sched_state_scheme \<Rightarrow> u64" where
  "read_cr3 s = CR3 s"

definition write_cr3 :: "u64 \<Rightarrow> 'a sched_state_scheme \<Rightarrow> 'a sched_state_scheme" where
  "write_cr3 phys s = s\<lparr>CR3 := phys, TLB := {}\<rparr>"

text \<open>A zeroed \<open>Vec<u8>\<close> of the given size; the pointer of its buffer. A null allocation aborts.\<close>

definition vec_zeroed :: "nat \<Rightarrow> 'a sched_state_scheme \<Rightarrow> panic + (u64 \<times> 'a sched_state_scheme)" where
  "vec_zeroed n s =
     (let (p, s1) = slab_alloc \<lparr>l_size = n, l_align = 1\<rparr> s in
      if p = 0 then Inl (Panic ''memory allocation failed'') else Inr (p, write_bytes p 0 n s1))"

definition initial_rsp :: "u64 \<Rightarrow> u64" where
  "initial_rsp stack_top = (stack_top - 56) AND NOT 0xF"

definition task_new :: "u64 \<Rightarrow> u64 \<Rightarrow> string \<Rightarrow> u64 \<Rightarrow> 'a sched_state_scheme \<Rightarrow>
    panic + (task \<times> 'a sched_state_scheme)" where
  "task_new trampoline tid nm entry s =
     rbind (vec_zeroed STACK_SIZE s) (\<lambda>(stack, s).
       let stack_top = stack + word_of_nat STACK_SIZE;
           sp = initial_rsp stack_top;
           s = write_u64 sp 0 s;
           s = write_u64 (sp + 8) 0 s;
           s = write_u64 (sp + 16) 0 s;
           s = write_u64 (sp + 24) 0 s;
           s = write_u64 (sp + 32) 0 s;
           s = write_u64 (sp + 40) entry s;
           s = write_u64 (sp + 48) trampoline s in
     rbind (vec_zeroed KSTACK_SIZE s) (\<lambda>(kstack, s).
       Inr (\<lparr>t_id = tid, t_name = nm, t_state = Ready, wake_at = 0, waiting_irq = None,
             t_cr3 = read_cr3 s, t_rsp = sp, kstack_top = kstack + word_of_nat KSTACK_SIZE\<rparr>, s)))"

definition sched_empty :: "'a sched_state_scheme \<Rightarrow> 'a sched_state_scheme" where
  "sched_empty s = s\<lparr>tasks := [], current := 0\<rparr>"

definition sched_add :: "task \<Rightarrow> 'a sched_state_scheme \<Rightarrow> 'a sched_state_scheme" where
  "sched_add t s = s\<lparr>tasks := tasks s @ [t]\<rparr>"

section \<open>The choice of the next task\<close>

definition wake_sleeper :: "u64 \<Rightarrow> task \<Rightarrow> task" where
  "wake_sleeper now t =
     (if t_state t = Blocked \<and> waiting_irq t = None \<and> wake_at t \<le> now then t\<lparr>t_state := Ready\<rparr> else t)"

text \<open>The search loop: at most \<open>k\<close> steps from \<open>i\<close>, stopping at the first ready task.\<close>

fun find_ready :: "task list \<Rightarrow> nat \<Rightarrow> nat \<Rightarrow> nat" where
  "find_ready ts 0 i = i"
| "find_ready ts (Suc k) i =
     (if t_state (ts ! i) = Ready then i else find_ready ts k (Suc i mod length ts))"

definition set_task_state :: "nat \<Rightarrow> task_state \<Rightarrow> task list \<Rightarrow> task list" where
  "set_task_state i st ts = ts[i := (ts ! i)\<lparr>t_state := st\<rparr>]"

definition sched_next :: "'a sched_state_scheme \<Rightarrow>
    (nat \<times> u64 \<times> u64 \<times> u64) option \<times> 'a sched_state_scheme" where
  "sched_next s =
     (let n = length (tasks s) in
      if n < 2 then (None, s)
      else
        let ts = map (wake_sleeper (TICK_COUNT s)) (tasks s);
            s1 = s\<lparr>tasks := ts\<rparr>;
            nxt = find_ready ts n (Suc (current s) mod n) in
        if t_state (ts ! nxt) \<noteq> Ready then (None, s1)
        else if nxt = current s then (None, s1)
        else
          let ts1 = (if t_state (ts ! current s) = Running then set_task_state (current s) Ready ts else ts);
              ts2 = set_task_state nxt Running ts1
          in (Some (current s, t_rsp (ts2 ! nxt), t_cr3 (ts2 ! nxt), kstack_top (ts2 ! nxt)),
              s1\<lparr>tasks := ts2, current := nxt\<rparr>))"

section \<open>The stack switch\<close>

definition use_kstack :: "u64 \<Rightarrow> 'a sched_state_scheme \<Rightarrow> 'a sched_state_scheme" where
  "use_kstack kt s = s\<lparr>PERCPU_kernel_stack := kt, TSS_rsp0 := kt\<rparr>"

definition push_reg :: "u64 \<Rightarrow> 'a sched_state_scheme \<Rightarrow> 'a sched_state_scheme" where
  "push_reg v s =
     (let r = rsp (CPU s) - 8 in (write_u64 r v s)\<lparr>CPU := (CPU s)\<lparr>rsp := r\<rparr>\<rparr>)"

text \<open>\<open>push reg\<close> and \<open>pop reg\<close>; the register is given by its record selector or update.\<close>

definition push_of :: "(cpu_regs \<Rightarrow> u64) \<Rightarrow> 'a sched_state_scheme \<Rightarrow> 'a sched_state_scheme" where
  "push_of reg s = push_reg (reg (CPU s)) s"

definition pop_into :: "((u64 \<Rightarrow> u64) \<Rightarrow> cpu_regs \<Rightarrow> cpu_regs) \<Rightarrow> 'a sched_state_scheme \<Rightarrow> 'a sched_state_scheme" where
  "pop_into reg_update s =
     s\<lparr>CPU := reg_update (\<lambda>_. read_u64 s (rsp (CPU s))) ((CPU s)\<lparr>rsp := rsp (CPU s) + 8\<rparr>)\<rparr>"

text \<open>
  \<open>context_switch\<close> from its entry, where \<open>rsp\<close> points at the return address its caller pushed: six
  pushes, the \<open>rsp\<close> field of task \<open>old\<close>, the new stack, six pops and \<open>ret\<close>.
\<close>

definition save_rsp :: "nat \<Rightarrow> 'a sched_state_scheme \<Rightarrow> 'a sched_state_scheme" where
  "save_rsp old s = s\<lparr>tasks := (tasks s)[old := (tasks s ! old)\<lparr>t_rsp := rsp (CPU s)\<rparr>]\<rparr>"

definition load_rsp :: "u64 \<Rightarrow> 'a sched_state_scheme \<Rightarrow> 'a sched_state_scheme" where
  "load_rsp new_rsp s = s\<lparr>CPU := (CPU s)\<lparr>rsp := new_rsp\<rparr>\<rparr>"

definition push_context :: "'a sched_state_scheme \<Rightarrow> 'a sched_state_scheme" where
  "push_context s = push_of r15 (push_of r14 (push_of r13 (push_of r12 (push_of rbp (push_of rbx s)))))"

definition pop_context :: "'a sched_state_scheme \<Rightarrow> 'a sched_state_scheme" where
  "pop_context s = pop_into rip_update (pop_into rbx_update (pop_into rbp_update (pop_into r12_update
     (pop_into r13_update (pop_into r14_update (pop_into r15_update s))))))"

definition context_switch :: "nat \<Rightarrow> u64 \<Rightarrow> 'a sched_state_scheme \<Rightarrow> 'a sched_state_scheme" where
  "context_switch old new_rsp s = pop_context (load_rsp new_rsp (save_rsp old (push_context s)))"

text \<open>A call of it: the return address \<open>ret\<close> is pushed first.\<close>

definition switch_to :: "u64 \<Rightarrow> nat \<times> u64 \<times> u64 \<times> u64 \<Rightarrow> 'a sched_state_scheme \<Rightarrow> 'a sched_state_scheme" where
  "switch_to ret sw s =
     (let (old, new_rsp, new_cr3, new_kstack_top) = sw;
          s = use_kstack new_kstack_top s;
          s = write_cr3 new_cr3 s
      in context_switch old new_rsp (push_reg ret s))"

section \<open>The operations\<close>

definition current_task_index :: "'a sched_state_scheme \<Rightarrow> nat" where
  "current_task_index s = current s"

definition set_current_cr3 :: "u64 \<Rightarrow> 'a sched_state_scheme \<Rightarrow> 'a sched_state_scheme" where
  "set_current_cr3 cr3 s =
     s\<lparr>tasks := (tasks s)[current s := (tasks s ! current s)\<lparr>t_cr3 := cr3\<rparr>]\<rparr>"

definition find_dead :: "task list \<Rightarrow> nat option" where
  "find_dead ts = position (\<lambda>t. t_state t = Dead) ts"

text \<open>
  A new task takes the slot of a dead one if there is one. The memory of the dead task's stack goes back to the heap at
  that moment; this release is not part of the model, in which the stack's block stays taken.
\<close>

definition spawn :: "u64 \<Rightarrow> string \<Rightarrow> u64 \<Rightarrow> 'a sched_state_scheme \<Rightarrow> panic + (u64 \<times> 'a sched_state_scheme)" where
  "spawn trampoline nm entry s =
     (let tid = NEXT_TASK_ID s in
      rbind (task_new trampoline tid nm entry (s\<lparr>NEXT_TASK_ID := tid + 1\<rparr>)) (\<lambda>(t, s).
        case find_dead (tasks s) of
          Some slot \<Rightarrow> Inr (tid, s\<lparr>tasks := (tasks s)[slot := t]\<rparr>)
        | None \<Rightarrow> Inr (tid, s\<lparr>tasks := tasks s @ [t]\<rparr>)))"

text \<open>
  The blocking operations up to and including the switch; \<open>ret\<close> is where the task resumes. The
  result says whether the processor went to another task. After an \<open>exit_current\<close> that found no other
  task the processor halts.
\<close>

definition exit_current :: "u64 \<Rightarrow> 'a sched_state_scheme \<Rightarrow> bool \<times> 'a sched_state_scheme" where
  "exit_current ret s =
     (let s = s\<lparr>tasks := set_task_state (current s) Dead (tasks s)\<rparr>;
          (sw, s) = sched_next s
      in case sw of
           Some w \<Rightarrow> (True, switch_to ret w s)
         | None \<Rightarrow> (False, s))"

definition sleep_ticks :: "u64 \<Rightarrow> u64" where
  "sleep_ticks ms = max (ms div 10) 1"

definition sleep_ms :: "u64 \<Rightarrow> u64 \<Rightarrow> 'a sched_state_scheme \<Rightarrow> bool \<times> 'a sched_state_scheme" where
  "sleep_ms ret ms s =
     (let ticks = sleep_ticks ms;
          cur = current s;
          wake = TICK_COUNT s + ticks;
          s = s\<lparr>tasks := (tasks s)[cur := (tasks s ! cur)\<lparr>wake_at := wake, t_state := Blocked\<rparr>]\<rparr>;
          (sw, s) = sched_next s
      in case sw of
           Some w \<Rightarrow> (True, switch_to ret w s)
         | None \<Rightarrow> (False, s\<lparr>tasks := set_task_state (current s) Running (tasks s)\<rparr>))"

definition block_on_irq :: "u64 \<Rightarrow> u8 \<Rightarrow> 'a sched_state_scheme \<Rightarrow> bool \<times> 'a sched_state_scheme" where
  "block_on_irq ret vector s =
     (let cur = current s;
          s = s\<lparr>tasks := (tasks s)[cur := (tasks s ! cur)
                \<lparr>waiting_irq := Some vector, wake_at := - 1, t_state := Blocked\<rparr>]\<rparr>;
          (sw, s) = sched_next s
      in case sw of
           Some w \<Rightarrow> (True, switch_to ret w (s\<lparr>gs_swapped := \<not> gs_swapped s\<rparr>))
         | None \<Rightarrow> (False, s\<lparr>tasks := (tasks s)[current s := (tasks s ! current s)
                \<lparr>t_state := Running, waiting_irq := None\<rparr>]\<rparr>))"

text \<open>What \<open>block_on_irq\<close> does when its task is resumed: swap back and restore its own user stack pointer.\<close>

definition block_on_irq_resume :: "u64 \<Rightarrow> 'a sched_state_scheme \<Rightarrow> 'a sched_state_scheme" where
  "block_on_irq_resume saved_user_rsp s =
     s\<lparr>gs_swapped := \<not> gs_swapped s, PERCPU_user_rsp := saved_user_rsp\<rparr>"

definition wake_waiter :: "u8 \<Rightarrow> task \<Rightarrow> task" where
  "wake_waiter vector t =
     (if t_state t = Blocked \<and> waiting_irq t = Some vector
      then t\<lparr>waiting_irq := None, t_state := Ready\<rparr> else t)"

definition wake_irq_waiters :: "u8 \<Rightarrow> 'a sched_state_scheme \<Rightarrow> 'a sched_state_scheme" where
  "wake_irq_waiters vector s = s\<lparr>tasks := map (wake_waiter vector) (tasks s)\<rparr>"

definition tick :: "u8 \<Rightarrow> u64 \<Rightarrow> 'a sched_state_scheme \<Rightarrow> 'a sched_state_scheme" where
  "tick timer_vector ret s =
     (let s = s\<lparr>TICK_COUNT := TICK_COUNT s + 1\<rparr>;
          s = wake_irq_waiters timer_vector s;
          (sw, s) = sched_next s
      in case sw of Some w \<Rightarrow> switch_to ret w s | None \<Rightarrow> s)"

text \<open>\<open>task_trampoline\<close>: acknowledge the timer interrupt, enable interrupts, jump to \<open>rbx\<close>.\<close>

definition task_trampoline :: "'a sched_state_scheme \<Rightarrow> 'a sched_state_scheme" where
  "task_trampoline s = s\<lparr>CPU := (CPU s)\<lparr>rip := rbx (CPU s)\<rparr>\<rparr>"

section \<open>What the choice does\<close>

lemma length_set_task_state [simp]: "length (set_task_state i st ts) = length ts"
  by (simp add: set_task_state_def)

lemma nth_set_task_state:
  "j < length ts \<Longrightarrow> set_task_state i st ts ! j = (if j = i then (ts ! i)\<lparr>t_state := st\<rparr> else ts ! j)"
  by (simp add: set_task_state_def nth_list_update)

lemma find_ready_spec:
  assumes "i < length ts"
  obtains d where "d \<le> k" "find_ready ts k i = (i + d) mod length ts"
    "\<And>e. e < d \<Longrightarrow> t_state (ts ! ((i + e) mod length ts)) \<noteq> Ready"
    "d < k \<Longrightarrow> t_state (ts ! ((i + d) mod length ts)) = Ready"
  using assms
proof (induction k arbitrary: i thesis)
  case 0
  show ?case by (rule 0(1) [of 0]) (use 0(2) in auto)
next
  case (Suc k)
  let ?n = "length ts"
  show ?case
  proof (cases "t_state (ts ! i) = Ready")
    case True
    show ?thesis by (rule Suc.prems(1) [of 0]) (use True Suc.prems(2) in auto)
  next
    case False
    have lt: "Suc i mod ?n < ?n" using Suc.prems(2) by (intro mod_less_divisor) linarith
    obtain d where d: "d \<le> k" "find_ready ts k (Suc i mod ?n) = (Suc i mod ?n + d) mod ?n"
      "\<And>e. e < d \<Longrightarrow> t_state (ts ! ((Suc i mod ?n + e) mod ?n)) \<noteq> Ready"
      "d < k \<Longrightarrow> t_state (ts ! ((Suc i mod ?n + d) mod ?n)) = Ready"
      using Suc.IH [OF _ lt] by blast
    have sh: "(Suc i mod ?n + e) mod ?n = (i + Suc e) mod ?n" for e
      by (simp add: mod_add_left_eq)
    show ?thesis
    proof (rule Suc.prems(1) [of "Suc d"])
      fix e assume "e < Suc d"
      then show "t_state (ts ! ((i + e) mod ?n)) \<noteq> Ready"
        using False Suc.prems(2) d(3) [of "e - 1"] sh [of "e - 1"] by (cases e) auto
    qed (use False d sh in auto)
  qed
qed

text \<open>At most the current task is running; \<open>sched_ok\<close> also has it running.\<close>

definition sched_at_most :: "'a sched_state_scheme \<Rightarrow> bool" where
  "sched_at_most s \<longleftrightarrow> current s < length (tasks s) \<and>
     (\<forall>i < length (tasks s). t_state (tasks s ! i) = Running \<longrightarrow> i = current s)"

definition sched_ok :: "'a sched_state_scheme \<Rightarrow> bool" where
  "sched_ok s \<longleftrightarrow> current s < length (tasks s) \<and>
     (\<forall>i < length (tasks s). t_state (tasks s ! i) = Running \<longleftrightarrow> i = current s)"

lemma sched_ok_at_most: "sched_ok s \<Longrightarrow> sched_at_most s"
  by (simp add: sched_ok_def sched_at_most_def)

lemma wake_sleeper_state:
  "t_state (wake_sleeper now t) = Running \<longleftrightarrow> t_state t = Running"
  "t_state t = Ready \<Longrightarrow> wake_sleeper now t = t"
  "t_state t = Running \<Longrightarrow> wake_sleeper now t = t"
  by (auto simp: wake_sleeper_def)

abbreviation woken :: "'a sched_state_scheme \<Rightarrow> task list" where
  "woken s \<equiv> map (wake_sleeper (TICK_COUNT s)) (tasks s)"

lemma sched_next_NoneD:
  assumes "sched_next s = (None, s')"
  shows "s' = s\<lparr>tasks := woken s\<rparr> \<or> s' = s"
  using assms by (auto simp: sched_next_def Let_def split: if_splits)

lemma sched_next_SomeD:
  assumes "sched_next s = (Some w, s')" "current s < length (tasks s)"
  obtains d nxt where "nxt = (current s + Suc d) mod length (tasks s)" "d < length (tasks s)"
    "\<And>e. e < d \<Longrightarrow> t_state (woken s ! ((current s + Suc e) mod length (tasks s))) \<noteq> Ready"
    "t_state (woken s ! nxt) = Ready" "nxt \<noteq> current s" "nxt < length (tasks s)" "current s' = nxt"
    "length (tasks s') = length (tasks s)" "w = (current s, t_rsp (tasks s' ! nxt), t_cr3 (tasks s' ! nxt), kstack_top (tasks s' ! nxt))"
    "\<And>i. i < length (tasks s) \<Longrightarrow> tasks s' ! i = (if i = nxt then (woken s ! i)\<lparr>t_state := Running\<rparr>
       else if i = current s \<and> t_state (woken s ! i) = Running then (woken s ! i)\<lparr>t_state := Ready\<rparr> else woken s ! i)"
    "TICK_COUNT s' = TICK_COUNT s"
proof -
  let ?n = "length (tasks s)" and ?ts = "woken s"
  let ?nxt = "find_ready ?ts ?n (Suc (current s) mod ?n)"
  let ?ts1 = "if t_state (?ts ! current s) = Running then set_task_state (current s) Ready ?ts else ?ts"
  have n: "\<not> ?n < 2" "t_state (?ts ! ?nxt) = Ready" "?nxt \<noteq> current s"
    and s': "s' = s\<lparr>tasks := set_task_state ?nxt Running ?ts1, current := ?nxt\<rparr>"
    and w: "w = (current s, t_rsp (set_task_state ?nxt Running ?ts1 ! ?nxt),
      t_cr3 (set_task_state ?nxt Running ?ts1 ! ?nxt), kstack_top (set_task_state ?nxt Running ?ts1 ! ?nxt))"
    using assms(1) by (auto simp: sched_next_def Let_def split: if_splits)
  have pos: "0 < ?n" using assms(2) by linarith
  then have lt: "Suc (current s) mod ?n < length ?ts" by simp
  obtain d where d: "d \<le> ?n" "?nxt = (Suc (current s) mod ?n + d) mod length ?ts"
    "\<And>e. e < d \<Longrightarrow> t_state (?ts ! ((Suc (current s) mod ?n + e) mod length ?ts)) \<noteq> Ready"
    by (rule find_ready_spec [OF lt, of ?n]) blast
  have sh: "(Suc (current s) mod ?n + e) mod length ?ts = (current s + Suc e) mod ?n" for e
    by (simp add: mod_add_left_eq)
  have "d \<noteq> ?n"
  proof
    assume "d = ?n"
    then have "t_state (?ts ! ((Suc (current s) mod ?n + 0) mod length ?ts)) \<noteq> Ready" by (intro d(3)) (use pos in simp)
    moreover have "?nxt = (Suc (current s) mod ?n + 0) mod length ?ts" using d(2) \<open>d = ?n\<close> by simp
    ultimately show False using n(2) by simp
  qed
  then have dn: "d < ?n" using d(1) by simp
  have nl: "?nxt < ?n" using d(2) pos by simp
  show thesis
  proof (rule that [of ?nxt d])
    show "?nxt = (current s + Suc d) mod ?n" using d(2) sh by simp
    show "t_state (?ts ! ((current s + Suc e) mod ?n)) \<noteq> Ready" if "e < d" for e
      using d(3) [OF that] sh by simp
  qed (use n nl dn s' w assms(2) in \<open>auto simp: nth_set_task_state\<close>)
qed

lemma cyclic_offset:
  fixes c i n :: nat
  assumes "i < n" "c < n" "i \<noteq> c"
  obtains e where "Suc e < n" "i = (c + Suc e) mod n"
proof (cases "c < i")
  case True
  then show thesis using that [of "i - c - 1"] assms by simp
next
  case False
  then have "(c + Suc (i + n - c - 1)) mod n = i" using assms by simp
  then show thesis using that [of "i + n - c - 1"] assms False by simp
qed

lemma cyclic_full:
  fixes c d n :: nat
  assumes "d < n" "c < n" "(c + Suc d) mod n = c"
  shows "Suc d = n"
proof (rule ccontr)
  assume "Suc d \<noteq> n"
  then have d: "Suc d < n" using assms(1) by simp
  show False
  proof (cases "c + Suc d < n")
    case True
    then show False using assms(3) by simp
  next
    case False
    then have "(c + Suc d) mod n = c + Suc d - n" using d assms(2) by (simp add: mod_if)
    then show False using assms(3) d False by simp
  qed
qed

lemma sched_next_None_spec:
  assumes "sched_next s = (None, s')" "current s < length (tasks s)" "i < length (tasks s)" "i \<noteq> current s"
  shows "t_state (woken s ! i) \<noteq> Ready"
proof -
  let ?n = "length (tasks s)" and ?ts = "woken s"
  let ?nxt = "find_ready ?ts ?n (Suc (current s) mod ?n)"
  have n: "t_state (?ts ! ?nxt) \<noteq> Ready \<or> ?nxt = current s"
    using assms by (auto simp: sched_next_def Let_def split: if_splits)
  have pos: "0 < ?n" using assms(2) by linarith
  then have lt: "Suc (current s) mod ?n < length ?ts" by simp
  have sh: "(Suc (current s) mod ?n + e) mod length ?ts = (current s + Suc e) mod ?n" for e
    by (simp add: mod_add_left_eq)
  obtain d where d: "d \<le> ?n" "?nxt = (Suc (current s) mod ?n + d) mod length ?ts"
    "\<And>e. e < d \<Longrightarrow> t_state (?ts ! ((Suc (current s) mod ?n + e) mod length ?ts)) \<noteq> Ready"
    "d < ?n \<Longrightarrow> t_state (?ts ! ((Suc (current s) mod ?n + d) mod length ?ts)) = Ready"
    by (rule find_ready_spec [OF lt, of ?n]) blast
  obtain e where e: "Suc e < ?n" "i = (current s + Suc e) mod ?n" using cyclic_offset [OF assms(3,2,4)] .
  have "e < d"
  proof (cases "d < ?n")
    case True
    then have "?nxt = current s" using n d(2,4) by auto
    then have "(current s + Suc d) mod ?n = current s" using d(2) sh by simp
    then have "Suc d = ?n" using cyclic_full [of d ?n "current s"] True assms(2) by simp
    then show ?thesis using e(1) by simp
  next
    case False
    then show ?thesis using e(1) by simp
  qed
  then show ?thesis using d(3) [of e] sh e(2) by simp
qed

lemma sched_next_Some_ok:
  assumes "sched_next s = (Some w, s')" "sched_at_most s"
  shows "sched_ok s'"
proof -
  have c: "current s < length (tasks s)" using assms(2) by (simp add: sched_at_most_def)
  show ?thesis
    using assms(1) c
  proof (rule sched_next_SomeD)
    fix d nxt assume a: "nxt < length (tasks s)" "current s' = nxt" "length (tasks s') = length (tasks s)"
      "\<And>i. i < length (tasks s) \<Longrightarrow> tasks s' ! i = (if i = nxt then (woken s ! i)\<lparr>t_state := Running\<rparr>
       else if i = current s \<and> t_state (woken s ! i) = Running then (woken s ! i)\<lparr>t_state := Ready\<rparr> else woken s ! i)"
    have "t_state (tasks s' ! i) = Running \<longleftrightarrow> i = nxt" if "i < length (tasks s)" for i
      using that assms(2) a(4) [OF that] by (auto simp: sched_at_most_def wake_sleeper_state)
    then show ?thesis using a by (simp add: sched_ok_def)
  qed
qed

section \<open>What a switch leaves alone\<close>

lemma push_pop_fields [simp]:
  "tasks (push_reg v s) = tasks s" "current (push_reg v s) = current s"
  "TICK_COUNT (push_reg v s) = TICK_COUNT s"
  "tasks (pop_into f s) = tasks s" "current (pop_into f s) = current s"
  "TICK_COUNT (pop_into f s) = TICK_COUNT s"
  by (simp_all add: push_reg_def pop_into_def write_u64_def Let_def)

lemma context_fields [simp]:
  "tasks (push_context s) = tasks s" "current (push_context s) = current s"
  "TICK_COUNT (push_context s) = TICK_COUNT s"
  "tasks (pop_context s) = tasks s" "current (pop_context s) = current s"
  "TICK_COUNT (pop_context s) = TICK_COUNT s"
  "tasks (load_rsp r s) = tasks s" "current (load_rsp r s) = current s"
  "TICK_COUNT (load_rsp r s) = TICK_COUNT s"
  "current (save_rsp i s) = current s" "TICK_COUNT (save_rsp i s) = TICK_COUNT s"
  by (simp_all add: push_context_def push_of_def pop_context_def load_rsp_def save_rsp_def)

lemma context_switch_fields:
  "current (context_switch old r s) = current s" "TICK_COUNT (context_switch old r s) = TICK_COUNT s"
  "tasks (context_switch old r s) = (tasks s)[old := (tasks s ! old)\<lparr>t_rsp := rsp (CPU (push_context s))\<rparr>]"
  by (simp_all add: context_switch_def) (simp add: save_rsp_def)

lemma switch_to_fields:
  "current (switch_to ret w s) = current s" "TICK_COUNT (switch_to ret w s) = TICK_COUNT s"
  "\<exists>sp. tasks (switch_to ret w s) = (tasks s)[fst w := (tasks s ! fst w)\<lparr>t_rsp := sp\<rparr>]"
proof -
  obtain old r c k where w: "w = (old, r, c, k)" by (cases w) auto
  have f: "tasks (write_cr3 c (use_kstack k s)) = tasks s" "current (write_cr3 c (use_kstack k s)) = current s"
    "TICK_COUNT (write_cr3 c (use_kstack k s)) = TICK_COUNT s"
    by (simp_all add: write_cr3_def use_kstack_def)
  show "current (switch_to ret w s) = current s" "TICK_COUNT (switch_to ret w s) = TICK_COUNT s"
    "\<exists>sp. tasks (switch_to ret w s) = (tasks s)[fst w := (tasks s ! fst w)\<lparr>t_rsp := sp\<rparr>]"
    by (auto simp: w switch_to_def context_switch_fields f)
qed

lemma switch_to_nth:
  "length (tasks (switch_to ret w s)) = length (tasks s)"
  "i < length (tasks s) \<Longrightarrow> t_state (tasks (switch_to ret w s) ! i) = t_state (tasks s ! i)"
  "i < length (tasks s) \<Longrightarrow> waiting_irq (tasks (switch_to ret w s) ! i) = waiting_irq (tasks s ! i)"
  "i < length (tasks s) \<Longrightarrow> wake_at (tasks (switch_to ret w s) ! i) = wake_at (tasks s ! i)"
  using switch_to_fields(3) [of ret w s] by (cases "fst w = i"; auto)+

lemma sched_ok_switch: "sched_ok (switch_to ret w s) = sched_ok s"
  by (simp add: sched_ok_def switch_to_fields switch_to_nth cong: conj_cong)

lemma sched_at_most_block:
  assumes "sched_ok s" "t_state t \<noteq> Running"
  shows "sched_at_most (s\<lparr>tasks := (tasks s)[current s := t]\<rparr>)"
  using assms by (auto simp: sched_ok_def sched_at_most_def nth_list_update)

text \<open>If nothing else is ready, putting the current task back to running restores the invariant.\<close>

lemma sched_ok_unblock:
  assumes ok: "sched_ok s" and t: "t_state t \<noteq> Running"
    and n: "sched_next (s\<lparr>tasks := (tasks s)[current s := t]\<rparr>) = (None, s1)"
    and t': "t_state t' = Running"
  shows "sched_ok (s1\<lparr>tasks := (tasks s1)[current s1 := t']\<rparr>)"
proof -
  let ?s0 = "s\<lparr>tasks := (tasks s)[current s := t]\<rparr>"
  have c: "current s1 = current s" "length (tasks s1) = length (tasks s)"
    using sched_next_NoneD [OF n] by auto
  have "t_state (tasks s1 ! i) = Running \<longleftrightarrow> t_state (tasks ?s0 ! i) = Running" if "i < length (tasks s)" for i
    using sched_next_NoneD [OF n] that by (auto simp: wake_sleeper_state)
  then show ?thesis using ok t t' c by (auto simp: sched_ok_def nth_list_update)
qed

lemma sched_next_ok:
  assumes "sched_ok s" "sched_next s = (sw, s')"
  shows "sched_ok s'"
proof (cases sw)
  case None
  then show ?thesis using sched_next_NoneD [of s s'] assms by (auto simp: sched_ok_def wake_sleeper_state)
next
  case (Some w)
  then show ?thesis using sched_next_Some_ok assms sched_ok_at_most by blast
qed

lemma wake_waiter_state:
  "t_state (wake_waiter v t) = Running \<longleftrightarrow> t_state t = Running"
  "t_state t = Ready \<Longrightarrow> wake_waiter v t = t"
  by (auto simp: wake_waiter_def)

lemma sched_ok_wake: "sched_ok (wake_irq_waiters v s) = sched_ok s"
  by (auto simp: sched_ok_def wake_irq_waiters_def wake_waiter_state)

lemma tick_ok: "sched_ok s \<Longrightarrow> sched_ok (tick v ret s)"
proof -
  assume "sched_ok s"
  then have "sched_ok (wake_irq_waiters v (s\<lparr>TICK_COUNT := TICK_COUNT s + 1\<rparr>))"
    by (simp add: sched_ok_wake) (simp add: sched_ok_def)
  then show ?thesis
    by (auto simp: tick_def Let_def sched_ok_switch split: prod.split option.split dest: sched_next_ok)
qed

lemma sleep_ms_ok: "sched_ok s \<Longrightarrow> sched_ok (snd (sleep_ms ret ms s))"
  using sched_at_most_block [of s "(tasks s ! current s)\<lparr>wake_at := TICK_COUNT s + sleep_ticks ms, t_state := Blocked\<rparr>"]
    sched_ok_unblock [of s "(tasks s ! current s)\<lparr>wake_at := TICK_COUNT s + sleep_ticks ms, t_state := Blocked\<rparr>"]
  by (auto simp: sleep_ms_def Let_def sched_ok_switch set_task_state_def split: prod.split option.split
      dest: sched_next_Some_ok)

lemma block_on_irq_ok: "sched_ok s \<Longrightarrow> sched_ok (snd (block_on_irq ret v s))"
proof -
  assume ok: "sched_ok s"
  let ?t = "(tasks s ! current s)\<lparr>waiting_irq := Some v, wake_at := - 1, t_state := Blocked\<rparr>"
  have gs: "sched_ok (s\<lparr>gs_swapped := g\<rparr>) = sched_ok s" for s :: "'a sched_state_scheme" and g
    by (simp add: sched_ok_def)
  show ?thesis
    using sched_at_most_block [OF ok, of ?t] sched_ok_unblock [OF ok, of ?t]
    by (auto simp: block_on_irq_def Let_def sched_ok_switch gs split: prod.split option.split
        dest: sched_next_Some_ok)
qed

lemma exit_current_ok: "sched_ok s \<Longrightarrow> exit_current ret s = (True, s') \<Longrightarrow> sched_ok s'"
  using sched_at_most_block [of s "(tasks s ! current s)\<lparr>t_state := Dead\<rparr>"]
  by (auto simp: exit_current_def Let_def sched_ok_switch set_task_state_def split: prod.splits option.splits
      dest: sched_next_Some_ok)

text \<open>Heap operations leave the scheduler's statics alone.\<close>

lemma thread_chunks_sched [simp]:
  "tasks (thread_chunks ci b sz is s) = tasks s" "current (thread_chunks ci b sz is s) = current s"
  by (induction "is" arbitrary: s) (simp_all add: Let_def write_u64_def)

lemma set_used_sched [simp]:
  "tasks (set_used p s) = tasks s" "current (set_used p s) = current s"
  by (simp_all add: set_used_def)

lemma alloc_sched:
  "alloc_page s = Some (a, s') \<Longrightarrow> tasks s' = tasks s \<and> current s' = current s"
  "alloc_contiguous n s = Some (a, s') \<Longrightarrow> tasks s' = tasks s \<and> current s' = current s"
proof -
  show "alloc_page s = Some (a, s') \<Longrightarrow> tasks s' = tasks s \<and> current s' = current s"
    by (erule alloc_page_SomeD) simp
  have "tasks (fold set_used ps s) = tasks s \<and> current (fold set_used ps s) = current s" for ps
    by (induction ps arbitrary: s) simp_all
  then show "alloc_contiguous n s = Some (a, s') \<Longrightarrow> tasks s' = tasks s \<and> current s' = current s"
    by (auto simp: alloc_contiguous_def Let_def split: option.splits)
qed

lemma slab_alloc_sched:
  assumes "slab_alloc l s = (p, s')"
  shows "tasks s' = tasks s \<and> current s' = current s"
  using assms
  by (auto simp: slab_alloc_def Let_def split: if_splits option.splits dest: alloc_sched)

lemma vec_zeroed_sched:
  assumes "vec_zeroed n s = Inr (p, s')"
  shows "tasks s' = tasks s \<and> current s' = current s"
  using assms slab_alloc_sched by (fastforce simp: vec_zeroed_def write_bytes_def split: prod.splits if_splits)

lemma task_new_sched:
  assumes "task_new tr tid nm entry s = Inr (t, s')"
  shows "tasks s' = tasks s \<and> current s' = current s \<and> t_state t = Ready"
proof -
  obtain stk s1 where 1: "vec_zeroed STACK_SIZE s = Inr (stk, s1)"
    using assms by (auto simp: task_new_def rbind_eq_Inr)
  define s2 where "s2 = write_u64 (initial_rsp (stk + word_of_nat STACK_SIZE) + 48) tr
    (write_u64 (initial_rsp (stk + word_of_nat STACK_SIZE) + 40) entry
    (write_u64 (initial_rsp (stk + word_of_nat STACK_SIZE) + 32) 0
    (write_u64 (initial_rsp (stk + word_of_nat STACK_SIZE) + 24) 0
    (write_u64 (initial_rsp (stk + word_of_nat STACK_SIZE) + 16) 0
    (write_u64 (initial_rsp (stk + word_of_nat STACK_SIZE) + 8) 0
    (write_u64 (initial_rsp (stk + word_of_nat STACK_SIZE)) 0 s1))))))"
  have s2: "tasks s2 = tasks s1" "current s2 = current s1" by (simp_all add: s2_def write_u64_def)
  obtain ks s3 where 2: "vec_zeroed KSTACK_SIZE s2 = Inr (ks, s3)" and "s' = s3" "t_state t = Ready"
    using assms 1 by (auto simp: task_new_def rbind_eq_Inr Let_def s2_def)
  then show ?thesis using vec_zeroed_sched [OF 1] vec_zeroed_sched [OF 2] s2 by simp
qed

lemma find_dead_Some:
  "find_dead ts = Some i \<Longrightarrow> i < length ts \<and> t_state (ts ! i) = Dead"
  unfolding find_dead_def by (drule position_SomeD) simp

lemma spawn_ok:
  assumes "sched_ok s" "spawn tr nm entry s = Inr (tid, s')"
  shows "sched_ok s'"
proof -
  obtain t s1 where t: "task_new tr (NEXT_TASK_ID s) nm entry (s\<lparr>NEXT_TASK_ID := NEXT_TASK_ID s + 1\<rparr>) = Inr (t, s1)"
    and s': "s' = (case find_dead (tasks s1) of Some slot \<Rightarrow> s1\<lparr>tasks := (tasks s1)[slot := t]\<rparr>
      | None \<Rightarrow> s1\<lparr>tasks := tasks s1 @ [t]\<rparr>)"
    using assms(2) by (auto simp: spawn_def Let_def rbind_eq_Inr split: option.splits)
  have f: "tasks s1 = tasks s" "current s1 = current s" "t_state t = Ready"
    using task_new_sched [OF t] by auto
  show ?thesis
  proof (cases "find_dead (tasks s1)")
    case None
    then show ?thesis using assms(1) f by (auto simp: s' sched_ok_def nth_append less_Suc_eq)
  next
    case (Some slot)
    have d: "t_state (tasks s ! slot) = Dead" "slot < length (tasks s)" using find_dead_Some [OF Some] f by auto
    then have "slot \<noteq> current s" using assms(1) by (auto simp: sched_ok_def)
    with d(2) show ?thesis using assms(1) f Some by (auto simp: s' sched_ok_def nth_list_update split: if_splits)
  qed
qed

section \<open>A ready task runs\<close>

lemma tick_current:
  assumes ok: "sched_ok s" and i: "i = (current s + m) mod length (tasks s)" "0 < m" "m < length (tasks s)"
    and r: "t_state (tasks s ! i) = Ready"
  shows "length (tasks (tick v ret s)) = length (tasks s) \<and>
    (\<exists>m' < m. i = (current (tick v ret s) + m') mod length (tasks s)) \<and>
    (current (tick v ret s) = i \<or> t_state (tasks (tick v ret s) ! i) = Ready)"
proof -
  let ?n = "length (tasks s)"
  define s0 where "s0 = wake_irq_waiters v (s\<lparr>TICK_COUNT := TICK_COUNT s + 1\<rparr>)"
  have s0: "current s0 = current s" "length (tasks s0) = ?n" "sched_ok s0"
    using ok sched_ok_wake [of v "s\<lparr>TICK_COUNT := TICK_COUNT s + 1\<rparr>"]
    by (simp_all add: s0_def wake_irq_waiters_def) (simp add: sched_ok_def)
  have "0 < ?n" using i(3) by linarith
  then have il: "i < ?n" unfolding i(1) by (rule mod_less_divisor)
  have r0: "woken s0 ! i = tasks s ! i"
    using il r by (simp add: s0_def wake_irq_waiters_def wake_waiter_state wake_sleeper_state)
  have ni: "i \<noteq> current s" using ok r il by (auto simp: sched_ok_def)
  obtain sw s1 where n: "sched_next s0 = (sw, s1)" by (cases "sched_next s0")
  have c0: "current s0 < length (tasks s0)" using s0(3) by (simp add: sched_ok_def)
  have "sw \<noteq> None"
  proof
    assume "sw = None"
    then show False using sched_next_None_spec [of s0 s1 i] n c0 s0 il ni r0 r by simp
  qed
  then obtain w where w: "sched_next s0 = (Some w, s1)" using n by auto
  have t: "tick v ret s = switch_to ret w s1"
    by (simp add: tick_def Let_def s0_def [symmetric] w)
  show ?thesis using w c0
  proof (rule sched_next_SomeD)
    fix d nxt
    assume a: "nxt = (current s0 + Suc d) mod length (tasks s0)"
      "\<And>e. e < d \<Longrightarrow> t_state (woken s0 ! ((current s0 + Suc e) mod length (tasks s0))) \<noteq> Ready"
      "current s1 = nxt" "length (tasks s1) = length (tasks s0)"
      "\<And>i. i < length (tasks s0) \<Longrightarrow> tasks s1 ! i = (if i = nxt then (woken s0 ! i)\<lparr>t_state := Running\<rparr>
       else if i = current s0 \<and> t_state (woken s0 ! i) = Running then (woken s0 ! i)\<lparr>t_state := Ready\<rparr> else woken s0 ! i)"
    have d: "d < m"
    proof (rule ccontr)
      assume "\<not> d < m"
      then have "t_state (woken s0 ! ((current s0 + Suc (m - 1)) mod length (tasks s0))) \<noteq> Ready"
        using i(2) by (intro a(2)) simp
      then show False using i s0 r0 r by simp
    qed
    have "current (tick v ret s) = (current s + Suc d) mod ?n"
      using a(1,3) s0 by (simp add: t switch_to_fields)
    then have "(current (tick v ret s) + (m - Suc d)) mod ?n = (current s + Suc d + (m - Suc d)) mod ?n"
      by (simp only: mod_add_left_eq)
    then have "i = (current (tick v ret s) + (m - Suc d)) mod ?n" using d i(1) by simp
    moreover have "t_state (tasks (tick v ret s) ! i) = Ready" if "i \<noteq> nxt"
      using a(4) a(5) [of i] that ni il s0 r0 r by (simp add: t switch_to_nth)
    moreover have "current (tick v ret s) = nxt" "length (tasks (tick v ret s)) = ?n"
      using a(3,4) s0 by (simp_all add: t switch_to_fields switch_to_nth)
    moreover have "m - Suc d < m" using d by simp
    ultimately show ?thesis by blast
  qed
qed

lemma ticks_reach:
  assumes "sched_ok s" "m < length (tasks s)" "i = (current s + m) mod length (tasks s)"
    "m = 0 \<or> t_state (tasks s ! i) = Ready"
  shows "\<exists>k \<le> m. current ((tick v ret ^^ k) s) = i"
  using assms
proof (induction m arbitrary: s rule: less_induct)
  case (less m)
  show ?case
  proof (cases "m = 0")
    case True
    then show ?thesis using less.prems by (intro exI [of _ 0]) (simp add: sched_ok_def)
  next
    case False
    then have r: "t_state (tasks s ! i) = Ready" "0 < m" using less.prems(4) by auto
    note t = tick_current [OF less.prems(1,3) r(2) less.prems(2) r(1), of v ret]
    obtain m' where m': "m' < m" "i = (current (tick v ret s) + m') mod length (tasks s)" using t by blast
    have c: "current (tick v ret s) < length (tasks s)"
      using tick_ok [OF less.prems(1), of v ret] t by (simp add: sched_ok_def)
    show ?thesis
    proof (cases "current (tick v ret s) = i")
      case True
      then show ?thesis using r(2) by (intro exI [of _ 1]) simp
    next
      case False
      then have "\<exists>k \<le> m'. current ((tick v ret ^^ k) (tick v ret s)) = i"
        using t m' less.prems(2) tick_ok [OF less.prems(1), of v ret] by (intro less.IH) auto
      then obtain k where "k \<le> m'" "current ((tick v ret ^^ k) (tick v ret s)) = i" by blast
      then show ?thesis using m'(1) by (intro exI [of _ "Suc k"]) (simp add: funpow_Suc_right del: funpow.simps)
    qed
  qed
qed

section \<open>Saving and restoring a context\<close>

lemma unat_minus_small: "n \<le> unat (r :: u64) \<Longrightarrow> unat (r - word_of_nat n) = unat r - n"
proof -
  assume n: "n \<le> unat r"
  then have "n < 2 ^ 64" using unat_less_2p [of r] by (simp del: unat_u64_less)
  then show ?thesis using n unat_u64_of_nat [of n] by (simp add: unat_sub word_le_nat_alt)
qed

text \<open>The seven words a switched-out task leaves on its stack, from its saved stack pointer up.\<close>

definition frame_words :: "'a kmem_state_scheme \<Rightarrow> u64 \<Rightarrow> u64 list" where
  "frame_words s sp = map (\<lambda>k. read_u64 s (sp + 8 * word_of_nat k)) [0 ..< 7]"

lemma push_reg_sp [simp]: "rsp (CPU (push_reg v s)) = rsp (CPU s) - 8"
  by (simp add: push_reg_def Let_def)

lemma push_reg_cpu [simp]:
  "rbx (CPU (push_reg v s)) = rbx (CPU s)" "rbp (CPU (push_reg v s)) = rbp (CPU s)"
  "r12 (CPU (push_reg v s)) = r12 (CPU s)" "r13 (CPU (push_reg v s)) = r13 (CPU s)"
  "r14 (CPU (push_reg v s)) = r14 (CPU s)" "r15 (CPU (push_reg v s)) = r15 (CPU s)"
  by (simp_all add: push_reg_def Let_def)

lemma push_reg_read:
  "read_u64 (push_reg v s) (rsp (CPU s) - 8) = v"
  "unat (rsp (CPU s) - 8) + 8 \<le> unat q \<or> unat q + 8 \<le> unat (rsp (CPU s) - 8) \<Longrightarrow>
     read_u64 (push_reg v s) q = read_u64 s q"
proof -
  have m: "MEM (push_reg v s) = MEM (write_u64 (rsp (CPU s) - 8) v s)" by (simp add: push_reg_def Let_def)
  then have r: "read_u64 (push_reg v s) q = read_u64 (write_u64 (rsp (CPU s) - 8) v s) q" for q
    by (simp add: read_u64_def)
  show "read_u64 (push_reg v s) (rsp (CPU s) - 8) = v" by (simp add: r)
  show "unat (rsp (CPU s) - 8) + 8 \<le> unat q \<or> unat q + 8 \<le> unat (rsp (CPU s) - 8) \<Longrightarrow>
     read_u64 (push_reg v s) q = read_u64 s q"
    unfolding r by (rule read_write_u64_other) auto
qed

lemma fold_push:
  assumes "8 * length vs \<le> unat (rsp (CPU s))"
  shows "rsp (CPU (fold push_reg vs s)) = rsp (CPU s) - word_of_nat (8 * length vs)"
    "\<forall>k < length vs. read_u64 (fold push_reg vs s) (rsp (CPU s) - word_of_nat (8 * Suc k)) = vs ! k"
  using assms
proof (induction vs rule: rev_induct)
  case Nil
  { case 1 then show ?case by simp next case 2 then show ?case by simp }
next
  case (snoc v vs)
  let ?r = "rsp (CPU s)" and ?s = "fold push_reg vs s"
  { case 1
    then have "rsp (CPU ?s) = ?r - word_of_nat (8 * length vs)" using snoc by simp
    then show ?case by (simp add: algebra_simps) }
  note sp = this
  { case 2
    have L: "8 * Suc (length vs) \<le> unat ?r" using 2 by simp
    have b: "8 * length vs \<le> unat ?r" using 2 by simp
    note IH = snoc.IH [OF b]
    have top: "rsp (CPU ?s) - 8 = ?r - word_of_nat (8 * Suc (length vs))" using IH(1) by (simp add: algebra_simps)
    show ?case
    proof (intro allI impI)
      fix k assume k: "k < length (vs @ [v])"
      show "read_u64 (fold push_reg (vs @ [v]) s) (?r - word_of_nat (8 * Suc k)) = (vs @ [v]) ! k"
      proof (cases "k = length vs")
        case True
        then show ?thesis using push_reg_read(1) [of v ?s] top by simp
      next
        case False
        then have kl: "k < length vs" using k by simp
        have u1: "unat (?r - word_of_nat (8 * Suc k)) = unat ?r - 8 * Suc k"
          by (rule unat_minus_small, rule le_trans [OF _ L]) (use kl in simp)
        have u2: "unat (rsp (CPU ?s) - 8) = unat ?r - 8 * Suc (length vs)"
          unfolding top using L by (rule unat_minus_small)
        have "unat ?r - 8 * Suc (length vs) + 8 \<le> unat ?r - 8 * Suc k" using kl L by simp
        then have "unat (rsp (CPU ?s) - 8) + 8 \<le> unat (?r - word_of_nat (8 * Suc k))" unfolding u1 u2 .
        then have "read_u64 (push_reg v ?s) (?r - word_of_nat (8 * Suc k)) = read_u64 ?s (?r - word_of_nat (8 * Suc k))"
          by (intro push_reg_read(2) disjI1)
        then show ?thesis using IH(2) kl by (simp add: nth_append)
      qed
    qed }
qed

lemma push_context_fold:
  "push_context (push_reg ret s) = fold push_reg [ret, rbx (CPU s), rbp (CPU s), r12 (CPU s), r13 (CPU s), r14 (CPU s), r15 (CPU s)] s"
  by (simp add: push_context_def push_of_def)

lemma fold_push_other:
  assumes "8 * length vs \<le> unat (rsp (CPU s))" "unat (rsp (CPU s)) \<le> unat q"
  shows "read_u64 (fold push_reg vs s) q = read_u64 s q"
  using assms
proof (induction vs arbitrary: s)
  case (Cons v vs)
  have 8: "unat (rsp (CPU s) - 8) = unat (rsp (CPU s)) - 8"
    using Cons.prems(1) unat_minus_small [of 8 "rsp (CPU s)"] by simp
  have "read_u64 (push_reg v s) q = read_u64 s q"
    using Cons.prems 8 by (intro push_reg_read(2)) simp
  then show ?case using Cons.IH [of "push_reg v s"] Cons.prems 8 by simp
qed simp

lemma push_context_other:
  assumes "48 \<le> unat (rsp (CPU s))" "unat (rsp (CPU s)) \<le> unat q"
  shows "read_u64 (push_context s) q = read_u64 s q"
proof -
  have "push_context s = fold push_reg
      [rbx (CPU s), rbp (CPU s), r12 (CPU s), r13 (CPU s), r14 (CPU s), r15 (CPU s)] s"
    by (simp add: push_context_def push_of_def)
  then show ?thesis using fold_push_other [OF _ assms(2), where vs =
      "[rbx (CPU s), rbp (CPU s), r12 (CPU s), r13 (CPU s), r14 (CPU s), r15 (CPU s)]"] assms(1)
    by (simp del: fold_simps)
qed

lemma pop_into_read [simp]: "read_u64 (pop_into f s) q = read_u64 s q"
  by (simp add: pop_into_def read_u64_def)

lemma pop_context_cpu:
  "CPU (pop_context s) = \<lparr>rbx = read_u64 s (rsp (CPU s) + 40), rbp = read_u64 s (rsp (CPU s) + 32),
     r12 = read_u64 s (rsp (CPU s) + 24), r13 = read_u64 s (rsp (CPU s) + 16), r14 = read_u64 s (rsp (CPU s) + 8),
     r15 = read_u64 s (rsp (CPU s)), rsp = rsp (CPU s) + 56, rip = read_u64 s (rsp (CPU s) + 48)\<rparr>"
proof -
  have cpu: "CPU (pop_into f s) = f (\<lambda>_. read_u64 s (rsp (CPU s))) ((CPU s)\<lparr>rsp := rsp (CPU s) + 8\<rparr>)"
    for f and s :: "'a sched_state_scheme" by (simp add: pop_into_def)
  show ?thesis
    unfolding pop_context_def by (cases "CPU s") (simp add: cpu add.commute)
qed

lemma saved_frame:
  assumes "56 \<le> unat (rsp (CPU s))"
  shows "rsp (CPU (push_context (push_reg ret s))) = rsp (CPU s) - 56"
    "frame_words (push_context (push_reg ret s)) (rsp (CPU s) - 56) =
      [r15 (CPU s), r14 (CPU s), r13 (CPU s), r12 (CPU s), rbp (CPU s), rbx (CPU s), ret]"
proof -
  let ?vs = "[ret, rbx (CPU s), rbp (CPU s), r12 (CPU s), r13 (CPU s), r14 (CPU s), r15 (CPU s)]"
  let ?r = "rsp (CPU s)" and ?s = "fold push_reg ?vs s"
  note f = fold_push [of ?vs s]
  show "rsp (CPU (push_context (push_reg ret s))) = ?r - 56"
    unfolding push_context_fold using f(1) assms by simp
  have rd: "read_u64 ?s (?r - word_of_nat (8 * Suc k)) = ?vs ! k" if "k < 7" for k
    using f(2) assms that by simp
  have "frame_words ?s (?r - 56) = [?vs ! 6, ?vs ! 5, ?vs ! 4, ?vs ! 3, ?vs ! 2, ?vs ! 1, ?vs ! 0]"
    unfolding frame_words_def
    using rd [of 6] rd [of 5] rd [of 4] rd [of 3] rd [of 2] rd [of 1] rd [of 0]
    by (simp add: upt_rec algebra_simps del: fold_simps)
  then show "frame_words (push_context (push_reg ret s)) (?r - 56) =
      [r15 (CPU s), r14 (CPU s), r13 (CPU s), r12 (CPU s), rbp (CPU s), rbx (CPU s), ret]"
    unfolding push_context_fold by (simp del: fold_simps)
qed

lemma switch_cpu:
  assumes "frame_words (push_context s) sp = [w15, w14, w13, w12, wbp, wbx, wip]"
  shows "CPU (context_switch b sp s) = \<lparr>rbx = wbx, rbp = wbp, r12 = w12, r13 = w13, r14 = w14, r15 = w15,
    rsp = sp + 56, rip = wip\<rparr>"
proof -
  let ?t = "load_rsp sp (save_rsp b (push_context s))"
  have r: "read_u64 ?t q = read_u64 (push_context s) q" for q
    by (simp add: load_rsp_def save_rsp_def read_u64_def)
  have "rsp (CPU ?t) = sp" by (simp add: load_rsp_def)
  then show ?thesis
    using assms unfolding context_switch_def pop_context_cpu
    by (simp add: r frame_words_def upt_rec)
qed

section \<open>Properties\<close>

definition example_task :: "task_state \<Rightarrow> u64 \<Rightarrow> task" where
  "example_task st wk = \<lparr>t_id = 0, t_name = ''t'', t_state = st, wake_at = wk, waiting_irq = None,
     t_cr3 = 0x1000, t_rsp = 0x9000, kstack_top = 0xA000\<rparr>"

definition example_sched :: sched_state where
  "example_sched = \<lparr>BITMAP = \<lambda>_. 0, TOTAL_PAGES = 0, FREE_PAGES = 0, HHDM_OFFSET = 0xFFFF800000000000,
     MEM = \<lambda>_. 0, CR3 = 0x1000, TLB = {}, FREE_LISTS = \<lambda>_. 0,
     tasks = [example_task Running 0, example_task Blocked 5, example_task Ready 0], current = 0,
     NEXT_TASK_ID = 3, TICK_COUNT = 1,
     CPU = \<lparr>rbx = 1, rbp = 2, r12 = 3, r13 = 4, r14 = 5, r15 = 6, rsp = 0x8000, rip = 0x100\<rparr>,
     PERCPU_kernel_stack = 0, PERCPU_user_rsp = 0, TSS_rsp0 = 0, gs_swapped = False\<rparr>"

lemma example_sched_ok: "sched_ok example_sched"
  by (auto simp: sched_ok_def example_sched_def example_task_def less_Suc_eq)

lemma example_sched_tasks:
  "length (tasks example_sched) = 3" "current example_sched = 0" "rsp (CPU example_sched) = 0x8000"
  "tasks example_sched ! Suc 0 = example_task Blocked 5" "tasks example_sched ! 2 = example_task Ready 0"
  "TICK_COUNT example_sched = 1"
  by (simp_all add: example_sched_def)

text \<open>
  C7: \<open>sched_ok\<close>, that the index of the current task is in range and that exactly the current
  task is running, is kept by the timer tick, by \<open>sleep_ms\<close>, \<open>block_on_irq\<close> and \<open>spawn\<close>, and by an
  \<open>exit_current\<close> that finds another task.
\<close>

theorem sched_ok_preserved:
  assumes "sched_ok s"
  shows "sched_ok (tick v ret s) \<and> sched_ok (snd (sleep_ms ret ms s)) \<and>
    sched_ok (snd (block_on_irq ret v s)) \<and>
    (\<forall>tid s'. spawn tr nm entry s = Inr (tid, s') \<longrightarrow> sched_ok s') \<and>
    (\<forall>s'. exit_current ret s = (True, s') \<longrightarrow> sched_ok s')"
  using tick_ok [OF assms] sleep_ms_ok [OF assms] block_on_irq_ok [OF assms] spawn_ok [OF assms]
    exit_current_ok [OF assms] by blast

theorem sched_ok_preserved_witness:
  "sched_ok example_sched \<and> sched_ok (tick 32 0 example_sched) \<and> sched_ok (snd (sleep_ms 0 20 example_sched))"
  using sched_ok_preserved [OF example_sched_ok] example_sched_ok by blast

text \<open>
  \<open>next\<close> is round robin. After sleepers whose time has come are made ready it switches to the
  first ready task in cyclic order after the current one, which becomes running while a preempted current
  task becomes ready again and every other task is unchanged; it declines to switch exactly when there
  is no other ready task.
\<close>

lemma sched_next_round_robin:
  assumes "sched_at_most s"
  shows "case sched_next s of
      (None, s') \<Rightarrow> current s' = current s \<and>
        (\<forall>i < length (tasks s). i \<noteq> current s \<longrightarrow> t_state (woken s ! i) \<noteq> Ready)
    | (Some (old, new_rsp, new_cr3, kt), s') \<Rightarrow> old = current s \<and> sched_ok s' \<and>
        (\<exists>d. current s' = (current s + Suc d) mod length (tasks s) \<and> current s' \<noteq> current s \<and>
           t_state (woken s ! current s') = Ready \<and>
           (\<forall>e < d. t_state (woken s ! ((current s + Suc e) mod length (tasks s))) \<noteq> Ready)) \<and>
        new_rsp = t_rsp (tasks s' ! current s') \<and> new_cr3 = t_cr3 (tasks s' ! current s') \<and>
        kt = kstack_top (tasks s' ! current s') \<and>
        (\<forall>i < length (tasks s). i \<noteq> current s \<and> i \<noteq> current s' \<longrightarrow> tasks s' ! i = woken s ! i)"
proof -
  have c: "current s < length (tasks s)" using assms by (simp add: sched_at_most_def)
  obtain sw s' where n: "sched_next s = (sw, s')" by (cases "sched_next s")
  show ?thesis
  proof (cases sw)
    case None
    then have r: "sched_next s = (None, s')" using n by simp
    have "current s' = current s" using sched_next_NoneD [OF r] by auto
    then show ?thesis using sched_next_None_spec [OF r c] unfolding r by simp
  next
    case (Some w)
    then have r: "sched_next s = (Some w, s')" using n by simp
    have ok: "sched_ok s'" using sched_next_Some_ok [OF r assms] .
    from r c show ?thesis
    proof (rule sched_next_SomeD)
      fix d nxt
      assume a: "nxt = (current s + Suc d) mod length (tasks s)"
        "\<And>e. e < d \<Longrightarrow> t_state (woken s ! ((current s + Suc e) mod length (tasks s))) \<noteq> Ready"
        "t_state (woken s ! nxt) = Ready" "nxt \<noteq> current s" "current s' = nxt"
        "w = (current s, t_rsp (tasks s' ! nxt), t_cr3 (tasks s' ! nxt), kstack_top (tasks s' ! nxt))"
        "\<And>i. i < length (tasks s) \<Longrightarrow> tasks s' ! i = (if i = nxt then (woken s ! i)\<lparr>t_state := Running\<rparr>
          else if i = current s \<and> t_state (woken s ! i) = Running then (woken s ! i)\<lparr>t_state := Ready\<rparr> else woken s ! i)"
      have "\<exists>d. current s' = (current s + Suc d) mod length (tasks s) \<and> current s' \<noteq> current s \<and>
           t_state (woken s ! current s') = Ready \<and>
           (\<forall>e < d. t_state (woken s ! ((current s + Suc e) mod length (tasks s))) \<noteq> Ready)"
        using a(1-5) by (intro exI [of _ d]) simp
      then show ?thesis using a(5-7) ok unfolding r by simp
    qed
  qed
qed

text \<open>
  C8: no ready task starves: a task that is ready is the running task within fewer ticks than there
  are tasks, whatever the other tasks' states.
\<close>

theorem ready_task_runs:
  assumes "sched_ok s" "i < length (tasks s)" "t_state (tasks s ! i) = Ready"
  shows "\<exists>k < length (tasks s). current ((tick v ret ^^ k) s) = i"
proof -
  have c: "current s < length (tasks s)" "i \<noteq> current s" using assms by (auto simp: sched_ok_def)
  obtain e where e: "Suc e < length (tasks s)" "i = (current s + Suc e) mod length (tasks s)"
    using cyclic_offset [OF assms(2) c] .
  then obtain k where "k \<le> Suc e" "current ((tick v ret ^^ k) s) = i"
    using ticks_reach [OF assms(1) e, of v ret] assms(3) by blast
  then show ?thesis using e(1) by (intro exI [of _ k]) simp
qed

theorem ready_task_runs_witness: "\<exists>k < 3. current ((tick 32 0 ^^ k) example_sched) = 2"
  using ready_task_runs [OF example_sched_ok, of 2 32 0] by (simp add: example_sched_tasks example_task_def)

text \<open>
  a tick wakes a blocked task exactly when it should: one that sleeps stays blocked as long as
  the tick count is below its wake time, one that waits for an interrupt as long as that interrupt is
  not the timer.
\<close>

lemma tick_wakes:
  assumes "sched_ok s" "2 \<le> length (tasks s)" "i < length (tasks s)" "t_state (tasks s ! i) = Blocked"
  shows "t_state (tasks (tick v ret s) ! i) = Blocked \<longleftrightarrow>
    (case waiting_irq (tasks s ! i) of None \<Rightarrow> TICK_COUNT s + 1 < wake_at (tasks s ! i) | Some u \<Rightarrow> u \<noteq> v)"
proof -
  define s0 where "s0 = wake_irq_waiters v (s\<lparr>TICK_COUNT := TICK_COUNT s + 1\<rparr>)"
  have s0: "current s0 = current s" "length (tasks s0) = length (tasks s)" "TICK_COUNT s0 = TICK_COUNT s + 1"
    by (simp_all add: s0_def wake_irq_waiters_def)
  have w: "woken s0 ! i = wake_sleeper (TICK_COUNT s + 1) (wake_waiter v (tasks s ! i))"
    using assms(3) s0 by (simp add: s0_def wake_irq_waiters_def)
  have wk: "t_state (woken s0 ! i) = Blocked \<longleftrightarrow>
      (case waiting_irq (tasks s ! i) of None \<Rightarrow> TICK_COUNT s + 1 < wake_at (tasks s ! i) | Some u \<Rightarrow> u \<noteq> v)"
    using assms(4) unfolding w by (auto simp: wake_sleeper_def wake_waiter_def split: option.splits)
  obtain sw s1 where n: "sched_next s0 = (sw, s1)" by (cases "sched_next s0")
  have t: "tick v ret s = (case sw of Some w \<Rightarrow> switch_to ret w s1 | None \<Rightarrow> s1)"
    by (simp add: tick_def Let_def s0_def [symmetric] n)
  show ?thesis
  proof (cases sw)
    case None
    have "s1 = s0\<lparr>tasks := woken s0\<rparr>"
      using n None assms(2) s0(2) by (auto simp: sched_next_def Let_def split: if_splits)
    then show ?thesis using wk None t by simp
  next
    case (Some x)
    have c: "current s0 < length (tasks s0)" using assms(1) s0 by (simp add: sched_ok_def)
    have nc: "i \<noteq> current s" using assms(1,3,4) by (auto simp: sched_ok_def)
    have "t_state (tasks s1 ! i) = Blocked \<longleftrightarrow> t_state (woken s0 ! i) = Blocked"
      using n [unfolded Some] c
    proof (rule sched_next_SomeD)
      fix d nxt
      assume a: "t_state (woken s0 ! nxt) = Ready"
        "\<And>i. i < length (tasks s0) \<Longrightarrow> tasks s1 ! i = (if i = nxt then (woken s0 ! i)\<lparr>t_state := Running\<rparr>
          else if i = current s0 \<and> t_state (woken s0 ! i) = Running then (woken s0 ! i)\<lparr>t_state := Ready\<rparr> else woken s0 ! i)"
      have i0: "i < length (tasks s0)" using assms(3) s0(2) by simp
      show ?thesis using a(1) unfolding a(2) [OF i0] using nc s0(1) by (cases "i = nxt") simp_all
    qed
    moreover have "length (tasks s1) = length (tasks s)"
      by (rule sched_next_SomeD [OF n [unfolded Some] c]) (use s0 in simp)
    ultimately show ?thesis using wk Some t assms(3) by (simp add: switch_to_nth)
  qed
qed

text \<open>
  C9: switching away and back is invisible to a task. If a task is switched out by a call with
  return address \<open>ret\<close>, and its saved frame is intact when another task switches to the stack pointer
  saved for it, then it resumes at \<open>ret\<close> with every callee-saved register and the stack pointer it had.
\<close>

theorem switch_round_trip:
  assumes "56 \<le> unat (rsp (CPU s))" "a < length (tasks s)"
    and s1: "s1 = switch_to ret (a, new_rsp, new_cr3, kt) s" and sp: "sp = t_rsp (tasks s1 ! a)"
    and frame: "frame_words (push_context s2) sp = frame_words s1 sp"
  shows "CPU (context_switch b sp s2) = (CPU s)\<lparr>rip := ret\<rparr>"
proof -
  define s0 where "s0 = write_cr3 new_cr3 (use_kstack kt s)"
  have s0: "CPU s0 = CPU s" "tasks s0 = tasks s" by (simp_all add: s0_def write_cr3_def use_kstack_def)
  have t1: "s1 = context_switch a new_rsp (push_reg ret s0)" by (simp add: s1 switch_to_def s0_def)
  have big: "56 \<le> unat (rsp (CPU s0))" using assms(1) s0 by simp
  have "sp = rsp (CPU s0) - 56"
    using assms(2) saved_frame(1) [OF big, of ret] by (simp add: sp t1 context_switch_fields s0)
  moreover have "frame_words s1 q = frame_words (push_context (push_reg ret s0)) q" for q
    by (simp add: frame_words_def t1 context_switch_def pop_context_def)
      (simp add: load_rsp_def save_rsp_def read_u64_def)
  ultimately have "frame_words (push_context s2) sp =
      [r15 (CPU s), r14 (CPU s), r13 (CPU s), r12 (CPU s), rbp (CPU s), rbx (CPU s), ret]"
    and "sp + 56 = rsp (CPU s)"
    using frame saved_frame(2) [OF big, of ret] s0 by simp_all
  then show ?thesis using switch_cpu [of s2 sp] by simp
qed

theorem switch_round_trip_witness:
  "\<exists>s1 (s2 :: sched_state). s1 = switch_to 0x1234 (0, 0x9000, 0x1000, 0xA000) example_sched \<and> rip (CPU s2) \<noteq> 0x1234 \<and>
     CPU (context_switch 2 (t_rsp (tasks s1 ! 0)) s2) = (CPU example_sched)\<lparr>rip := 0x1234\<rparr>"
proof -
  define s1 where "s1 = switch_to 0x1234 (0, 0x9000, 0x1000, 0xA000) example_sched"
  define s2 where "s2 = s1\<lparr>CPU := (CPU s1)\<lparr>rsp := 0x5000, rip := 0\<rparr>\<rparr>"
  define sp where "sp = t_rsp (tasks s1 ! 0)"
  have "sp = 0x7FC8"
    using saved_frame(1) [of "write_cr3 0x1000 (use_kstack 0xA000 example_sched)" "0x1234"]
    by (simp add: sp_def s1_def switch_to_def context_switch_fields example_sched_tasks
        write_cr3_def use_kstack_def)
  then have "frame_words (push_context s2) sp = frame_words s2 sp"
    unfolding frame_words_def by (simp add: upt_rec push_context_other s2_def)
  moreover have "frame_words s2 sp = frame_words s1 sp" by (simp add: frame_words_def s2_def read_u64_def)
  ultimately have "CPU (context_switch 2 sp s2) = (CPU example_sched)\<lparr>rip := 0x1234\<rparr>"
    by (intro switch_round_trip [OF _ _ s1_def sp_def]) (simp_all add: example_sched_tasks)
  moreover have "rip (CPU s2) \<noteq> 0x1234" by (simp add: s2_def)
  ultimately show ?thesis using s1_def unfolding sp_def by blast
qed

end
