(* ===== verification/Rust_Text.thy ===== *)
theory Rust_Text
  imports Prelude
begin

text \<open>
  Rust strings as their UTF-8 bytes: validation (\<open>core::str::from_utf8\<close>), \<open>split\<close> on a one-byte
  separator, decimal printing and \<open>parse::<u8>\<close>.
\<close>

section \<open>UTF-8\<close>

definition cont_byte :: "u8 \<Rightarrow> bool" where
  "cont_byte b \<longleftrightarrow> 0x80 \<le> b \<and> b \<le> 0xBF"

fun utf8_valid :: "u8 list \<Rightarrow> bool" where
  "utf8_valid [] \<longleftrightarrow> True"
| "utf8_valid (a # bs) \<longleftrightarrow>
    (if a \<le> 0x7F then utf8_valid bs
     else if 0xC2 \<le> a \<and> a \<le> 0xDF then
       (case bs of b # r \<Rightarrow> cont_byte b \<and> utf8_valid r | _ \<Rightarrow> False)
     else if 0xE0 \<le> a \<and> a \<le> 0xEF then
       (case bs of b # c # r \<Rightarrow> (if a = 0xE0 then 0xA0 else 0x80) \<le> b \<and> b \<le> (if a = 0xED then 0x9F else 0xBF) \<and>
          cont_byte c \<and> utf8_valid r | _ \<Rightarrow> False)
     else if 0xF0 \<le> a \<and> a \<le> 0xF4 then
       (case bs of b # c # d # r \<Rightarrow> (if a = 0xF0 then 0x90 else 0x80) \<le> b \<and> b \<le> (if a = 0xF4 then 0x8F else 0xBF) \<and>
          cont_byte c \<and> cont_byte d \<and> utf8_valid r | _ \<Rightarrow> False)
     else False)"

definition str_bytes :: "string \<Rightarrow> u8 list" where
  "str_bytes cs = map (\<lambda>c. word_of_nat (of_char c)) cs"

lemma length_str_bytes [simp]: "length (str_bytes cs) = length cs"
  by (simp add: str_bytes_def)

lemma utf8_valid_ascii: "\<forall>b \<in> set bs. b \<le> 0x7F \<Longrightarrow> utf8_valid bs"
  by (induction bs) auto

text \<open>
  \<open>String::from_utf8_lossy\<close>: \<open>utf8_seq a bs\<close> says whether the lead byte \<open>a\<close> starts a well-formed sequence and
  how many bytes of \<open>bs\<close> the sequence, or its longest well-formed beginning, takes; every malformed one is
  replaced by the three bytes of U+FFFD.
\<close>

definition byte_at :: "u8 list \<Rightarrow> nat \<Rightarrow> u8" where
  "byte_at bs i = (if i < length bs then bs ! i else 0)"

definition utf8_seq :: "u8 \<Rightarrow> u8 list \<Rightarrow> bool \<times> nat" where
  "utf8_seq a bs =
    (if a \<le> 0x7F then (True, 0)
     else if 0xC2 \<le> a \<and> a \<le> 0xDF then (if cont_byte (byte_at bs 0) then (True, 1) else (False, 0))
     else if 0xE0 \<le> a \<and> a \<le> 0xEF then
       (if \<not> ((if a = 0xE0 then 0xA0 else 0x80) \<le> byte_at bs 0 \<and> byte_at bs 0 \<le> (if a = 0xED then 0x9F else 0xBF)) then (False, 0)
        else if cont_byte (byte_at bs 1) then (True, 2) else (False, 1))
     else if 0xF0 \<le> a \<and> a \<le> 0xF4 then
       (if \<not> ((if a = 0xF0 then 0x90 else 0x80) \<le> byte_at bs 0 \<and> byte_at bs 0 \<le> (if a = 0xF4 then 0x8F else 0xBF)) then (False, 0)
        else if \<not> cont_byte (byte_at bs 1) then (False, 1)
        else if cont_byte (byte_at bs 2) then (True, 3) else (False, 2))
     else (False, 0))"

fun utf8_lossy :: "u8 list \<Rightarrow> u8 list" where
  "utf8_lossy [] = []"
| "utf8_lossy (a # bs) = (let (good, n) = utf8_seq a bs in
     (if good then a # take n bs else [0xEF, 0xBF, 0xBD]) @ utf8_lossy (drop n bs))"

declare utf8_lossy.simps(2) [simp del]

lemma byte_at_Cons [simp]: "byte_at (b # bs) 0 = b" "byte_at (b # bs) (Suc i) = byte_at bs i" "byte_at [] i = 0"
  by (simp_all add: byte_at_def)

lemma not_cont_0 [simp]: "\<not> cont_byte 0"
  by (simp add: cont_byte_def)

lemma byte_at_length: "byte_at bs i \<noteq> 0 \<Longrightarrow> i < length bs"
  by (simp add: byte_at_def split: if_splits)

lemma utf8_seq_cases:
  assumes "utf8_seq a bs = (True, n)"
  obtains "a \<le> 0x7F" "n = 0"
  | b r where "\<not> a \<le> 0x7F" "0xC2 \<le> a \<and> a \<le> 0xDF" "bs = b # r" "cont_byte b" "n = 1"
  | b c r where "\<not> a \<le> 0x7F" "\<not> (0xC2 \<le> a \<and> a \<le> 0xDF)" "0xE0 \<le> a \<and> a \<le> 0xEF" "bs = b # c # r" "n = 2"
    "(if a = 0xE0 then 0xA0 else 0x80) \<le> b \<and> b \<le> (if a = 0xED then 0x9F else 0xBF)" "cont_byte c"
  | b c d r where "\<not> a \<le> 0x7F" "\<not> (0xC2 \<le> a \<and> a \<le> 0xDF)" "\<not> (0xE0 \<le> a \<and> a \<le> 0xEF)" "0xF0 \<le> a \<and> a \<le> 0xF4"
    "bs = b # c # d # r" "n = 3" "(if a = 0xF0 then 0x90 else 0x80) \<le> b \<and> b \<le> (if a = 0xF4 then 0x8F else 0xBF)"
    "cont_byte c" "cont_byte d"
proof -
  have pos: "i < length bs" if "cont_byte (byte_at bs i)" for i
    using that by (intro byte_at_length) (auto simp del: not_cont_0 simp: cont_byte_def)
  note if_cong [cong] if_split [split del]
  show thesis
  proof (cases "a \<le> 0x7F")
    case True
    then show ?thesis using that(1) assms by (simp add: utf8_seq_def)
  next
    case n1: False
    show ?thesis
    proof (cases "0xC2 \<le> a \<and> a \<le> 0xDF")
      case True
      then have h: "cont_byte (byte_at bs 0)" "n = 1" using assms n1 by (simp_all add: utf8_seq_def split: if_split_asm)
      obtain b r where "bs = b # r" using pos [OF h(1)] by (cases bs) simp_all
      then show ?thesis using that(2) n1 True h by simp
    next
      case n2: False
      show ?thesis
      proof (cases "0xE0 \<le> a \<and> a \<le> 0xEF")
        case True
        then have h: "(if a = 0xE0 then 0xA0 else 0x80) \<le> byte_at bs 0 \<and> byte_at bs 0 \<le> (if a = 0xED then 0x9F else 0xBF)"
            "cont_byte (byte_at bs 1)" "n = 2"
          using assms n1 n2 unfolding utf8_seq_def by (simp_all only: if_False if_True split: if_split_asm) simp_all
        obtain b c r where "bs = b # c # r" using pos [OF h(2)] by (cases bs; cases "tl bs") simp_all
        then show ?thesis using that(3) n1 n2 True h by simp
      next
        case n3: False
        have f4: "0xF0 \<le> a \<and> a \<le> 0xF4"
          and h: "(if a = 0xF0 then 0x90 else 0x80) \<le> byte_at bs 0 \<and> byte_at bs 0 \<le> (if a = 0xF4 then 0x8F else 0xBF)"
            "cont_byte (byte_at bs 1)" "cont_byte (byte_at bs 2)" "n = 3"
          using assms n1 n2 n3 unfolding utf8_seq_def by (simp_all only: if_False if_True split: if_split_asm) simp_all
        obtain b c d r where "bs = b # c # d # r"
          using pos [OF h(3)] by (cases bs; cases "tl bs"; cases "tl (tl bs)") simp_all
        then show ?thesis using that(4) n1 n2 n3 f4 h by (simp add: numeral_2_eq_2)
      qed
    qed
  qed
qed

lemma utf8_seq_valid: "utf8_seq a bs = (True, n) \<Longrightarrow> utf8_valid (a # take n bs @ r) \<longleftrightarrow> utf8_valid r"
  by (erule utf8_seq_cases) (simp_all only: utf8_valid.simps(2) if_False if_True, simp_all)

lemma utf8_valid_seq:
  assumes "utf8_valid (a # bs)"
  obtains n where "utf8_seq a bs = (True, n)" "utf8_valid (drop n bs)"
proof (cases "a \<le> 0x7F")
  case True
  then show ?thesis using that [of 0] assms by (simp add: utf8_seq_def)
next
  case n1: False
  show ?thesis
  proof (cases "0xC2 \<le> a \<and> a \<le> 0xDF")
    case True
    then obtain b r where "bs = b # r" "cont_byte b" "utf8_valid r" using assms n1 by (cases bs) simp_all
    then show ?thesis using that [of 1] n1 True by (simp add: utf8_seq_def)
  next
    case n2: False
    show ?thesis
    proof (cases "0xE0 \<le> a \<and> a \<le> 0xEF")
      case True
      then obtain b c r where b: "bs = b # c # r" "cont_byte c" "utf8_valid r"
          "(if a = 0xE0 then 0xA0 else 0x80) \<le> b \<and> b \<le> (if a = 0xED then 0x9F else 0xBF)"
        using assms n1 n2 by (simp only: utf8_valid.simps(2) if_False if_True) (simp split: list.splits)
      have "utf8_seq a bs = (True, 2)" unfolding utf8_seq_def using b n1 n2 True by (simp only: if_False if_True) simp
      then show ?thesis using that [of 2] b by (simp add: numeral_2_eq_2)
    next
      case n3: False
      then obtain b c d r where b: "bs = b # c # d # r" "cont_byte c" "cont_byte d" "utf8_valid r" "0xF0 \<le> a \<and> a \<le> 0xF4"
          "(if a = 0xF0 then 0x90 else 0x80) \<le> b \<and> b \<le> (if a = 0xF4 then 0x8F else 0xBF)"
        using assms n1 n2 by (simp only: utf8_valid.simps(2) if_False if_True) (simp split: list.splits if_split_asm)
      have "utf8_seq a bs = (True, 3)" unfolding utf8_seq_def using b n1 n2 n3
        by (simp only: if_False if_True) (simp add: numeral_2_eq_2)
      then show ?thesis using that [of 3] b by (simp add: numeral_3_eq_3)
    qed
  qed
qed

lemma utf8_valid_append: "utf8_valid xs \<Longrightarrow> utf8_valid ys \<Longrightarrow> utf8_valid (xs @ ys)"
proof (induction xs rule: length_induct)
  case (1 xs)
  show ?case
  proof (cases xs)
    case (Cons a bs)
    have "utf8_valid (a # bs)" using 1(2) by (simp only: Cons)
    then obtain n where n: "utf8_seq a bs = (True, n)" "utf8_valid (drop n bs)" by (rule utf8_valid_seq)
    have "utf8_valid (drop n bs @ ys)" using 1(1,3) n(2) Cons by simp
    then have "utf8_valid (a # take n bs @ (drop n bs @ ys))" using utf8_seq_valid [OF n(1)] by blast
    then show ?thesis using Cons by (simp flip: append_assoc)
  qed (use 1 in simp)
qed

lemma utf8_lossy_valid: "utf8_valid (utf8_lossy bs)"
proof (induction bs rule: utf8_lossy.induct)
  case (2 a bs)
  obtain good n where q: "utf8_seq a bs = (good, n)" by (cases "utf8_seq a bs")
  have IH: "utf8_valid (utf8_lossy (drop n bs))" using 2 q by simp
  show ?case
  proof (cases good)
    case True
    then show ?thesis using utf8_seq_valid [of a bs n] q IH by (simp add: utf8_lossy.simps(2))
  next
    case False
    then show ?thesis using q IH by (simp add: utf8_lossy.simps(2) cont_byte_def)
  qed
qed simp

section \<open>Splitting\<close>

fun split_on :: "'a \<Rightarrow> 'a list \<Rightarrow> 'a list list" where
  "split_on sep [] = [[]]"
| "split_on sep (b # bs) = (if b = sep then [] # split_on sep bs
     else case split_on sep bs of p # ps \<Rightarrow> (b # p) # ps | [] \<Rightarrow> [[b]])"

lemma split_on_nonempty [simp]: "split_on sep bs \<noteq> []"
  by (induction bs) (auto split: list.splits)

lemma split_on_part: "sep \<notin> set p \<Longrightarrow> split_on sep p = [p]"
  by (induction p) auto

lemma split_on_append: "sep \<notin> set p \<Longrightarrow> split_on sep (p @ sep # bs) = p # split_on sep bs"
  by (induction p) auto

lemma split_on_parts: "p \<in> set (split_on sep bs) \<Longrightarrow> sep \<notin> set p"
proof (induction bs arbitrary: p)
  case (Cons b bs)
  obtain q qs where q: "split_on sep bs = q # qs" by (cases "split_on sep bs") simp_all
  then show ?case using Cons.prems Cons.IH [of q] Cons.IH [of p] by (auto split: if_splits)
qed simp

section \<open>Decimal numbers\<close>

fun decimal :: "nat \<Rightarrow> u8 list" where
  "decimal n = (if n < 10 then [word_of_nat (48 + n)] else decimal (n div 10) @ [word_of_nat (48 + n mod 10)])"

declare decimal.simps [simp del]

definition is_digit :: "u8 \<Rightarrow> bool" where
  "is_digit b \<longleftrightarrow> 48 \<le> b \<and> b \<le> 57"

definition digits_val :: "u8 list \<Rightarrow> nat" where
  "digits_val bs = foldl (\<lambda>v b. v * 10 + (unat b - 48)) 0 bs"

text \<open>\<open>str::parse\<close> on an unsigned type takes an optional plus sign and at least one digit.\<close>

definition parse_nat :: "nat \<Rightarrow> u8 list \<Rightarrow> nat option" where
  "parse_nat max_val bs =
    (let ds = (case bs of b # r \<Rightarrow> if b = 43 \<and> r \<noteq> [] then r else bs | [] \<Rightarrow> []) in
     if ds \<noteq> [] \<and> (\<forall>b \<in> set ds. is_digit b) \<and> digits_val ds \<le> max_val then Some (digits_val ds) else None)"

lemma decimal_digit: "d < 10 \<Longrightarrow> is_digit (word_of_nat (48 + d)) \<and> unat (word_of_nat (48 + d) :: u8) = 48 + d"
proof -
  assume d: "d < 10"
  then have u: "unat (word_of_nat (48 + d) :: u8) = 48 + d" by (intro unat_of_nat_less) simp
  then show ?thesis using d by (simp add: is_digit_def word_le_nat_alt)
qed

lemma decimal_digits: "\<forall>b \<in> set (decimal n). is_digit b"
proof (induction n rule: decimal.induct)
  case (1 n)
  show ?case
  proof (cases "n < 10")
    case True
    then show ?thesis using decimal_digit [of n] by (subst decimal.simps) simp
  next
    case False
    then show ?thesis using 1 decimal_digit [of "n mod 10"] by (subst decimal.simps) auto
  qed
qed

lemma decimal_nonempty [simp]: "decimal n \<noteq> []"
  by (subst decimal.simps) simp

lemma digits_val_decimal: "digits_val (decimal n) = n"
proof (induction n rule: decimal.induct)
  case (1 n)
  show ?case
  proof (cases "n < 10")
    case True
    then show ?thesis using decimal_digit [of n] by (subst decimal.simps) (simp add: digits_val_def)
  next
    case False
    then show ?thesis using 1 decimal_digit [of "n mod 10"] by (subst decimal.simps) (simp add: digits_val_def)
  qed
qed

lemma parse_decimal: "n \<le> m \<Longrightarrow> parse_nat m (decimal n) = Some n"
proof -
  assume n: "n \<le> m"
  obtain b r where d: "decimal n = b # r" by (cases "decimal n") simp_all
  have "is_digit b" using decimal_digits [of n] d by simp
  then have "b \<noteq> 43" by (auto simp: is_digit_def)
  then show ?thesis using n d decimal_digits [of n] digits_val_decimal [of n] by (simp add: parse_nat_def)
qed

lemma decimal_no_dot: "46 \<notin> set (decimal n)"
  using decimal_digits [of n] by (auto simp: is_digit_def)

end
