(* ===== verification/HepFs.thy ===== *)
theory HepFs
  imports Pmm Rust_Text
begin

text \<open>
  The filesystem of \<open>kernel/src/hepfs.rs\<close>: block device, bitmaps, inode table, directories and
  files. The disk is a function from byte address to byte, read and written in sectors through
  \<open>BlockDev\<close>. A \<open>Page\<close> is an exclusively owned frame, so its contents are a value; the frame itself
  is taken from the page allocator, and, as in the source, never given back. A panic is \<open>Inl\<close>.
\<close>

section \<open>Constants and on-disk structures\<close>

definition MAGIC :: u64 where "MAGIC = 0x4865704653000001"
definition BLOCK_SIZE :: nat where "BLOCK_SIZE = 4096"
definition INODES_PER_BLK :: nat where "INODES_PER_BLK = BLOCK_SIZE div 128"
definition MAX_INODES :: nat where "MAX_INODES = 1024"
definition DIRECT_PTRS :: nat where "DIRECT_PTRS = 12"
definition SB_BLOCK :: nat where "SB_BLOCK = 0"
definition INODE_BM_BLOCK :: nat where "INODE_BM_BLOCK = 1"
definition BLOCK_BM_BLOCK :: nat where "BLOCK_BM_BLOCK = 2"
definition BLOCK_BM_LEN :: nat where "BLOCK_BM_LEN = 4"
definition INODE_TBL_BLOCK :: nat where "INODE_TBL_BLOCK = 6"
definition INODE_TBL_LEN :: nat where "INODE_TBL_LEN = 32"
definition DATA_BLOCK_START :: nat where "DATA_BLOCK_START = 38"
definition ROOT_INO :: u32 where "ROOT_INO = 0"
definition F_FREE :: u32 where "F_FREE = 0"
definition F_FILE :: u32 where "F_FILE = 1"
definition F_DIR :: u32 where "F_DIR = 2"
definition DIR_ENTRY_SIZE :: nat where "DIR_ENTRY_SIZE = 32"
definition ENTRIES_PER_BLK :: nat where "ENTRIES_PER_BLK = BLOCK_SIZE div DIR_ENTRY_SIZE"
definition PTRS_PER_INDIRECT :: nat where "PTRS_PER_INDIRECT = BLOCK_SIZE div 4"
definition DINDIRECT_MAX_BLOCKS :: nat where "DINDIRECT_MAX_BLOCKS = PTRS_PER_INDIRECT * PTRS_PER_INDIRECT"

lemmas fs_consts = BLOCK_SIZE_def INODES_PER_BLK_def MAX_INODES_def DIRECT_PTRS_def SB_BLOCK_def
  INODE_BM_BLOCK_def BLOCK_BM_BLOCK_def BLOCK_BM_LEN_def INODE_TBL_BLOCK_def INODE_TBL_LEN_def
  DATA_BLOCK_START_def DIR_ENTRY_SIZE_def ENTRIES_PER_BLK_def PTRS_PER_INDIRECT_def

datatype BlockDev = Nvme | Ahci

record fs_state = pmm_state +
  DISK :: buffer
  dev :: BlockDev
  dev_lba_size :: u32
  dev_lba_count :: u64
  GENERATION :: u64

record Superblock =
  sb_magic :: u64
  sb_block_size :: u32
  sb_total_blocks :: u64
  sb_free_blocks :: u64
  sb_total_inodes :: u32
  sb_free_inodes :: u32

record Inode =
  i_flags :: u32
  i_size :: u64
  i_nblocks :: u32
  i_ctime :: u64
  i_mtime :: u64
  i_direct :: "u32 list"
  i_indirect :: u32
  i_dindirect :: u32
  i_pad :: "u8 list"

definition Inode_default :: Inode where
  "Inode_default = \<lparr>i_flags = 0, i_size = 0, i_nblocks = 0, i_ctime = 0, i_mtime = 0,
     i_direct = replicate 12 0, i_indirect = 0, i_dindirect = 0, i_pad = replicate 32 0\<rparr>"

record DirEntry =
  e_inode :: u32
  e_name_len :: u8
  e_name :: "u8 list"

text \<open>
  The \<open>repr(C)\<close> layouts: little-endian fields at their offsets, with the compiler's alignment gaps
  after the 32-bit fields that precede 64-bit ones written as zeros.
\<close>

definition encode_superblock :: "Superblock \<Rightarrow> u8 list" where
  "encode_superblock sb = u64_to_le_bytes (sb_magic sb) @ u32_to_le_bytes (sb_block_size sb) @ replicate 4 0 @
     u64_to_le_bytes (sb_total_blocks sb) @ u64_to_le_bytes (sb_free_blocks sb) @
     u32_to_le_bytes (sb_total_inodes sb) @ u32_to_le_bytes (sb_free_inodes sb)"

definition encode_inode :: "Inode \<Rightarrow> u8 list" where
  "encode_inode n = u32_to_le_bytes (i_flags n) @ replicate 4 0 @ u64_to_le_bytes (i_size n) @
     u32_to_le_bytes (i_nblocks n) @ replicate 4 0 @ u64_to_le_bytes (i_ctime n) @ u64_to_le_bytes (i_mtime n) @
     concat (map u32_to_le_bytes (i_direct n)) @ u32_to_le_bytes (i_indirect n) @
     u32_to_le_bytes (i_dindirect n) @ i_pad n"

definition get_u32 :: "buffer \<Rightarrow> nat \<Rightarrow> u32" where
  "get_u32 buf off = u32_from_le_bytes (get_bytes buf off 4)"

definition get_u64 :: "buffer \<Rightarrow> nat \<Rightarrow> u64" where
  "get_u64 buf off = u64_from_le_bytes (get_bytes buf off 8)"

definition decode_inode :: "buffer \<Rightarrow> nat \<Rightarrow> Inode" where
  "decode_inode buf off = \<lparr>i_flags = get_u32 buf off, i_size = get_u64 buf (off + 8),
     i_nblocks = get_u32 buf (off + 16), i_ctime = get_u64 buf (off + 24), i_mtime = get_u64 buf (off + 32),
     i_direct = map (\<lambda>k. get_u32 buf (off + 40 + 4 * k)) [0 ..< 12],
     i_indirect = get_u32 buf (off + 88), i_dindirect = get_u32 buf (off + 92),
     i_pad = get_bytes buf (off + 96) 32\<rparr>"

definition encode_entry :: "DirEntry \<Rightarrow> u8 list" where
  "encode_entry e = u32_to_le_bytes (e_inode e) @ [e_name_len e] @ e_name e"

definition decode_entry :: "buffer \<Rightarrow> nat \<Rightarrow> DirEntry" where
  "decode_entry buf off = \<lparr>e_inode = get_u32 buf off, e_name_len = buf (off + 4),
     e_name = get_bytes buf (off + 5) 27\<rparr>"

definition name_str :: "DirEntry \<Rightarrow> u8 list" where
  "name_str e = (let bs = take (min (unat (e_name_len e)) 27) (e_name e) in if utf8_valid bs then bs else [])"

definition make_entry :: "u32 \<Rightarrow> u8 list \<Rightarrow> DirEntry" where
  "make_entry ino name = \<lparr>e_inode = ino, e_name_len = word_of_nat (length name),
     e_name = name @ replicate (27 - length name) 0\<rparr>"

definition empty_entry :: DirEntry where
  "empty_entry = \<lparr>e_inode = 0, e_name_len = 0, e_name = replicate 27 0\<rparr>"

section \<open>Block I/O\<close>

definition generation :: "'a fs_state_scheme \<Rightarrow> u64" where
  "generation s = GENERATION s"

definition bump_generation :: "'a fs_state_scheme \<Rightarrow> 'a fs_state_scheme" where
  "bump_generation s = s\<lparr>GENERATION := GENERATION s + 1\<rparr>"

definition lba_size :: "'a fs_state_scheme \<Rightarrow> u32" where
  "lba_size s = (case dev s of Nvme \<Rightarrow> dev_lba_size s | Ahci \<Rightarrow> 512)"

definition lba_count :: "'a fs_state_scheme \<Rightarrow> u64" where
  "lba_count s = dev_lba_count s"

definition in_range :: "u64 \<Rightarrow> u16 \<Rightarrow> 'a fs_state_scheme \<Rightarrow> bool" where
  "in_range lba count s \<longleftrightarrow> unat lba + unat (count - 1) < unat (lba_count s)"

text \<open>
  A transfer moves whole sectors between the disk and the buffer. A sector range the device does not
  have fails: the NVMe path asserts on the completion status, the AHCI path drops the returned flag.
  The NVMe command carries the count less one.
\<close>

definition read_blocks :: "u64 \<Rightarrow> u16 \<Rightarrow> buffer \<Rightarrow> 'a fs_state_scheme \<Rightarrow> panic + buffer" where
  "read_blocks lba count buf s =
    (if in_range lba count s
     then Inr (put_bytes buf 0 (get_bytes (DISK s) (unat lba * unat (lba_size s)) ((unat (count - 1) + 1) * unat (lba_size s))))
     else case dev s of Nvme \<Rightarrow> Inl (Panic ''NVMe read failed'') | Ahci \<Rightarrow> Inr buf)"

definition write_blocks :: "u64 \<Rightarrow> u16 \<Rightarrow> buffer \<Rightarrow> 'a fs_state_scheme \<Rightarrow> panic + 'a fs_state_scheme" where
  "write_blocks lba count buf s =
    (if in_range lba count s
     then Inr (s\<lparr>DISK := put_bytes (DISK s) (unat lba * unat (lba_size s)) (get_bytes buf 0 ((unat (count - 1) + 1) * unat (lba_size s)))\<rparr>)
     else case dev s of Nvme \<Rightarrow> Inl (Panic ''NVMe write failed'') | Ahci \<Rightarrow> Inr s)"

definition Page_alloc :: "'a fs_state_scheme \<Rightarrow> panic + (buffer \<times> 'a fs_state_scheme)" where
  "Page_alloc s = (case alloc_page s of None \<Rightarrow> Inl (Panic ''hepfs: OOM'') | Some (phys, s) \<Rightarrow> Inr (\<lambda>_. 0, s))"

definition sectors_per_block :: "'a fs_state_scheme \<Rightarrow> panic + u16" where
  "sectors_per_block s = (if lba_size s = 0 then Inl (Panic ''attempt to divide by zero'')
     else Inr (word_of_nat (BLOCK_SIZE div unat (lba_size s))))"

definition read_block :: "nat \<Rightarrow> 'a fs_state_scheme \<Rightarrow> panic + (buffer \<times> 'a fs_state_scheme)" where
  "read_block block s =
    rbind (Page_alloc s) (\<lambda>(page, s).
    rbind (sectors_per_block s) (\<lambda>spb.
    rbind (read_blocks (word_of_nat (block * unat spb)) spb page s) (\<lambda>page.
    Inr (page, s))))"

definition write_block :: "nat \<Rightarrow> buffer \<Rightarrow> 'a fs_state_scheme \<Rightarrow> panic + 'a fs_state_scheme" where
  "write_block block page s =
    rbind (sectors_per_block s) (\<lambda>spb. write_blocks (word_of_nat (block * unat spb)) spb page s)"

section \<open>Bitmaps\<close>

definition scan_byte :: "buffer \<Rightarrow> nat \<Rightarrow> nat \<Rightarrow> nat \<Rightarrow> nat option" where
  "scan_byte buf bi skip byte = (if buf byte = 0xFF then None else
     find (\<lambda>b. buf byte AND push_bit b 1 = 0 \<and> \<not> bi * BLOCK_SIZE * 8 + byte * 8 + b < skip) [0 ..< 8])"

fun scan_bytes :: "buffer \<Rightarrow> nat \<Rightarrow> nat \<Rightarrow> nat list \<Rightarrow> (nat \<times> nat) option" where
  "scan_bytes buf bi skip [] = None"
| "scan_bytes buf bi skip (byte # bytes) = (case scan_byte buf bi skip byte of
     Some b \<Rightarrow> Some (byte, b) | None \<Rightarrow> scan_bytes buf bi skip bytes)"

fun bitmap_scan :: "nat \<Rightarrow> nat \<Rightarrow> nat list \<Rightarrow> 'a fs_state_scheme \<Rightarrow> panic + (nat option \<times> 'a fs_state_scheme)" where
  "bitmap_scan bm_start skip [] s = Inr (None, s)"
| "bitmap_scan bm_start skip (bi # bis) s =
    rbind (read_block (bm_start + bi) s) (\<lambda>(buf, s).
    case scan_bytes buf bi skip [0 ..< BLOCK_SIZE] of
      None \<Rightarrow> bitmap_scan bm_start skip bis s
    | Some (byte, b) \<Rightarrow>
        rbind (read_block (bm_start + bi) s) (\<lambda>(mbuf, s).
        rbind (write_block (bm_start + bi) (mbuf(byte := mbuf byte OR push_bit b 1)) s) (\<lambda>s.
        Inr (Some (bi * BLOCK_SIZE * 8 + byte * 8 + b), s))))"

definition bitmap_alloc :: "nat \<Rightarrow> nat \<Rightarrow> nat \<Rightarrow> 'a fs_state_scheme \<Rightarrow> panic + (nat option \<times> 'a fs_state_scheme)" where
  "bitmap_alloc bm_start bm_len skip s = bitmap_scan bm_start skip [0 ..< bm_len] s"

definition bitmap_set :: "nat \<Rightarrow> nat \<Rightarrow> bool \<Rightarrow> 'a fs_state_scheme \<Rightarrow> panic + 'a fs_state_scheme" where
  "bitmap_set bm_start idx used s =
    (let block = bm_start + idx div (BLOCK_SIZE * 8); byte = (idx div 8) mod BLOCK_SIZE; b = idx mod 8 in
     rbind (read_block block s) (\<lambda>(buf, s).
     write_block block (buf(byte := (if used then buf byte OR push_bit b 1 else buf byte AND NOT (push_bit b 1)))) s))"

section \<open>Inodes and block allocation\<close>

definition inode_blk :: "u32 \<Rightarrow> nat" where
  "inode_blk ino = INODE_TBL_BLOCK + unat ino div INODES_PER_BLK"

definition inode_off :: "u32 \<Rightarrow> nat" where
  "inode_off ino = (unat ino mod INODES_PER_BLK) * 128"

definition read_inode :: "u32 \<Rightarrow> 'a fs_state_scheme \<Rightarrow> panic + (Inode \<times> 'a fs_state_scheme)" where
  "read_inode ino s = rbind (read_block (inode_blk ino) s) (\<lambda>(buf, s). Inr (decode_inode buf (inode_off ino), s))"

definition write_inode :: "u32 \<Rightarrow> Inode \<Rightarrow> 'a fs_state_scheme \<Rightarrow> panic + 'a fs_state_scheme" where
  "write_inode ino n s =
    rbind (read_block (inode_blk ino) s) (\<lambda>(buf, s).
    write_block (inode_blk ino) (put_bytes buf (inode_off ino) (encode_inode n)) s)"

definition alloc_block :: "'a fs_state_scheme \<Rightarrow> panic + (u32 \<times> 'a fs_state_scheme)" where
  "alloc_block s =
    rbind (bitmap_alloc BLOCK_BM_BLOCK BLOCK_BM_LEN DATA_BLOCK_START s) (\<lambda>(r, s).
    case r of None \<Rightarrow> Inl (Panic ''hepfs: disk full'')
    | Some blk \<Rightarrow>
        rbind (Page_alloc s) (\<lambda>(page, s).
        rbind (write_block blk page s) (\<lambda>s. Inr (word_of_nat blk, s))))"

definition alloc_inode :: "'a fs_state_scheme \<Rightarrow> panic + (u32 \<times> 'a fs_state_scheme)" where
  "alloc_inode s =
    rbind (bitmap_alloc INODE_BM_BLOCK 1 0 s) (\<lambda>(r, s).
    case r of None \<Rightarrow> Inl (Panic ''hepfs: inode table full'')
    | Some n \<Rightarrow> if unat (word_of_nat n :: u32) < MAX_INODES then Inr (word_of_nat n, s)
        else Inl (Panic ''hepfs: too many inodes''))"

fun for_each :: "('b \<Rightarrow> 's \<Rightarrow> panic + 's) \<Rightarrow> 'b list \<Rightarrow> 's \<Rightarrow> panic + 's" where
  "for_each f [] s = Inr s"
| "for_each f (x # xs) s = rbind (f x s) (for_each f xs)"

section \<open>Format and probe\<close>

definition format_superblock :: "u64 \<Rightarrow> Superblock" where
  "format_superblock total_blocks = \<lparr>sb_magic = MAGIC, sb_block_size = word_of_nat BLOCK_SIZE,
     sb_total_blocks = total_blocks, sb_free_blocks = total_blocks - word_of_nat DATA_BLOCK_START,
     sb_total_inodes = word_of_nat MAX_INODES, sb_free_inodes = word_of_nat MAX_INODES - 1\<rparr>"

definition format :: "'a fs_state_scheme \<Rightarrow> panic + 'a fs_state_scheme" where
  "format s =
    (let total_blocks = lba_count s * ucast (lba_size s) div word_of_nat BLOCK_SIZE in
     rbind (Page_alloc s) (\<lambda>(sb_page, s).
     rbind (write_block SB_BLOCK (put_bytes sb_page 0 (encode_superblock (format_superblock total_blocks))) s) (\<lambda>s.
     rbind (Page_alloc s) (\<lambda>(empty, s).
     rbind (for_each (\<lambda>i. write_block (INODE_BM_BLOCK + i) empty) [0 ..< BLOCK_BM_LEN + 1] s) (\<lambda>s.
     rbind (for_each (\<lambda>b. bitmap_set BLOCK_BM_BLOCK b True) [0 ..< DATA_BLOCK_START] s) (\<lambda>s.
     rbind (bitmap_set INODE_BM_BLOCK 0 True s) (\<lambda>s.
     rbind (for_each (\<lambda>i. write_block (INODE_TBL_BLOCK + i) empty) [0 ..< INODE_TBL_LEN] s) (\<lambda>s.
     rbind (alloc_block s) (\<lambda>(root_blk, s).
     rbind (write_inode ROOT_INO (Inode_default\<lparr>i_flags := F_DIR, i_size := 0, i_nblocks := 1,
              i_direct := (i_direct Inode_default)[0 := root_blk]\<rparr>) s) (\<lambda>s.
     write_block (unat root_blk) empty s))))))))))"

definition probe :: "'a fs_state_scheme \<Rightarrow> panic + (bool \<times> 'a fs_state_scheme)" where
  "probe s = rbind (read_block SB_BLOCK s) (\<lambda>(page, s). Inr (get_u64 page 0 = MAGIC, s))"

section \<open>Directories\<close>

definition used_ptrs :: "u32 list \<Rightarrow> u32 list" where
  "used_ptrs ps = filter (\<lambda>b. b \<noteq> 0) ps"

definition entries :: "buffer \<Rightarrow> DirEntry list" where
  "entries buf = map (\<lambda>i. decode_entry buf (i * DIR_ENTRY_SIZE)) [0 ..< ENTRIES_PER_BLK]"

fun list_blocks :: "u32 list \<Rightarrow> 'a fs_state_scheme \<Rightarrow> panic + ((u32 \<times> u8 list) list \<times> 'a fs_state_scheme)" where
  "list_blocks [] s = Inr ([], s)"
| "list_blocks (blk # blks) s =
    rbind (read_block (unat blk) s) (\<lambda>(buf, s).
    rbind (list_blocks blks s) (\<lambda>(rest, s).
    Inr (map (\<lambda>e. (e_inode e, name_str e)) (filter (\<lambda>e. e_inode e \<noteq> 0) (entries buf)) @ rest, s)))"

definition list_dir :: "u32 \<Rightarrow> 'a fs_state_scheme \<Rightarrow> panic + ((u32 \<times> u8 list) list \<times> 'a fs_state_scheme)" where
  "list_dir dir_ino s =
    rbind (read_inode dir_ino s) (\<lambda>(n, s).
    if i_flags n \<noteq> F_DIR then Inl (Panic ''not a directory'') else list_blocks (used_ptrs (i_direct n)) s)"

definition find_slot :: "(DirEntry \<Rightarrow> bool) \<Rightarrow> buffer \<Rightarrow> nat option" where
  "find_slot P buf = find (\<lambda>i. P (decode_entry buf (i * DIR_ENTRY_SIZE))) [0 ..< ENTRIES_PER_BLK]"

definition names :: "u8 list \<Rightarrow> DirEntry \<Rightarrow> bool" where
  "names nm e \<longleftrightarrow> e_inode e \<noteq> 0 \<and> name_str e = nm"

fun find_in_blocks :: "u8 list \<Rightarrow> u32 list \<Rightarrow> 'a fs_state_scheme \<Rightarrow> panic + (u32 option \<times> 'a fs_state_scheme)" where
  "find_in_blocks nm [] s = Inr (None, s)"
| "find_in_blocks nm (blk # blks) s =
    rbind (read_block (unat blk) s) (\<lambda>(buf, s).
    case find_slot (names nm) buf of
      Some i \<Rightarrow> Inr (Some (e_inode (decode_entry buf (i * DIR_ENTRY_SIZE))), s)
    | None \<Rightarrow> find_in_blocks nm blks s)"

definition find_in_dir :: "u32 \<Rightarrow> u8 list \<Rightarrow> 'a fs_state_scheme \<Rightarrow> panic + (u32 option \<times> 'a fs_state_scheme)" where
  "find_in_dir dir_ino nm s =
    rbind (read_inode dir_ino s) (\<lambda>(n, s). find_in_blocks nm (used_ptrs (i_direct n)) s)"

definition path_parts :: "u8 list \<Rightarrow> u8 list list" where
  "path_parts path = filter (\<lambda>p. p \<noteq> []) (split_on 47 path)"

fun lookup_parts :: "u32 \<Rightarrow> u8 list list \<Rightarrow> 'a fs_state_scheme \<Rightarrow> panic + (u32 option \<times> 'a fs_state_scheme)" where
  "lookup_parts ino [] s = Inr (Some ino, s)"
| "lookup_parts ino (part # parts) s =
    rbind (find_in_dir ino part s) (\<lambda>(r, s).
    case r of None \<Rightarrow> Inr (None, s) | Some ino \<Rightarrow> lookup_parts ino parts s)"

definition lookup :: "u8 list \<Rightarrow> 'a fs_state_scheme \<Rightarrow> panic + (u32 option \<times> 'a fs_state_scheme)" where
  "lookup path s = lookup_parts ROOT_INO (path_parts path) s"

definition put_entry :: "buffer \<Rightarrow> nat \<Rightarrow> DirEntry \<Rightarrow> buffer" where
  "put_entry buf i e = put_bytes buf (i * DIR_ENTRY_SIZE) (encode_entry e)"

definition grow_dir :: "u32 \<Rightarrow> nat \<Rightarrow> Inode \<Rightarrow> 'a fs_state_scheme \<Rightarrow> panic + (Inode \<times> 'a fs_state_scheme)" where
  "grow_dir dir_ino slot_blk n s =
    (if i_direct n ! slot_blk = 0 then
       rbind (alloc_block s) (\<lambda>(new_blk, s).
       let n = n\<lparr>i_direct := (i_direct n)[slot_blk := new_blk], i_nblocks := i_nblocks n + 1\<rparr> in
       rbind (write_inode dir_ino n s) (\<lambda>s. Inr (n, s)))
     else Inr (n, s))"

fun add_entry_slots :: "u32 \<Rightarrow> u8 list \<Rightarrow> u32 \<Rightarrow> nat list \<Rightarrow> Inode \<Rightarrow> 'a fs_state_scheme \<Rightarrow> panic + 'a fs_state_scheme" where
  "add_entry_slots dir_ino nm ino [] n s = Inl (Panic ''hepfs: directory full'')"
| "add_entry_slots dir_ino nm ino (slot_blk # slots) n s =
    rbind (grow_dir dir_ino slot_blk n s) (\<lambda>(n, s).
    rbind (read_block (unat (i_direct n ! slot_blk)) s) (\<lambda>(buf, s).
    case find_slot (\<lambda>e. e_inode e = 0) buf of
      Some i \<Rightarrow>
        rbind (write_block (unat (i_direct n ! slot_blk)) (put_entry buf i (make_entry ino nm)) s) (\<lambda>s.
        write_inode dir_ino (n\<lparr>i_size := i_size n + word_of_nat DIR_ENTRY_SIZE\<rparr>) s)
    | None \<Rightarrow> add_entry_slots dir_ino nm ino slots n s))"

definition add_dir_entry :: "u32 \<Rightarrow> u8 list \<Rightarrow> u32 \<Rightarrow> 'a fs_state_scheme \<Rightarrow> panic + 'a fs_state_scheme" where
  "add_dir_entry dir_ino nm ino s =
    rbind (read_inode dir_ino s) (\<lambda>(n, s).
    if 27 < length nm then Inl (Panic ''filename too long (max 27)'')
    else add_entry_slots dir_ino nm ino [0 ..< DIRECT_PTRS] n s)"

definition create_file :: "u32 \<Rightarrow> u8 list \<Rightarrow> 'a fs_state_scheme \<Rightarrow> panic + (u32 \<times> 'a fs_state_scheme)" where
  "create_file parent nm s =
    rbind (alloc_inode (bump_generation s)) (\<lambda>(ino, s).
    rbind (write_inode ino (Inode_default\<lparr>i_flags := F_FILE\<rparr>) s) (\<lambda>s.
    rbind (add_dir_entry parent nm ino s) (\<lambda>s. Inr (ino, s))))"

definition create_dir :: "u32 \<Rightarrow> u8 list \<Rightarrow> 'a fs_state_scheme \<Rightarrow> panic + (u32 \<times> 'a fs_state_scheme)" where
  "create_dir parent nm s =
    rbind (alloc_inode (bump_generation s)) (\<lambda>(ino, s).
    rbind (alloc_block s) (\<lambda>(blk, s).
    rbind (write_inode ino (Inode_default\<lparr>i_flags := F_DIR, i_nblocks := 1,
             i_direct := (replicate 12 0)[0 := blk]\<rparr>) s) (\<lambda>s.
    rbind (add_dir_entry parent nm ino s) (\<lambda>s. Inr (ino, s)))))"

section \<open>File contents\<close>

definition write_chunk :: "u32 \<Rightarrow> u8 list \<Rightarrow> 'a fs_state_scheme \<Rightarrow> panic + 'a fs_state_scheme" where
  "write_chunk blk data s =
    rbind (Page_alloc s) (\<lambda>(page, s). write_block (unat blk) (put_bytes page 0 (take BLOCK_SIZE data)) s)"

text \<open>A block pointer that is zero is filled by allocating a block, which counts in \<open>nblocks\<close>.\<close>

definition fill_ptr :: "u32 \<Rightarrow> Inode \<Rightarrow> 'a fs_state_scheme \<Rightarrow> panic + ((u32 \<times> Inode) \<times> 'a fs_state_scheme)" where
  "fill_ptr p n s = (if p = 0 then
     rbind (alloc_block s) (\<lambda>(b, s). Inr ((b, n\<lparr>i_nblocks := i_nblocks n + 1\<rparr>), s)) else Inr ((p, n), s))"

fun write_direct :: "nat list \<Rightarrow> u8 list \<Rightarrow> Inode \<Rightarrow> 'a fs_state_scheme \<Rightarrow> panic + ((u8 list \<times> Inode) \<times> 'a fs_state_scheme)" where
  "write_direct [] data n s = Inr ((data, n), s)"
| "write_direct (i # is) data n s =
    (if data = [] then Inr (([], n), s) else
     rbind (fill_ptr (i_direct n ! i) n s) (\<lambda>((blk, n), s).
     rbind (write_chunk blk data s) (\<lambda>s.
     write_direct is (drop BLOCK_SIZE data) (n\<lparr>i_direct := (i_direct n)[i := blk]\<rparr>) s)))"

fun write_indirect :: "nat list \<Rightarrow> u8 list \<Rightarrow> Inode \<Rightarrow> buffer \<Rightarrow> 'a fs_state_scheme \<Rightarrow>
    panic + ((u8 list \<times> Inode \<times> buffer) \<times> 'a fs_state_scheme)" where
  "write_indirect [] data n buf s = Inr ((data, n, buf), s)"
| "write_indirect (i # is) data n buf s =
    (if data = [] then Inr (([], n, buf), s) else
     rbind (fill_ptr (get_u32 buf (i * 4)) n s) (\<lambda>((blk, n), s).
     rbind (write_chunk blk data s) (\<lambda>s.
     write_indirect is (drop BLOCK_SIZE data) n (put_bytes buf (i * 4) (u32_to_le_bytes blk)) s)))"

text \<open>
  The pointer at \<open>idx\<close> of the pointer block \<open>tbl\<close>; a zero pointer is allocated and the table written back.
\<close>

definition table_ptr :: "u32 \<Rightarrow> nat \<Rightarrow> Inode \<Rightarrow> 'a fs_state_scheme \<Rightarrow> panic + ((u32 \<times> Inode) \<times> 'a fs_state_scheme)" where
  "table_ptr tbl idx n s =
    rbind (read_block (unat tbl) s) (\<lambda>(buf, s).
    if get_u32 buf (idx * 4) \<noteq> 0 then Inr ((get_u32 buf (idx * 4), n), s) else
    rbind (alloc_block s) (\<lambda>(b, s).
    rbind (write_block (unat tbl) (put_bytes buf (idx * 4) (u32_to_le_bytes b)) s) (\<lambda>s.
    Inr ((b, n\<lparr>i_nblocks := i_nblocks n + 1\<rparr>), s))))"

function write_dindirect :: "nat \<Rightarrow> u8 list \<Rightarrow> Inode \<Rightarrow> 'a fs_state_scheme \<Rightarrow> panic + (Inode \<times> 'a fs_state_scheme)" where
  "write_dindirect counter data n s =
    (if data = [] then Inr (n, s)
     else if \<not> counter < DINDIRECT_MAX_BLOCKS then Inl (Panic ''file too large (max ~4GB)'')
     else
       rbind (table_ptr (i_dindirect n) (counter div PTRS_PER_INDIRECT) n s) (\<lambda>((l1_blk, n), s).
       rbind (table_ptr l1_blk (counter mod PTRS_PER_INDIRECT) n s) (\<lambda>((data_blk, n), s).
       rbind (write_chunk data_blk data s) (\<lambda>s.
       write_dindirect (counter + 1) (drop BLOCK_SIZE data) n s))))"
  by pat_completeness auto

termination
  by (relation "measure (\<lambda>(counter, data, n, s). length data)") (auto simp: BLOCK_SIZE_def)

definition write_file :: "u32 \<Rightarrow> u8 list \<Rightarrow> 'a fs_state_scheme \<Rightarrow> panic + 'a fs_state_scheme" where
  "write_file ino data s =
    rbind (read_inode ino s) (\<lambda>(n, s).
    if i_flags n \<noteq> F_FILE then Inl (Panic ''not a file'') else
    rbind (write_direct [0 ..< DIRECT_PTRS] data n s) (\<lambda>((rest, n), s).
    rbind (if rest = [] then Inr ((rest, n), s) else
      rbind (fill_ptr (i_indirect n) n s) (\<lambda>((ind, n), s).
      let n = n\<lparr>i_indirect := ind\<rparr> in
      rbind (read_block (unat ind) s) (\<lambda>(ind_buf, s).
      rbind (write_indirect [0 ..< PTRS_PER_INDIRECT] rest n ind_buf s) (\<lambda>((rest, n, ind_buf), s).
      rbind (write_block (unat ind) ind_buf s) (\<lambda>s. Inr ((rest, n), s)))))) (\<lambda>((rest, n), s).
    rbind (if rest = [] then Inr (n, s) else
      rbind (fill_ptr (i_dindirect n) n s) (\<lambda>((dind, n), s).
      write_dindirect 0 rest (n\<lparr>i_dindirect := dind\<rparr>) s)) (\<lambda>(n, s).
    write_inode ino (n\<lparr>i_size := word_of_nat (length data)\<rparr>) s))))"

text \<open>
  Reading appends \<open>min left BLOCK_SIZE\<close> bytes per block. The accumulator is the bytes read so far and the
  number still wanted; a zero pointer ends the walk of a pointer block.
\<close>

definition read_chunk :: "u32 \<Rightarrow> u8 list \<times> nat \<Rightarrow> 'a fs_state_scheme \<Rightarrow> panic + ((u8 list \<times> nat) \<times> 'a fs_state_scheme)" where
  "read_chunk blk acc s =
    rbind (read_block (unat blk) s) (\<lambda>(page, s).
    case acc of (out, left) \<Rightarrow> Inr ((out @ get_bytes page 0 (min left BLOCK_SIZE), left - min left BLOCK_SIZE), s))"

fun read_direct :: "u32 list \<Rightarrow> u8 list \<times> nat \<Rightarrow> 'a fs_state_scheme \<Rightarrow> panic + ((u8 list \<times> nat) \<times> 'a fs_state_scheme)" where
  "read_direct [] acc s = Inr (acc, s)"
| "read_direct (blk # blks) acc s =
    (if snd acc = 0 then Inr (acc, s) else rbind (read_chunk blk acc s) (\<lambda>(acc, s). read_direct blks acc s))"

fun read_indirect :: "buffer \<Rightarrow> nat list \<Rightarrow> u8 list \<times> nat \<Rightarrow> 'a fs_state_scheme \<Rightarrow>
    panic + ((u8 list \<times> nat) \<times> 'a fs_state_scheme)" where
  "read_indirect buf [] acc s = Inr (acc, s)"
| "read_indirect buf (i # is) acc s =
    (if snd acc = 0 then Inr (acc, s)
     else if get_u32 buf (i * 4) = 0 then Inr (acc, s)
     else rbind (read_chunk (get_u32 buf (i * 4)) acc s) (\<lambda>(acc, s). read_indirect buf is acc s))"

fun read_dindirect :: "buffer \<Rightarrow> nat list \<Rightarrow> u8 list \<times> nat \<Rightarrow> 'a fs_state_scheme \<Rightarrow>
    panic + ((u8 list \<times> nat) \<times> 'a fs_state_scheme)" where
  "read_dindirect dbuf [] acc s = Inr (acc, s)"
| "read_dindirect dbuf (i # is) acc s =
    (if snd acc = 0 then Inr (acc, s)
     else if get_u32 dbuf (i * 4) = 0 then Inr (acc, s)
     else rbind (read_block (unat (get_u32 dbuf (i * 4))) s) (\<lambda>(l1_buf, s).
       rbind (read_indirect l1_buf [0 ..< PTRS_PER_INDIRECT] acc s) (\<lambda>(acc, s). read_dindirect dbuf is acc s)))"

definition read_file :: "u32 \<Rightarrow> 'a fs_state_scheme \<Rightarrow> panic + (u8 list \<times> 'a fs_state_scheme)" where
  "read_file ino s =
    rbind (read_inode ino s) (\<lambda>(n, s).
    if i_flags n \<noteq> F_FILE then Inl (Panic ''not a file'')
    else if 2 ^ 63 \<le> unat (i_size n) then Inl (Panic ''capacity overflow'') else
    rbind (read_direct (used_ptrs (i_direct n)) ([], unat (i_size n)) s) (\<lambda>(acc, s).
    rbind (if 0 < snd acc \<and> i_indirect n \<noteq> 0 then
      rbind (read_block (unat (i_indirect n)) s) (\<lambda>(buf, s). read_indirect buf [0 ..< PTRS_PER_INDIRECT] acc s)
      else Inr (acc, s)) (\<lambda>(acc, s).
    rbind (if 0 < snd acc \<and> i_dindirect n \<noteq> 0 then
      rbind (read_block (unat (i_dindirect n)) s) (\<lambda>(dbuf, s). read_dindirect dbuf [0 ..< PTRS_PER_INDIRECT] acc s)
      else Inr (acc, s)) (\<lambda>(acc, s).
    Inr (fst acc, s)))))"

definition stat :: "u32 \<Rightarrow> 'a fs_state_scheme \<Rightarrow> panic + ((bool \<times> u64) \<times> 'a fs_state_scheme)" where
  "stat ino s = rbind (read_inode ino s) (\<lambda>(n, s). Inr ((i_flags n = F_DIR, i_size n), s))"

section \<open>Removing, renaming, moving and copying\<close>

definition free_block :: "u32 \<Rightarrow> 'a fs_state_scheme \<Rightarrow> panic + 'a fs_state_scheme" where
  "free_block blk s = bitmap_set BLOCK_BM_BLOCK (unat blk) False s"

definition leading_ptrs :: "buffer \<Rightarrow> u32 list" where
  "leading_ptrs buf = takeWhile (\<lambda>p. p \<noteq> 0) (map (\<lambda>i. get_u32 buf (i * 4)) [0 ..< PTRS_PER_INDIRECT])"

definition free_indirect :: "u32 \<Rightarrow> 'a fs_state_scheme \<Rightarrow> panic + 'a fs_state_scheme" where
  "free_indirect ind s =
    rbind (read_block (unat ind) s) (\<lambda>(buf, s).
    rbind (for_each free_block (leading_ptrs buf) s) (\<lambda>s. free_block ind s))"

definition free_dindirect :: "u32 \<Rightarrow> 'a fs_state_scheme \<Rightarrow> panic + 'a fs_state_scheme" where
  "free_dindirect dind s =
    rbind (read_block (unat dind) s) (\<lambda>(dbuf, s).
    rbind (for_each free_indirect (leading_ptrs dbuf) s) (\<lambda>s. free_block dind s))"

text \<open>Rewrites the first entry satisfying \<open>P\<close> in the blocks and reports whether there was one.\<close>

fun update_entry :: "(DirEntry \<Rightarrow> bool) \<Rightarrow> (DirEntry \<Rightarrow> DirEntry) \<Rightarrow> u32 list \<Rightarrow> 'a fs_state_scheme \<Rightarrow>
    panic + (bool \<times> 'a fs_state_scheme)" where
  "update_entry P f [] s = Inr (False, s)"
| "update_entry P f (blk # blks) s =
    rbind (read_block (unat blk) s) (\<lambda>(buf, s).
    case find_slot P buf of
      Some i \<Rightarrow>
        rbind (write_block (unat blk) (put_entry buf i (f (decode_entry buf (i * DIR_ENTRY_SIZE)))) s) (\<lambda>s.
        Inr (True, s))
    | None \<Rightarrow> update_entry P f blks s)"

definition remove :: "u32 \<Rightarrow> u8 list \<Rightarrow> 'a fs_state_scheme \<Rightarrow> panic + (bool \<times> 'a fs_state_scheme)" where
  "remove parent_ino nm s =
    rbind (find_in_dir parent_ino nm (bump_generation s)) (\<lambda>(r, s).
    case r of None \<Rightarrow> Inr (False, s) | Some ino \<Rightarrow>
    rbind (read_inode ino s) (\<lambda>(n, s).
    if ino = ROOT_INO then Inr (False, s) else
    rbind (if i_flags n = F_DIR then
      rbind (list_dir ino s) (\<lambda>(es, s). Inr (es \<noteq> [], s)) else Inr (False, s)) (\<lambda>(nonempty, s).
    if nonempty then Inr (False, s) else
    rbind (for_each free_block (used_ptrs (i_direct n)) s) (\<lambda>s.
    rbind (if i_indirect n \<noteq> 0 then free_indirect (i_indirect n) s else Inr s) (\<lambda>s.
    rbind (if i_dindirect n \<noteq> 0 then free_dindirect (i_dindirect n) s else Inr s) (\<lambda>s.
    rbind (bitmap_set INODE_BM_BLOCK (unat ino) False s) (\<lambda>s.
    rbind (write_inode ino (Inode_default\<lparr>i_flags := F_FREE\<rparr>) s) (\<lambda>s.
    rbind (read_inode parent_ino s) (\<lambda>(parent, s).
    rbind (update_entry (\<lambda>e. e_inode e = ino) (\<lambda>_. empty_entry) (used_ptrs (i_direct parent)) s) (\<lambda>(_, s).
    Inr (True, s)))))))))))"

definition rename :: "u32 \<Rightarrow> u8 list \<Rightarrow> u8 list \<Rightarrow> 'a fs_state_scheme \<Rightarrow> panic + (bool \<times> 'a fs_state_scheme)" where
  "rename parent_ino old_name new_name s =
    rbind (find_in_dir parent_ino new_name (bump_generation s)) (\<lambda>(r, s).
    if r \<noteq> None then Inr (False, s)
    else if 27 < length new_name then Inr (False, s) else
    rbind (read_inode parent_ino s) (\<lambda>(parent, s).
    update_entry (names old_name) (\<lambda>e. make_entry (e_inode e) new_name) (used_ptrs (i_direct parent)) s))"

definition move_entry :: "u32 \<Rightarrow> u32 \<Rightarrow> u8 list \<Rightarrow> 'a fs_state_scheme \<Rightarrow> panic + (bool \<times> 'a fs_state_scheme)" where
  "move_entry from_parent to_parent nm s =
    (let s = bump_generation s in
     if from_parent = to_parent then Inr (False, s) else
     rbind (find_in_dir to_parent nm s) (\<lambda>(r, s).
     if r \<noteq> None then Inr (False, s) else
     rbind (find_in_dir from_parent nm s) (\<lambda>(r, s).
     case r of None \<Rightarrow> Inr (False, s) | Some ino \<Rightarrow>
     rbind (read_inode from_parent s) (\<lambda>(parent, s).
     rbind (update_entry (\<lambda>e. e_inode e = ino) (\<lambda>_. empty_entry) (used_ptrs (i_direct parent)) s) (\<lambda>(removed, s).
     if \<not> removed then Inr (False, s) else
     rbind (add_dir_entry to_parent nm ino s) (\<lambda>s. Inr (True, s)))))))"

text \<open>
  \<open>copy_entry\<close> recurses into directories without a cycle check, so it takes fuel; running out is \<open>None\<close>.
\<close>

fun copy_entry :: "nat \<Rightarrow> u32 \<Rightarrow> u32 \<Rightarrow> u8 list \<Rightarrow> u8 list \<Rightarrow> 'a fs_state_scheme \<Rightarrow>
      (panic + (u32 option \<times> 'a fs_state_scheme)) option"
  and copy_children :: "nat \<Rightarrow> u32 \<Rightarrow> u32 \<Rightarrow> u8 list list \<Rightarrow> 'a fs_state_scheme \<Rightarrow>
      (panic + 'a fs_state_scheme) option" where
  "copy_entry 0 from_parent to_parent nm dest s = None"
| "copy_entry (Suc fuel) from_parent to_parent nm dest s =
    (case find_in_dir to_parent dest s of Inl e \<Rightarrow> Some (Inl e) | Inr (r, s) \<Rightarrow>
     if r \<noteq> None then Some (Inr (None, s)) else
     case find_in_dir from_parent nm s of Inl e \<Rightarrow> Some (Inl e) | Inr (None, s) \<Rightarrow> Some (Inr (None, s))
     | Inr (Some src_ino, s) \<Rightarrow>
     if src_ino = to_parent then Some (Inr (None, s)) else
     case read_inode src_ino s of Inl e \<Rightarrow> Some (Inl e) | Inr (n, s) \<Rightarrow>
     if i_flags n = F_DIR then
       case rbind (create_dir to_parent dest s) (\<lambda>(new_ino, s).
            rbind (list_dir src_ino s) (\<lambda>(es, s). Inr ((new_ino, map snd es), s))) of
         Inl e \<Rightarrow> Some (Inl e)
       | Inr ((new_ino, children), s) \<Rightarrow>
           map_option (\<lambda>r. rbind r (\<lambda>s. Inr (Some new_ino, s))) (copy_children fuel src_ino new_ino children s)
     else
       Some (rbind (read_file src_ino s) (\<lambda>(data, s).
             rbind (create_file to_parent dest s) (\<lambda>(new_ino, s).
             rbind (write_file new_ino data s) (\<lambda>s. Inr (Some new_ino, s))))))"
| "copy_children fuel src_ino new_ino [] s = Some (Inr s)"
| "copy_children fuel src_ino new_ino (c # cs) s =
    (case copy_entry fuel src_ino new_ino c c s of
       None \<Rightarrow> None | Some (Inl e) \<Rightarrow> Some (Inl e)
     | Some (Inr (_, s)) \<Rightarrow> copy_children fuel src_ino new_ino cs s)"

definition numbered :: "u8 list \<Rightarrow> nat \<Rightarrow> u8 list" where
  "numbered nm n = (if n = 0 then nm else nm @ [32, 40] @ decimal n @ [41])"

fun copy_unique_from :: "nat \<Rightarrow> u32 \<Rightarrow> u32 \<Rightarrow> u8 list \<Rightarrow> nat list \<Rightarrow> 'a fs_state_scheme \<Rightarrow>
    (panic + (u32 option \<times> 'a fs_state_scheme)) option" where
  "copy_unique_from fuel from_parent to_parent nm [] s = Some (Inr (None, s))"
| "copy_unique_from fuel from_parent to_parent nm (k # ks) s =
    (case copy_entry fuel from_parent to_parent nm (numbered nm k) s of
       Some (Inr (None, s)) \<Rightarrow> copy_unique_from fuel from_parent to_parent nm ks s
     | r \<Rightarrow> r)"

definition copy_entry_unique :: "nat \<Rightarrow> u32 \<Rightarrow> u32 \<Rightarrow> u8 list \<Rightarrow> 'a fs_state_scheme \<Rightarrow>
    (panic + (u32 option \<times> 'a fs_state_scheme)) option" where
  "copy_entry_unique fuel from_parent to_parent nm s = copy_unique_from fuel from_parent to_parent nm [0 ..< 101] s"

end
