(* ===== verification/HepFs_Blocks.thy ===== *)
theory HepFs_Blocks
  imports HepFs
begin

text \<open>
  The disk as numbered blocks: \<open>read_block\<close> and \<open>write_block\<close> are a block store, and the bitmaps and the
  inode table are proved on top of that contract.
\<close>

section \<open>The contract of a block store\<close>

definition clip :: "buffer \<Rightarrow> buffer" where
  "clip p = (\<lambda>i. if i < BLOCK_SIZE then p i else 0)"

text \<open>
  Reading takes one frame of the budget and returns the block's contents; writing replaces exactly that
  block.
\<close>

locale block_store =
  fixes rd :: "nat \<Rightarrow> 's \<Rightarrow> panic + (buffer \<times> 's)"
    and wr :: "nat \<Rightarrow> buffer \<Rightarrow> 's \<Rightarrow> panic + 's"
    and view :: "'s \<Rightarrow> nat \<Rightarrow> buffer"
    and valid :: "'s \<Rightarrow> nat \<Rightarrow> bool"
    and budget :: "'s \<Rightarrow> nat"
  assumes rd_law: "valid s b \<Longrightarrow> 0 < budget s \<Longrightarrow>
      \<exists>s'. rd b s = Inr (view s b, s') \<and> view s' = view s \<and> valid s' = valid s \<and> budget s' = budget s - 1"
    and wr_law: "valid s b \<Longrightarrow>
      \<exists>s'. wr b p s = Inr s' \<and> view s' = (view s)(b := clip p) \<and> valid s' = valid s \<and> budget s' = budget s"
begin

lemma rd_obtain:
  assumes "valid s b" "0 < budget s"
  obtains s' where "rd b s = Inr (view s b, s')" "view s' = view s" "valid s' = valid s" "budget s' = budget s - 1"
  using rd_law [OF assms] by blast

lemma wr_obtain:
  assumes "valid s b"
  obtains s' where "wr b p s = Inr s'" "view s' = (view s)(b := clip p)" "valid s' = valid s" "budget s' = budget s"
  using wr_law [OF assms] by blast

lemma update_block:
  assumes "valid s b" "0 < budget s"
  obtains s' where "rbind (rd b s) (\<lambda>(p, s). wr b (f p) s) = Inr s'"
    "view s' = (view s)(b := clip (f (view s b)))" "valid s' = valid s" "budget s' = budget s - 1"
proof -
  obtain s1 where 1: "rd b s = Inr (view s b, s1)" "view s1 = view s" "valid s1 = valid s" "budget s1 = budget s - 1"
    using assms by (rule rd_obtain)
  obtain s2 where 2: "wr b (f (view s b)) s1 = Inr s2" "view s2 = (view s1)(b := clip (f (view s b)))"
      "valid s2 = valid s1" "budget s2 = budget s1"
    using assms(1) 1(3) wr_obtain [of s1 b "f (view s b)"] by auto
  show thesis using 1 2 by (intro that [of s2]) simp_all
qed

end

section \<open>The device is a block store\<close>

definition page_of :: "'a fs_state_scheme \<Rightarrow> nat \<Rightarrow> buffer" where
  "page_of s b = (\<lambda>i. if i < BLOCK_SIZE then DISK s (b * BLOCK_SIZE + i) else 0)"

definition blk_ok :: "'a fs_state_scheme \<Rightarrow> nat \<Rightarrow> bool" where
  "blk_ok s b \<longleftrightarrow> unat (lba_size s) \<in> {512, 1024, 2048, 4096} \<and>
     Suc b * (BLOCK_SIZE div unat (lba_size s)) \<le> unat (lba_count s)"

definition page_budget :: "'a fs_state_scheme \<Rightarrow> nat" where
  "page_budget s = card (free_set s)"

lemma Page_alloc_spec:
  assumes "0 < page_budget s"
  obtains s' where "Page_alloc s = Inr (\<lambda>_. 0, s')" "DISK s' = DISK s" "lba_size s' = lba_size s"
    "lba_count s' = lba_count s" "GENERATION s' = GENERATION s" "page_budget s' = page_budget s - 1"
proof -
  have ne: "free_set s \<noteq> {}" using assms by (auto simp: page_budget_def)
  then obtain a s' where a: "alloc_page s = Some (a, s')" by (simp add: alloc_page_eq Let_def)
  from a show thesis
  proof (rule alloc_page_SomeD)
    fix p assume p: "p \<in> free_set s" "s' = (set_used p s)\<lparr>FREE_PAGES := FREE_PAGES s - 1\<rparr>"
      "free_set s' = free_set s - {p}"
    have b: "page_budget s' = page_budget s - 1" using p(1,3) by (simp add: page_budget_def)
    show thesis
      by (rule that [OF _ _ _ _ _ b], simp add: Page_alloc_def a)
        (simp_all add: p(2) set_used_def lba_size_def lba_count_def split: BlockDev.splits)
  qed
qed

lemma sectors_arith:
  assumes "blk_ok s b"
  obtains spb where "sectors_per_block s = Inr spb" "0 < unat spb" "unat (spb - 1) + 1 = unat spb"
    "unat spb * unat (lba_size s) = BLOCK_SIZE" "unat (word_of_nat (b * unat spb) :: u64) = b * unat spb"
    "b * unat spb + unat spb \<le> unat (lba_count s)"
proof -
  define spb where "spb = BLOCK_SIZE div unat (lba_size s)"
  have sz: "unat (lba_size s) \<in> {512, 1024, 2048, 4096}" using assms by (simp add: blk_ok_def)
  then have v: "spb \<in> {8, 4, 2, 1}" "spb * unat (lba_size s) = BLOCK_SIZE"
    by (auto simp: spb_def BLOCK_SIZE_def)
  have u: "unat (word_of_nat spb :: u16) = spb"
    using v(1) by (intro unat_of_nat_less) auto
  have pos: "0 < spb" using v(1) by auto
  have "(word_of_nat spb :: u16) \<noteq> 0" using pos u by auto
  then have m: "unat ((word_of_nat spb :: u16) - 1) + 1 = spb"
    using u pos by (simp add: unat_minus_one)
  have le: "b * spb + spb \<le> unat (lba_count s)" using assms by (simp add: blk_ok_def spb_def)
  have "b * spb < unat (lba_count s)" using le pos by linarith
  moreover have "unat (lba_count s) < 2 ^ 64" by simp
  ultimately have "b * spb < 2 ^ 64" by (rule less_trans)
  then have w: "unat (word_of_nat (b * spb) :: u64) = b * spb" by (intro unat_of_nat_less) simp
  have "lba_size s \<noteq> 0" using sz by auto
  then show thesis using u v m le w
    by (intro that [of "word_of_nat spb"]) (auto simp: sectors_per_block_def spb_def)
qed

lemma in_range_block:
  assumes "unat (spb - 1) + 1 = unat spb" "unat (lba :: u64) + unat spb \<le> unat (lba_count s)"
  shows "in_range lba spb s"
  using assms by (simp add: in_range_def)

lemma read_block_spec:
  assumes "blk_ok s b" "0 < page_budget s"
  shows "\<exists>s'. read_block b s = Inr (page_of s b, s') \<and> page_of s' = page_of s \<and> blk_ok s' = blk_ok s \<and>
    page_budget s' = page_budget s - 1"
proof -
  obtain s' where s': "Page_alloc s = Inr (\<lambda>_. 0, s')" "DISK s' = DISK s" "lba_size s' = lba_size s"
    "lba_count s' = lba_count s" "page_budget s' = page_budget s - 1"
    using Page_alloc_spec [OF assms(2)] by metis
  have ok: "blk_ok s' = blk_ok s" by (simp add: fun_eq_iff blk_ok_def s')
  obtain spb where a: "sectors_per_block s' = Inr spb" "unat (spb - 1) + 1 = unat spb"
    "unat spb * unat (lba_size s') = BLOCK_SIZE" "unat (word_of_nat (b * unat spb) :: u64) = b * unat spb"
    "b * unat spb + unat spb \<le> unat (lba_count s')"
    using sectors_arith [of s' b] assms(1) ok by metis
  have r: "in_range (word_of_nat (b * unat spb)) spb s'"
    using a by (intro in_range_block) simp_all
  have m: "b * unat spb * unat (lba_size s') = b * BLOCK_SIZE" using a(3) by (simp add: mult.assoc)
  have "put_bytes (\<lambda>_. 0) 0 (get_bytes (DISK s) (b * BLOCK_SIZE) BLOCK_SIZE) = page_of s b"
    by (auto simp: put_bytes_def page_of_def)
  then have "read_block b s = Inr (page_of s b, s')"
    unfolding read_block_def s'(1) using a r by (simp add: read_blocks_def m s'(2))
  moreover have "page_of s' = page_of s" by (simp add: page_of_def s'(2) fun_eq_iff)
  ultimately show ?thesis using ok s'(5) by blast
qed

lemma page_of_write:
  "page_of (s\<lparr>DISK := put_bytes (DISK s) (b * BLOCK_SIZE) (get_bytes p 0 BLOCK_SIZE)\<rparr>) = (page_of s)(b := clip p)"
proof (intro ext)
  fix c i
  show "page_of (s\<lparr>DISK := put_bytes (DISK s) (b * BLOCK_SIZE) (get_bytes p 0 BLOCK_SIZE)\<rparr>) c i =
      ((page_of s)(b := clip p)) c i"
  proof (cases "c = b")
    case False
    then have "c < b \<or> b < c" by arith
    then have "Suc c * BLOCK_SIZE \<le> b * BLOCK_SIZE \<or> Suc b * BLOCK_SIZE \<le> c * BLOCK_SIZE"
      by (metis Suc_leI mult_le_mono1)
    then show ?thesis using False by (auto simp: page_of_def put_bytes_def)
  qed (auto simp: page_of_def put_bytes_def clip_def)
qed

lemma write_block_spec:
  assumes "blk_ok s b"
  shows "\<exists>s'. write_block b p s = Inr s' \<and> page_of s' = (page_of s)(b := clip p) \<and> blk_ok s' = blk_ok s \<and>
    page_budget s' = page_budget s"
proof -
  obtain spb where a: "sectors_per_block s = Inr spb" "unat (spb - 1) + 1 = unat spb"
    "unat spb * unat (lba_size s) = BLOCK_SIZE" "unat (word_of_nat (b * unat spb) :: u64) = b * unat spb"
    "b * unat spb + unat spb \<le> unat (lba_count s)"
    using sectors_arith [OF assms] by metis
  have r: "in_range (word_of_nat (b * unat spb)) spb s"
    using a by (intro in_range_block) simp_all
  have m: "b * unat spb * unat (lba_size s) = b * BLOCK_SIZE" using a(3) by (simp add: mult.assoc)
  let ?s = "s\<lparr>DISK := put_bytes (DISK s) (b * BLOCK_SIZE) (get_bytes p 0 BLOCK_SIZE)\<rparr>"
  have "write_block b p s = Inr ?s"
    unfolding write_block_def using a r by (simp add: write_blocks_def m)
  moreover have "lba_size ?s = lba_size s" "lba_count ?s = lba_count s"
    by (simp_all add: lba_size_def lba_count_def split: BlockDev.splits)
  then have "blk_ok ?s = blk_ok s" by (simp add: fun_eq_iff blk_ok_def)
  moreover have "page_budget ?s = page_budget s" by (simp add: page_budget_def free_set_def is_used_def)
  ultimately show ?thesis using page_of_write by blast
qed

interpretation disk: block_store read_block write_block page_of blk_ok page_budget
  by unfold_locales (fact read_block_spec, fact write_block_spec)

section \<open>The inode table\<close>

lemma get_put_field:
  "length bs = n \<Longrightarrow> off' = off + length pre \<Longrightarrow> get_bytes (put_bytes buf off (pre @ bs @ post)) off' n = bs"
  by (rule nth_equalityI) (simp_all add: get_bytes_def put_bytes_def nth_append)

lemma length_concat_u32 [simp]: "length (concat (map u32_to_le_bytes ws)) = 4 * length ws"
  by (induction ws) simp_all

lemma concat_u32_split:
  "k < length ws \<Longrightarrow> concat (map u32_to_le_bytes ws) =
     concat (map u32_to_le_bytes (take k ws)) @ u32_to_le_bytes (ws ! k) @ concat (map u32_to_le_bytes (drop (Suc k) ws))"
  by (subst id_take_nth_drop [of k ws]) simp_all

definition inode_wf :: "Inode \<Rightarrow> bool" where
  "inode_wf n \<longleftrightarrow> length (i_direct n) = 12 \<and> length (i_pad n) = 32"

lemma length_encode_inode: "inode_wf n \<Longrightarrow> length (encode_inode n) = 128"
  by (simp add: encode_inode_def inode_wf_def)

lemma decode_encode_inode:
  assumes "inode_wf n"
  shows "decode_inode (put_bytes buf off (encode_inode n)) off = n"
proof -
  let ?b = "put_bytes buf off (encode_inode n)"
  let ?F = "u32_to_le_bytes (i_flags n)" and ?S = "u64_to_le_bytes (i_size n)" and ?N = "u32_to_le_bytes (i_nblocks n)"
    and ?C = "u64_to_le_bytes (i_ctime n)" and ?M = "u64_to_le_bytes (i_mtime n)"
    and ?D = "concat (map u32_to_le_bytes (i_direct n))" and ?I = "u32_to_le_bytes (i_indirect n)"
    and ?X = "u32_to_le_bytes (i_dindirect n)" and ?Z = "replicate 4 (0 :: u8)"
  have wf: "length (i_direct n) = 12" "length (i_pad n) = 32" using assms by (simp_all add: inode_wf_def)
  note f = get_put_field [where buf = buf and off = off]
  have "get_bytes ?b off 4 = ?F" using f [of ?F 4 off "[]"] by (simp add: encode_inode_def)
  moreover have "get_bytes ?b (off + 8) 8 = ?S" using f [of ?S 8 "off + 8" "?F @ ?Z"] by (simp add: encode_inode_def)
  moreover have "get_bytes ?b (off + 16) 4 = ?N" using f [of ?N 4 "off + 16" "?F @ ?Z @ ?S"] by (simp add: encode_inode_def)
  moreover have "get_bytes ?b (off + 24) 8 = ?C"
    using f [of ?C 8 "off + 24" "?F @ ?Z @ ?S @ ?N @ ?Z"] by (simp add: encode_inode_def)
  moreover have "get_bytes ?b (off + 32) 8 = ?M"
    using f [of ?M 8 "off + 32" "?F @ ?Z @ ?S @ ?N @ ?Z @ ?C"] by (simp add: encode_inode_def)
  moreover have "get_bytes ?b (off + 88) 4 = ?I"
    using f [of ?I 4 "off + 88" "?F @ ?Z @ ?S @ ?N @ ?Z @ ?C @ ?M @ ?D"] wf by (simp add: encode_inode_def)
  moreover have "get_bytes ?b (off + 92) 4 = ?X"
    using f [of ?X 4 "off + 92" "?F @ ?Z @ ?S @ ?N @ ?Z @ ?C @ ?M @ ?D @ ?I"] wf by (simp add: encode_inode_def)
  moreover have "get_bytes ?b (off + 96) 32 = i_pad n"
    using f [of "i_pad n" 32 "off + 96" "?F @ ?Z @ ?S @ ?N @ ?Z @ ?C @ ?M @ ?D @ ?I @ ?X" "[]"] wf
    by (simp add: encode_inode_def)
  moreover have "get_bytes ?b (off + 40 + 4 * k) 4 = u32_to_le_bytes (i_direct n ! k)" if "k < 12" for k
    using f [of "u32_to_le_bytes (i_direct n ! k)" 4 "off + 40 + 4 * k"
        "?F @ ?Z @ ?S @ ?N @ ?Z @ ?C @ ?M @ concat (map u32_to_le_bytes (take k (i_direct n)))"
        "concat (map u32_to_le_bytes (drop (Suc k) (i_direct n))) @ ?I @ ?X @ i_pad n"]
      concat_u32_split [of k "i_direct n"] that wf by (simp add: encode_inode_def)
  then have "map (\<lambda>k. get_u32 ?b (off + 40 + 4 * k)) [0 ..< 12] = i_direct n"
    using wf by (intro nth_equalityI) (simp_all add: get_u32_def)
  ultimately show ?thesis by (simp add: decode_inode_def get_u32_def get_u64_def)
qed

lemma decode_inode_cong:
  assumes "\<And>i. off \<le> i \<Longrightarrow> i < off + 128 \<Longrightarrow> f i = g i"
  shows "decode_inode f off = decode_inode g off"
proof -
  have "get_bytes f (off + k) m = get_bytes g (off + k) m" if "k + m \<le> 128" for k m
    by (rule get_bytes_cong) (use assms that in auto)
  from this [of 0] this show ?thesis by (simp add: decode_inode_def get_u32_def get_u64_def add.assoc)
qed

definition inode_at :: "'a fs_state_scheme \<Rightarrow> u32 \<Rightarrow> Inode" where
  "inode_at s ino = decode_inode (page_of s (inode_blk ino)) (inode_off ino)"

lemma inode_off_bound: "inode_off ino + 128 \<le> BLOCK_SIZE"
proof -
  have "unat ino mod 32 < 32" by simp
  then show ?thesis by (simp add: inode_off_def fs_consts)
qed

lemma inode_slots_apart:
  assumes "inode_blk i = inode_blk j" "i \<noteq> j"
  shows "inode_off i + 128 \<le> inode_off j \<or> inode_off j + 128 \<le> inode_off i"
proof -
  have "unat i div 32 = unat j div 32" using assms(1) by (simp add: inode_blk_def fs_consts)
  moreover have "unat i \<noteq> unat j" using assms(2) by (simp add: unat_eq_iff)
  ultimately have "unat i mod 32 \<noteq> unat j mod 32" by (metis div_mult_mod_eq)
  then show ?thesis by (simp add: inode_off_def fs_consts) linarith
qed

lemma read_inode_spec:
  assumes "blk_ok s (inode_blk ino)" "0 < page_budget s"
  obtains s' where "read_inode ino s = Inr (inode_at s ino, s')" "page_of s' = page_of s" "blk_ok s' = blk_ok s"
    "page_budget s' = page_budget s - 1"
proof -
  obtain s' where s': "read_block (inode_blk ino) s = Inr (page_of s (inode_blk ino), s')"
    "page_of s' = page_of s" "blk_ok s' = blk_ok s" "page_budget s' = page_budget s - 1"
    using assms by (rule disk.rd_obtain)
  then show thesis by (intro that [of s']) (simp_all add: read_inode_def inode_at_def)
qed

lemma write_inode_spec:
  assumes "blk_ok s (inode_blk ino)" "0 < page_budget s" "inode_wf n"
  obtains s' where "write_inode ino n s = Inr s'" "blk_ok s' = blk_ok s" "page_budget s' = page_budget s - 1"
    "\<And>b. b \<noteq> inode_blk ino \<Longrightarrow> page_of s' b = page_of s b" "inode_at s' = (inode_at s)(ino := n)"
proof -
  let ?f = "\<lambda>buf. put_bytes buf (inode_off ino) (encode_inode n)"
  obtain s' where s': "write_inode ino n s = Inr s'"
    "page_of s' = (page_of s)(inode_blk ino := clip (?f (page_of s (inode_blk ino))))"
    "blk_ok s' = blk_ok s" "page_budget s' = page_budget s - 1"
    using disk.update_block [OF assms(1,2), of ?f] unfolding write_inode_def by blast
  have "inode_at s' j = ((inode_at s)(ino := n)) j" for j
  proof (cases "inode_blk j = inode_blk ino")
    case True
    have "inode_at s' j = decode_inode (?f (page_of s (inode_blk ino))) (inode_off j)"
      unfolding inode_at_def s'(2) True using inode_off_bound [of j]
      by (intro decode_inode_cong) (simp add: clip_def)
    also have "\<dots> = ((inode_at s)(ino := n)) j"
    proof (cases "j = ino")
      case False
      have "decode_inode (?f (page_of s (inode_blk ino))) (inode_off j) =
          decode_inode (page_of s (inode_blk ino)) (inode_off j)"
        using inode_slots_apart [OF True False] length_encode_inode [OF assms(3)]
        by (intro decode_inode_cong) (auto simp: put_bytes_def)
      then show ?thesis using False True by (simp add: inode_at_def)
    qed (simp add: decode_encode_inode [OF assms(3)])
    finally show ?thesis .
  qed (auto simp: inode_at_def s'(2))
  then have "inode_at s' = (inode_at s)(ino := n)" by (rule ext)
  then show thesis using s' by (intro that) simp_all
qed

section \<open>Bitmaps\<close>

definition bm_bits :: nat where "bm_bits = BLOCK_SIZE * 8"

definition bit_used :: "'a fs_state_scheme \<Rightarrow> nat \<Rightarrow> nat \<Rightarrow> bool" where
  "bit_used s start idx \<longleftrightarrow> bit (page_of s (start + idx div bm_bits) (idx div 8 mod BLOCK_SIZE)) (idx mod 8)"

lemma bit_index:
  assumes "byte < BLOCK_SIZE" "b < 8"
  shows "(bi * bm_bits + byte * 8 + b) div bm_bits = bi" "(bi * bm_bits + byte * 8 + b) div 8 mod BLOCK_SIZE = byte"
    "(bi * bm_bits + byte * 8 + b) mod 8 = b"
proof -
  have lt: "byte * 8 + b < bm_bits" using assms by (simp add: bm_bits_def)
  show "(bi * bm_bits + byte * 8 + b) div bm_bits = bi"
    using lt by (simp add: add.assoc)
  have e: "bi * bm_bits + byte * 8 + b = b + (byte + bi * BLOCK_SIZE) * 8" by (simp add: bm_bits_def algebra_simps)
  show "(bi * bm_bits + byte * 8 + b) div 8 mod BLOCK_SIZE = byte" "(bi * bm_bits + byte * 8 + b) mod 8 = b"
    unfolding e div_mult_self1 [of 8, OF zero_neq_numeral [symmetric]] mod_mult_self1 using assms by simp_all
qed

lemma index_bit:
  assumes "idx div bm_bits = bi"
  shows "idx = bi * bm_bits + (idx div 8 mod BLOCK_SIZE) * 8 + idx mod 8"
proof -
  have "idx div bm_bits = idx div 8 div BLOCK_SIZE" 
    unfolding bm_bits_def mult.commute [of BLOCK_SIZE] by (rule div_mult2_eq)
  then have "idx div 8 = bi * BLOCK_SIZE + idx div 8 mod BLOCK_SIZE"
    using assms div_mult_mod_eq [of "idx div 8" BLOCK_SIZE] by simp
  then have "idx div 8 * 8 = bi * bm_bits + idx div 8 mod BLOCK_SIZE * 8"
    unfolding bm_bits_def by (metis add_mult_distrib mult.assoc)
  then show ?thesis using div_mult_mod_eq [of idx 8] by linarith
qed

lemma u8_all_ones: "c < 8 \<Longrightarrow> bit (0xFF :: u8) c"
proof -
  have "(0xFF :: u8) = mask 8" by (simp add: mask_eq_exp_minus_1)
  then show "c < 8 \<Longrightarrow> bit (0xFF :: u8) c" by (simp only: bit_mask_iff) simp
qed

lemma scan_byte_spec:
  "scan_byte buf bi skip byte = Some b \<Longrightarrow> b < 8 \<and> \<not> bit (buf byte) b \<and> skip \<le> bi * bm_bits + byte * 8 + b \<and>
     (\<forall>c < b. bit (buf byte) c \<or> bi * bm_bits + byte * 8 + c < skip)"
  "scan_byte buf bi skip byte = None \<Longrightarrow> \<forall>c < 8. bit (buf byte) c \<or> bi * bm_bits + byte * 8 + c < skip"
proof -
  have e: "(buf byte AND push_bit b 1 = 0) = (\<not> bit (buf byte) b)" for b
    using and_exp_eq_0_iff_not_bit [of "buf byte" b] by simp
  show "scan_byte buf bi skip byte = Some b \<Longrightarrow> b < 8 \<and> \<not> bit (buf byte) b \<and> skip \<le> bi * bm_bits + byte * 8 + b \<and>
     (\<forall>c < b. bit (buf byte) c \<or> bi * bm_bits + byte * 8 + c < skip)"
    unfolding scan_byte_def e bm_bits_def by (auto simp: find_Some_iff mult.assoc split: if_splits)
  show "scan_byte buf bi skip byte = None \<Longrightarrow> \<forall>c < 8. bit (buf byte) c \<or> bi * bm_bits + byte * 8 + c < skip"
  proof (cases "buf byte = 0xFF")
    case False
    then show "scan_byte buf bi skip byte = None \<Longrightarrow> \<forall>c < 8. bit (buf byte) c \<or> bi * bm_bits + byte * 8 + c < skip"
      unfolding scan_byte_def e bm_bits_def by (auto simp: find_None_iff mult.assoc)
  next
    case True
    show "\<forall>c < 8. bit (buf byte) c \<or> bi * bm_bits + byte * 8 + c < skip"
      unfolding True by (intro allI impI disjI1 u8_all_ones)
  qed
qed

lemma scan_bytes_spec:
  "scan_bytes buf bi skip bytes = Some (byte, b) \<Longrightarrow>
     \<exists>pre post. bytes = pre @ byte # post \<and> scan_byte buf bi skip byte = Some b \<and>
       (\<forall>x \<in> set pre. scan_byte buf bi skip x = None)"
  "scan_bytes buf bi skip bytes = None \<Longrightarrow> \<forall>x \<in> set bytes. scan_byte buf bi skip x = None"
proof (induction bytes)
  case (Cons x xs)
  { case 1 then show ?case using Cons.IH(1)
      by (auto split: option.splits intro: exI [of _ "[]"]) (metis append_Cons set_ConsD)+ }
  { case 2 then show ?case using Cons.IH(2) by (auto split: option.splits) }
qed simp_all

lemma scan_block_None:
  assumes "scan_bytes buf bi skip [0 ..< BLOCK_SIZE] = None" "idx div bm_bits = bi" "skip \<le> idx"
  shows "bit (buf (idx div 8 mod BLOCK_SIZE)) (idx mod 8)"
proof -
  have "idx div 8 mod BLOCK_SIZE < BLOCK_SIZE" by (simp add: BLOCK_SIZE_def)
  then have "scan_byte buf bi skip (idx div 8 mod BLOCK_SIZE) = None"
    using scan_bytes_spec(2) [OF assms(1)] by simp
  then show ?thesis
    using scan_byte_spec(2) [of buf bi skip "idx div 8 mod BLOCK_SIZE"] index_bit [OF assms(2)] assms(3)
    by (metis linorder_not_le mod_less_divisor zero_less_numeral)
qed

lemma scan_block_Some:
  assumes "scan_bytes buf bi skip [0 ..< BLOCK_SIZE] = Some (byte, b)"
  defines "idx \<equiv> bi * bm_bits + byte * 8 + b"
  shows "byte < BLOCK_SIZE" "b < 8" "\<not> bit (buf byte) b" "skip \<le> idx"
    "\<And>j. j div bm_bits = bi \<Longrightarrow> skip \<le> j \<Longrightarrow> j < idx \<Longrightarrow> bit (buf (j div 8 mod BLOCK_SIZE)) (j mod 8)"
proof -
  obtain pre post where p: "[0 ..< BLOCK_SIZE] = pre @ byte # post" "scan_byte buf bi skip byte = Some b"
    "\<forall>x \<in> set pre. scan_byte buf bi skip x = None"
    using scan_bytes_spec(1) [OF assms(1)] by blast
  have "byte \<in> set [0 ..< BLOCK_SIZE]" unfolding p(1) by simp
  then show "byte < BLOCK_SIZE" by simp
  note sb = scan_byte_spec(1) [OF p(2)]
  show "b < 8" "\<not> bit (buf byte) b" "skip \<le> idx" using sb by (auto simp: idx_def)
  fix j assume j: "j div bm_bits = bi" "skip \<le> j" "j < idx"
  define k where "k = j div 8 mod BLOCK_SIZE"
  have e: "j = bi * bm_bits + k * 8 + j mod 8" using index_bit [OF j(1)] by (simp add: k_def)
  then have "k * 8 + j mod 8 < byte * 8 + b" using j(3) by (simp add: idx_def)
  then have "k < byte \<or> k = byte \<and> j mod 8 < b" using \<open>b < 8\<close> by linarith
  then show "bit (buf (j div 8 mod BLOCK_SIZE)) (j mod 8)"
  proof
    assume "k < byte"
    moreover have "[0 ..< BLOCK_SIZE] ! length pre = byte" by (simp add: p(1))
    moreover have "length pre < BLOCK_SIZE" using arg_cong [OF p(1), of length] by simp
    ultimately have "k < length pre" by simp
    then have "k \<in> set pre" using arg_cong [OF p(1), of "\<lambda>xs. xs ! k"] \<open>length pre < BLOCK_SIZE\<close>
      by (simp add: nth_append) (metis nth_mem)
    then have "scan_byte buf bi skip k = None" using p(3) by blast
    then show ?thesis using scan_byte_spec(2) [of buf bi skip k] e j(2) unfolding k_def [symmetric]
      by (metis linorder_not_le mod_less_divisor zero_less_numeral)
  next
    assume "k = byte \<and> j mod 8 < b"
    then show ?thesis using sb e j(2) unfolding k_def [symmetric] by (metis linorder_not_le)
  qed
qed

definition mark_bit :: "(nat \<Rightarrow> buffer) \<Rightarrow> nat \<Rightarrow> nat \<Rightarrow> nat \<Rightarrow> buffer" where
  "mark_bit v start idx = v(start + idx div bm_bits := (v (start + idx div bm_bits))
     (idx div 8 mod BLOCK_SIZE := v (start + idx div bm_bits) (idx div 8 mod BLOCK_SIZE) OR push_bit (idx mod 8) 1))"

lemma bit_used_mark:
  assumes "page_of s' = mark_bit (page_of s) start idx"
  shows "bit_used s' start j \<longleftrightarrow> bit_used s start j \<or> j = idx"
proof -
  have m: "bit (x OR push_bit (idx mod 8) 1) (j mod 8) \<longleftrightarrow> bit x (j mod 8) \<or> j mod 8 = idx mod 8" for x :: u8
  proof -
    have "j mod 8 < 8" by simp
    then show ?thesis by (auto simp: bit_or_iff bit_exp_iff possible_bit_word)
  qed
  have "j = idx" if "j div bm_bits = idx div bm_bits" "j div 8 mod BLOCK_SIZE = idx div 8 mod BLOCK_SIZE" "j mod 8 = idx mod 8"
    using index_bit [of j] index_bit [of idx] that by metis
  then show ?thesis unfolding bit_used_def assms mark_bit_def using m
    by (cases "j div bm_bits = idx div bm_bits"; cases "j div 8 mod BLOCK_SIZE = idx div 8 mod BLOCK_SIZE") auto
qed

lemma clip_page: "byte < BLOCK_SIZE \<Longrightarrow> clip ((page_of s b)(byte := v)) = (page_of s b)(byte := v)"
  by (auto simp: clip_def page_of_def)

definition scan_post :: "'a fs_state_scheme \<Rightarrow> nat \<Rightarrow> nat \<Rightarrow> nat list \<Rightarrow> nat option \<Rightarrow> 'a fs_state_scheme \<Rightarrow> bool" where
  "scan_post s start skip bis r s' \<longleftrightarrow> blk_ok s' = blk_ok s \<and> page_budget s \<le> page_budget s' + length bis + 1 \<and>
    (case r of None \<Rightarrow> page_of s' = page_of s \<and> (\<forall>j. j div bm_bits \<in> set bis \<longrightarrow> skip \<le> j \<longrightarrow> bit_used s start j)
     | Some idx \<Rightarrow> page_of s' = mark_bit (page_of s) start idx \<and> skip \<le> idx \<and> \<not> bit_used s start idx \<and>
         (\<exists>pre post. bis = pre @ idx div bm_bits # post \<and>
            (\<forall>j. skip \<le> j \<longrightarrow> j div bm_bits \<in> set pre \<longrightarrow> bit_used s start j) \<and>
            (\<forall>j. skip \<le> j \<longrightarrow> j div bm_bits = idx div bm_bits \<longrightarrow> j < idx \<longrightarrow> bit_used s start j)))"

lemma scan_post_skip:
  assumes p: "scan_post s1 start skip bis r s'" and v: "page_of s1 = page_of s" and ok: "blk_ok s1 = blk_ok s"
    and b: "page_budget s1 = page_budget s - 1"
    and full: "\<And>j. j div bm_bits = bi \<Longrightarrow> skip \<le> j \<Longrightarrow> bit_used s start j"
  shows "scan_post s start skip (bi # bis) r s'"
proof -
  have bu: "bit_used s1 start j = bit_used s start j" for j by (simp add: bit_used_def v)
  have "blk_ok s' = blk_ok s1" "page_budget s1 \<le> page_budget s' + length bis + 1"
    using p by (simp_all add: scan_post_def)
  then have c: "blk_ok s' = blk_ok s" "page_budget s \<le> page_budget s' + length (bi # bis) + 1"
    using ok b by simp_all
  show ?thesis
  proof (cases r)
    case None
    then show ?thesis using p c full unfolding scan_post_def v bu by simp
  next
    case (Some idx)
    then obtain pre post where pp: "bis = pre @ idx div bm_bits # post"
        "\<forall>j. skip \<le> j \<longrightarrow> j div bm_bits \<in> set pre \<longrightarrow> bit_used s start j"
        "\<forall>j. skip \<le> j \<longrightarrow> j div bm_bits = idx div bm_bits \<longrightarrow> j < idx \<longrightarrow> bit_used s start j"
      using p unfolding scan_post_def v bu by auto
    have "\<exists>pre post. bi # bis = pre @ idx div bm_bits # post \<and>
            (\<forall>j. skip \<le> j \<longrightarrow> j div bm_bits \<in> set pre \<longrightarrow> bit_used s start j) \<and>
            (\<forall>j. skip \<le> j \<longrightarrow> j div bm_bits = idx div bm_bits \<longrightarrow> j < idx \<longrightarrow> bit_used s start j)"
      using pp full by (intro exI [of _ "bi # pre"] exI [of _ post]) auto
    then show ?thesis using p c Some unfolding scan_post_def v bu by simp
  qed
qed

lemma scan_hit:
  assumes "scan_bytes (page_of s (start + bi)) bi skip [0 ..< BLOCK_SIZE] = Some (byte, b)"
    and v: "page_of s1 = page_of s" and ok: "blk_ok s1 = blk_ok s" and bg: "page_budget s1 = page_budget s - 1"
    and "blk_ok s (start + bi)" "1 < page_budget s"
  defines "idx \<equiv> bi * bm_bits + byte * 8 + b" and "g \<equiv> (\<lambda>p :: buffer. p(byte := p byte OR push_bit b 1))"
  shows "\<exists>s2. rbind (read_block (start + bi) s1) (\<lambda>(p, s). write_block (start + bi) (g p) s) = Inr s2 \<and>
    scan_post s start skip (bi # bis) (Some idx) s2"
proof -
  note f = scan_block_Some [OF assms(1), folded idx_def]
  note ix = bit_index [OF f(1,2), of bi, folded idx_def]
  have "blk_ok s1 (start + bi)" "0 < page_budget s1" using assms by auto
  then obtain s2 where 2: "rbind (read_block (start + bi) s1) (\<lambda>(p, s). write_block (start + bi) (g p) s) = Inr s2"
      "page_of s2 = (page_of s1)(start + bi := clip (g (page_of s1 (start + bi))))" "blk_ok s2 = blk_ok s1"
      "page_budget s2 = page_budget s1 - 1"
    by (rule disk.update_block)
  have m: "page_of s2 = mark_bit (page_of s) start idx"
    unfolding 2(2) mark_bit_def ix v g_def clip_page [OF f(1)] ..
  have u: "\<not> bit_used s start idx" using f(3) by (simp add: bit_used_def ix)
  have "\<exists>pre post. bi # bis = pre @ idx div bm_bits # post \<and>
            (\<forall>j. skip \<le> j \<longrightarrow> j div bm_bits \<in> set pre \<longrightarrow> bit_used s start j) \<and>
            (\<forall>j. skip \<le> j \<longrightarrow> j div bm_bits = idx div bm_bits \<longrightarrow> j < idx \<longrightarrow> bit_used s start j)"
    using f(5) by (intro exI [of _ "[]"] exI [of _ bis]) (auto simp: ix(1) bit_used_def)
  then have "scan_post s start skip (bi # bis) (Some idx) s2"
    using m u f(4) ok bg 2(3,4) assms(6) by (simp add: scan_post_def)
  then show ?thesis using 2(1) by blast
qed

lemma bitmap_scan_spec:
  assumes "\<forall>bi \<in> set bis. blk_ok s (start + bi)" "length bis < page_budget s"
  shows "\<exists>r s'. bitmap_scan start skip bis s = Inr (r, s') \<and> scan_post s start skip bis r s'"
  using assms
proof (induction bis arbitrary: s)
  case Nil
  then show ?case by (simp add: scan_post_def)
next
  case (Cons bi bis)
  have pre: "blk_ok s (start + bi)" "0 < page_budget s" "1 < page_budget s" using Cons.prems by auto
  from pre(1,2) obtain s1 where 1: "read_block (start + bi) s = Inr (page_of s (start + bi), s1)"
    "page_of s1 = page_of s" "blk_ok s1 = blk_ok s" "page_budget s1 = page_budget s - 1"
    by (rule disk.rd_obtain)
  show ?case
  proof (cases "scan_bytes (page_of s (start + bi)) bi skip [0 ..< BLOCK_SIZE]")
    case None
    have full: "bit_used s start j" if "j div bm_bits = bi" "skip \<le> j" for j
      using scan_block_None [OF None that] that by (simp add: bit_used_def)
    have "\<forall>bi \<in> set bis. blk_ok s1 (start + bi)" "length bis < page_budget s1" using Cons.prems 1 by auto
    from Cons.IH [OF this] obtain r s' where r: "bitmap_scan start skip bis s1 = Inr (r, s')"
      "scan_post s1 start skip bis r s'" by blast
    have "bitmap_scan start skip (bi # bis) s = Inr (r, s')" using 1(1) None r(1) by simp
    then show ?thesis using scan_post_skip [OF r(2) 1(2-4) full] by blast
  next
    case (Some x)
    obtain byte b where x: "x = (byte, b)" by (cases x)
    obtain s2 where 2: "rbind (read_block (start + bi) s1)
        (\<lambda>(p, s). write_block (start + bi) (p(byte := p byte OR push_bit b 1)) s) = Inr s2"
      "scan_post s start skip (bi # bis) (Some (bi * bm_bits + byte * 8 + b)) s2"
      using scan_hit [OF Some [unfolded x] 1(2-4) pre(1,3)] by blast
    have "bitmap_scan start skip (bi # bis) s = rbind (rbind (read_block (start + bi) s1)
        (\<lambda>(p, s). write_block (start + bi) (p(byte := p byte OR push_bit b 1)) s))
        (\<lambda>s. Inr (Some (bi * bm_bits + byte * 8 + b), s))"
      by (simp add: 1(1) Some x rbind_assoc case_prod_beta' bm_bits_def mult.assoc)
    then have "bitmap_scan start skip (bi # bis) s = Inr (Some (bi * bm_bits + byte * 8 + b), s2)"
      by (simp only: 2(1) rbind_simps)
    then show ?thesis using 2(2) by blast
  qed
qed

section \<open>Properties\<close>

text \<open>
  on a device whose sectors divide a block, \<open>write_inode\<close> stores exactly one inode: reading it back
  gives what was written, every other inode reads as before, and no block outside the inode's table
  block changes.
\<close>

lemma write_read_inode:
  assumes "blk_ok s (inode_blk ino)" "blk_ok s (inode_blk j)" "1 < page_budget s" "inode_wf n"
  shows "\<exists>s1 s2. write_inode ino n s = Inr s1 \<and>
    read_inode j s1 = Inr (if j = ino then n else inode_at s j, s2) \<and>
    (\<forall>b. b \<noteq> inode_blk ino \<longrightarrow> page_of s2 b = page_of s b)"
proof -
  obtain s1 where s1: "write_inode ino n s = Inr s1" "blk_ok s1 = blk_ok s" "page_budget s1 = page_budget s - 1"
    "\<And>b. b \<noteq> inode_blk ino \<Longrightarrow> page_of s1 b = page_of s b" "inode_at s1 = (inode_at s)(ino := n)"
    using write_inode_spec [OF assms(1) _ assms(4)] assms(3) by (metis gr_zeroI not_less_zero)
  have "blk_ok s1 (inode_blk j)" "0 < page_budget s1" using assms s1 by simp_all
  then obtain s2 where "read_inode j s1 = Inr (inode_at s1 j, s2)" "page_of s2 = page_of s1"
    by (rule read_inode_spec)
  then show ?thesis using s1 by auto
qed

definition example_disk :: fs_state where
  "example_disk = \<lparr>BITMAP = (\<lambda>_. 0), TOTAL_PAGES = 0, FREE_PAGES = 0, DISK = (\<lambda>_. 0), dev = Nvme,
     dev_lba_size = 512, dev_lba_count = 0x10000, GENERATION = 0\<rparr>"

lemma example_disk_ok: "b < 8192 \<Longrightarrow> blk_ok example_disk b"
  by (simp add: blk_ok_def example_disk_def lba_size_def lba_count_def BLOCK_SIZE_def)

lemma example_disk_budget: "page_budget example_disk = MAX_PAGES"
proof -
  have "free_set example_disk = {..< MAX_PAGES}" by (auto simp: free_set_def is_used_def example_disk_def)
  then show ?thesis by (simp add: page_budget_def)
qed

text \<open>
  \<open>bitmap_alloc\<close> returns the lowest clear bit at or above \<open>skip\<close>, sets exactly it and touches no other
  block; it returns nothing, and changes nothing, exactly when every bit from \<open>skip\<close> on is set. It never
  fails while the frames it reads the bitmap into last.
\<close>

lemma bitmap_alloc_least:
  assumes "\<forall>bi < len. blk_ok s (start + bi)" "len < page_budget s"
  shows "\<exists>r s'. bitmap_alloc start len skip s = Inr (r, s') \<and>
    (case r of None \<Rightarrow> page_of s' = page_of s \<and> (\<forall>j < len * bm_bits. skip \<le> j \<longrightarrow> bit_used s start j)
     | Some idx \<Rightarrow> idx < len * bm_bits \<and> idx = (LEAST j. skip \<le> j \<and> \<not> bit_used s start j) \<and>
         (\<forall>j. bit_used s' start j \<longleftrightarrow> bit_used s start j \<or> j = idx) \<and>
         (\<forall>b. b \<noteq> start + idx div bm_bits \<longrightarrow> page_of s' b = page_of s b))"
proof -
  obtain r s' where r: "bitmap_scan start skip [0 ..< len] s = Inr (r, s')" "scan_post s start skip [0 ..< len] r s'"
    using bitmap_scan_spec [of "[0 ..< len]" s start skip] assms by auto
  have bm: "0 < bm_bits" by (simp add: bm_bits_def BLOCK_SIZE_def)
  then have lt: "j < len * bm_bits \<longleftrightarrow> j div bm_bits < len" for j by (simp add: div_less_iff_less_mult)
  show ?thesis
  proof (cases r)
    case None
    then show ?thesis using r lt by (simp add: bitmap_alloc_def scan_post_def)
  next
    case (Some idx)
    then obtain pre post where p: "[0 ..< len] = pre @ idx div bm_bits # post"
        "\<forall>j. skip \<le> j \<longrightarrow> j div bm_bits \<in> set pre \<longrightarrow> bit_used s start j"
        "\<forall>j. skip \<le> j \<longrightarrow> j div bm_bits = idx div bm_bits \<longrightarrow> j < idx \<longrightarrow> bit_used s start j"
        "page_of s' = mark_bit (page_of s) start idx" "skip \<le> idx" "\<not> bit_used s start idx"
      using r(2) by (auto simp: scan_post_def)
    have "idx div bm_bits \<in> set [0 ..< len]" unfolding p(1) by simp
    then have il: "idx div bm_bits < len" by simp
    have "length pre < len" using arg_cong [OF p(1), of length] by simp
    moreover have "[0 ..< len] ! length pre = idx div bm_bits" "pre = take (length pre) [0 ..< len]"
      by (simp_all add: p(1))
    ultimately have pre: "pre = [0 ..< idx div bm_bits]" by simp
    have "idx = (LEAST j. skip \<le> j \<and> \<not> bit_used s start j)"
    proof (rule Least_equality [symmetric])
      fix j assume j: "skip \<le> j \<and> \<not> bit_used s start j"
      show "idx \<le> j"
      proof (rule ccontr)
        assume n: "\<not> idx \<le> j"
        then have "j div bm_bits \<le> idx div bm_bits" by (simp add: div_le_mono)
        then show False using p(2,3) j n pre by (auto simp: le_less)
      qed
    qed (use p in simp)
    then show ?thesis using r Some il lt p(4) bit_used_mark [OF p(4)]
      by (simp add: bitmap_alloc_def mark_bit_def)
  qed
qed

end
