(* ===== verification/HepFs_Dir.thy ===== *)
theory HepFs_Dir
  imports HepFs_Blocks
begin

text \<open>
  Directories of the filesystem (\<open>find_in_dir\<close>, \<open>add_dir_entry\<close> of \<open>kernel/src/hepfs.rs\<close>): a directory's blocks as a
  sequence of entry slots, searching them, and what adding an entry does to later searches.
\<close>

section \<open>Slots of a block\<close>

definition entry_at :: "buffer \<Rightarrow> nat \<Rightarrow> DirEntry" where
  "entry_at buf i = decode_entry buf (i * DIR_ENTRY_SIZE)"

lemma decode_entry_cong:
  assumes "\<And>i. off \<le> i \<Longrightarrow> i < off + 32 \<Longrightarrow> f i = g i"
  shows "decode_entry f off = decode_entry g off"
proof -
  have "get_bytes f (off + k) m = get_bytes g (off + k) m" if "k + m \<le> 32" for k m
    by (rule get_bytes_cong) (use assms that in auto)
  from this [of 0] this show ?thesis using assms by (simp add: decode_entry_def get_u32_def)
qed

lemma entry_at_put:
  assumes "length (e_name e) = 27"
  shows "entry_at (put_entry buf i e) j = (if j = i then e else entry_at buf j)"
proof (cases "j = i")
  case True
  let ?b = "put_bytes buf (i * 32) (encode_entry e)"
  note f = get_put_field [where buf = buf and off = "i * 32"]
  have "get_bytes ?b (i * 32) 4 = u32_to_le_bytes (e_inode e)"
    using f [of "u32_to_le_bytes (e_inode e)" 4 "i * 32" "[]"] by (simp add: encode_entry_def)
  moreover have "get_bytes ?b (i * 32 + 4) 1 = [e_name_len e]"
    using f [of "[e_name_len e]" 1 "i * 32 + 4" "u32_to_le_bytes (e_inode e)"] by (simp add: encode_entry_def)
  then have "?b (i * 32 + 4) = e_name_len e" by (simp add: get_bytes_def upt_rec)
  moreover have "get_bytes ?b (i * 32 + 5) 27 = e_name e"
    using f [of "e_name e" 27 "i * 32 + 5" "u32_to_le_bytes (e_inode e) @ [e_name_len e]" "[]"] assms by (simp add: encode_entry_def)
  ultimately show ?thesis using True by (simp add: entry_at_def put_entry_def decode_entry_def DIR_ENTRY_SIZE_def get_u32_def)
next
  case False
  have l: "length (encode_entry e) = 32" using assms by (simp add: encode_entry_def)
  have "j * 32 + 32 \<le> i * 32 \<or> i * 32 + 32 \<le> j * 32" using False by arith
  then have "decode_entry (put_bytes buf (i * 32) (encode_entry e)) (j * 32) = decode_entry buf (j * 32)"
    using l by (intro decode_entry_cong) (auto simp: put_bytes_def)
  then show ?thesis using False by (simp add: entry_at_def put_entry_def DIR_ENTRY_SIZE_def)
qed

lemma entry_at_clip:
  assumes "i < ENTRIES_PER_BLK"
  shows "entry_at (clip buf) i = entry_at buf i"
proof -
  have "i * 32 + 32 \<le> BLOCK_SIZE" using assms by (simp add: ENTRIES_PER_BLK_def DIR_ENTRY_SIZE_def BLOCK_SIZE_def)
  then show ?thesis unfolding entry_at_def DIR_ENTRY_SIZE_def by (intro decode_entry_cong) (simp add: clip_def)
qed

lemma find_slot_Some:
  assumes "find_slot P buf = Some i"
  shows "i < ENTRIES_PER_BLK" "P (entry_at buf i)" "\<And>j. j < i \<Longrightarrow> \<not> P (entry_at buf j)"
  using assms by (auto simp: find_slot_def find_Some_iff entry_at_def)

lemma find_slot_None: "find_slot P buf = None \<longleftrightarrow> (\<forall>i < ENTRIES_PER_BLK. \<not> P (entry_at buf i))"
  by (auto simp: find_slot_def find_None_iff entry_at_def)

lemma find_slot_cong:
  assumes "\<And>i. i < ENTRIES_PER_BLK \<Longrightarrow> P (entry_at f i) = P (entry_at g i)"
  shows "find_slot P f = find_slot P g"
  unfolding find_slot_def entry_at_def [symmetric] by (rule find_cong) (use assms in auto)

text \<open>The entry made for a name carries it.\<close>

lemma names_make_entry:
  assumes "length nm \<le> 27" "utf8_valid nm" "ino \<noteq> 0"
  shows "names nm' (make_entry ino nm) \<longleftrightarrow> nm' = nm" "length (e_name (make_entry ino nm)) = 27"
proof -
  have "unat (word_of_nat (length nm) :: u8) = length nm" using assms(1) by (intro unat_of_nat_less) simp
  then show "names nm' (make_entry ino nm) \<longleftrightarrow> nm' = nm" using assms by (auto simp: names_def make_entry_def name_str_def Let_def)
  show "length (e_name (make_entry ino nm)) = 27" using assms(1) by (simp add: make_entry_def)
qed

section \<open>Searching a block\<close>

abbreviation free_entry :: "DirEntry \<Rightarrow> bool" where "free_entry e \<equiv> e_inode e = 0"

definition slot_find :: "u8 list \<Rightarrow> buffer \<Rightarrow> u32 option" where
  "slot_find nm buf = map_option (\<lambda>i. e_inode (entry_at buf i)) (find_slot (names nm) buf)"

lemma slot_find_other:
  assumes "find_slot free_entry buf = Some i" "length (e_name e) = 27" "\<not> names nm e"
  shows "slot_find nm (clip (put_entry buf i e)) = slot_find nm buf"
proof -
  let ?b = "clip (put_entry buf i e)"
  have at: "entry_at ?b j = (if j = i then e else entry_at buf j)" if "j < ENTRIES_PER_BLK" for j
    using that assms(2) by (simp add: entry_at_clip entry_at_put)
  have free: "\<not> names nm (entry_at buf i)" using find_slot_Some(2) [OF assms(1)] by (simp add: names_def)
  have eq: "find_slot (names nm) ?b = find_slot (names nm) buf"
    by (rule find_slot_cong) (use at free assms(3) in auto)
  show ?thesis
  proof (cases "find_slot (names nm) buf")
    case (Some j)
    then have "j < ENTRIES_PER_BLK" "j \<noteq> i" using find_slot_Some(1,2) [OF Some] free by auto
    then show ?thesis using eq Some at by (simp add: slot_find_def)
  qed (simp add: slot_find_def eq)
qed

lemma slot_find_new:
  assumes "find_slot free_entry buf = Some i" "length (e_name e) = 27" "names nm e" "slot_find nm buf = None"
  shows "slot_find nm (clip (put_entry buf i e)) = Some (e_inode e)"
proof -
  let ?b = "clip (put_entry buf i e)"
  have i: "i < ENTRIES_PER_BLK" using find_slot_Some(1) [OF assms(1)] .
  have at: "entry_at ?b j = (if j = i then e else entry_at buf j)" if "j < ENTRIES_PER_BLK" for j
    using that assms(2) by (simp add: entry_at_clip entry_at_put)
  have no: "\<not> names nm (entry_at buf j)" if "j < ENTRIES_PER_BLK" for j
    using assms(4) that by (simp add: slot_find_def find_slot_None)
  have "find_slot (names nm) ?b \<noteq> None" using i at [OF i] assms(3) by (auto simp: find_slot_None)
  then obtain j where j: "find_slot (names nm) ?b = Some j" by blast
  have "j = i" using find_slot_Some(1,2) [OF j] at [of j] no [of j] by (auto split: if_splits)
  then show ?thesis using j at [OF i] by (simp add: slot_find_def)
qed

section \<open>Searching a directory\<close>

text \<open>What a directory with the blocks \<open>ps\<close> says of a name, as a function of the contents of the blocks.\<close>

fun dir_lookup :: "(nat \<Rightarrow> buffer) \<Rightarrow> u8 list \<Rightarrow> u32 list \<Rightarrow> u32 option" where
  "dir_lookup v nm [] = None"
| "dir_lookup v nm (p # ps) = (case slot_find nm (v (unat p)) of Some ino \<Rightarrow> Some ino | None \<Rightarrow> dir_lookup v nm ps)"

lemma dir_lookup_cong:
  "(\<And>p. p \<in> set ps \<Longrightarrow> slot_find nm (v (unat p)) = slot_find nm (w (unat p))) \<Longrightarrow> dir_lookup v nm ps = dir_lookup w nm ps"
  by (induction ps) (simp_all split: option.split)

lemma dir_lookup_new:
  assumes "dir_lookup v nm ps = None" "p \<in> set ps" "slot_find nm (w (unat p)) = Some ino"
    and "\<And>q. q \<in> set ps \<Longrightarrow> unat q \<noteq> unat p \<Longrightarrow> w (unat q) = v (unat q)"
  shows "dir_lookup w nm ps = Some ino"
  using assms
proof (induction ps)
  case (Cons q ps)
  then show ?case by (cases "q = p") (auto simp: unat_eq_iff split: option.splits)
qed simp

lemma find_in_blocks_spec:
  assumes "\<And>p. p \<in> set ps \<Longrightarrow> blk_ok s (unat p)" "length ps \<le> page_budget s"
  shows "\<exists>s'. find_in_blocks nm ps s = Inr (dir_lookup (page_of s) nm ps, s') \<and> page_of s' = page_of s \<and> blk_ok s' = blk_ok s \<and>
    page_budget s - length ps \<le> page_budget s'"
  using assms
proof (induction ps arbitrary: s)
  case (Cons p ps)
  obtain s1 where s1: "read_block (unat p) s = Inr (page_of s (unat p), s1)" "page_of s1 = page_of s"
    "blk_ok s1 = blk_ok s" "page_budget s1 = page_budget s - 1"
    using Cons.prems by (auto intro: disk.rd_obtain [of s "unat p"])
  have "\<exists>s'. find_in_blocks nm ps s1 = Inr (dir_lookup (page_of s1) nm ps, s') \<and> page_of s' = page_of s1 \<and> blk_ok s' = blk_ok s1 \<and>
      page_budget s1 - length ps \<le> page_budget s'"
    using Cons.prems s1(3,4) by (intro Cons.IH) auto
  then show ?case using s1 by (cases "find_slot (names nm) (page_of s (unat p))") (auto simp: slot_find_def entry_at_def)
qed simp

lemma length_used_ptrs: "length (used_ptrs ps) \<le> length ps"
  by (simp add: used_ptrs_def)

lemma inode_at_wf: "inode_wf (inode_at s ino)"
  by (simp add: inode_wf_def inode_at_def decode_inode_def get_bytes_def)

text \<open>The directory's inode and blocks are on the device, and the blocks are not where its inode is kept.\<close>

definition dir_ok :: "'a fs_state_scheme \<Rightarrow> u32 \<Rightarrow> bool" where
  "dir_ok s dir \<longleftrightarrow> blk_ok s (inode_blk dir) \<and>
     (\<forall>p \<in> set (used_ptrs (i_direct (inode_at s dir))). blk_ok s (unat p) \<and> unat p \<noteq> inode_blk dir)"

lemma find_in_dir_spec:
  assumes "dir_ok s dir" "12 < page_budget s"
  shows "\<exists>s'. find_in_dir dir nm s = Inr (dir_lookup (page_of s) nm (used_ptrs (i_direct (inode_at s dir))), s') \<and>
    page_of s' = page_of s \<and> blk_ok s' = blk_ok s \<and> page_budget s - 13 \<le> page_budget s'"
proof -
  let ?ps = "used_ptrs (i_direct (inode_at s dir))"
  obtain s1 where s1: "read_inode dir s = Inr (inode_at s dir, s1)" "page_of s1 = page_of s" "blk_ok s1 = blk_ok s"
    "page_budget s1 = page_budget s - 1"
    using assms by (auto simp: dir_ok_def intro: read_inode_spec [of s dir])
  have l: "length ?ps \<le> 12" using length_used_ptrs [of "i_direct (inode_at s dir)"] inode_at_wf [of s dir] by (simp add: inode_wf_def)
  then have "length ?ps \<le> page_budget s1" using assms(2) s1(4) by simp
  then obtain s' where "find_in_blocks nm ?ps s1 = Inr (dir_lookup (page_of s1) nm ?ps, s')" "page_of s' = page_of s1"
      "blk_ok s' = blk_ok s1" "page_budget s1 - length ?ps \<le> page_budget s'"
    using assms(1) s1(3) find_in_blocks_spec [of ?ps s1 nm] by (auto simp: dir_ok_def)
  then show ?thesis using s1 l by (simp add: find_in_dir_def)
qed

section \<open>Adding an entry\<close>

text \<open>The search for a free slot ends in a block the directory already has.\<close>

fun has_room :: "(nat \<Rightarrow> buffer) \<Rightarrow> u32 list \<Rightarrow> bool" where
  "has_room v [] = False"
| "has_room v (p # ps) = (p \<noteq> 0 \<and> (find_slot free_entry (v (unat p)) \<noteq> None \<or> has_room v ps))"

lemma add_entry_here:
  assumes "find_slot free_entry (page_of s (unat p)) = Some i" "p = i_direct n ! k" "p \<noteq> 0"
    and "blk_ok s (unat p)" "unat p \<noteq> inode_blk dir" "blk_ok s (inode_blk dir)" "1 < page_budget s" "inode_wf n"
  obtains s' where "add_entry_slots dir nm ino (k # slots) n s = Inr s'" "blk_ok s' = blk_ok s"
    "page_budget s' = page_budget s - 2" "inode_at s' dir = n\<lparr>i_size := i_size n + word_of_nat DIR_ENTRY_SIZE\<rparr>"
    "\<And>b. b \<noteq> inode_blk dir \<Longrightarrow>
       page_of s' b = ((page_of s)(unat p := clip (put_entry (page_of s (unat p)) i (make_entry ino nm)))) b"
proof -
  let ?n = "n\<lparr>i_size := i_size n + word_of_nat DIR_ENTRY_SIZE\<rparr>"
  let ?e = "put_entry (page_of s (unat p)) i (make_entry ino nm)"
  obtain s1 where s1: "read_block (unat p) s = Inr (page_of s (unat p), s1)" "page_of s1 = page_of s"
    "blk_ok s1 = blk_ok s" "page_budget s1 = page_budget s - 1"
    using assms by (auto intro: disk.rd_obtain [of s "unat p"])
  obtain s2 where s2: "write_block (unat p) ?e s1 = Inr s2" "page_of s2 = (page_of s1)(unat p := clip ?e)"
    "blk_ok s2 = blk_ok s1" "page_budget s2 = page_budget s1"
    using assms(4) s1(3) by (auto intro: disk.wr_obtain [of s1 "unat p" ?e])
  have "blk_ok s2 (inode_blk dir)" "0 < page_budget s2" "inode_wf ?n"
    using assms(6,7,8) s1(3,4) s2(3,4) by (simp_all add: inode_wf_def)
  then obtain s3 where s3: "write_inode dir ?n s2 = Inr s3" "blk_ok s3 = blk_ok s2" "page_budget s3 = page_budget s2 - 1"
    "\<And>b. b \<noteq> inode_blk dir \<Longrightarrow> page_of s3 b = page_of s2 b" "inode_at s3 = (inode_at s2)(dir := ?n)"
    by (rule write_inode_spec) blast
  have "add_entry_slots dir nm ino (k # slots) n s = Inr s3"
    using assms(1,2,3) s1(1) s2(1) s3(1) by (simp add: grow_dir_def)
  then show thesis using s1 s2 s3 by (intro that [of s3]) simp_all
qed

text \<open>What adding an entry makes of the directory: one free slot of one of its blocks holds the new entry.\<close>

definition entry_added :: "u32 \<Rightarrow> u8 list \<Rightarrow> u32 \<Rightarrow> u32 list \<Rightarrow> 'a fs_state_scheme \<Rightarrow> 'a fs_state_scheme \<Rightarrow> bool" where
  "entry_added dir nm ino ps s s' \<longleftrightarrow> (\<exists>p i. p \<in> set ps \<and> p \<noteq> 0 \<and> find_slot free_entry (page_of s (unat p)) = Some i \<and>
     (\<forall>b. b \<noteq> inode_blk dir \<longrightarrow>
       page_of s' b = ((page_of s)(unat p := clip (put_entry (page_of s (unat p)) i (make_entry ino nm)))) b))"

lemma entry_added_Cons: "entry_added dir nm ino ps s s' \<Longrightarrow> entry_added dir nm ino (p # ps) s s'"
  unfolding entry_added_def by (meson list.set_intros(2))

lemma entry_added_cong: "page_of s1 = page_of s \<Longrightarrow> entry_added dir nm ino ps s1 s' = entry_added dir nm ino ps s s'"
  by (simp add: entry_added_def)

lemma add_entry_slots_spec:
  assumes "has_room (page_of s) (map ((!) (i_direct n)) slots)"
    and "\<And>k. k \<in> set slots \<Longrightarrow> i_direct n ! k \<noteq> 0 \<Longrightarrow> blk_ok s (unat (i_direct n ! k)) \<and> unat (i_direct n ! k) \<noteq> inode_blk dir"
    and "blk_ok s (inode_blk dir)" "Suc (length slots) \<le> page_budget s" "inode_wf n"
  shows "\<exists>s'. add_entry_slots dir nm ino slots n s = Inr s' \<and> entry_added dir nm ino (map ((!) (i_direct n)) slots) s s' \<and>
    blk_ok s' = blk_ok s \<and> page_budget s - Suc (length slots) \<le> page_budget s' \<and>
    inode_at s' dir = n\<lparr>i_size := i_size n + word_of_nat DIR_ENTRY_SIZE\<rparr>"
  using assms
proof (induction slots arbitrary: s)
  case (Cons k slots)
  define p where "p = i_direct n ! k"
  have p: "p \<noteq> 0" "blk_ok s (unat p)" "unat p \<noteq> inode_blk dir" using Cons.prems(1,2) by (auto simp: p_def)
  show ?case
  proof (cases "find_slot free_entry (page_of s (unat p))")
    case None
    obtain s1 where s1: "read_block (unat p) s = Inr (page_of s (unat p), s1)" "page_of s1 = page_of s"
      "blk_ok s1 = blk_ok s" "page_budget s1 = page_budget s - 1"
      using p Cons.prems(4) by (auto intro: disk.rd_obtain [of s "unat p"])
    have step: "add_entry_slots dir nm ino (k # slots) n s = add_entry_slots dir nm ino slots n s1"
      using p(1) s1(1) None by (simp add: p_def grow_dir_def)
    have "has_room (page_of s1) (map ((!) (i_direct n)) slots)" using Cons.prems(1) None s1(2) by (simp add: p_def)
    then have "\<exists>s'. add_entry_slots dir nm ino slots n s1 = Inr s' \<and>
        entry_added dir nm ino (map ((!) (i_direct n)) slots) s1 s' \<and> blk_ok s' = blk_ok s1 \<and>
        page_budget s1 - Suc (length slots) \<le> page_budget s' \<and>
        inode_at s' dir = n\<lparr>i_size := i_size n + word_of_nat DIR_ENTRY_SIZE\<rparr>"
      using Cons.prems s1(3,4) by (intro Cons.IH) auto
    then obtain s' where s': "add_entry_slots dir nm ino slots n s1 = Inr s'"
        "entry_added dir nm ino (map ((!) (i_direct n)) slots) s1 s'" "blk_ok s' = blk_ok s1"
        "page_budget s1 - Suc (length slots) \<le> page_budget s'"
        "inode_at s' dir = n\<lparr>i_size := i_size n + word_of_nat DIR_ENTRY_SIZE\<rparr>"
      by blast
    have "entry_added dir nm ino (map ((!) (i_direct n)) (k # slots)) s s'"
      using s'(2) entry_added_cong [OF s1(2)] by (simp add: entry_added_Cons)
    then show ?thesis using step s'(1,3,4,5) s1(3,4) by (intro exI [of _ s']) simp
  next
    case (Some i)
    have b: "1 < page_budget s" using Cons.prems(4) by simp
    obtain s' where s': "add_entry_slots dir nm ino (k # slots) n s = Inr s'" "blk_ok s' = blk_ok s"
      "page_budget s' = page_budget s - 2" "inode_at s' dir = n\<lparr>i_size := i_size n + word_of_nat DIR_ENTRY_SIZE\<rparr>"
      "\<And>b. b \<noteq> inode_blk dir \<Longrightarrow>
         page_of s' b = ((page_of s)(unat p := clip (put_entry (page_of s (unat p)) i (make_entry ino nm)))) b"
      using add_entry_here [OF Some p_def p Cons.prems(3) b Cons.prems(5), of nm ino slots] by blast
    have "entry_added dir nm ino (map ((!) (i_direct n)) (k # slots)) s s'"
      unfolding entry_added_def using p(1) Some s'(5) by (intro exI [of _ p] exI [of _ i]) (simp add: p_def)
    then show ?thesis using s'(1,2,3,4) by (intro exI [of _ s']) simp
  qed
qed simp

lemma entry_added_lookup:
  assumes "entry_added dir nm ino ps s s'" "length nm \<le> 27" "utf8_valid nm" "ino \<noteq> 0"
    and "\<And>p. p \<in> set (used_ptrs ps) \<Longrightarrow> unat p \<noteq> inode_blk dir"
  shows "nm' \<noteq> nm \<Longrightarrow> dir_lookup (page_of s') nm' (used_ptrs ps) = dir_lookup (page_of s) nm' (used_ptrs ps)"
    and "dir_lookup (page_of s) nm (used_ptrs ps) = None \<Longrightarrow> dir_lookup (page_of s') nm (used_ptrs ps) = Some ino"
proof -
  let ?e = "make_entry ino nm"
  note e = names_make_entry [OF assms(2,3,4)]
  obtain p i where p: "p \<in> set (used_ptrs ps)" "find_slot free_entry (page_of s (unat p)) = Some i"
    and v: "\<And>b. b \<noteq> inode_blk dir \<Longrightarrow> page_of s' b = ((page_of s)(unat p := clip (put_entry (page_of s (unat p)) i ?e))) b"
    using assms(1) by (auto simp: entry_added_def used_ptrs_def)
  have q: "page_of s' (unat q) = (if unat q = unat p then clip (put_entry (page_of s (unat p)) i ?e) else page_of s (unat q))"
    if "q \<in> set (used_ptrs ps)" for q using v [of "unat q"] assms(5) [OF that] by auto
  show "dir_lookup (page_of s') nm' (used_ptrs ps) = dir_lookup (page_of s) nm' (used_ptrs ps)" if "nm' \<noteq> nm"
  proof (rule dir_lookup_cong)
    fix r assume "r \<in> set (used_ptrs ps)"
    then show "slot_find nm' (page_of s' (unat r)) = slot_find nm' (page_of s (unat r))"
      using slot_find_other [OF p(2) e(2), of nm'] e(1) that by (simp add: q)
  qed
  assume none: "dir_lookup (page_of s) nm (used_ptrs ps) = None"
  have all: "dir_lookup v nm qs = None \<Longrightarrow> r \<in> set qs \<Longrightarrow> slot_find nm (v (unat r)) = None" for v qs r
    by (induction qs) (auto split: option.splits)
  have "slot_find nm (page_of s' (unat p)) = Some ino"
    using slot_find_new [OF p(2) e(2), of nm] e(1) all [OF none p(1)] q [OF p(1)] by (simp add: make_entry_def)
  then show "dir_lookup (page_of s') nm (used_ptrs ps) = Some ino"
    by (rule dir_lookup_new [OF none p(1)]) (simp add: q)
qed

definition example_dir :: Inode where
  "example_dir = Inode_default\<lparr>i_flags := F_DIR, i_nblocks := 1, i_direct := 5000 # replicate 11 0\<rparr>"

lemma example_dir_facts:
  "inode_wf example_dir" "used_ptrs (i_direct example_dir) = [5000]" "inode_blk ROOT_INO < 5000"
  by (simp_all add: example_dir_def inode_wf_def Inode_default_def used_ptrs_def inode_blk_def fs_consts ROOT_INO_def)

lemma get_bytes_zeros: "get_bytes (\<lambda>_. 0) off n = replicate n 0"
  by (simp add: get_bytes_def map_replicate_const)

lemma entry_at_zeros: "entry_at (\<lambda>_. 0) i = \<lparr>e_inode = 0, e_name_len = 0, e_name = replicate 27 0\<rparr>"
proof -
  have "u32_from_le_bytes (replicate 4 0) = 0" by code_simp
  then show ?thesis by (simp add: entry_at_def decode_entry_def get_u32_def get_bytes_zeros)
qed

lemma find_slot_zeros: "find_slot P (\<lambda>_. 0) = (if P (entry_at (\<lambda>_. 0) 0) then Some 0 else None)"
proof -
  have "0 < ENTRIES_PER_BLK" by (simp add: fs_consts)
  then have u: "[0 ..< ENTRIES_PER_BLK] = 0 # [Suc 0 ..< ENTRIES_PER_BLK]" by (rule upt_conv_Cons)
  show ?thesis unfolding find_slot_def entry_at_def [symmetric] entry_at_zeros u by (auto simp: find_None_iff)
qed

lemma example_dir_state:
  obtains s where "write_inode ROOT_INO example_dir example_disk = Inr s" "inode_at s ROOT_INO = example_dir"
    "dir_ok s ROOT_INO" "26 < page_budget s" "page_of s 5000 = (\<lambda>_. 0)"
proof -
  have "blk_ok example_disk (inode_blk ROOT_INO)" "0 < page_budget example_disk"
    using example_dir_facts(3) by (simp_all add: example_disk_ok example_disk_budget MAX_PAGES_def)
  then obtain s where s: "write_inode ROOT_INO example_dir example_disk = Inr s" "blk_ok s = blk_ok example_disk"
    "page_budget s = page_budget example_disk - 1"
    "\<And>b. b \<noteq> inode_blk ROOT_INO \<Longrightarrow> page_of s b = page_of example_disk b"
    "inode_at s = (inode_at example_disk)(ROOT_INO := example_dir)"
    using example_dir_facts(1) by (rule write_inode_spec) blast
  have "dir_ok s ROOT_INO" using s(2,5) example_dir_facts(2,3) by (simp add: dir_ok_def example_disk_ok)
  moreover have "page_of s 5000 = (\<lambda>_. 0)" using s(4) [of 5000] example_dir_facts(3) by (auto simp: page_of_def example_disk_def)
  ultimately show thesis using s by (intro that [of s]) (simp_all add: example_disk_budget MAX_PAGES_def)
qed

text \<open>
  C10: On a directory that has a free entry slot in a block it owns, \<open>add_dir_entry\<close> with a name of at most 27 bytes
  that the directory does not have succeeds; \<open>find_in_dir\<close> then finds the inode under that name, every other
  name resolves as before, and the directory's inode changes only in its size, by one entry.
\<close>

theorem add_then_find:
  assumes "dir_ok s dir" "26 < page_budget s" "has_room (page_of s) (i_direct (inode_at s dir))"
    and "length nm \<le> 27" "utf8_valid nm" "ino \<noteq> 0"
    and "find_in_dir dir nm s = Inr (None, s0)"
  shows "\<exists>s'. add_dir_entry dir nm ino s = Inr s' \<and>
    inode_at s' dir = (inode_at s dir)\<lparr>i_size := i_size (inode_at s dir) + 32\<rparr> \<and>
    (\<exists>t. find_in_dir dir nm s' = Inr (Some ino, t)) \<and>
    (\<forall>nm' r t. nm' \<noteq> nm \<longrightarrow> find_in_dir dir nm' s = Inr (r, t) \<longrightarrow> (\<exists>t'. find_in_dir dir nm' s' = Inr (r, t')))"
proof -
  define n where "n = inode_at s dir"
  let ?ps = "used_ptrs (i_direct n)"
  have wf: "inode_wf n" "map ((!) (i_direct n)) [0 ..< 12] = i_direct n" "length (i_direct n) = 12"
    using inode_at_wf [of s dir] map_nth [of "i_direct n"] by (simp_all add: n_def inode_wf_def)
  have ok: "blk_ok s (inode_blk dir)" "\<And>p. p \<in> set ?ps \<Longrightarrow> blk_ok s (unat p) \<and> unat p \<noteq> inode_blk dir"
    using assms(1) by (simp_all add: dir_ok_def n_def)
  obtain s1 where s1: "read_inode dir s = Inr (n, s1)" "page_of s1 = page_of s" "blk_ok s1 = blk_ok s"
    "page_budget s1 = page_budget s - 1"
    using ok(1) assms(2) by (auto simp: n_def intro: read_inode_spec [of s dir])
  have "\<exists>s'. add_entry_slots dir nm ino [0 ..< 12] n s1 = Inr s' \<and> entry_added dir nm ino (map ((!) (i_direct n)) [0 ..< 12]) s1 s' \<and>
      blk_ok s' = blk_ok s1 \<and> page_budget s1 - Suc (length [0 ..< 12 :: nat]) \<le> page_budget s' \<and>
      inode_at s' dir = n\<lparr>i_size := i_size n + word_of_nat DIR_ENTRY_SIZE\<rparr>"
    using assms(2,3) s1(2,3,4) ok wf
    by (intro add_entry_slots_spec) (auto simp: n_def used_ptrs_def simp del: upt_conv_Cons)
  then obtain s' where s': "add_entry_slots dir nm ino [0 ..< 12] n s1 = Inr s'" "entry_added dir nm ino (i_direct n) s s'"
      "blk_ok s' = blk_ok s" "page_budget s - 14 \<le> page_budget s'" "inode_at s' dir = n\<lparr>i_size := i_size n + 32\<rparr>"
    using s1(2,3,4) wf(2) entry_added_cong [OF s1(2)] by (auto simp: DIR_ENTRY_SIZE_def)
  have add: "add_dir_entry dir nm ino s = Inr s'" using s1(1) s'(1) assms(4) by (simp add: add_dir_entry_def DIRECT_PTRS_def)
  have d: "dir_ok s' dir" "12 < page_budget s'" "i_direct (inode_at s' dir) = i_direct n"
    using s'(3,4,5) assms(2) ok by (simp_all add: dir_ok_def)
  have before: "\<exists>t. find_in_dir dir x s = Inr (dir_lookup (page_of s) x ?ps, t)" for x
    using find_in_dir_spec [OF assms(1), of x] assms(2) by (auto simp: n_def)
  have after: "\<exists>t. find_in_dir dir x s' = Inr (dir_lookup (page_of s') x ?ps, t)" for x
    using find_in_dir_spec [OF d(1,2), of x] d(3) by auto
  note look = entry_added_lookup [OF s'(2) assms(4,5,6)]
  have "dir_lookup (page_of s) nm ?ps = None" using before [of nm] assms(7) by auto
  then have "dir_lookup (page_of s') nm ?ps = Some ino" by (rule look(2) [rotated]) (use ok in blast)
  then have new: "\<exists>t. find_in_dir dir nm s' = Inr (Some ino, t)" using after [of nm] by simp
  have "\<exists>t'. find_in_dir dir x s' = Inr (r, t')" if "x \<noteq> nm" "find_in_dir dir x s = Inr (r, t)" for x r t
  proof -
    have "dir_lookup (page_of s') x ?ps = dir_lookup (page_of s) x ?ps" by (rule look(1)) (use ok that in blast)+
    then show ?thesis using before [of x] after [of x] that(2) by auto
  qed
  then show ?thesis using add new s'(5) by (intro exI [of _ s']) (auto simp: n_def)
qed

theorem add_then_find_witness:
  "\<exists>s s'. write_inode ROOT_INO example_dir example_disk = Inr s \<and> add_dir_entry ROOT_INO [97, 46, 116] 7 s = Inr s' \<and>
    (\<exists>t. find_in_dir ROOT_INO [97, 46, 116] s' = Inr (Some 7, t))"
proof -
  obtain s where s: "write_inode ROOT_INO example_dir example_disk = Inr s" "inode_at s ROOT_INO = example_dir"
    "dir_ok s ROOT_INO" "26 < page_budget s" "page_of s 5000 = (\<lambda>_. 0)"
    by (rule example_dir_state)
  have "has_room (page_of s) (i_direct (inode_at s ROOT_INO))"
    using s(2,5) by (simp add: example_dir_def find_slot_zeros entry_at_zeros)
  moreover have "dir_lookup (page_of s) [97, 46, 116] [5000] = None"
    using s(5) by (simp add: slot_find_def find_slot_zeros names_def entry_at_zeros)
  then obtain s0 where "find_in_dir ROOT_INO [97, 46, 116] s = Inr (None, s0)"
    using find_in_dir_spec [OF s(3), of "[97, 46, 116]"] s(2,4) example_dir_facts(2) by auto
  moreover have "utf8_valid [97, 46, 116]" by code_simp
  ultimately show ?thesis using add_then_find [OF s(3,4), of "[97, 46, 116]" 7] s(1) by auto
qed

end
