(* ===== verification/HepFs_File.thy ===== *)
theory HepFs_File
  imports HepFs_Dir
begin

text \<open>
  File contents (\<open>write_file\<close>, \<open>read_file\<close> of \<open>kernel/src/hepfs.rs\<close>) in the direct blocks of an inode: allocating blocks,
  storing the data in them and reading it back, with nothing else on the device changed.
\<close>

section \<open>Allocated and free data blocks\<close>

definition data_end :: nat where "data_end = BLOCK_BM_LEN * bm_bits"

lemma data_end: "data_end = 131072"
  by (simp add: data_end_def bm_bits_def fs_consts)

abbreviation in_use :: "'a fs_state_scheme \<Rightarrow> nat \<Rightarrow> bool" where "in_use s \<equiv> bit_used s BLOCK_BM_BLOCK"

definition bm_block :: "nat \<Rightarrow> bool" where
  "bm_block b \<longleftrightarrow> BLOCK_BM_BLOCK \<le> b \<and> b < BLOCK_BM_BLOCK + BLOCK_BM_LEN"

definition data_block :: "nat \<Rightarrow> bool" where
  "data_block b \<longleftrightarrow> DATA_BLOCK_START \<le> b \<and> b < data_end"

definition free_blocks :: "'a fs_state_scheme \<Rightarrow> nat set" where
  "free_blocks s = {b. data_block b \<and> \<not> in_use s b}"

definition disk_ok :: "'a fs_state_scheme \<Rightarrow> bool" where
  "disk_ok s \<longleftrightarrow> (\<forall>b < data_end. blk_ok s b)"

lemma finite_free_blocks [simp]: "finite (free_blocks s)"
  by (rule finite_subset [of _ "{..< data_end}"]) (auto simp: free_blocks_def data_block_def)

lemma data_not_bm: "data_block b \<Longrightarrow> \<not> bm_block b"
  by (simp add: data_block_def bm_block_def fs_consts)

lemma in_use_cong:
  assumes "j < data_end" "\<And>b. bm_block b \<Longrightarrow> page_of s' b = page_of s b"
  shows "in_use s' j = in_use s j"
proof -
  have "j div bm_bits < BLOCK_BM_LEN" using assms(1) by (simp add: data_end_def bm_bits_def fs_consts div_less_iff_less_mult)
  then show ?thesis using assms(2) by (simp add: bit_used_def bm_block_def)
qed

text \<open>A step that allocates at most the block \<open>p\<close> and writes only that block and the block bitmap.\<close>

definition touches :: "nat \<Rightarrow> nat \<Rightarrow> 'a fs_state_scheme \<Rightarrow> 'a fs_state_scheme \<Rightarrow> bool" where
  "touches p cost s s' \<longleftrightarrow> (\<forall>b. \<not> bm_block b \<longrightarrow> b \<noteq> p \<longrightarrow> page_of s' b = page_of s b) \<and>
     (\<forall>j < data_end. in_use s' j \<longleftrightarrow> in_use s j \<or> j = p) \<and> blk_ok s' = blk_ok s \<and> page_budget s \<le> page_budget s' + cost"

lemma touches_trans:
  assumes "touches p c s s1" "touches p d s1 s2"
  shows "touches p (c + d) s s2"
  using assms unfolding touches_def by auto

lemma touches_free: "touches p c s s' \<Longrightarrow> card (free_blocks s) \<le> Suc (card (free_blocks s'))"
proof -
  assume t: "touches p c s s'"
  have "free_blocks s \<subseteq> insert p (free_blocks s')" using t by (auto simp: touches_def free_blocks_def data_block_def)
  then have "card (free_blocks s) \<le> card (insert p (free_blocks s'))" by (simp add: card_mono)
  then show ?thesis by (simp add: card_insert_if split: if_splits)
qed

lemma page_of_cong: "DISK s' = DISK s \<Longrightarrow> page_of s' = page_of s"
  by (simp add: page_of_def fun_eq_iff)

lemma blk_ok_cong: "lba_size s' = lba_size s \<Longrightarrow> lba_count s' = lba_count s \<Longrightarrow> blk_ok s' = blk_ok s"
  by (simp add: blk_ok_def fun_eq_iff)

lemma write_fresh:
  assumes "blk_ok s b" "0 < page_budget s"
  obtains s' where "rbind (Page_alloc s) (\<lambda>(page, s). write_block b (f page) s) = Inr s'"
    "page_of s' = (page_of s)(b := clip (f (\<lambda>_. 0)))" "blk_ok s' = blk_ok s" "page_budget s' = page_budget s - 1"
proof -
  obtain s1 where s1: "Page_alloc s = Inr (\<lambda>_. 0, s1)" "DISK s1 = DISK s" "lba_size s1 = lba_size s"
    "lba_count s1 = lba_count s" "page_budget s1 = page_budget s - 1"
    using assms(2) by (rule Page_alloc_spec)
  have v: "page_of s1 = page_of s" "blk_ok s1 = blk_ok s" using s1 page_of_cong blk_ok_cong by blast+
  obtain s2 where "write_block b (f (\<lambda>_. 0)) s1 = Inr s2" "page_of s2 = (page_of s1)(b := clip (f (\<lambda>_. 0)))"
    "blk_ok s2 = blk_ok s1" "page_budget s2 = page_budget s1"
    using assms(1) v(2) by (auto intro: disk.wr_obtain [of s1 b "f (\<lambda>_. 0)"])
  then show thesis using s1 v by (intro that [of s2]) simp_all
qed

lemma alloc_block_spec:
  assumes "disk_ok s" "6 < page_budget s" "free_blocks s \<noteq> {}"
  obtains p s' where "alloc_block s = Inr (p, s')" "unat p \<in> free_blocks s" "touches (unat p) 6 s s'"
proof -
  let ?bis = "[0 ..< BLOCK_BM_LEN]"
  have bm: "\<forall>bi \<in> set ?bis. blk_ok s (BLOCK_BM_BLOCK + bi)" using assms(1) by (auto simp: disk_ok_def data_end fs_consts)
  obtain r s1 where r: "bitmap_scan BLOCK_BM_BLOCK DATA_BLOCK_START ?bis s = Inr (r, s1)"
      "scan_post s BLOCK_BM_BLOCK DATA_BLOCK_START ?bis r s1"
    using bitmap_scan_spec [OF bm, of DATA_BLOCK_START] assms(2) by (auto simp: BLOCK_BM_LEN_def)
  have lt: "j div bm_bits < BLOCK_BM_LEN \<longleftrightarrow> j < data_end" for j
    by (simp add: data_end_def bm_bits_def BLOCK_SIZE_def div_less_iff_less_mult)
  have "r \<noteq> None"
  proof
    assume "r = None"
    then have "\<forall>j. j div bm_bits < BLOCK_BM_LEN \<longrightarrow> DATA_BLOCK_START \<le> j \<longrightarrow> in_use s j" using r(2) by (simp add: scan_post_def)
    then show False using assms(3) lt by (auto simp: free_blocks_def data_block_def)
  qed
  then obtain idx where idx: "r = Some idx" by blast
  obtain pre post where "?bis = pre @ idx div bm_bits # post" and nu: "DATA_BLOCK_START \<le> idx" "\<not> in_use s idx"
    using r(2) unfolding idx scan_post_def by auto
  then have "idx div bm_bits \<in> set ?bis" by (metis in_set_conv_decomp)
  then have i: "idx \<in> free_blocks s" using nu lt by (simp add: free_blocks_def data_block_def)
  have m: "page_of s1 = mark_bit (page_of s) BLOCK_BM_BLOCK idx" "blk_ok s1 = blk_ok s" "page_budget s \<le> page_budget s1 + 5"
    using r(2) by (simp_all add: idx scan_post_def BLOCK_BM_LEN_def)
  have d: "data_block idx" "idx < data_end" using i by (simp_all add: free_blocks_def data_block_def)
  have pre: "blk_ok s1 idx" "0 < page_budget s1" using d assms(1,2) m(2,3) by (simp_all add: disk_ok_def)
  obtain s2 where s2: "rbind (Page_alloc s1) (\<lambda>(page, s). write_block idx (id page) s) = Inr s2"
    "page_of s2 = (page_of s1)(idx := clip (id (\<lambda>_. 0)))" "blk_ok s2 = blk_ok s1" "page_budget s2 = page_budget s1 - 1"
    using pre by (rule write_fresh)
  have u: "unat (word_of_nat idx :: u32) = idx" using d(2) by (intro unat_of_nat_less) (simp add: data_end)
  have a: "alloc_block s = Inr (word_of_nat idx, s2)"
    using r(1) s2(1) by (cases "Page_alloc s1") (auto simp: alloc_block_def bitmap_alloc_def idx)
  have bmv: "page_of s2 b = page_of s1 b" if "bm_block b" for b using that s2(2) data_not_bm [OF d(1)] by auto
  have "in_use s2 j \<longleftrightarrow> in_use s j \<or> j = idx" if "j < data_end" for j
    using in_use_cong [OF that bmv] bit_used_mark [OF m(1), of j] by simp
  moreover have "page_of s2 b = page_of s b" if "\<not> bm_block b" "b \<noteq> idx" for b
  proof -
    have "idx div bm_bits < BLOCK_BM_LEN" using lt d(2) by blast
    then have "b \<noteq> BLOCK_BM_BLOCK + idx div bm_bits" using that(1) by (auto simp: bm_block_def)
    then show ?thesis using that(2) by (simp add: s2(2) m(1) mark_bit_def)
  qed
  ultimately have "touches idx 6 s s2" using s2(3,4) m(2,3) pre(2) by (simp add: touches_def)
  then show thesis using a i u by (intro that [of "word_of_nat idx" s2]) simp_all
qed

section \<open>Storing data in direct blocks\<close>

definition ptr_ok :: "'a fs_state_scheme \<Rightarrow> u32 \<Rightarrow> bool" where
  "ptr_ok s p \<longleftrightarrow> p \<noteq> 0 \<and> data_block (unat p) \<and> in_use s (unat p)"

text \<open>The pointers of a file are null or point to distinct allocated data blocks.\<close>

definition ptrs_ok :: "'a fs_state_scheme \<Rightarrow> u32 list \<Rightarrow> bool" where
  "ptrs_ok s ps \<longleftrightarrow> (\<forall>j < length ps. ps ! j \<noteq> 0 \<longrightarrow> ptr_ok s (ps ! j) \<and> (\<forall>k < length ps. ps ! k = ps ! j \<longrightarrow> k = j))"

lemma ptrs_ok_update:
  assumes "ptrs_ok s ps" "i < length ps" "touches (unat p) c s s'" "ptr_ok s' p"
    and "ps ! i = p \<or> unat p \<in> free_blocks s"
  shows "ptrs_ok s' (ps[i := p])"
proof -
  have keep: "ptr_ok s' q" if "ptr_ok s q" for q
    using that assms(3) by (auto simp: ptr_ok_def touches_def data_block_def)
  have ne: "ps ! j \<noteq> p" if "j < length ps" "j \<noteq> i" for j
  proof
    assume e: "ps ! j = p"
    then have "ptr_ok s p" using assms(1,4) that(1) by (auto simp: ptrs_ok_def ptr_ok_def)
    moreover have "ps ! i \<noteq> p" using assms(1,2,4) that e by (auto simp: ptrs_ok_def ptr_ok_def)
    ultimately show False using assms(5) by (auto simp: ptr_ok_def free_blocks_def)
  qed
  show ?thesis unfolding ptrs_ok_def
  proof (intro allI impI)
    fix j assume j: "j < length (ps[i := p])" "ps[i := p] ! j \<noteq> 0"
    show "ptr_ok s' (ps[i := p] ! j) \<and> (\<forall>k < length (ps[i := p]). ps[i := p] ! k = ps[i := p] ! j \<longrightarrow> k = j)"
    proof (cases "j = i")
      case True
      then show ?thesis using assms(2,4) ne by (auto simp: nth_list_update)
    next
      case False
      then have "ps ! j \<noteq> 0" "j < length ps" using j by simp_all
      then have "ptr_ok s' (ps ! j)" "\<And>k. k < length ps \<Longrightarrow> ps ! k = ps ! j \<Longrightarrow> k = j" "ps ! j \<noteq> p"
        using False assms(1) keep ne by (simp_all add: ptrs_ok_def)
      then show ?thesis using False assms(2) by (auto simp: nth_list_update split: if_splits)
    qed
  qed
qed

lemma fill_ptr_spec:
  assumes "disk_ok s" "6 < page_budget s" "free_blocks s \<noteq> {}" "p \<noteq> 0 \<Longrightarrow> ptr_ok s p"
  obtains q m s' where "fill_ptr p n s = Inr ((q, n\<lparr>i_nblocks := m\<rparr>), s')" "ptr_ok s' q" "touches (unat q) 6 s s'"
    "p = q \<or> unat q \<in> free_blocks s"
proof (cases "p = 0")
  case True
  obtain q s' where q: "alloc_block s = Inr (q, s')" "unat q \<in> free_blocks s" "touches (unat q) 6 s s'"
    using assms(1-3) by (rule alloc_block_spec)
  have "ptr_ok s' q" using q(2,3) by (auto simp: ptr_ok_def free_blocks_def touches_def data_block_def DATA_BLOCK_START_def)
  then show thesis using q True by (intro that [of q "i_nblocks n + 1" s']) (simp_all add: fill_ptr_def)
next
  case False
  have "touches (unat p) 6 s s" using assms(4) [OF False] by (auto simp: touches_def ptr_ok_def)
  then show thesis using False assms(4) by (intro that [of p "i_nblocks n" s]) (simp_all add: fill_ptr_def)
qed

lemma write_chunk_spec:
  assumes "ptr_ok s p" "disk_ok s" "0 < page_budget s"
  obtains s' where "write_chunk p data s = Inr s'" "touches (unat p) 1 s s'"
    "get_bytes (page_of s' (unat p)) 0 (min (length data) BLOCK_SIZE) = take BLOCK_SIZE data"
proof -
  let ?f = "\<lambda>page. put_bytes page 0 (take BLOCK_SIZE data)"
  have d: "data_block (unat p)" "in_use s (unat p)" "blk_ok s (unat p)"
    using assms(1,2) by (simp_all add: ptr_ok_def disk_ok_def data_block_def)
  obtain s' where s': "rbind (Page_alloc s) (\<lambda>(page, s). write_block (unat p) (?f page) s) = Inr s'"
    "page_of s' = (page_of s)(unat p := clip (?f (\<lambda>_. 0)))" "blk_ok s' = blk_ok s" "page_budget s' = page_budget s - 1"
    using d(3) assms(3) by (rule write_fresh)
  have bmv: "page_of s' b = page_of s b" if "bm_block b" for b using that s'(2) data_not_bm [OF d(1)] by auto
  have "touches (unat p) 1 s s'" unfolding touches_def using s'(2,3,4) in_use_cong [OF _ bmv] d(2) by auto
  moreover have "get_bytes (page_of s' (unat p)) 0 (min (length data) BLOCK_SIZE) = take BLOCK_SIZE data"
    by (rule nth_equalityI) (auto simp: s'(2) get_bytes_def clip_def put_bytes_def)
  ultimately show thesis using s'(1) by (intro that [of s']) (simp_all add: write_chunk_def)
qed

text \<open>The blocks \<open>ps\<close> hold the data, one block's worth each.\<close>

fun stored :: "(nat \<Rightarrow> buffer) \<Rightarrow> u32 list \<Rightarrow> u8 list \<Rightarrow> bool" where
  "stored v [] data = (data = [])"
| "stored v (p # ps) data = (data = [] \<or> p \<noteq> 0 \<and>
     get_bytes (v (unat p)) 0 (min (length data) BLOCK_SIZE) = take BLOCK_SIZE data \<and> stored v ps (drop BLOCK_SIZE data))"

lemma stored_cong: "(\<And>p. p \<in> set ps \<Longrightarrow> p \<noteq> 0 \<Longrightarrow> v (unat p) = w (unat p)) \<Longrightarrow> stored v ps data = stored w ps data"
  by (induction ps arbitrary: data) auto

lemma stored_Nil [simp]: "stored v ps []"
  by (cases ps) simp_all

lemma read_direct_spec:
  assumes "stored (page_of s) ps data" "\<And>p. p \<in> set ps \<Longrightarrow> p \<noteq> 0 \<Longrightarrow> blk_ok s (unat p)" "length ps \<le> page_budget s"
  shows "\<exists>s'. read_direct (used_ptrs ps) (out, length data) s = Inr ((out @ data, 0), s')"
  using assms
proof (induction ps arbitrary: data out s)
  case (Cons p ps)
  show ?case
  proof (cases "data = []")
    case True
    then show ?thesis by (cases "used_ptrs (p # ps)") simp_all
  next
    case False
    then have st: "p \<noteq> 0" "get_bytes (page_of s (unat p)) 0 (min (length data) BLOCK_SIZE) = take BLOCK_SIZE data"
      "stored (page_of s) ps (drop BLOCK_SIZE data)" using Cons.prems(1) by auto
    obtain s1 where s1: "read_block (unat p) s = Inr (page_of s (unat p), s1)" "page_of s1 = page_of s"
      "blk_ok s1 = blk_ok s" "page_budget s1 = page_budget s - 1"
      using Cons.prems(2,3) st(1) by (auto intro: disk.rd_obtain [of s "unat p"])
    have "\<exists>s'. read_direct (used_ptrs ps) (out @ take BLOCK_SIZE data, length (drop BLOCK_SIZE data)) s1 =
        Inr (((out @ take BLOCK_SIZE data) @ drop BLOCK_SIZE data, 0), s')"
      by (rule Cons.IH) (use st(3) s1 Cons.prems in auto)
    moreover have "length data - min (length data) BLOCK_SIZE = length data - BLOCK_SIZE" by simp
    ultimately show ?thesis using False st(1,2) s1(1) by (simp add: used_ptrs_def read_chunk_def)
  qed
qed (simp add: used_ptrs_def)

text \<open>
  What writing to the slots \<open>is\<close> of the pointers \<open>ps\<close> leaves alone: the tables before the data blocks, and every
  allocated block that is not in one of the slots.
\<close>

definition kept :: "u32 list \<Rightarrow> nat list \<Rightarrow> 'a fs_state_scheme \<Rightarrow> nat \<Rightarrow> bool" where
  "kept ps slots s b \<longleftrightarrow> \<not> bm_block b \<and>
     (b < DATA_BLOCK_START \<or> data_block b \<and> in_use s b \<and> (\<forall>k \<in> set slots. unat (ps ! k) \<noteq> b))"

definition direct_post :: "nat list \<Rightarrow> u8 list \<Rightarrow> Inode \<Rightarrow> 'a fs_state_scheme \<Rightarrow> Inode \<Rightarrow> 'a fs_state_scheme \<Rightarrow> bool" where
  "direct_post slots data n s n' s' \<longleftrightarrow> stored (page_of s') (map ((!) (i_direct n')) slots) data \<and>
     n' = n\<lparr>i_direct := i_direct n', i_nblocks := i_nblocks n'\<rparr> \<and> length (i_direct n') = length (i_direct n) \<and>
     (\<forall>j. j \<notin> set slots \<longrightarrow> i_direct n' ! j = i_direct n ! j) \<and> ptrs_ok s' (i_direct n') \<and> blk_ok s' = blk_ok s \<and>
     page_budget s \<le> page_budget s' + 7 * length slots \<and> (\<forall>b. kept (i_direct n) slots s b \<longrightarrow> page_of s' b = page_of s b)"

lemma kept_step:
  assumes "kept ps (i # slots) s b" "touches (unat q) c s s'" "ps ! i = q \<or> unat q \<in> free_blocks s" "data_block (unat q)"
    and "i \<notin> set slots"
  shows "kept (ps[i := q]) slots s' b" "page_of s' b = page_of s b"
proof -
  have ne: "b \<noteq> unat q" using assms(1,3,4) by (auto simp: kept_def free_blocks_def data_block_def)
  then show "page_of s' b = page_of s b" using assms(1,2) by (simp add: kept_def touches_def)
  have "ps[i := q] ! k = ps ! k" if "k \<in> set slots" for k using that assms(5) by (metis nth_list_update_neq)
  then show "kept (ps[i := q]) slots s' b" using assms(1,2) by (auto simp: kept_def touches_def data_block_def)
qed

text \<open>One more slot in front: its block was written before the others and stays.\<close>

lemma direct_post_Cons:
  assumes post: "direct_post slots (drop BLOCK_SIZE data) (n\<lparr>i_nblocks := m, i_direct := (i_direct n)[i := q]\<rparr>) s' n2 s2"
    and t: "touches (unat q) 7 s s'" and q: "ptr_ok s' q" "i_direct n ! i = q \<or> unat q \<in> free_blocks s"
    and i: "i \<notin> set slots" "i < length (i_direct n)" "set slots \<subseteq> {..< length (i_direct n)}"
    and ok: "ptrs_ok s' ((i_direct n)[i := q])"
    and st: "get_bytes (page_of s' (unat q)) 0 (min (length data) BLOCK_SIZE) = take BLOCK_SIZE data"
  shows "direct_post (i # slots) data n s n2 s2"
proof -
  let ?ps = "(i_direct n)[i := q]"
  have d: "data_block (unat q)" "in_use s' (unat q)" "q \<noteq> 0" using q(1) by (simp_all add: ptr_ok_def)
  have P: "stored (page_of s2) (map ((!) (i_direct n2)) slots) (drop BLOCK_SIZE data)" "length (i_direct n2) = length ?ps"
    "\<And>j. j \<notin> set slots \<Longrightarrow> i_direct n2 ! j = ?ps ! j" "ptrs_ok s2 (i_direct n2)" "blk_ok s2 = blk_ok s'"
    "page_budget s' \<le> page_budget s2 + 7 * length slots" "\<And>b. kept ?ps slots s' b \<Longrightarrow> page_of s2 b = page_of s' b"
    using post by (simp_all add: direct_post_def)
  have n2: "n2 = n\<lparr>i_direct := i_direct n2, i_nblocks := i_nblocks n2\<rparr>" using post by (cases n; cases n2) (simp add: direct_post_def)
  have at: "i_direct n2 ! i = q" using P(3) [OF i(1)] i(2) by simp
  have other: "unat (?ps ! k) \<noteq> unat q" if "k \<in> set slots" for k
  proof
    assume "unat (?ps ! k) = unat q"
    then have "?ps ! k = ?ps ! i" using i(2) by (simp add: unat_eq_iff)
    moreover have "k < length ?ps" "i < length ?ps" "?ps ! i \<noteq> 0" using that i d(3) by auto
    ultimately have "k = i" using ok unfolding ptrs_ok_def by blast
    then show False using that i(1) by simp
  qed
  then have "kept ?ps slots s' (unat q)" using d data_not_bm [OF d(1)] by (simp add: kept_def)
  then have "stored (page_of s2) (map ((!) (i_direct n2)) (i # slots)) data" using P(1,7) st at d(3) by simp
  moreover have "page_of s2 b = page_of s b" if "kept (i_direct n) (i # slots) s b" for b
    using kept_step [OF that t q(2) d(1) i(1)] P(7) by simp
  moreover have "i_direct n2 ! j = i_direct n ! j" if "j \<notin> set (i # slots)" for j
    using P(3) [of j] that by (metis list.set_intros(1) list.set_intros(2) nth_list_update_neq)
  moreover have "blk_ok s' = blk_ok s" "page_budget s \<le> page_budget s' + 7" using t by (simp_all add: touches_def)
  ultimately show ?thesis unfolding direct_post_def using n2 P(2,4,5,6) by simp
qed

lemma write_direct_spec:
  assumes "distinct slots" "set slots \<subseteq> {..< length (i_direct n)}" "length data \<le> length slots * BLOCK_SIZE" "disk_ok s"
    and "7 * length slots < page_budget s" "length slots \<le> card (free_blocks s)" "ptrs_ok s (i_direct n)"
  shows "\<exists>n' s'. write_direct slots data n s = Inr (([], n'), s') \<and> direct_post slots data n s n' s'"
  using assms
proof (induction slots arbitrary: data n s)
  case Nil
  then show ?case by (simp add: direct_post_def)
next
  case (Cons i slots)
  show ?case
  proof (cases "data = []")
    case True
    then show ?thesis using Cons.prems(7) by (simp add: direct_post_def)
  next
    case False
    let ?p = "i_direct n ! i"
    have pre: "6 < page_budget s" "free_blocks s \<noteq> {}" "?p \<noteq> 0 \<Longrightarrow> ptr_ok s ?p" and i: "i < length (i_direct n)" "i \<notin> set slots"
      using Cons.prems by (auto simp: ptrs_ok_def)
    obtain q m s1 where q: "fill_ptr ?p n s = Inr ((q, n\<lparr>i_nblocks := m\<rparr>), s1)" "ptr_ok s1 q" "touches (unat q) 6 s s1"
      "?p = q \<or> unat q \<in> free_blocks s"
      using Cons.prems(4) pre by (rule fill_ptr_spec)
    have s1: "disk_ok s1" "0 < page_budget s1" using q(3) Cons.prems(4,5) by (auto simp: touches_def disk_ok_def)
    obtain s2 where w: "write_chunk q data s1 = Inr s2" "touches (unat q) 1 s1 s2"
      "get_bytes (page_of s2 (unat q)) 0 (min (length data) BLOCK_SIZE) = take BLOCK_SIZE data"
      using q(2) s1 by (rule write_chunk_spec)
    have t: "touches (unat q) 7 s s2" using touches_trans [OF q(3) w(2)] by simp
    have q2: "ptr_ok s2 q" using q(2) w(2) by (auto simp: ptr_ok_def touches_def data_block_def)
    have ok: "ptrs_ok s2 ((i_direct n)[i := q])" by (rule ptrs_ok_update [OF Cons.prems(7) i(1) t q2 q(4)])
    let ?n = "n\<lparr>i_nblocks := m, i_direct := (i_direct n)[i := q]\<rparr>"
    have "\<exists>n' s'. write_direct slots (drop BLOCK_SIZE data) ?n s2 = Inr (([], n'), s') \<and>
        direct_post slots (drop BLOCK_SIZE data) ?n s2 n' s'"
      using Cons.prems t ok touches_free [OF t] by (intro Cons.IH) (auto simp: touches_def disk_ok_def)
    then obtain n' s' where f: "write_direct slots (drop BLOCK_SIZE data) ?n s2 = Inr (([], n'), s')"
      "direct_post slots (drop BLOCK_SIZE data) ?n s2 n' s'" by blast
    have "direct_post (i # slots) data n s n' s'"
      using f(2) t q2 q(4) i(2,1) _ ok w(3) by (rule direct_post_Cons) (use Cons.prems(2) in auto)
    then show ?thesis using False q(1) w(1) f(1) by simp
  qed
qed

section \<open>Files\<close>

lemma inode_blk_table:
  assumes "unat ino < MAX_INODES"
  shows "inode_blk ino < DATA_BLOCK_START" "\<not> bm_block (inode_blk ino)" "inode_blk ino < data_end"
proof -
  have "unat ino div 32 < 32" using assms by (simp add: MAX_INODES_def)
  then show "inode_blk ino < DATA_BLOCK_START" "\<not> bm_block (inode_blk ino)" "inode_blk ino < data_end"
    by (simp_all add: inode_blk_def bm_block_def data_end fs_consts)
qed

lemma read_file_direct:
  assumes "disk_ok s" "13 < page_budget s" "unat ino < MAX_INODES"
    and "inode_at s ino = n" "i_flags n = F_FILE" "i_size n = word_of_nat (length data)" "length data \<le> 12 * BLOCK_SIZE"
    and "stored (page_of s) (i_direct n) data" "ptrs_ok s (i_direct n)"
  shows "\<exists>t. read_file ino s = Inr (data, t)"
proof -
  have "blk_ok s (inode_blk ino)" "0 < page_budget s" using assms(1,2) inode_blk_table(3) [OF assms(3)] by (simp_all add: disk_ok_def)
  then obtain s1 where s1: "read_inode ino s = Inr (n, s1)" "page_of s1 = page_of s" "blk_ok s1 = blk_ok s"
    "page_budget s1 = page_budget s - 1"
    unfolding assms(4) [symmetric] by (rule read_inode_spec)
  have sz: "unat (i_size n) = length data" "length data < 2 ^ 63"
    using assms(6,7) by (simp_all add: BLOCK_SIZE_def unat_of_nat_less)
  have "length (i_direct n) = 12" using inode_at_wf [of s ino] assms(4) by (simp add: inode_wf_def)
  moreover have "blk_ok s1 (unat p)" if "p \<in> set (i_direct n)" "p \<noteq> 0" for p
    using that assms(1,9) s1(3) by (auto simp: in_set_conv_nth ptrs_ok_def ptr_ok_def disk_ok_def data_block_def)
  ultimately obtain t where "read_direct (used_ptrs (i_direct n)) ([], length data) s1 = Inr (([] @ data, 0), t)"
    using read_direct_spec [of s1 "i_direct n" data "[]"] assms(2,8) s1(2,4) by fastforce
  then show ?thesis using s1(1) assms(5) sz by (simp add: read_file_def)
qed

definition big_disk :: fs_state where
  "big_disk = example_disk\<lparr>dev_lba_count := 0x100000\<rparr>"

definition example_file :: Inode where
  "example_file = Inode_default\<lparr>i_flags := F_FILE\<rparr>"

lemma big_disk_ok: "disk_ok big_disk"
  by (simp add: disk_ok_def data_end big_disk_def blk_ok_def example_disk_def lba_size_def lba_count_def BLOCK_SIZE_def)

lemma big_disk_budget: "page_budget big_disk = MAX_PAGES"
proof -
  have "free_set big_disk = {..< MAX_PAGES}" by (auto simp: free_set_def is_used_def big_disk_def example_disk_def)
  then show ?thesis by (simp add: page_budget_def)
qed

lemma big_disk_file:
  obtains s where "write_inode 1 example_file big_disk = Inr s" "disk_ok s" "150 < page_budget s"
    "12 \<le> card (free_blocks s)" "inode_at s 1 = example_file" "ptrs_ok s (i_direct example_file)"
proof -
  have "blk_ok big_disk (inode_blk 1)" "0 < page_budget big_disk" "inode_wf example_file"
    using big_disk_ok by (simp_all add: disk_ok_def data_end big_disk_budget inode_blk_def fs_consts MAX_PAGES_def inode_wf_def
      example_file_def Inode_default_def)
  then obtain s where s: "write_inode 1 example_file big_disk = Inr s" "blk_ok s = blk_ok big_disk"
    "page_budget s = page_budget big_disk - 1"
    "\<And>b. b \<noteq> inode_blk 1 \<Longrightarrow> page_of s b = page_of big_disk b" "inode_at s = (inode_at big_disk)(1 := example_file)"
    by (rule write_inode_spec) blast
  have "page_of s b = page_of big_disk b" if "bm_block b" for b
    using that by (intro s(4)) (auto simp: bm_block_def inode_blk_def fs_consts)
  then have "in_use s j = in_use big_disk j" if "j < data_end" for j using that by (intro in_use_cong)
  moreover have "\<not> in_use big_disk j" for j by (simp add: bit_used_def page_of_def big_disk_def example_disk_def)
  ultimately have "{38 ..< 50} \<subseteq> free_blocks s" by (auto simp: free_blocks_def data_block_def data_end DATA_BLOCK_START_def)
  then have "12 \<le> card (free_blocks s)" using card_mono [OF finite_free_blocks, of "{38 ..< 50}" s] by simp
  moreover have "ptrs_ok s (i_direct example_file)" by (simp add: ptrs_ok_def example_file_def Inode_default_def)
  ultimately show thesis using s big_disk_ok by (intro that [of s]) (simp_all add: disk_ok_def big_disk_budget MAX_PAGES_def)
qed

text \<open>
  C11: Writing at most twelve blocks of data to a file, old or new, with twelve free blocks on the device succeeds, and
  reading the file then returns exactly the data. Every other inode and every allocated block that does not belong to
  the file is unchanged.
\<close>

theorem write_read_file:
  assumes "disk_ok s" "150 < page_budget s" "12 \<le> card (free_blocks s)" "unat ino < MAX_INODES"
    and "i_flags (inode_at s ino) = F_FILE" "ptrs_ok s (i_direct (inode_at s ino))" "length data \<le> 12 * BLOCK_SIZE"
  shows "\<exists>s' t. write_file ino data s = Inr s' \<and> read_file ino s' = Inr (data, t) \<and>
    (\<forall>j. j \<noteq> ino \<longrightarrow> unat j < MAX_INODES \<longrightarrow> inode_at s' j = inode_at s j) \<and>
    (\<forall>b. data_block b \<longrightarrow> in_use s b \<longrightarrow> b \<notin> unat ` set (i_direct (inode_at s ino)) \<longrightarrow> page_of s' b = page_of s b)"
proof -
  define n where "n = inode_at s ino"
  note tbl = inode_blk_table [OF assms(4)]
  have l: "length (i_direct n) = 12" using inode_at_wf [of s ino] by (simp add: n_def inode_wf_def)
  have "blk_ok s (inode_blk ino)" "0 < page_budget s" using assms(1,2) tbl(3) by (simp_all add: disk_ok_def)
  then obtain s1 where s1: "read_inode ino s = Inr (n, s1)" "page_of s1 = page_of s" "blk_ok s1 = blk_ok s"
    "page_budget s1 = page_budget s - 1"
    unfolding n_def by (rule read_inode_spec)
  have same: "in_use s1 = in_use s" "free_blocks s1 = free_blocks s" "ptrs_ok s1 = ptrs_ok s" "kept ps is s1 = kept ps is s" for ps "is"
    using s1(2) by (simp_all add: bit_used_def fun_eq_iff free_blocks_def ptrs_ok_def ptr_ok_def kept_def)
  have "\<exists>n' s'. write_direct [0 ..< 12] data n s1 = Inr (([], n'), s') \<and> direct_post [0 ..< 12] data n s1 n' s'"
    using assms s1(3,4) same l
    by (intro write_direct_spec) (auto simp: n_def disk_ok_def simp del: upt_conv_Cons)
  then obtain n' s2 where w: "write_direct [0 ..< 12] data n s1 = Inr (([], n'), s2)" "direct_post [0 ..< 12] data n s1 n' s2"
    by blast
  have l': "length (i_direct n') = 12" "map ((!) (i_direct n')) [0 ..< 12] = i_direct n'"
    using w(2) l map_nth [of "i_direct n'"] by (simp_all add: direct_post_def)
  have P: "stored (page_of s2) (i_direct n') data" "ptrs_ok s2 (i_direct n')" "blk_ok s2 = blk_ok s" "65 < page_budget s2"
    "\<And>b. kept (i_direct n) [0 ..< 12] s b \<Longrightarrow> page_of s2 b = page_of s b"
    using w(2) l' s1 assms(2) same by (auto simp: direct_post_def simp del: upt_conv_Cons)
  have fl: "n' = n\<lparr>i_direct := i_direct n', i_nblocks := i_nblocks n'\<rparr>" using w(2) by (simp add: direct_post_def)
  define m where "m = n'\<lparr>i_size := word_of_nat (length data)\<rparr>"
  have m: "i_flags m = F_FILE" "inode_wf m" "i_size m = word_of_nat (length data)" "i_direct m = i_direct n'"
    using arg_cong [OF fl, of i_flags] arg_cong [OF fl, of i_pad] assms(5) l' inode_at_wf [of s ino]
    by (simp_all add: m_def n_def inode_wf_def)
  have "blk_ok s2 (inode_blk ino)" "0 < page_budget s2" using P(3,4) assms(1) tbl(3) by (simp_all add: disk_ok_def)
  then obtain s3 where s3: "write_inode ino m s2 = Inr s3" "blk_ok s3 = blk_ok s2" "page_budget s3 = page_budget s2 - 1"
    "\<And>b. b \<noteq> inode_blk ino \<Longrightarrow> page_of s3 b = page_of s2 b" "inode_at s3 = (inode_at s2)(ino := m)"
    using m(2) by (rule write_inode_spec) blast
  have wr: "write_file ino data s = Inr s3"
    using s1(1) w(1) s3(1) assms(5) by (simp add: write_file_def n_def m_def DIRECT_PTRS_def del: upt_conv_Cons write_direct.simps)
  have v: "page_of s3 b = page_of s2 b" if "data_block b \<or> bm_block b" for b
    using that tbl(1,2) by (intro s3(4)) (auto simp: data_block_def)
  have "ptr_ok s3 = ptr_ok s2" using in_use_cong [OF _ v] by (auto simp: ptr_ok_def fun_eq_iff data_block_def)
  then have ok3: "ptrs_ok s3 (i_direct m)" using P(2) m(4) by (simp add: ptrs_ok_def)
  have "stored (page_of s3) (i_direct m) data \<longleftrightarrow> stored (page_of s2) (i_direct m) data"
    using P(2) m(4) by (intro stored_cong v) (auto simp: in_set_conv_nth ptrs_ok_def ptr_ok_def)
  then have "\<exists>t. read_file ino s3 = Inr (data, t)"
    using P(1,3,4) m s3(2,3,5) ok3 assms(1,4,7) by (intro read_file_direct [where n = m]) (simp_all add: disk_ok_def)
  moreover have "inode_at s3 j = inode_at s j" if "j \<noteq> ino" "unat j < MAX_INODES" for j
    using that s3(5) P(5) inode_blk_table [OF that(2)] by (simp add: inode_at_def [of s2] inode_at_def [of s] kept_def)
  moreover have "page_of s3 b = page_of s b" if "data_block b" "in_use s b" "b \<notin> unat ` set (i_direct (inode_at s ino))" for b
  proof -
    have "unat (i_direct n ! k) \<noteq> b" if "k < 12" for k
      using nth_mem [of k "i_direct n"] that l \<open>b \<notin> _\<close> by (auto simp: n_def)
    then have "kept (i_direct n) [0 ..< 12] s b" using that(1,2) data_not_bm by (simp add: kept_def del: upt_conv_Cons)
    then show ?thesis using v P(5) that(1) by simp
  qed
  ultimately show ?thesis using wr by blast
qed

theorem write_read_file_witness:
  "\<exists>s s' t. write_inode 1 example_file big_disk = Inr s \<and> write_file 1 (replicate 5000 7) s = Inr s' \<and>
    read_file 1 s' = Inr (replicate 5000 7, t)"
proof -
  obtain s where s: "write_inode 1 example_file big_disk = Inr s" "disk_ok s" "150 < page_budget s"
    "12 \<le> card (free_blocks s)" "inode_at s 1 = example_file" "ptrs_ok s (i_direct example_file)"
    by (rule big_disk_file)
  have "unat (1 :: u32) < MAX_INODES" "i_flags (inode_at s 1) = F_FILE" "ptrs_ok s (i_direct (inode_at s 1))"
    "length (replicate 5000 (7 :: u8)) \<le> 12 * BLOCK_SIZE"
    using s(5,6) by (simp_all add: fs_consts example_file_def)
  then show ?thesis using write_read_file [OF s(2,3,4)] s(1) by blast
qed

end
