(* ===== verification/Net.thy ===== *)
theory Net
  imports Rust_Text
begin

text \<open>
  The network stack of \<open>kernel/src/net.rs\<close>: frame construction, checksums, ARP, ICMP, UDP and TCP
  segments, the parsers, and the polled network job. A network card is its address, what each successive call of
  \<open>recv\<close> finds in its ring, which the network refills at any time, and the frames handed to it for sending, all of
  which it takes; the time stamp counter is the sequence of values successive reads return.
\<close>

section \<open>State\<close>

record nic =
  nic_mac :: "u8 list"
  nic_rx :: "nat \<Rightarrow> u8 list option"
  nic_reads :: nat
  nic_tx :: "u8 list list"

datatype NextAction = NextTcp (next_port: u16) (next_req: "u8 list") | NextUdp (next_port: u16) (next_msg: "u8 list")

record TcpJob =
  tcp_ip :: "u8 list"
  tcp_port :: u16
  tcp_src_port :: u16
  tcp_seq :: u32
  tcp_ack :: u32
  tcp_state :: u8
  tcp_rx :: "u8 list"
  tcp_req :: "u8 list"
  tcp_deadline :: u64

datatype NetJob =
    Ping (ping_target: "u8 list") (ping_seq: u16) (ping_deadline: u64)
  | Resolve (hostname: "u8 list") (dns_ip: "u8 list") (dns_src_port: u16) (txid: u16) (dns_deadline: u64) (dns_next: NextAction)
  | Tcp (tcp: TcpJob)
  | Udp (udp_src_port: u16) (udp_deadline: u64)

record net_state =
  rtl8139_NIC :: "nic option"
  e1000_NIC :: "nic option"
  PING_SEQ :: u16
  PING_REPLY :: "u16 option"
  NEXT_SRC_PORT :: u16
  NET_JOB :: "(nat \<times> NetJob) option"
  TSC_PER_MS :: u64
  tsc :: "nat \<Rightarrow> u64"
  tsc_reads :: nat

definition MY_IP :: "u8 list" where "MY_IP = [10, 0, 2, 15]"
definition GW_MAC :: "u8 list" where "GW_MAC = [0x52, 0x55, 0x0a, 0x00, 0x02, 0x02]"
definition TCP_FIN :: u8 where "TCP_FIN = 0x01"
definition TCP_SYN :: u8 where "TCP_SYN = 0x02"
definition TCP_RST :: u8 where "TCP_RST = 0x04"
definition TCP_PSH :: u8 where "TCP_PSH = 0x08"
definition TCP_ACK :: u8 where "TCP_ACK = 0x10"

definition u16_be :: "u16 \<Rightarrow> u8 list" where "u16_be w = be_bytes 2 (unat w)"
definition u32_be :: "u32 \<Rightarrow> u8 list" where "u32_be w = be_bytes 4 (unat w)"
definition be_u16 :: "u8 list \<Rightarrow> u16" where "be_u16 bs = word_of_nat (be_nat bs)"
definition be_u32 :: "u8 list \<Rightarrow> u32" where "be_u32 bs = word_of_nat (be_nat bs)"

definition sub_slice :: "'b list \<Rightarrow> nat \<Rightarrow> nat \<Rightarrow> 'b list" where
  "sub_slice xs a b = take (b - a) (drop a xs)"

section \<open>Sending\<close>

definition with_nic_send :: "u8 list \<Rightarrow> 'a net_state_scheme \<Rightarrow> 'a net_state_scheme" where
  "with_nic_send f s = (case rtl8139_NIC s of
     Some n \<Rightarrow> s\<lparr>rtl8139_NIC := Some (n\<lparr>nic_tx := nic_tx n @ [f]\<rparr>)\<rparr>
   | None \<Rightarrow> (case e1000_NIC s of
       Some n \<Rightarrow> s\<lparr>e1000_NIC := Some (n\<lparr>nic_tx := nic_tx n @ [f]\<rparr>)\<rparr> | None \<Rightarrow> s))"

definition nic_recv :: "nic \<Rightarrow> u8 list option \<times> nic" where
  "nic_recv n = (nic_rx n (nic_reads n), n\<lparr>nic_reads := Suc (nic_reads n)\<rparr>)"

definition with_nic_recv :: "'a net_state_scheme \<Rightarrow> u8 list option \<times> 'a net_state_scheme" where
  "with_nic_recv s = (case rtl8139_NIC s of
     Some n \<Rightarrow> (fst (nic_recv n), s\<lparr>rtl8139_NIC := Some (snd (nic_recv n))\<rparr>)
   | None \<Rightarrow> (case e1000_NIC s of
       Some n \<Rightarrow> (fst (nic_recv n), s\<lparr>e1000_NIC := Some (snd (nic_recv n))\<rparr>) | None \<Rightarrow> (None, s)))"

definition my_mac :: "'a net_state_scheme \<Rightarrow> u8 list" where
  "my_mac s = (case rtl8139_NIC s of Some n \<Rightarrow> nic_mac n
   | None \<Rightarrow> (case e1000_NIC s of Some n \<Rightarrow> nic_mac n | None \<Rightarrow> [0x52, 0x54, 0, 0x12, 0x34, 0x56]))"

definition eth_send :: "u8 list \<Rightarrow> u16 \<Rightarrow> u8 list \<Rightarrow> 'a net_state_scheme \<Rightarrow> 'a net_state_scheme" where
  "eth_send dst_mac etype payload s = with_nic_send (dst_mac @ my_mac s @ u16_be etype @ payload) s"

definition arp_packet :: "u16 \<Rightarrow> u8 list \<Rightarrow> u8 list \<Rightarrow> u8 list \<Rightarrow> u8 list" where
  "arp_packet op sender_mac target_mac target_ip =
     [0, 1] @ [8, 0] @ [6] @ [4] @ u16_be op @ sender_mac @ MY_IP @ target_mac @ target_ip"

definition arp_announce :: "'a net_state_scheme \<Rightarrow> 'a net_state_scheme" where
  "arp_announce s = eth_send (replicate 6 0xFF) 0x0806 (arp_packet 1 (my_mac s) (replicate 6 0xFF) MY_IP) s"

definition arp_request :: "u8 list \<Rightarrow> 'a net_state_scheme \<Rightarrow> 'a net_state_scheme" where
  "arp_request ip s = eth_send (replicate 6 0xFF) 0x0806 (arp_packet 1 (my_mac s) (replicate 6 0) ip) s"

definition handle_arp :: "u8 list \<Rightarrow> 'a net_state_scheme \<Rightarrow> 'a net_state_scheme" where
  "handle_arp data s =
    (if length data < 28 then s
     else if be_u16 (sub_slice data 6 8) = 1 \<and> sub_slice data 24 28 = MY_IP then
       eth_send (sub_slice data 8 14) 0x0806 (arp_packet 2 (my_mac s) (sub_slice data 8 14) (sub_slice data 14 18)) s
     else s)"

fun sum_words :: "u8 list \<Rightarrow> u32 \<Rightarrow> u32" where
  "sum_words (a # b # r) acc = sum_words r (acc + ucast (be_u16 [a, b]))"
| "sum_words [a] acc = acc + push_bit 8 (ucast a)"
| "sum_words [] acc = acc"

lemma unat_low_half: "unat ((acc :: u32) AND 0xFFFF) = unat acc mod 65536"
proof -
  have "(0xFFFF :: u32) = mask 16" by (simp add: mask_eq_exp_minus_1)
  then have "acc AND 0xFFFF = take_bit 16 acc" by (simp only: take_bit_eq_mask)
  then show ?thesis by (simp add: take_bit_eq_mod unat_mod_distrib)
qed

lemma unat_high_half: "unat (drop_bit 16 (acc :: u32)) = unat acc div 65536"
  by (simp add: drop_bit_eq_div unat_div_distrib)

lemma fold_carry_decreases:
  assumes "drop_bit 16 (acc :: u32) \<noteq> 0"
  shows "unat ((acc AND 0xFFFF) + drop_bit 16 acc) < unat acc"
proof -
  note m = unat_low_half [of acc] and d = unat_high_half [of acc]
  have "unat acc div 65536 \<noteq> 0" using assms d by (metis unat_0 unat_eq_iff)
  then have q: "unat acc div 65536 + unat acc mod 65536 < unat acc"
    using div_mult_mod_eq [of "unat acc" 65536] by linarith
  have "unat ((acc AND 0xFFFF) + drop_bit 16 acc) \<le> unat acc mod 65536 + unat acc div 65536"
    unfolding unat_word_ariths m d by simp
  then show ?thesis using q by linarith
qed

function fold_carry :: "u32 \<Rightarrow> u32" where
  "fold_carry acc = (if drop_bit 16 acc \<noteq> 0 then fold_carry ((acc AND 0xFFFF) + drop_bit 16 acc) else acc)"
  by pat_completeness auto

termination
  by (relation "measure unat") (use fold_carry_decreases in auto)

declare fold_carry.simps [simp del]

definition ip_checksum :: "u8 list \<Rightarrow> u16" where
  "ip_checksum data = NOT (ucast (fold_carry (sum_words data 0)))"

definition put_at :: "'b list \<Rightarrow> nat \<Rightarrow> 'b list \<Rightarrow> 'b list" where
  "put_at xs off ys = take off xs @ ys @ drop (off + length ys) xs"

definition ip_header :: "nat \<Rightarrow> u8 \<Rightarrow> u8 list \<Rightarrow> u8 list" where
  "ip_header total_len proto dst_ip =
     [0x45, 0] @ u16_be (word_of_nat total_len) @ [0, 1] @ [0x40, 0] @ [64] @ [proto] @ [0, 0] @ MY_IP @ dst_ip"

definition ip_send :: "u8 list \<Rightarrow> u8 list \<Rightarrow> u8 \<Rightarrow> u8 list \<Rightarrow> 'a net_state_scheme \<Rightarrow> 'a net_state_scheme" where
  "ip_send dst_ip dst_mac proto payload s =
    (let hdr = ip_header (20 + length payload) proto dst_ip in
     eth_send dst_mac 0x0800 (put_at hdr 10 (u16_be (ip_checksum hdr)) @ payload) s)"

definition echo_request :: "u16 \<Rightarrow> u8 list" where
  "echo_request seq = [8, 0] @ [0, 0] @ [0, 1] @ u16_be seq @ str_bytes ''HepOS!  ''"

definition ping_send :: "u8 list \<Rightarrow> u8 list \<Rightarrow> 'a net_state_scheme \<Rightarrow> u16 \<times> 'a net_state_scheme" where
  "ping_send dst_ip dst_mac s =
    (let sq = PING_SEQ s; icmp = echo_request sq in
     (sq, ip_send dst_ip dst_mac 1 (put_at icmp 2 (u16_be (ip_checksum icmp))) (s\<lparr>PING_SEQ := sq + 1\<rparr>)))"

definition udp_send :: "u8 list \<Rightarrow> u8 list \<Rightarrow> u16 \<Rightarrow> u16 \<Rightarrow> u8 list \<Rightarrow> 'a net_state_scheme \<Rightarrow> panic + 'a net_state_scheme" where
  "udp_send dst_ip dst_mac src_port dst_port data s =
    (if 8 + length data < 2 ^ 16
     then Inr (ip_send dst_ip dst_mac 17
       (u16_be src_port @ u16_be dst_port @ u16_be (word_of_nat (8 + length data)) @ [0, 0] @ data) s)
     else Inl (Panic ''range or source sub_slice length mismatch''))"

definition tcp_checksum :: "u8 list \<Rightarrow> u8 list \<Rightarrow> u8 list \<Rightarrow> u16" where
  "tcp_checksum src_ip dst_ip tcp_seg =
     ip_checksum (src_ip @ dst_ip @ [0] @ [6] @ u16_be (word_of_nat (length tcp_seg)) @ tcp_seg)"

definition tcp_segment :: "u16 \<Rightarrow> u16 \<Rightarrow> u32 \<Rightarrow> u32 \<Rightarrow> u8 \<Rightarrow> u8 list \<Rightarrow> u8 list" where
  "tcp_segment src_port dst_port sq ack flags data =
     u16_be src_port @ u16_be dst_port @ u32_be sq @ u32_be ack @ [0x50] @ [flags] @ u16_be 65535 @ [0, 0] @ [0, 0] @ data"

definition tcp_send_seg :: "u8 list \<Rightarrow> u8 list \<Rightarrow> u16 \<Rightarrow> u16 \<Rightarrow> u32 \<Rightarrow> u32 \<Rightarrow> u8 \<Rightarrow> u8 list \<Rightarrow>
    'a net_state_scheme \<Rightarrow> 'a net_state_scheme" where
  "tcp_send_seg dst_ip dst_mac src_port dst_port sq ack flags data s =
    (let seg = tcp_segment src_port dst_port sq ack flags data in
     ip_send dst_ip dst_mac 6 (put_at seg 16 (u16_be (tcp_checksum MY_IP dst_ip seg))) s)"

section \<open>Receiving\<close>

definition handle_icmp :: "u8 list \<Rightarrow> u8 list \<Rightarrow> u8 list \<Rightarrow> 'a net_state_scheme \<Rightarrow> panic + 'a net_state_scheme" where
  "handle_icmp src_ip src_mac data s =
    (if data = [] then Inr s
     else if data ! 0 = 8 then
       if length data < 4 then Inl (Panic ''index out of bounds'')
       else let rep = put_at (data[0 := 0]) 2 [0, 0] in
         Inr (ip_send src_ip src_mac 1 (put_at rep 2 (u16_be (ip_checksum rep))) s)
     else if data ! 0 = 0 \<and> 8 \<le> length data then Inr (s\<lparr>PING_REPLY := Some (be_u16 (sub_slice data 6 8))\<rparr>)
     else Inr s)"

definition handle_udp :: "u8 list \<Rightarrow> 'a net_state_scheme \<Rightarrow> 'a net_state_scheme" where
  "handle_udp data s = s"

definition header_len :: "u8 list \<Rightarrow> nat" where
  "header_len data = unat (data ! 0 AND 0x0F) * 4"

definition handle_ip :: "u8 list \<Rightarrow> u8 list \<Rightarrow> 'a net_state_scheme \<Rightarrow> panic + 'a net_state_scheme" where
  "handle_ip eth_src data s =
    (if length data < 20 then Inr s
     else if sub_slice data 16 20 \<noteq> MY_IP then Inr s
     else if length data < header_len data then Inr s
     else if data ! 9 = 1 then handle_icmp (sub_slice data 12 16) eth_src (drop (header_len data) data) s
     else if data ! 9 = 17 then Inr (handle_udp (drop (header_len data) data) s)
     else Inr s)"

definition handle_frame :: "u8 list \<Rightarrow> 'a net_state_scheme \<Rightarrow> panic + 'a net_state_scheme" where
  "handle_frame frame s =
    (if length frame < 14 then Inr s
     else let etype = be_u16 (sub_slice frame 12 14) in
       if etype = 0x0806 then Inr (handle_arp (drop 14 frame) s)
       else if etype = 0x0800 then handle_ip (sub_slice frame 6 12) (drop 14 frame) s
       else Inr s)"

definition tcp_parse :: "u8 list \<Rightarrow> (u16 \<times> u16 \<times> u32 \<times> u8 \<times> u8 list) option" where
  "tcp_parse data =
    (if length data < 20 then None
     else let doff = unat (drop_bit 4 (data ! 12)) * 4 in
       if length data < doff then None
       else Some (be_u16 (sub_slice data 0 2), be_u16 (sub_slice data 2 4), be_u32 (sub_slice data 4 8), data ! 13, drop doff data))"

definition parse_ip :: "u8 list \<Rightarrow> u8 list option" where
  "parse_ip str = (case split_on 46 str of
     [a, b, c, d] \<Rightarrow> (case (parse_nat 255 a, parse_nat 255 b, parse_nat 255 c, parse_nat 255 d) of
       (Some a, Some b, Some c, Some d) \<Rightarrow> Some [word_of_nat a, word_of_nat b, word_of_nat c, word_of_nat d]
     | _ \<Rightarrow> None)
   | _ \<Rightarrow> None)"

text \<open>The position after the question name, or none when the name runs past the message.\<close>

function skip_question :: "u8 list \<Rightarrow> nat \<Rightarrow> nat option" where
  "skip_question dns pos =
    (if length dns \<le> pos then None
     else if dns ! pos = 0 then Some (pos + 1)
     else if dns ! pos AND 0xC0 = 0xC0 then Some (pos + 2)
     else skip_question dns (pos + 1 + unat (dns ! pos)))"
  by pat_completeness auto

termination
  by (relation "measure (\<lambda>(dns, pos). length dns - pos)") auto

function skip_name :: "u8 list \<Rightarrow> nat \<Rightarrow> nat" where
  "skip_name dns pos = (if pos < length dns \<and> dns ! pos \<noteq> 0 then skip_name dns (pos + 1 + unat (dns ! pos)) else pos)"
  by pat_completeness auto

termination
  by (relation "measure (\<lambda>(dns, pos). length dns - pos)") auto

declare skip_question.simps [simp del] skip_name.simps [simp del]

fun walk_answers :: "nat \<Rightarrow> u8 list \<Rightarrow> nat \<Rightarrow> u8 list option" where
  "walk_answers 0 dns pos = None"
| "walk_answers (Suc k) dns pos =
    (if length dns < pos + 10 then None
     else let pos = (if dns ! pos AND 0xC0 = 0xC0 then pos + 2 else skip_name dns pos + 1) in
       if length dns < pos + 10 then None
       else let rtype = be_u16 (sub_slice dns pos (pos + 2)); rdlen = unat (be_u16 (sub_slice dns (pos + 8) (pos + 10))) in
         if rtype = 1 \<and> rdlen = 4 \<and> pos + 10 + 4 \<le> length dns then Some (sub_slice dns (pos + 10) (pos + 14))
         else walk_answers k dns (pos + 10 + rdlen))"

definition parse_dns_answer :: "u8 list \<Rightarrow> u8 list option" where
  "parse_dns_answer dns =
    (if length dns < 12 then None
     else let ancount = unat (be_u16 (sub_slice dns 6 8)) in
       if ancount = 0 then None
       else case skip_question dns 12 of None \<Rightarrow> None | Some pos \<Rightarrow> walk_answers ancount dns (pos + 4))"

section \<open>Network jobs\<close>

definition next_src_port :: "'a net_state_scheme \<Rightarrow> u16 \<times> 'a net_state_scheme" where
  "next_src_port s = (let p = NEXT_SRC_PORT s; s = s\<lparr>NEXT_SRC_PORT := p + 1\<rparr> in
     if p = 0 then (49152, s\<lparr>NEXT_SRC_PORT := 49153\<rparr>) else (p, s))"

definition rdtsc :: "'a net_state_scheme \<Rightarrow> u64 \<times> 'a net_state_scheme" where
  "rdtsc s = (tsc s (tsc_reads s), s\<lparr>tsc_reads := tsc_reads s + 1\<rparr>)"

definition saturating_mul :: "u64 \<Rightarrow> u64 \<Rightarrow> u64" where
  "saturating_mul a b = (if unat a * unat b < 2 ^ 64 then a * b else - 1)"

definition tsc_deadline :: "u64 \<Rightarrow> 'a net_state_scheme \<Rightarrow> u64 \<times> 'a net_state_scheme" where
  "tsc_deadline ms s = (case rdtsc s of (t, s) \<Rightarrow> (t + saturating_mul (TSC_PER_MS s) ms, s))"

definition tsc_expired :: "u64 \<Rightarrow> 'a net_state_scheme \<Rightarrow> bool \<times> 'a net_state_scheme" where
  "tsc_expired deadline s = (case rdtsc s of (t, s) \<Rightarrow> (t - deadline < (- 1) div 2, s))"

definition job_in_progress :: "'a net_state_scheme \<Rightarrow> bool" where
  "job_in_progress s \<longleftrightarrow> NET_JOB s \<noteq> None"

definition dns_labels :: "u8 list \<Rightarrow> u8 list" where
  "dns_labels host = concat (map (\<lambda>l. word_of_nat (length l) # l) (filter (\<lambda>l. l \<noteq> []) (split_on 46 host)))"

definition dns_query :: "u16 \<Rightarrow> u8 list \<Rightarrow> u8 list" where
  "dns_query tx host = u16_be tx @ [0x01, 0x00] @ [0x00, 0x01] @ [0x00, 0x00] @ [0x00, 0x00] @ [0x00, 0x00] @
     dns_labels host @ [0] @ [0x00, 0x01] @ [0x00, 0x01]"

definition build_resolve_job :: "u8 list \<Rightarrow> NextAction \<Rightarrow> 'a net_state_scheme \<Rightarrow> panic + (NetJob \<times> 'a net_state_scheme)" where
  "build_resolve_job host nxt s =
    (case rdtsc s of (t, s) \<Rightarrow>
     let tx = ucast (t AND 0xFFFF) in
     rbind (udp_send [10, 0, 2, 3] GW_MAC 53000 53 (dns_query tx host) s) (\<lambda>s.
     case tsc_deadline 2000 s of (d, s) \<Rightarrow> Inr (Resolve host [10, 0, 2, 3] 53000 tx d nxt, s)))"

definition build_tcp_job :: "u8 list \<Rightarrow> u16 \<Rightarrow> u8 list \<Rightarrow> 'a net_state_scheme \<Rightarrow> NetJob \<times> 'a net_state_scheme" where
  "build_tcp_job ip port req s =
    (case next_src_port s of (src_port, s) \<Rightarrow> case rdtsc s of (t, s) \<Rightarrow>
     let isn = ucast t OR 1; s = tcp_send_seg ip GW_MAC src_port port isn 0 TCP_SYN [] s in
     case tsc_deadline 3000 s of (d, s) \<Rightarrow>
       (Tcp \<lparr>tcp_ip = ip, tcp_port = port, tcp_src_port = src_port, tcp_seq = isn, tcp_ack = 0, tcp_state = 0,
         tcp_rx = [], tcp_req = req, tcp_deadline = d\<rparr>, s))"

definition build_udp_job :: "u8 list \<Rightarrow> u16 \<Rightarrow> u8 list \<Rightarrow> 'a net_state_scheme \<Rightarrow> panic + (NetJob \<times> 'a net_state_scheme)" where
  "build_udp_job ip port msg s =
    (case rdtsc s of (t, s) \<Rightarrow>
     let src_port = 51000 + (ucast t :: u16) mod 1000 in
     rbind (udp_send ip GW_MAC src_port port msg s) (\<lambda>s.
     case tsc_deadline 3000 s of (d, s) \<Rightarrow> Inr (Udp src_port d, s)))"

definition start_ping :: "nat \<Rightarrow> u8 list \<Rightarrow> 'a net_state_scheme \<Rightarrow> string option \<times> 'a net_state_scheme" where
  "start_ping issuer target s =
    (if job_in_progress s then (Some ''a network operation is already in progress'', s)
     else if rtl8139_NIC s = None \<and> e1000_NIC s = None then (Some ''no NIC found'', s)
     else case ping_send target GW_MAC (s\<lparr>PING_REPLY := None\<rparr>) of (sq, s) \<Rightarrow>
       case tsc_deadline 250 s of (d, s) \<Rightarrow> (None, s\<lparr>NET_JOB := Some (issuer, Ping target sq d)\<rparr>))"

definition http_request :: "u8 list \<Rightarrow> u8 list \<Rightarrow> u8 list" where
  "http_request path host = str_bytes ''GET '' @ path @ str_bytes '' HTTP/1.0'' @ [13, 10] @ str_bytes ''Host: '' @ host @
     [13, 10] @ str_bytes ''Connection: close'' @ [13, 10, 13, 10]"

definition start_wget :: "nat \<Rightarrow> u8 list \<Rightarrow> u16 \<Rightarrow> u8 list \<Rightarrow> 'a net_state_scheme \<Rightarrow> panic + (string option \<times> 'a net_state_scheme)" where
  "start_wget issuer host port path s =
    (if job_in_progress s then Inr (Some ''a network operation is already in progress'', s)
     else rbind (case parse_ip host of
         Some ip \<Rightarrow> Inr (build_tcp_job ip port (http_request path host) s)
       | None \<Rightarrow> build_resolve_job host (NextTcp port (http_request path host)) s) (\<lambda>(job, s).
       Inr (None, s\<lparr>NET_JOB := Some (issuer, job)\<rparr>)))"

definition start_udp_cmd :: "nat \<Rightarrow> u8 list \<Rightarrow> u16 \<Rightarrow> u8 list \<Rightarrow> 'a net_state_scheme \<Rightarrow> panic + (string option \<times> 'a net_state_scheme)" where
  "start_udp_cmd issuer host port msg s =
    (if job_in_progress s then Inr (Some ''a network operation is already in progress'', s)
     else rbind (case parse_ip host of
         Some ip \<Rightarrow> build_udp_job ip port msg s
       | None \<Rightarrow> build_resolve_job host (NextUdp port msg) s) (\<lambda>(job, s).
       Inr (None, s\<lparr>NET_JOB := Some (issuer, job)\<rparr>)))"

datatype JobOutcome = Pending | Done "u8 list" | Replace NetJob

definition format_wget_result :: "u8 list \<Rightarrow> u8 list" where
  "format_wget_result body =
    (let lim = min (length body) 4096;
         str = (if utf8_valid (take lim body) then take lim body else str_bytes ''(non-UTF-8 response)'') in
     if lim < length body
     then str @ [10, 91, 0xE2, 0x80, 0xA6, 32] @ decimal (length body - lim) @ str_bytes '' bytes truncated]'' @ [10]
     else str @ [10])"

definition dotted :: "u8 list \<Rightarrow> u8 list" where
  "dotted ip = decimal (unat (ip ! 0)) @ [46] @ decimal (unat (ip ! 1)) @ [46] @ decimal (unat (ip ! 2)) @ [46] @ decimal (unat (ip ! 3))"

definition process_ping :: "u8 list \<Rightarrow> u16 \<Rightarrow> u64 \<Rightarrow> u8 list \<Rightarrow> 'a net_state_scheme \<Rightarrow>
    panic + ((NetJob \<times> JobOutcome) \<times> 'a net_state_scheme)" where
  "process_ping target sq d frame s =
    rbind (handle_frame frame s) (\<lambda>s.
    Inr ((Ping target sq d,
      (if PING_REPLY s = Some sq
       then Done (str_bytes ''reply from '' @ dotted target @ str_bytes '': seq='' @ decimal (unat sq)) else Pending)), s))"

definition start_next :: "NextAction \<Rightarrow> u8 list \<Rightarrow> 'a net_state_scheme \<Rightarrow> panic + (NetJob \<times> 'a net_state_scheme)" where
  "start_next nxt ip s = (case nxt of NextTcp port req \<Rightarrow> Inr (build_tcp_job ip port req s)
     | NextUdp port msg \<Rightarrow> build_udp_job ip port msg s)"

definition dns_reply :: "u8 list \<Rightarrow> u16 \<Rightarrow> u16 \<Rightarrow> u8 list \<Rightarrow> u8 list option" where
  "dns_reply dip src_port tx ip_hdr =
    (if ip_hdr ! 9 \<noteq> 17 then None
     else if sub_slice ip_hdr 12 16 \<noteq> dip then None
     else if length ip_hdr < header_len ip_hdr + 8 then None
     else let udp = drop (header_len ip_hdr) ip_hdr; dns = drop 8 udp in
       if be_u16 (sub_slice udp 0 2) \<noteq> 53 then None
       else if be_u16 (sub_slice udp 2 4) \<noteq> src_port then None
       else if length dns < 12 then None
       else if be_u16 (sub_slice dns 0 2) \<noteq> tx then None
       else if dns ! 2 AND 0x80 = 0 then None
       else Some dns)"

definition process_resolve :: "NetJob \<Rightarrow> u8 list \<Rightarrow> 'a net_state_scheme \<Rightarrow>
    panic + ((NetJob \<times> JobOutcome) \<times> 'a net_state_scheme)" where
  "process_resolve job ip_hdr s =
    (case dns_reply (dns_ip job) (dns_src_port job) (txid job) ip_hdr of
       None \<Rightarrow> Inr ((job, Pending), s)
     | Some dns \<Rightarrow> (case parse_dns_answer dns of
         None \<Rightarrow> Inr ((job, Done (str_bytes ''could not resolve host'')), s)
       | Some ip \<Rightarrow> rbind (start_next (dns_next job) ip s) (\<lambda>(j, s).
           Inr ((Resolve (hostname job) (dns_ip job) (dns_src_port job) (txid job) (dns_deadline job) (NextUdp 0 []), Replace j), s))))"

definition tcp_reply :: "TcpJob \<Rightarrow> u8 \<Rightarrow> u8 list \<Rightarrow> 'a net_state_scheme \<Rightarrow> 'a net_state_scheme" where
  "tcp_reply j flags data s =
     tcp_send_seg (tcp_ip j) GW_MAC (tcp_src_port j) (tcp_port j) (tcp_seq j) (tcp_ack j) flags data s"

definition tcp_input :: "TcpJob \<Rightarrow> u32 \<Rightarrow> u8 \<Rightarrow> u8 list \<Rightarrow> 'a net_state_scheme \<Rightarrow>
    (TcpJob \<times> JobOutcome) \<times> 'a net_state_scheme" where
  "tcp_input j seg_seq flags payload s =
    (if tcp_state j = 0 then
       if flags AND (TCP_SYN OR TCP_ACK) = TCP_SYN OR TCP_ACK then
         let j = j\<lparr>tcp_seq := tcp_seq j + 1, tcp_ack := seg_seq + 1\<rparr>;
             s = tcp_reply j (TCP_PSH OR TCP_ACK) (tcp_req j) (tcp_reply j TCP_ACK [] s)
         in ((j\<lparr>tcp_seq := tcp_seq j + word_of_nat (length (tcp_req j)), tcp_state := 1\<rparr>, Pending), s)
       else ((j, Pending), s)
     else if tcp_state j = 1 then
       let (j, s) = (if payload \<noteq> [] then
             let j = j\<lparr>tcp_rx := tcp_rx j @ payload, tcp_ack := seg_seq + word_of_nat (length payload)\<rparr>
             in (j, tcp_reply j TCP_ACK [] s) else (j, s))
       in if flags AND TCP_FIN \<noteq> 0 then
            let j = j\<lparr>tcp_ack := tcp_ack j + 1\<rparr>
            in ((j, Done (format_wget_result (tcp_rx j))), tcp_reply j (TCP_FIN OR TCP_ACK) [] s)
          else ((j, Pending), s)
     else ((j, Pending), s))"

definition process_tcp :: "TcpJob \<Rightarrow> u8 list \<Rightarrow> 'a net_state_scheme \<Rightarrow> (TcpJob \<times> JobOutcome) \<times> 'a net_state_scheme" where
  "process_tcp j ip_hdr s =
    (if ip_hdr ! 9 = 1 then
       ((j, if header_len ip_hdr < length ip_hdr \<and> ip_hdr ! header_len ip_hdr = 3
            then Done (str_bytes ''wget: unreachable'') else Pending), s)
     else if ip_hdr ! 9 \<noteq> 6 then ((j, Pending), s)
     else if sub_slice ip_hdr 12 16 \<noteq> tcp_ip j \<or> sub_slice ip_hdr 16 20 \<noteq> MY_IP then ((j, Pending), s)
     else let ip_body = take (unat (be_u16 (sub_slice ip_hdr 2 4))) ip_hdr in
       if length ip_body < header_len ip_hdr then ((j, Pending), s)
       else case tcp_parse (drop (header_len ip_hdr) ip_body) of
           None \<Rightarrow> ((j, Pending), s)
         | Some (sp, dp, seg_seq, flags, payload) \<Rightarrow>
             if sp \<noteq> tcp_port j \<or> dp \<noteq> tcp_src_port j then ((j, Pending), s)
             else if flags AND TCP_RST \<noteq> 0 then ((j, Done (str_bytes ''wget: connection refused'')), s)
             else tcp_input j seg_seq flags payload s)"

definition udp_result :: "u16 \<Rightarrow> u8 list \<Rightarrow> JobOutcome" where
  "udp_result src_port ip_hdr =
    (if ip_hdr ! 9 \<noteq> 17 then Pending
     else if length ip_hdr < header_len ip_hdr + 8 then Pending
     else let udp = drop (header_len ip_hdr) ip_hdr in
       if be_u16 (sub_slice udp 2 4) \<noteq> src_port then Pending
       else let ulen = unat (be_u16 (sub_slice udp 4 6)) in
         if ulen < 8 \<or> length udp < ulen then Pending
         else let payload = sub_slice udp 8 ulen in
           Done (str_bytes ''Reply from '' @ dotted (sub_slice ip_hdr 12 16) @ [58] @ decimal (unat (be_u16 (sub_slice udp 0 2))) @
             str_bytes '' ('' @ decimal (length payload) @ str_bytes '' bytes):'' @ [10] @
             (if utf8_valid payload then payload else str_bytes ''(non-UTF-8)'') @ [10]))"

definition process_frame :: "NetJob \<Rightarrow> u8 list \<Rightarrow> 'a net_state_scheme \<Rightarrow>
    panic + ((NetJob \<times> JobOutcome) \<times> 'a net_state_scheme)" where
  "process_frame job frame s =
    (if length frame < 14 then Inr ((job, Pending), s)
     else if be_u16 (sub_slice frame 12 14) \<noteq> 0x0800 then Inr ((job, Pending), s)
     else let ip_hdr = drop 14 frame in
       if length ip_hdr < 20 then Inr ((job, Pending), s)
       else case job of
           Ping target sq d \<Rightarrow> process_ping target sq d frame s
         | Resolve _ _ _ _ _ _ \<Rightarrow> process_resolve job ip_hdr s
         | Tcp j \<Rightarrow> (case process_tcp j ip_hdr s of ((j, out), s) \<Rightarrow> Inr ((Tcp j, out), s))
         | Udp src_port d \<Rightarrow> Inr ((job, udp_result src_port ip_hdr), s))"

definition job_deadline :: "NetJob \<Rightarrow> u64" where
  "job_deadline job = (case job of Ping _ _ d \<Rightarrow> d | Resolve _ _ _ _ d _ \<Rightarrow> d | Tcp j \<Rightarrow> tcp_deadline j | Udp _ d \<Rightarrow> d)"

definition job_timeout_message :: "NetJob \<Rightarrow> u8 list" where
  "job_timeout_message job = (case job of
     Ping target _ _ \<Rightarrow> str_bytes ''ping: timeout ('' @ dotted target @ [41]
   | Resolve host _ _ _ _ _ \<Rightarrow> str_bytes ''could not resolve host: '' @ host
   | Tcp _ \<Rightarrow> str_bytes ''wget: timeout '' @ [0xE2, 0x80, 0x94] @ str_bytes '' no response''
   | Udp _ _ \<Rightarrow> str_bytes ''udp: no reply within timeout (datagram sent either way)'')"

text \<open>
  The loop of \<open>poll\<close> that drains the card, each frame handed to the job in progress; the flag says whether \<open>poll\<close>
  returns from inside the loop, without it the card had no frame and the job is still pending. The loop need not
  end: \<open>None\<close> is not having returned within the given number of rounds. \<open>upcoming s k\<close> is what the \<open>k\<close>-th receive from
  now on finds.
\<close>

definition upcoming :: "'a net_state_scheme \<Rightarrow> nat \<Rightarrow> u8 list option" where
  "upcoming s = (\<lambda>k. case rtl8139_NIC s of Some n \<Rightarrow> nic_rx n (nic_reads n + k)
     | None \<Rightarrow> (case e1000_NIC s of Some n \<Rightarrow> nic_rx n (nic_reads n + k) | None \<Rightarrow> None))"

fun drain :: "nat \<Rightarrow> 'a net_state_scheme \<Rightarrow> (panic + ((nat \<times> u8 list) option \<times> bool \<times> 'a net_state_scheme)) option" where
  "drain 0 s = None"
| "drain (Suc fuel) s =
    (case NET_JOB s of None \<Rightarrow> Some (Inr (None, True, s))
     | Some (issuer, job) \<Rightarrow> (case with_nic_recv s of
         (None, s) \<Rightarrow> Some (Inr (None, False, s))
       | (Some f, s) \<Rightarrow> (case process_frame job f s of
           Inl e \<Rightarrow> Some (Inl e)
         | Inr ((job, Pending), s) \<Rightarrow> drain fuel (s\<lparr>NET_JOB := Some (issuer, job)\<rparr>)
         | Inr ((job, Done msg), s) \<Rightarrow> Some (Inr (Some (issuer, msg), True, s\<lparr>NET_JOB := None\<rparr>))
         | Inr ((job, Replace newjob), s) \<Rightarrow> drain fuel (s\<lparr>NET_JOB := Some (issuer, newjob)\<rparr>))))"

definition poll :: "nat \<Rightarrow> 'a net_state_scheme \<Rightarrow> (panic + ((nat \<times> u8 list) option \<times> 'a net_state_scheme)) option" where
  "poll fuel s = (case drain fuel s of
     None \<Rightarrow> None
   | Some (Inl e) \<Rightarrow> Some (Inl e)
   | Some (Inr (r, True, s)) \<Rightarrow> Some (Inr (r, s))
   | Some (Inr (r, False, s)) \<Rightarrow> (case NET_JOB s of
       None \<Rightarrow> Some (Inr (None, s))
     | Some (issuer, job) \<Rightarrow> (case tsc_expired (job_deadline job) s of (late, s) \<Rightarrow>
         if late then Some (Inr (Some (issuer, job_timeout_message job), s\<lparr>NET_JOB := None\<rparr>)) else Some (Inr (None, s)))))"

section \<open>Checksums\<close>

fun wsum :: "u8 list \<Rightarrow> nat" where
  "wsum (a # b # r) = unat a * 256 + unat b + wsum r"
| "wsum [a] = unat a * 256"
| "wsum [] = 0"

lemma be_nat_pair: "be_nat [a, b] = unat a * 256 + unat b"
  by (simp add: be_nat_def)

lemma unat_be_u16_pair: "unat (be_u16 [a, b]) = unat a * 256 + unat b"
proof -
  have "unat a < 256" "unat b < 256" by simp_all
  then have "unat a * 256 + unat b < 65536" by linarith
  then have "unat a * 256 + unat b < 2 ^ LENGTH(16)" by simp
  then show ?thesis unfolding be_u16_def be_nat_pair by (rule unat_of_nat_less)
qed

lemma wsum_bound: "wsum bs \<le> 65535 * length bs"
proof (induction bs rule: wsum.induct)
  case (1 a b r)
  have "unat a < 256" "unat b < 256" by simp_all
  then have "unat a * 256 + unat b \<le> 65535" by linarith
  then show ?case using 1 by simp
next
  case (2 a)
  have "unat a < 256" by simp
  then have "unat a * 256 \<le> 65535" by linarith
  then show ?case by simp
qed simp

lemma wsum_append: "even (length pre) \<Longrightarrow> wsum (pre @ bs) = wsum pre + wsum bs"
  by (induction pre rule: wsum.induct) simp_all

lemma unat_sum_words:
  "unat acc + wsum bs < 2 ^ 32 \<Longrightarrow> unat (sum_words bs acc) = unat acc + wsum bs"
proof (induction bs acc rule: sum_words.induct)
  case (1 a b r acc)
  have w: "unat (ucast (be_u16 [a, b]) :: u32) = unat a * 256 + unat b"
    by (simp add: unat_be_u16_pair unsigned_ucast_eq take_bit_eq_mod del: mod_mod_trivial)
      (use unat_be_u16_pair [of a b] unat_less_2p [of "be_u16 [a, b]"] in simp)
  have "unat acc + (unat a * 256 + unat b) < 2 ^ 32" using "1.prems" by simp
  then have "unat (acc + ucast (be_u16 [a, b])) = unat acc + (unat a * 256 + unat b)"
    using w by (simp add: unat_word_ariths)
  then show ?case using "1.IH" "1.prems" by simp
next
  case (2 a acc)
  have "unat (push_bit 8 (ucast a :: u32)) = unat a * 256"
  proof -
    have "unat a < 256" by simp
    then have "unat a * 256 < 65536" by linarith
    then have "unat a * 256 < 2 ^ 32" by (rule less_trans) simp
    then have "unat (word_of_nat (unat a * 256) :: u32) = unat a * 256" by (rule unat_u32_of_nat)
    moreover have "push_bit 8 (ucast a :: u32) = word_of_nat (unat a * 256)" by (simp add: push_bit_eq_mult)
    ultimately show ?thesis by simp
  qed
  then show ?case using 2 by (simp add: unat_word_ariths)
qed simp

lemma fold_carry_spec:
  "unat (fold_carry a) < 65536 \<and> unat (fold_carry a) mod 65535 = unat a mod 65535 \<and> (fold_carry a = 0 \<longleftrightarrow> a = 0)"
proof (induction a rule: fold_carry.induct)
  case (1 a)
  let ?b = "(a AND 0xFFFF) + drop_bit 16 a"
  show ?case
  proof (cases "drop_bit 16 a = 0")
    case True
    then have "unat a div 65536 = 0" using unat_high_half [of a] by simp
    then show ?thesis using True by (simp add: fold_carry.simps [of a] div_eq_0_iff)
  next
    case False
    have "unat a mod 65536 + unat a div 65536 \<le> unat a" using div_mult_mod_eq [of "unat a" 65536] by linarith
    also have "\<dots> < 2 ^ 32" by simp
    finally have b: "unat ?b = unat a mod 65536 + unat a div 65536"
      using unat_low_half [of a] unat_high_half [of a] by (simp add: unat_word_ariths)
    have "unat a = 65535 * (unat a div 65536) + unat ?b"
      using b div_mult_mod_eq [of "unat a" 65536] by linarith
    then have m: "unat ?b mod 65535 = unat a mod 65535" by (metis mod_mult_self3 mult.commute)
    have "unat a div 65536 \<noteq> 0" using False unat_high_half [of a] by (metis unat_0 unat_eq_iff)
    then have "?b \<noteq> 0" "a \<noteq> 0" using b by auto
    then show ?thesis using 1 [OF False] m False by (simp add: fold_carry.simps [of a])
  qed
qed

lemma unat_ip_checksum: "unat (ip_checksum bs) = 65535 - unat (fold_carry (sum_words bs 0))"
proof -
  define f where "f = fold_carry (sum_words bs 0)"
  have "unat f < 65536" using fold_carry_spec f_def by blast
  then have u: "unat (ucast f :: u16) = unat f" by (simp add: unsigned_ucast_eq take_bit_eq_mod)
  have "word_of_nat (65535 - unat f) = (65535 :: u16) - ucast f"
    using \<open>unat f < 65536\<close> u by (simp add: of_nat_diff)
  then have "NOT (ucast f) = (word_of_nat (65535 - unat f) :: u16)" by (simp add: not_eq_complement)
  then show ?thesis unfolding ip_checksum_def f_def [symmetric] by (simp add: unat_of_nat_less)
qed

lemma u16_be_unat: "wsum (u16_be w) = unat w" "length (u16_be w) = 2"
proof -
  obtain a b where ab: "u16_be w = [a, b]"
  proof -
    have "length (u16_be w) = Suc (Suc 0)" by (simp add: u16_be_def)
    then show thesis using that by (auto simp: length_Suc_conv)
  qed
  have "be_nat (u16_be w) = unat w"
    using unat_less_2p [of w] by (simp add: u16_be_def be_nat_be_bytes)
  then show "wsum (u16_be w) = unat w" "length (u16_be w) = 2" unfolding ab be_nat_pair by simp_all
qed

lemma checksum_field:
  assumes "even (length pre)" "length pre + length post < 2 ^ 15"
  shows "ip_checksum (pre @ u16_be (ip_checksum (pre @ [0, 0] @ post)) @ post) = 0"
proof -
  define S where "S = wsum pre + wsum post"
  define ck where "ck = ip_checksum (pre @ [0, 0] @ post)"
  define F where "F = fold_carry (sum_words (pre @ [0, 0] @ post) 0)"
  define G where "G = fold_carry (sum_words (pre @ u16_be ck @ post) 0)"
  have w: "wsum (pre @ [0, 0] @ post) = S" "wsum (pre @ u16_be ck @ post) = S + unat ck"
    using assms(1) wsum_append [of pre] wsum_append [of "u16_be ck" post] u16_be_unat [of ck]
    by (simp_all add: S_def)
  have S: "S < 65535 * 2 ^ 15" using wsum_bound [of pre] wsum_bound [of post] assms(2) unfolding S_def by linarith
  have ck: "unat ck = 65535 - unat F" unfolding ck_def F_def by (rule unat_ip_checksum)
  have us: "unat (sum_words (pre @ [0, 0] @ post) 0) = S" "unat (sum_words (pre @ u16_be ck @ post) 0) = S + unat ck"
    using unat_sum_words [of 0 "pre @ [0, 0] @ post"] unat_sum_words [of 0 "pre @ u16_be ck @ post"] w S ck by simp_all
  have F: "unat F < 65536" "unat F mod 65535 = S mod 65535" "F = 0 \<longleftrightarrow> S = 0"
    using fold_carry_spec [of "sum_words (pre @ [0, 0] @ post) 0"] us(1) unfolding F_def
    by (simp_all flip: unat_eq_iff)
  have G: "unat G < 65536" "unat G mod 65535 = (S + unat ck) mod 65535" "G = 0 \<longleftrightarrow> S + unat ck = 0"
    using fold_carry_spec [of "sum_words (pre @ u16_be ck @ post) 0"] us(2) unfolding G_def
    by (simp_all flip: unat_eq_iff)
  have "(S + unat ck) mod 65535 = (unat F + unat ck) mod 65535" using F(2) by (metis mod_add_left_eq)
  also have "\<dots> = 0" using F(1) ck by simp
  finally have "unat G mod 65535 = 0" using G(2) by simp
  moreover have "unat G \<noteq> 0"
  proof
    assume "unat G = 0"
    then have "S + unat ck = 0" using G(3) by (metis unat_0 unat_eq_iff)
    then show False using F(3) ck by simp
  qed
  ultimately have "\<not> unat G < 65535" by auto
  then have "unat G = 65535" using G(1) by linarith
  then have "unat (ip_checksum (pre @ u16_be ck @ post)) = unat (0 :: u16)"
    using unat_ip_checksum [of "pre @ u16_be ck @ post"] by (simp add: G_def)
  then show ?thesis unfolding ck_def [symmetric] by (simp only: unat_eq_iff)
qed

section \<open>Draining the card\<close>

lemma upcoming_fields [simp]:
  "upcoming (s\<lparr>PING_SEQ := a\<rparr>) = upcoming s" "upcoming (s\<lparr>PING_REPLY := b\<rparr>) = upcoming s"
  "upcoming (s\<lparr>NEXT_SRC_PORT := c\<rparr>) = upcoming s" "upcoming (s\<lparr>NET_JOB := d\<rparr>) = upcoming s"
  "upcoming (s\<lparr>tsc_reads := e\<rparr>) = upcoming s"
  by (simp_all add: upcoming_def fun_eq_iff cong: option.case_cong)

lemma upcoming_nic_send [simp]: "upcoming (with_nic_send f s) = upcoming s"
  by (simp add: with_nic_send_def upcoming_def fun_eq_iff split: option.splits)

lemma upcoming_eth_send [simp]: "upcoming (eth_send m t p s) = upcoming s"
  by (simp add: eth_send_def)

lemma upcoming_ip_send [simp]: "upcoming (ip_send i m pr p s) = upcoming s"
  by (simp add: ip_send_def Let_def)

lemma upcoming_tcp_reply [simp]:
  "upcoming (tcp_send_seg i m sp dp sq ak fl dt s) = upcoming s" "upcoming (tcp_reply j fl dt s) = upcoming s"
  by (simp_all add: tcp_reply_def tcp_send_seg_def Let_def)

lemma upcoming_arp [simp]: "upcoming (handle_arp dt s) = upcoming s"
  by (simp add: handle_arp_def)

lemma handle_frame_rx: "handle_frame f s = Inr s' \<Longrightarrow> upcoming s' = upcoming s"
  by (auto simp: handle_frame_def handle_ip_def handle_icmp_def handle_udp_def Let_def split: if_splits)

lemma udp_send_rx: "udp_send i m sp dp dt s = Inr s' \<Longrightarrow> upcoming s' = upcoming s"
  by (auto simp: udp_send_def split: if_splits)

lemma tsc_deadline_rx [simp]: "upcoming (snd (tsc_deadline ms s)) = upcoming s"
  by (simp add: tsc_deadline_def rdtsc_def)

lemma next_src_port_rx [simp]: "upcoming (snd (next_src_port s)) = upcoming s"
  by (simp add: next_src_port_def Let_def)

lemma build_tcp_job_rx: "upcoming (snd (build_tcp_job i p req s)) = upcoming s"
  by (simp add: build_tcp_job_def case_prod_beta rdtsc_def Let_def)

lemma build_udp_job_rx: "build_udp_job i p msg s = Inr (j, s') \<Longrightarrow> upcoming s' = upcoming s"
  by (auto simp: build_udp_job_def case_prod_beta rdtsc_def Let_def rbind_eq_Inr dest: udp_send_rx)

lemma start_next_rx: "start_next nxt ip s = Inr (j, s') \<Longrightarrow> upcoming s' = upcoming s"
proof (cases nxt)
  case (NextTcp port req)
  assume "start_next nxt ip s = Inr (j, s')"
  then have "s' = snd (build_tcp_job ip port req s)" by (simp add: start_next_def NextTcp)
  then show "upcoming s' = upcoming s" by (simp add: build_tcp_job_rx)
next
  case (NextUdp port msg)
  assume "start_next nxt ip s = Inr (j, s')"
  then show "upcoming s' = upcoming s" by (intro build_udp_job_rx) (simp add: start_next_def NextUdp)
qed

lemma process_tcp_rx [simp]: "upcoming (snd (process_tcp j h s)) = upcoming s"
  by (simp add: process_tcp_def tcp_input_def Let_def split: option.split)

lemma process_resolve_rx: "process_resolve job h s = Inr (r, s') \<Longrightarrow> upcoming s' = upcoming s"
  by (auto simp: process_resolve_def rbind_eq_Inr split: option.splits dest: start_next_rx)

lemma process_frame_rx:
  assumes "process_frame job f s = Inr (r, s')"
  shows "upcoming s' = upcoming s"
proof (cases job)
  case (Ping t q d)
  then show ?thesis using assms
    by (auto simp: process_frame_def process_ping_def Let_def rbind_eq_Inr split: if_splits dest: handle_frame_rx)
next
  case (Resolve a b c d e g)
  then show ?thesis using assms by (auto simp: process_frame_def Let_def split: if_splits dest: process_resolve_rx)
next
  case (Tcp j)
  then show ?thesis using assms process_tcp_rx [of j "drop 14 f" s]
    by (auto simp: process_frame_def Let_def case_prod_beta split: if_splits)
next
  case (Udp p d)
  then show ?thesis using assms by (auto simp: process_frame_def Let_def split: if_splits)
qed

lemma with_nic_recv_rx:
  "with_nic_recv s = (r, s') \<Longrightarrow> r = upcoming s 0 \<and> upcoming s' = (\<lambda>k. upcoming s (Suc k)) \<and> NET_JOB s' = NET_JOB s"
  by (auto simp: with_nic_recv_def nic_recv_def upcoming_def split: option.splits)

lemma drain_ends: "upcoming s n = None \<Longrightarrow> n < fuel \<Longrightarrow> \<exists>r. drain fuel s = Some r"
proof (induction fuel arbitrary: s n)
  case (Suc fuel)
  show ?case
  proof (cases "NET_JOB s")
    case (Some ij)
    obtain issuer job where ij: "ij = (issuer, job)" by (cases ij)
    obtain fr s1 where w: "with_nic_recv s = (fr, s1)" by (cases "with_nic_recv s")
    note q = with_nic_recv_rx [OF w]
    show ?thesis
    proof (cases fr)
      case (Some f)
      then obtain m where m: "n = Suc m" using q Suc.prems(1) by (cases n) auto
      show ?thesis
      proof (cases "process_frame job f s1")
        case (Inr r)
        obtain job' out s2 where r: "r = ((job', out), s2)" by (cases r) auto
        have "upcoming (s2\<lparr>NET_JOB := j\<rparr>) m = None" for j
          using process_frame_rx [of job f s1] Inr r q m Suc.prems(1) by simp
        then show ?thesis using Suc.IH [of _ m] Suc.prems(2) m \<open>NET_JOB s = Some ij\<close> ij w Some Inr r by (cases out) simp_all
      qed (use \<open>NET_JOB s = Some ij\<close> ij w Some in simp)
    qed (use \<open>NET_JOB s = Some ij\<close> ij w in simp)
  qed simp
qed simp

text \<open>The frames every job leaves alone: too short, not of type IPv4, or without room for an IP header.\<close>

definition irrelevant :: "u8 list \<Rightarrow> bool" where
  "irrelevant f \<longleftrightarrow> length f < 34 \<or> be_u16 (sub_slice f 12 14) \<noteq> 0x0800"

lemma drain_flooded:
  "NET_JOB s \<noteq> None \<Longrightarrow> \<forall>k. \<exists>f. upcoming s k = Some f \<and> irrelevant f \<Longrightarrow> drain fuel s = None"
proof (induction fuel arbitrary: s)
  case (Suc fuel)
  obtain issuer job where j: "NET_JOB s = Some (issuer, job)" using Suc.prems(1) by auto
  obtain fr s1 where w: "with_nic_recv s = (fr, s1)" by (cases "with_nic_recv s")
  note q = with_nic_recv_rx [OF w]
  obtain f where f: "fr = Some f" "irrelevant f" using q spec [OF Suc.prems(2), of 0] by auto
  have "process_frame job f s1 = Inr ((job, Pending), s1)" using f(2) by (auto simp: process_frame_def irrelevant_def Let_def)
  moreover have "drain fuel (s1\<lparr>NET_JOB := Some (issuer, job)\<rparr>) = None" using Suc.prems(2) q by (intro Suc.IH) simp_all
  ultimately show ?case using j w f(1) by simp
qed simp

section \<open>Properties\<close>

text \<open>
  filling in a checksum makes it verify: for a packet shorter than 32 KB whose checksum field, at an
  even offset, is zero, storing \<open>ip_checksum\<close> of it big-endian in that field gives a packet whose
  checksum is zero, which is what a receiver tests. \<open>ip_send\<close>, \<open>ping_send\<close>, \<open>handle_icmp\<close> and
  \<open>tcp_send_seg\<close> all fill their field this way.
\<close>

lemma ip_checksum_verifies:
  assumes "even k" "k + 2 \<le> length pkt" "length pkt < 2 ^ 15" "sub_slice pkt k (k + 2) = [0, 0]"
  shows "ip_checksum (put_at pkt k (u16_be (ip_checksum pkt))) = 0"
proof -
  have p: "pkt = take k pkt @ [0, 0] @ drop (k + 2) pkt"
    using assms(2,4) unfolding sub_slice_def
    by (metis add_diff_cancel_left' append_assoc append_take_drop_id drop_drop add.commute)
  have "ip_checksum (take k pkt @ u16_be (ip_checksum (take k pkt @ [0, 0] @ drop (k + 2) pkt)) @ drop (k + 2) pkt) = 0"
    using assms(1-3) by (intro checksum_field) simp_all
  then show ?thesis using p u16_be_unat(2) [of "ip_checksum pkt"] by (simp add: put_at_def)
qed

text \<open>
  \<open>tcp_parse\<close> reads back what \<open>tcp_send_seg\<close> puts in a segment, whatever the checksum: both ports,
  the sequence number, the flags and the data.
\<close>

lemma tcp_parse_segment:
  "tcp_parse (put_at (tcp_segment sp dp sq ack flags data) 16 (u16_be ck)) = Some (sp, dp, sq, flags, data)"
proof -
  have r: "be_u16 (u16_be w) = w" "be_u32 (u32_be v) = v" for w v
    using unat_less_2p [of w] unat_less_2p [of v]
    by (simp_all add: be_u16_def u16_be_def be_u32_def u32_be_def be_nat_be_bytes)
  have l: "length (u32_be v) = 4" for v by (simp add: u32_be_def)
  have d: "drop_bit 4 (0x50 :: u8) = 5" by (simp add: drop_bit_eq_div)
  show ?thesis
    by (simp add: tcp_parse_def tcp_segment_def put_at_def sub_slice_def u16_be_unat l r d nth_append Let_def)
qed

text \<open>
  \<open>parse_ip\<close> reads back the dotted notation the job messages print.
\<close>

lemma parse_ip_dotted: "parse_ip (dotted [a, b, c, d]) = Some [a, b, c, d]"
proof -
  have le: "unat x \<le> 255" for x :: u8
  proof -
    have "unat x < 256" by simp
    then show ?thesis by linarith
  qed
  have "split_on 46 (dotted [a, b, c, d]) = map (\<lambda>x. decimal (unat x)) [a, b, c, d]"
    by (simp add: dotted_def split_on_append split_on_part decimal_no_dot)
  then show ?thesis by (simp add: parse_ip_def parse_decimal le)
qed

text \<open>
  C19: the only frame that makes \<open>handle_frame\<close> panic is an ICMP echo request to this host with a body of
  one to three bytes: \<open>handle_icmp\<close> then clears a checksum field the packet does not have.
\<close>

theorem handle_frame_panics_iff:
  "(\<exists>e. handle_frame frame s = Inl e) \<longleftrightarrow>
    34 \<le> length frame \<and> be_u16 (sub_slice frame 12 14) = 0x0800 \<and> sub_slice frame 30 34 = MY_IP \<and> frame ! 23 = 1 \<and>
    (let hl = 14 + header_len (drop 14 frame) in
     hl < length frame \<and> length frame < hl + 4 \<and> frame ! hl = 8)"
proof (cases "34 \<le> length frame")
  case True
  have "sub_slice (drop 14 frame) 16 20 = sub_slice frame 30 34" by (simp add: sub_slice_def add.commute)
  then show ?thesis using True
    by (auto simp: handle_frame_def handle_ip_def handle_icmp_def Let_def add.commute [of 14])
qed (auto simp: handle_frame_def handle_ip_def Let_def)

text \<open>
  C18: when \<open>poll\<close> returns. If the card has no frame for some receive, \<open>poll\<close> comes to an end, with a result or a panic,
  within the rounds up to that receive, whatever arrives before it. If the card never runs dry, because frames arrive
  as fast as they are read, and a job is in progress that none of them concerns, \<open>poll\<close> never returns, however
  many rounds it is given: the deadline of the job is not looked at.
\<close>

theorem poll_returns_when_dry:
  "(upcoming s n = None \<longrightarrow> (\<forall>fuel > n. \<exists>r. poll fuel s = Some r)) \<and>
   (NET_JOB s \<noteq> None \<and> (\<forall>k. \<exists>f. upcoming s k = Some f \<and> irrelevant f) \<longrightarrow> (\<forall>fuel. poll fuel s = None))"
proof (intro conjI impI allI)
  fix fuel assume "upcoming s n = None" "n < fuel"
  then obtain r where "drain fuel s = Some r" using drain_ends by blast
  then show "\<exists>r. poll fuel s = Some r"
    by (cases r) (auto simp: poll_def case_prod_beta split: option.split bool.split)
next
  fix fuel assume "NET_JOB s \<noteq> None \<and> (\<forall>k. \<exists>f. upcoming s k = Some f \<and> irrelevant f)"
  then show "poll fuel s = None" using drain_flooded [of s fuel] by (simp add: poll_def)
qed

text \<open>A card that delivers the given frames and then nothing, or the last of them for ever.\<close>

definition example_net :: "(nat \<Rightarrow> u8 list option) \<Rightarrow> net_state" where
  "example_net rx = \<lparr>rtl8139_NIC = Some \<lparr>nic_mac = [2, 0, 0, 0, 0, 1], nic_rx = rx, nic_reads = 0, nic_tx = []\<rparr>, e1000_NIC = None,
     PING_SEQ = 1, PING_REPLY = None, NEXT_SRC_PORT = 49152, NET_JOB = Some (3, Ping [10, 0, 2, 2] 1 1000), TSC_PER_MS = 1,
     tsc = \<lambda>k. word_of_nat k, tsc_reads = 0\<rparr>"

theorem poll_returns_when_dry_witness:
  "(\<exists>r. poll 3 (example_net (\<lambda>k. if k < 2 then Some [1, 2, 3] else None)) = Some r) \<and>
   (\<forall>fuel. poll fuel (example_net (\<lambda>k. Some [1, 2, 3])) = None)"
proof -
  have "upcoming (example_net (\<lambda>k. if k < 2 then Some [1, 2, 3] else None)) 2 = None"
    by (simp add: upcoming_def example_net_def)
  moreover have "NET_JOB (example_net (\<lambda>k. Some [1, 2, 3])) \<noteq> None"
    "\<forall>k. \<exists>f. upcoming (example_net (\<lambda>k. Some [1, 2, 3])) k = Some f \<and> irrelevant f"
    by (simp_all add: upcoming_def example_net_def irrelevant_def)
  ultimately show ?thesis
    using poll_returns_when_dry [of "example_net (\<lambda>k. if k < 2 then Some [1, 2, 3] else None)" 2]
      poll_returns_when_dry [of "example_net (\<lambda>k. Some [1, 2, 3])" 0] by simp
qed

end
