(* ===== verification/Input.thy ===== *)
theory Input
  imports Rust_Text
begin

text \<open>
  Keyboard and mouse input of \<open>kernel/src/ps2.rs\<close> and \<open>kernel/src/mouse.rs\<close>: the circular key buffer,
  scancode decoding with its modifier state, the three-byte mouse packets, and the polling loops over the
  bytes the controller holds, each tagged with the device it came from.
\<close>

section \<open>The key buffer\<close>

definition BUF_SIZE :: nat where "BUF_SIZE = 64"

record KeyBuf =
  kb_buf :: "u8 list"
  kb_head :: nat
  kb_tail :: nat

definition KeyBuf_new :: KeyBuf where
  "KeyBuf_new = \<lparr>kb_buf = replicate BUF_SIZE 0, kb_head = 0, kb_tail = 0\<rparr>"

definition kb_push :: "u8 \<Rightarrow> KeyBuf \<Rightarrow> KeyBuf" where
  "kb_push c k = (let nxt = (kb_tail k + 1) mod BUF_SIZE in
     if nxt \<noteq> kb_head k then k\<lparr>kb_buf := (kb_buf k)[kb_tail k := c], kb_tail := nxt\<rparr> else k)"

definition kb_pop :: "KeyBuf \<Rightarrow> u8 option \<times> KeyBuf" where
  "kb_pop k = (if kb_head k = kb_tail k then (None, k)
     else (Some (kb_buf k ! kb_head k), k\<lparr>kb_head := (kb_head k + 1) mod BUF_SIZE\<rparr>))"

section \<open>Scancodes\<close>

definition SCANCODE_MAP :: "u8 list" where
  "SCANCODE_MAP = [0, 0x1B] @ str_bytes ''1234567890-='' @ [8, 9] @ str_bytes ''qwertyuiop[]'' @ [10, 0] @
     str_bytes ''asdfghjkl;'' @ [39, 96, 0, 92] @ str_bytes ''zxcvbnm,./'' @ [0, 42, 0, 32]"

definition SHIFT_MAP :: "u8 list" where
  "SHIFT_MAP = [0, 0x1B] @ str_bytes ''!@#$%^&*()_+'' @ [8, 9] @ str_bytes ''QWERTYUIOP{}'' @ [10, 0] @
     str_bytes ''ASDFGHJKL:'' @ [34, 126, 0, 124] @ str_bytes ''ZXCVBNM<>?'' @ [0, 42, 0, 32]"

record MouseState =
  m_x :: int
  m_y :: int
  m_buttons :: u8
  m_cycle :: u8
  m_packet :: "u8 list"

record input_state =
  KEYBUF :: KeyBuf
  EXTENDED :: bool
  SHIFT :: bool
  CAPS :: bool
  CTRL :: bool
  MOUSE :: MouseState
  i8042 :: "(bool \<times> u8) list"

definition shift_held :: "'a input_state_scheme \<Rightarrow> bool" where "shift_held s = SHIFT s"
definition ctrl_held :: "'a input_state_scheme \<Rightarrow> bool" where "ctrl_held s = CTRL s"

definition KEY_UP :: u8 where "KEY_UP = 0x80"
definition KEY_DOWN :: u8 where "KEY_DOWN = 0x81"
definition KEY_LEFT :: u8 where "KEY_LEFT = 0x82"
definition KEY_RIGHT :: u8 where "KEY_RIGHT = 0x83"
definition KEY_DEL :: u8 where "KEY_DEL = 0x84"
definition KEY_HOME :: u8 where "KEY_HOME = 0x85"
definition KEY_END :: u8 where "KEY_END = 0x86"
definition KEY_PGUP :: u8 where "KEY_PGUP = 0x87"
definition KEY_PGDN :: u8 where "KEY_PGDN = 0x88"

definition push_key :: "u8 \<Rightarrow> 'a input_state_scheme \<Rightarrow> 'a input_state_scheme" where
  "push_key ch s = (if ch \<noteq> 0 then s\<lparr>KEYBUF := kb_push ch (KEYBUF s)\<rparr> else s)"

definition extended_key :: "u8 \<Rightarrow> u8" where
  "extended_key sc = (if sc = 0x48 then KEY_UP else if sc = 0x50 then KEY_DOWN else if sc = 0x4B then KEY_LEFT
     else if sc = 0x4D then KEY_RIGHT else if sc = 0x53 then KEY_DEL else if sc = 0x47 then KEY_HOME
     else if sc = 0x4F then KEY_END else if sc = 0x49 then KEY_PGUP else if sc = 0x51 then KEY_PGDN else 0)"

definition is_ascii_lowercase :: "u8 \<Rightarrow> bool" where "is_ascii_lowercase b \<longleftrightarrow> 97 \<le> b \<and> b \<le> 122"
definition is_ascii_uppercase :: "u8 \<Rightarrow> bool" where "is_ascii_uppercase b \<longleftrightarrow> 65 \<le> b \<and> b \<le> 90"

definition plain_key :: "bool \<Rightarrow> bool \<Rightarrow> bool \<Rightarrow> u8 \<Rightarrow> u8" where
  "plain_key shift caps ctrl base_sc =
    (let sc = unat base_sc;
         raw = (if shift \<and> sc < length SHIFT_MAP then SHIFT_MAP ! sc
                else if sc < length SCANCODE_MAP then SCANCODE_MAP ! sc else 0);
         raw = (if caps \<and> is_ascii_lowercase raw then raw - 32
                else if caps \<and> is_ascii_uppercase raw then raw + 32 else raw)
     in if ctrl \<and> is_ascii_lowercase raw then raw - 0x60 else raw)"

definition handle_scancode :: "u8 \<Rightarrow> 'a input_state_scheme \<Rightarrow> 'a input_state_scheme" where
  "handle_scancode sc s =
    (if sc = 0xE0 then s\<lparr>EXTENDED := True\<rparr>
     else let ext = EXTENDED s; s = s\<lparr>EXTENDED := False\<rparr>;
              release = (sc AND 0x80 \<noteq> 0); base_sc = sc AND 0x7F in
       if base_sc = 0x2A \<or> base_sc = 0x36 then s\<lparr>SHIFT := \<not> release\<rparr>
       else if base_sc = 0x1D then s\<lparr>CTRL := \<not> release\<rparr>
       else if base_sc = 0x3A \<and> \<not> release then s\<lparr>CAPS := \<not> CAPS s\<rparr>
       else if release then s
       else if ext then push_key (extended_key base_sc) s
       else if 0x3B \<le> base_sc \<and> base_sc \<le> 0x44 then push_key (0x90 + (base_sc - 0x3A)) s
       else push_key (plain_key (SHIFT s) (CAPS s) (CTRL s) base_sc) s)"

definition read_char :: "'a input_state_scheme \<Rightarrow> u8 option \<times> 'a input_state_scheme" where
  "read_char s = (case kb_pop (KEYBUF s) of (c, k) \<Rightarrow> (c, s\<lparr>KEYBUF := k\<rparr>))"

definition try_read_char :: "bool \<Rightarrow> 'a input_state_scheme \<Rightarrow> u8 option \<times> 'a input_state_scheme" where
  "try_read_char locked s = (if locked then (None, s) else read_char s)"

fun ps2_poll :: "(bool \<times> u8) list \<Rightarrow> 'a input_state_scheme \<Rightarrow> 'a input_state_scheme" where
  "ps2_poll [] s = s\<lparr>i8042 := []\<rparr>"
| "ps2_poll ((aux, b) # q) s = (if aux then s\<lparr>i8042 := (aux, b) # q\<rparr> else ps2_poll q (handle_scancode b s))"

section \<open>The mouse\<close>

definition wrap_i32 :: "int \<Rightarrow> int" where
  "wrap_i32 n = (n + 2 ^ 31) mod 2 ^ 32 - 2 ^ 31"

definition MouseState_new :: MouseState where
  "MouseState_new = \<lparr>m_x = 400, m_y = 300, m_buttons = 0, m_cycle = 0, m_packet = [0, 0, 0]\<rparr>"

definition clamp_i32 :: "int \<Rightarrow> int \<Rightarrow> int \<Rightarrow> panic + int" where
  "clamp_i32 lo hi x = (if lo \<le> hi then Inr (if x < lo then lo else if hi < x then hi else x)
     else Inl (Panic ''assertion failed: min <= max''))"

definition mouse_clamp :: "int \<Rightarrow> int \<Rightarrow> MouseState \<Rightarrow> panic + MouseState" where
  "mouse_clamp w h m =
    rbind (clamp_i32 0 (wrap_i32 (w - 1)) (m_x m)) (\<lambda>x.
    rbind (clamp_i32 0 (wrap_i32 (h - 1)) (m_y m)) (\<lambda>y.
    Inr (m\<lparr>m_x := x, m_y := y\<rparr>)))"

definition accel :: "int \<Rightarrow> int" where
  "accel delta = (let d = wrap_i32 \<bar>delta\<bar> in
     if 10 \<le> d then wrap_i32 (delta * 3) else if 5 \<le> d then wrap_i32 (delta * 2) else delta)"

definition handle_ps2_byte :: "u8 \<Rightarrow> MouseState \<Rightarrow> MouseState" where
  "handle_ps2_byte b m =
    (if m_cycle m = 0 then
       if b AND 0x08 = 0 then m else m\<lparr>m_packet := (m_packet m)[0 := b], m_cycle := 1\<rparr>
     else if m_cycle m = 1 then m\<lparr>m_packet := (m_packet m)[1 := b], m_cycle := 2\<rparr>
     else if m_cycle m = 2 then
       let pk = (m_packet m)[2 := b]; flags = pk ! 0;
           dx = int (unat (pk ! 1)) - (if flags AND 0x10 \<noteq> 0 then 256 else 0);
           dy = int (unat (pk ! 2)) - (if flags AND 0x20 \<noteq> 0 then 256 else 0)
       in m\<lparr>m_packet := pk, m_cycle := 0, m_x := wrap_i32 (m_x m + accel dx), m_y := wrap_i32 (m_y m - accel dy),
            m_buttons := flags AND 0x07\<rparr>
     else m\<lparr>m_cycle := 0\<rparr>)"

fun mouse_poll :: "(bool \<times> u8) list \<Rightarrow> 'a input_state_scheme \<Rightarrow> 'a input_state_scheme" where
  "mouse_poll [] s = s\<lparr>i8042 := []\<rparr>"
| "mouse_poll ((aux, b) # q) s = (if aux then mouse_poll q (s\<lparr>MOUSE := handle_ps2_byte b (MOUSE s)\<rparr>)
     else s\<lparr>i8042 := (aux, b) # q\<rparr>)"

section \<open>The key buffer is a bounded queue\<close>

text \<open>
  The keyboard interrupt pushes and the readers pop in any order: a run of such steps gives what each pop returned
  and the queue it leaves. The reference is a list that refuses a push when it holds \<open>cap\<close> elements.
\<close>

datatype 'c queue_op = Push 'c | Pop

fun run_queue :: "('c \<Rightarrow> 'q \<Rightarrow> 'q) \<Rightarrow> ('q \<Rightarrow> 'c option \<times> 'q) \<Rightarrow> 'c queue_op list \<Rightarrow> 'q \<Rightarrow> 'c option list \<times> 'q" where
  "run_queue push_one pop_one [] q = ([], q)"
| "run_queue push_one pop_one (Push c # ops) q = run_queue push_one pop_one ops (push_one c q)"
| "run_queue push_one pop_one (Pop # ops) q = (case pop_one q of (r, q) \<Rightarrow>
     case run_queue push_one pop_one ops q of (rs, q) \<Rightarrow> (r # rs, q))"

definition list_push :: "nat \<Rightarrow> 'c \<Rightarrow> 'c list \<Rightarrow> 'c list" where
  "list_push cap c xs = (if length xs < cap then xs @ [c] else xs)"

fun list_pop :: "'c list \<Rightarrow> 'c option \<times> 'c list" where
  "list_pop [] = (None, [])"
| "list_pop (x # xs) = (Some x, xs)"

text \<open>What the readers and writers of a bounded queue rely on, and that every run of it is a run of the list.\<close>

locale bounded_queue =
  fixes push :: "'c \<Rightarrow> 'q \<Rightarrow> 'q" and pop :: "'q \<Rightarrow> 'c option \<times> 'q"
    and contents :: "'q \<Rightarrow> 'c list" and ok :: "'q \<Rightarrow> bool" and cap :: nat
  assumes push_law: "ok q \<Longrightarrow> ok (push c q) \<and>
      contents (push c q) = (if length (contents q) < cap then contents q @ [c] else contents q)"
    and pop_empty: "ok q \<Longrightarrow> contents q = [] \<Longrightarrow> pop q = (None, q)"
    and pop_law: "ok q \<Longrightarrow> contents q = c # cs \<Longrightarrow> fst (pop q) = Some c \<and> ok (snd (pop q)) \<and> contents (snd (pop q)) = cs"
begin

lemma run_simulates:
  "ok q \<Longrightarrow> case run_queue push pop ops q of (rs, q') \<Rightarrow> ok q' \<and> run_queue (list_push cap) list_pop ops (contents q) = (rs, contents q')"
proof (induction ops arbitrary: q)
  case (Cons x ops)
  note IH = Cons.IH and ok = Cons.prems
  show ?case
  proof (cases x)
    case (Push c)
    then show ?thesis using Cons.IH [of "push c q"] push_law [OF Cons.prems, of c] by (auto simp: list_push_def)
  next
    case Pop
    show ?thesis
    proof (cases "contents q")
      case Nil
      then show ?thesis using Cons.IH [OF Cons.prems] Pop pop_empty [OF Cons.prems] by (auto split: prod.splits)
    next
      case (Cons c cs)
      then show ?thesis using IH [of "snd (pop q)"] Pop pop_law [OF ok Cons]
        by (cases "pop q") (auto split: prod.splits)
    qed
  qed
qed simp

end

definition keys :: "KeyBuf \<Rightarrow> u8 list" where
  "keys k = map (\<lambda>i. kb_buf k ! ((kb_head k + i) mod BUF_SIZE)) [0 ..< (kb_tail k + BUF_SIZE - kb_head k) mod BUF_SIZE]"

definition keybuf_ok :: "KeyBuf \<Rightarrow> bool" where
  "keybuf_ok k \<longleftrightarrow> length (kb_buf k) = BUF_SIZE \<and> kb_head k < BUF_SIZE \<and> kb_tail k < BUF_SIZE"


lemma keys_conv:
  assumes "keybuf_ok k"
  shows "length (keys k) = (kb_tail k + BUF_SIZE - kb_head k) mod BUF_SIZE"
    "kb_tail k = (kb_head k + length (keys k)) mod BUF_SIZE" "length (keys k) < BUF_SIZE"
proof -
  show l: "length (keys k) = (kb_tail k + BUF_SIZE - kb_head k) mod BUF_SIZE" by (simp add: keys_def)
  have a: "kb_head k < BUF_SIZE" "kb_tail k < BUF_SIZE" using assms by (simp_all add: keybuf_ok_def)
  show "length (keys k) < BUF_SIZE" unfolding l by (simp add: BUF_SIZE_def)
  have "(kb_head k + length (keys k)) mod BUF_SIZE = (kb_head k + (kb_tail k + BUF_SIZE - kb_head k)) mod BUF_SIZE"
    unfolding l by (simp add: mod_simps)
  also have "\<dots> = kb_tail k" using a by simp
  finally show "kb_tail k = (kb_head k + length (keys k)) mod BUF_SIZE" by simp
qed

lemma mod_ring_neq:
  assumes "i < j" "j < BUF_SIZE"
  shows "(h + i) mod BUF_SIZE \<noteq> (h + j) mod BUF_SIZE"
proof
  assume "(h + i) mod BUF_SIZE = (h + j) mod BUF_SIZE"
  then have "BUF_SIZE dvd (h + j) - (h + i)" using assms(1) by (metis mod_eq_dvd_iff_nat add_le_cancel_left less_imp_le)
  then have "BUF_SIZE dvd j - i" by simp
  then show False using assms by (meson dvd_imp_le less_imp_diff_less linorder_not_less zero_less_diff)
qed

lemma keys_push:
  assumes ok: "keybuf_ok k"
  shows "keybuf_ok (kb_push c k) \<and> keys (kb_push c k) = (if length (keys k) < 63 then keys k @ [c] else keys k)"
proof -
  let ?n = "length (keys k)" and ?h = "kb_head k"
  note t = keys_conv [OF ok]
  have h: "?h < BUF_SIZE" "length (kb_buf k) = BUF_SIZE" using ok by (simp_all add: keybuf_ok_def)
  have nx: "(kb_tail k + 1) mod BUF_SIZE = (?h + (?n + 1)) mod BUF_SIZE" using t(2) by (metis add.assoc mod_add_left_eq)
  show ?thesis
  proof (cases "?n < 63")
    case True
    have "(?h + 0) mod BUF_SIZE \<noteq> (?h + (?n + 1)) mod BUF_SIZE"
      using True by (intro mod_ring_neq) (simp_all add: BUF_SIZE_def)
    then have ne: "(kb_tail k + 1) mod BUF_SIZE \<noteq> ?h" using nx h by simp
    then have p: "kb_push c k = k\<lparr>kb_buf := (kb_buf k)[kb_tail k := c], kb_tail := (kb_tail k + 1) mod BUF_SIZE\<rparr>"
      by (simp add: kb_push_def)
    have okp: "keybuf_ok (kb_push c k)" using ok by (simp add: p keybuf_ok_def BUF_SIZE_def)
    have "length (keys (kb_push c k)) = ((?h + (?n + 1)) mod BUF_SIZE + BUF_SIZE - ?h) mod BUF_SIZE"
      using nx by (simp add: keys_def p)
    also have "\<dots> = ?n + 1"
    proof (cases "?h + (?n + 1) < BUF_SIZE")
      case False
      then have "(?h + (?n + 1)) mod BUF_SIZE = ?h + (?n + 1) - BUF_SIZE"
        using h True by (simp add: le_mod_geq BUF_SIZE_def)
      then show ?thesis using False h True by (simp add: BUF_SIZE_def)
    next
      case inside: True
      then have "((?h + (?n + 1)) mod BUF_SIZE + BUF_SIZE - ?h) mod BUF_SIZE = (?n + 1 + BUF_SIZE) mod BUF_SIZE" by simp
      also have "\<dots> = ?n + 1" unfolding mod_add_self2 using inside by (intro mod_less) linarith
      finally show ?thesis .
    qed
    finally have len: "length (keys (kb_push c k)) = ?n + 1" .
    have "keys (kb_push c k) ! i = (keys k @ [c]) ! i" if i: "i < ?n + 1" for i
    proof -
      have e: "keys (kb_push c k) ! i = (kb_buf k)[kb_tail k := c] ! ((?h + i) mod BUF_SIZE)"
        using i len by (simp add: keys_def p del: upt_Suc)
      show ?thesis
      proof (cases "i = ?n")
        case True
        then show ?thesis using e t(2) h by (simp add: BUF_SIZE_def)
      next
        case False
        then have "(?h + i) mod BUF_SIZE \<noteq> kb_tail k" unfolding t(2) using i t(3) by (intro mod_ring_neq) simp_all
        then show ?thesis using e False i by (simp add: nth_append keys_def)
      qed
    qed
    then have "keys (kb_push c k) = keys k @ [c]" using len by (intro nth_equalityI) simp_all
    then show ?thesis using okp True by simp
  next
    case False
    then have "?n = 63" using t(3) by (simp add: BUF_SIZE_def)
    then have "(kb_tail k + 1) mod BUF_SIZE = ?h" using nx h by (simp add: BUF_SIZE_def)
    then show ?thesis using ok False by (simp add: kb_push_def)
  qed
qed

lemma keys_pop:
  assumes ok: "keybuf_ok k" and c: "keys k = c # cs"
  shows "fst (kb_pop k) = Some c \<and> keybuf_ok (snd (kb_pop k)) \<and> keys (snd (kb_pop k)) = cs"
proof -
  let ?h = "kb_head k"
  note t = keys_conv [OF ok]
  have h: "?h < BUF_SIZE" using ok by (simp add: keybuf_ok_def)
  have n: "length (keys k) = Suc (length cs)" using c by simp
  have "?h mod BUF_SIZE \<noteq> (?h + Suc (length cs)) mod BUF_SIZE"
    using mod_ring_neq [of 0 "Suc (length cs)" ?h] t(3) n by simp
  then have ne: "?h \<noteq> kb_tail k" using h t(2) n by simp
  then have p: "kb_pop k = (Some (kb_buf k ! ?h), k\<lparr>kb_head := (?h + 1) mod BUF_SIZE\<rparr>)" by (simp add: kb_pop_def)
  have "keys k ! 0 = kb_buf k ! ?h" using n h by (simp add: keys_def del: upt_Suc)
  then have f: "fst (kb_pop k) = Some c" using c p by simp
  have okp: "keybuf_ok (snd (kb_pop k))" using ok by (simp add: p keybuf_ok_def BUF_SIZE_def)
  have "length (keys (snd (kb_pop k))) = (kb_tail k + BUF_SIZE - (?h + 1) mod BUF_SIZE) mod BUF_SIZE"
    by (simp add: keys_def p)
  also have "\<dots> = length cs"
    using t(1) n h ne ok by (cases "?h + 1 = BUF_SIZE") (auto simp: keybuf_ok_def BUF_SIZE_def mod_if split: if_splits)
  finally have len: "length (keys (snd (kb_pop k))) = length cs" .
  have "keys (snd (kb_pop k)) ! i = cs ! i" if i: "i < length cs" for i
  proof -
    have "keys (snd (kb_pop k)) ! i = kb_buf k ! (((?h + 1) mod BUF_SIZE + i) mod BUF_SIZE)"
      using i len by (simp add: keys_def p del: upt_Suc)
    also have "\<dots> = kb_buf k ! ((?h + Suc i) mod BUF_SIZE)" by (simp add: mod_simps)
    also have "\<dots> = keys k ! Suc i" using i n by (simp add: keys_def del: upt_Suc)
    finally show ?thesis using c by simp
  qed
  then have "keys (snd (kb_pop k)) = cs" using len by (intro nth_equalityI) simp_all
  then show ?thesis using f okp by simp
qed

lemma keys_pop_empty: "keybuf_ok k \<Longrightarrow> keys k = [] \<Longrightarrow> kb_pop k = (None, k)"
  using keys_conv(2) [of k] by (simp add: kb_pop_def keybuf_ok_def)

interpretation keyq: bounded_queue kb_push kb_pop keys keybuf_ok 63
  by unfold_locales (rule keys_push keys_pop keys_pop_empty; assumption)+

lemma KeyBuf_new_ok: "keybuf_ok KeyBuf_new" "keys KeyBuf_new = []"
  by (simp_all add: keybuf_ok_def KeyBuf_new_def keys_def BUF_SIZE_def)

section \<open>Properties\<close>

text \<open>
  C20: the circular key buffer is a first-in first-out queue of 63 keys: whatever the order in which keys are
  pushed and popped, from the empty buffer on, every pop returns what it returns on a list from whose front keys are
  taken and at whose end a key is added unless 63 are waiting, a key that does not fit being dropped. The indices stay
  in the array, and the waiting keys are the list's.
\<close>

theorem keybuf_fifo:
  "case run_queue kb_push kb_pop ops KeyBuf_new of (rs, k) \<Rightarrow>
     run_queue (list_push 63) list_pop ops [] = (rs, keys k) \<and>
     length (kb_buf k) = BUF_SIZE \<and> kb_head k < BUF_SIZE \<and> kb_tail k < BUF_SIZE"
  using keyq.run_simulates [of KeyBuf_new ops] KeyBuf_new_ok by (simp add: keybuf_ok_def split_beta)

definition letter_keys :: "(u8 \<times> char) list" where
  "letter_keys = zip [0x1E, 0x30, 0x2E, 0x20, 0x12, 0x21, 0x22, 0x23, 0x17, 0x24, 0x25, 0x26, 0x32, 0x31, 0x18,
     0x19, 0x10, 0x13, 0x1F, 0x14, 0x16, 0x2F, 0x11, 0x2D, 0x15, 0x2C] ''abcdefghijklmnopqrstuvwxyz''"

lemma letter_maps:
  "list_all (\<lambda>(sc, ch). unat sc < 58 \<and> SCANCODE_MAP ! unat sc = word_of_nat (of_char ch) \<and>
     SHIFT_MAP ! unat sc = word_of_nat (of_char ch) - 32 \<and> (97 :: u8) \<le> word_of_nat (of_char ch) \<and>
     word_of_nat (of_char ch) \<le> (122 :: u8)) letter_keys"
  by (simp add: letter_keys_def SHIFT_MAP_def SCANCODE_MAP_def str_bytes_def)

lemma plain_key_letter:
  assumes "unat sc < 58" "SCANCODE_MAP ! unat sc = l" "SHIFT_MAP ! unat sc = l - 32" "97 \<le> l" "l \<le> 122"
  shows "plain_key shift caps ctrl sc = (let l = l in if shift \<noteq> caps then l - 32 else if ctrl then l - 0x60 else l)"
proof -
  have l: "97 \<le> unat l" "unat l \<le> 122" using assms(4,5) by (simp_all add: word_le_nat_alt)
  have "(32 :: u8) \<le> l" using l(1) by (simp add: word_le_nat_alt)
  then have "unat (l - 32) = unat l - 32" by (simp add: unat_sub)
  then have "is_ascii_uppercase (l - 32)" "\<not> is_ascii_lowercase (l - 32)" "is_ascii_lowercase l"
    using l by (auto simp: is_ascii_uppercase_def is_ascii_lowercase_def word_le_nat_alt)
  then show ?thesis using assms(1-3)
    by (simp add: plain_key_def Let_def SHIFT_MAP_def [THEN arg_cong [of _ _ length]]
        SCANCODE_MAP_def [THEN arg_cong [of _ _ length]])
qed

text \<open>
  Every letter key gives its letter in the case that shift and caps lock together select, shift
  undoing caps lock, and with control held the lower-case letters give their control codes while upper
  case ones are unchanged.
\<close>

lemma letter_case:
  "list_all (\<lambda>(sc, ch). plain_key shift caps ctrl sc =
     (let l = word_of_nat (of_char ch) in if shift \<noteq> caps then l - 32 else if ctrl then l - 0x60 else l)) letter_keys"
proof -
  have "plain_key shift caps ctrl (fst x) =
     (let l = word_of_nat (of_char (snd x)) in if shift \<noteq> caps then l - 32 else if ctrl then l - 0x60 else l)"
    if "x \<in> set letter_keys" for x
    using letter_maps that by (intro plain_key_letter) (auto simp: list_all_iff)
  then show ?thesis by (simp add: list_all_iff case_prod_beta)
qed

text \<open>
  three bytes of a mouse packet, the first with its sync bit set, move the pointer by the two
  signed nine-bit displacements, accelerated at most threefold, and leave the decoder ready for the next
  packet; each displacement is at most 768 points.
\<close>

lemma mouse_packet:
  fixes f xb yb :: u8
  assumes "m_cycle m = 0" "length (m_packet m) = 3" "f AND 0x08 \<noteq> 0"
    "\<bar>m_x m\<bar> < 2 ^ 30" "\<bar>m_y m\<bar> < 2 ^ 30"
  defines "dx \<equiv> int (unat xb) - (if f AND 0x10 \<noteq> 0 then 256 else 0)"
    and "dy \<equiv> int (unat yb) - (if f AND 0x20 \<noteq> 0 then 256 else 0)"
  shows "handle_ps2_byte yb (handle_ps2_byte xb (handle_ps2_byte f m)) =
      m\<lparr>m_x := m_x m + accel dx, m_y := m_y m - accel dy, m_buttons := f AND 0x07, m_packet := [f, xb, yb]\<rparr> \<and>
    \<bar>accel dx\<bar> \<le> 768 \<and> \<bar>accel dy\<bar> \<le> 768"
proof -
  obtain p0 p1 p2 where p: "m_packet m = [p0, p1, p2]"
    using assms(2) by (auto simp: length_Suc_conv numeral_3_eq_3)
  have u: "0 \<le> int (unat b)" "int (unat b) \<le> 255" for b :: u8
  proof -
    have "unat b < 256" by simp
    then show "int (unat b) \<le> 255" by linarith
  qed simp
  have d: "- 256 \<le> dx" "dx \<le> 255" "- 256 \<le> dy" "dy \<le> 255"
    using u [of xb] u [of yb] unfolding dx_def dy_def by (linarith | (split if_split, linarith))+
  have w: "wrap_i32 n = n" if "- (2 ^ 31) \<le> n" "n < 2 ^ 31" for n
    using that by (simp add: wrap_i32_def)
  have a: "\<bar>accel e\<bar> \<le> 768" if "- 256 \<le> e" "e \<le> 255" for e
  proof -
    have "wrap_i32 \<bar>e\<bar> = \<bar>e\<bar>" "wrap_i32 (e * 3) = e * 3" "wrap_i32 (e * 2) = e * 2" using that by (simp_all add: w)
    then show ?thesis using that by (auto simp: accel_def Let_def abs_le_iff)
  qed
  have x: "wrap_i32 (m_x m + accel dx) = m_x m + accel dx" "wrap_i32 (m_y m - accel dy) = m_y m - accel dy"
    using a [OF d(1,2)] a [OF d(3,4)] assms(4,5) by (auto intro!: w)
  have "handle_ps2_byte yb (handle_ps2_byte xb (handle_ps2_byte f m)) =
      m\<lparr>m_packet := [f, xb, yb], m_cycle := 0, m_x := wrap_i32 (m_x m + accel dx), m_y := wrap_i32 (m_y m - accel dy),
        m_buttons := f AND 0x07\<rparr>"
    using assms(1,3) unfolding dx_def dy_def by (simp add: handle_ps2_byte_def p Let_def)
  also have "\<dots> = m\<lparr>m_x := m_x m + accel dx, m_y := m_y m - accel dy, m_buttons := f AND 0x07, m_packet := [f, xb, yb]\<rparr>"
    using assms(1) unfolding x by (cases m) simp
  finally show ?thesis using a d by blast
qed

end
