(* ===== verification/Elf.thy ===== *)
theory Elf
  imports Paging
begin

text \<open>
  The ELF64 loader of \<open>kernel/src/elf.rs\<close>. The machine's \<open>usize\<close> is 64 bits, so offsets are words and
  their sums wrap, as in the release build; slicing out of range is a panic. \<open>load\<close> returns either an
  error message or the loaded image, in both cases with the state it leaves behind.
\<close>

section \<open>Results that keep the state on errors\<close>

definition ebind :: "panic + ((string + 'a) \<times> 's) \<Rightarrow> ('a \<Rightarrow> 's \<Rightarrow> panic + ((string + 'b) \<times> 's)) \<Rightarrow>
    panic + ((string + 'b) \<times> 's)" where
  "ebind m f = (case m of Inl e \<Rightarrow> Inl e | Inr (Inl msg, s) \<Rightarrow> Inr (Inl msg, s) | Inr (Inr x, s) \<Rightarrow> f x s)"

definition load_err :: "string \<Rightarrow> 's \<Rightarrow> panic + ((string + 'a) \<times> 's)" where
  "load_err msg s = Inr (Inl msg, s)"

definition load_ok :: "'a \<Rightarrow> 's \<Rightarrow> panic + ((string + 'a) \<times> 's)" where
  "load_ok x s = Inr (Inr x, s)"

lemma ebind_simps [simp]:
  "ebind (load_ok x s) f = f x s" "ebind (load_err msg s) f = load_err msg s" "ebind (Inl e) f = Inl e"
  by (simp_all add: ebind_def load_ok_def load_err_def)

lemma ebind_eq_ok:
  "ebind m f = load_ok y s' \<longleftrightarrow> (\<exists>x s. m = load_ok x s \<and> f x s = load_ok y s')"
proof (cases m)
  case (Inr r)
  obtain v t where "r = (v, t)" by (cases r)
  with Inr show ?thesis by (cases v) (simp_all add: ebind_def load_ok_def)
qed (simp add: ebind_def load_ok_def)

lemma ok_inject [simp]: "load_ok x s = load_ok y t \<longleftrightarrow> x = y \<and> s = t" "load_ok x s \<noteq> load_err m t" "load_err m t \<noteq> load_ok x s" "Inl e \<noteq> load_ok x s"
  by (simp_all add: load_ok_def load_err_def)

section \<open>Reading the file\<close>

definition slice_at :: "u8 list \<Rightarrow> u64 \<Rightarrow> u64 \<Rightarrow> panic + u8 list" where
  "slice_at data a b = (if a \<le> b \<and> unat b \<le> length data then Inr (take (unat b - unat a) (drop (unat a) data))
     else Inl (Panic ''slice index out of range''))"

definition le_u16 :: "u8 list \<Rightarrow> nat \<Rightarrow> u16" where "le_u16 bs i = u16_from_le_bytes (take 2 (drop i bs))"
definition le_u32 :: "u8 list \<Rightarrow> nat \<Rightarrow> u32" where "le_u32 bs i = u32_from_le_bytes (take 4 (drop i bs))"
definition le_u64 :: "u8 list \<Rightarrow> nat \<Rightarrow> u64" where "le_u64 bs i = u64_from_le_bytes (take 8 (drop i bs))"

record Loaded =
  l_entry :: u64
  l_pages :: "u64 list"

record segment =
  p_type :: u32
  p_flags :: u32
  p_offset :: u64
  p_vaddr :: u64
  p_filesz :: u64
  p_memsz :: u64

definition parse_segment :: "u8 list \<Rightarrow> segment" where
  "parse_segment ph = \<lparr>p_type = le_u32 ph 0, p_flags = le_u32 ph 4, p_offset = le_u64 ph 8, p_vaddr = le_u64 ph 16,
     p_filesz = le_u64 ph 32, p_memsz = le_u64 ph 40\<rparr>"

definition header_error :: "u8 list \<Rightarrow> string option" where
  "header_error data =
    (if length data < 64 then Some ''ELF too small''
     else if take 4 data \<noteq> [0x7f, 0x45, 0x4c, 0x46] then Some ''bad ELF magic''
     else if data ! 4 \<noteq> 2 then Some ''not ELF64''
     else if data ! 5 \<noteq> 1 then Some ''not little-endian''
     else if le_u16 data 16 \<noteq> 2 then Some ''not an executable ELF''
     else if le_u16 data 18 \<noteq> 0x3E then Some ''not x86-64''
     else if le_u16 data 54 < 56 then Some ''phentsize too small''
     else None)"

section \<open>Loading a segment\<close>

definition page_down :: "u64 \<Rightarrow> u64" where
  "page_down a = a AND NOT 0xFFF"

definition page_start :: "segment \<Rightarrow> u64" where
  "page_start g = page_down (p_vaddr g)"

definition num_pages :: "segment \<Rightarrow> u64" where
  "num_pages g = (page_down (p_vaddr g + p_memsz g + 4096 - 1) - page_start g) div 4096"

type_synonym page_list = "u64 list \<times> (u64 \<times> u64) list"

definition find_page :: "u64 \<Rightarrow> (u64 \<times> u64) list \<Rightarrow> u64 option" where
  "find_page virt m = map_option snd (find (\<lambda>(v, _). v = virt) m)"

definition get_page :: "u64 \<Rightarrow> u64 \<Rightarrow> page_list \<Rightarrow> 'a kmem_state_scheme \<Rightarrow>
    panic + ((string + (u64 \<times> page_list)) \<times> 'a kmem_state_scheme)" where
  "get_page pml4 virt pl s = (case find_page virt (snd pl) of
     Some existing \<Rightarrow> load_ok (existing, pl) s
   | None \<Rightarrow> (case alloc_page s of
       None \<Rightarrow> load_err ''ELF load: out of physical memory'' s
     | Some (phys, s) \<Rightarrow>
         let s = write_bytes (phys_to_virt s phys) 0 4096 s in
         rbind (map_page_into pml4 virt phys (USER OR WRITE) s) (\<lambda>(_, s).
         load_ok (phys, (fst pl @ [phys], snd pl @ [(virt, phys)])) s)))"

definition copy_window :: "segment \<Rightarrow> u64 \<Rightarrow> (u64 \<times> u64 \<times> u64) option" where
  "copy_window g page_va_lo =
    (let page_va_hi = page_va_lo + 4096; file_va_lo = p_vaddr g; file_va_hi = file_va_lo + p_filesz g;
         copy_lo = max file_va_lo page_va_lo; copy_hi = min file_va_hi page_va_hi in
     if copy_lo < copy_hi
     then Some (copy_lo - page_va_lo, p_offset g + (copy_lo - file_va_lo), copy_hi - copy_lo) else None)"

definition copy_page :: "u8 list \<Rightarrow> segment \<Rightarrow> u64 \<Rightarrow> u64 \<Rightarrow> 'a kmem_state_scheme \<Rightarrow>
    panic + 'a kmem_state_scheme" where
  "copy_page data g page_va_lo phys s = (case copy_window g page_va_lo of
     None \<Rightarrow> Inr s
   | Some (dst_off, src_off, len) \<Rightarrow>
       rbind (slice_at data src_off (src_off + len)) (\<lambda>bs. Inr (copy_to (phys_to_virt s phys + dst_off) bs s)))"

fun load_pages :: "nat \<Rightarrow> u8 list \<Rightarrow> u64 \<Rightarrow> segment \<Rightarrow> u64 \<Rightarrow> page_list \<Rightarrow> 'a kmem_state_scheme \<Rightarrow>
    panic + ((string + page_list) \<times> 'a kmem_state_scheme)" where
  "load_pages 0 data pml4 g virt pl s = load_ok pl s"
| "load_pages (Suc n) data pml4 g virt pl s =
    ebind (get_page pml4 virt pl s) (\<lambda>(phys, pl) s.
    rbind (copy_page data g virt phys s) (\<lambda>s.
    load_pages n data pml4 g (virt + 4096) pl s))"

definition load_segment :: "u8 list \<Rightarrow> u64 \<Rightarrow> segment \<Rightarrow> page_list \<Rightarrow> 'a kmem_state_scheme \<Rightarrow>
    panic + ((string + page_list) \<times> 'a kmem_state_scheme)" where
  "load_segment data pml4 g pl s =
    (if p_type g \<noteq> 1 then load_ok pl s
     else if p_memsz g = 0 then load_ok pl s
     else if 0 < p_filesz g \<and> word_of_nat (length data) < p_offset g + p_filesz g
     then load_err ''segment data extends past end of file'' s
     else load_pages (unat (num_pages g)) data pml4 g (page_start g) pl s)"

fun load_segments :: "nat \<Rightarrow> u64 \<Rightarrow> u64 \<Rightarrow> u8 list \<Rightarrow> u64 \<Rightarrow> page_list \<Rightarrow> 'a kmem_state_scheme \<Rightarrow>
    panic + ((string + page_list) \<times> 'a kmem_state_scheme)" where
  "load_segments 0 ph_off phentsize data pml4 pl s = load_ok pl s"
| "load_segments (Suc n) ph_off phentsize data pml4 pl s =
    (if word_of_nat (length data) < ph_off + 56 then load_err ''program header out of bounds'' s
     else rbind (slice_at data ph_off (ph_off + 56)) (\<lambda>ph.
       ebind (load_segment data pml4 (parse_segment ph) pl s) (\<lambda>pl s.
       load_segments n (ph_off + phentsize) phentsize data pml4 pl s)))"

definition elf_load :: "u8 list \<Rightarrow> u64 \<Rightarrow> 'a kmem_state_scheme \<Rightarrow> panic + ((string + Loaded) \<times> 'a kmem_state_scheme)" where
  "elf_load data pml4 s = (case header_error data of
     Some msg \<Rightarrow> load_err msg s
   | None \<Rightarrow>
       ebind (load_segments (unat (le_u16 data 56)) (le_u64 data 32) (ucast (le_u16 data 54)) data pml4 ([], []) s) (\<lambda>pl s.
       if fst pl = [] then load_err ''no PT_LOAD segments found'' s
       else load_ok \<lparr>l_entry = le_u64 data 24, l_pages = fst pl\<rparr> s))"

section \<open>Frames of an image\<close>

lemma get_or_make_user_free:
  assumes "get_or_make_user tb i s = Inr (q, s')"
  shows "free_set s' \<subseteq> free_set s"
proof (cases "alloc_page s")
  case None
  then have "s' = s" using assms unfolding get_or_make_user_def Let_def by (simp only: option.case split: if_splits) simp_all
  then show ?thesis by simp
next
  case (Some r)
  obtain a t where r: "r = (a, t)" by (cases r)
  obtain p where p: "free_set t = free_set s - {p}" by (rule alloc_page_SomeD) (use Some r in simp)
  have "s' = s \<or> free_set s' = free_set t"
    using assms Some r unfolding get_or_make_user_def Let_def
    by (simp only: option.case prod.case split: if_splits) (auto simp only: sum.inject prod.inject memory_fields)
  with p show ?thesis by auto
qed

lemma map_page_into_free:
  assumes "map_page_into r v p f s = Inr (u, s')"
  shows "free_set s' \<subseteq> free_set s"
proof -
  obtain p3 s3 p2 s2 p1 s1 where
    "get_or_make_user r (table_index 4 v) s = Inr (p3, s3)" "get_or_make_user p3 (table_index 3 v) s3 = Inr (p2, s2)"
    "get_or_make_user p2 (table_index 2 v) s2 = Inr (p1, s1)" "free_set s' = free_set s1"
    using assms by (auto simp: map_page_into_def Let_def rbind_eq_Inr)
  then show ?thesis using get_or_make_user_free by (metis order_trans)
qed

definition image_frames :: "'a kmem_state_scheme \<Rightarrow> 'a kmem_state_scheme \<Rightarrow> u64 list \<Rightarrow> bool" where
  "image_frames s0 s ps \<longleftrightarrow> free_set s \<subseteq> free_set s0 \<and>
     (\<exists>qs. ps = map page_addr qs \<and> distinct qs \<and> set qs \<subseteq> free_set s0 - free_set s)"

lemma image_frames_mono: "image_frames s0 s ps \<Longrightarrow> free_set s' \<subseteq> free_set s \<Longrightarrow> image_frames s0 s' ps"
  by (fastforce simp: image_frames_def)

lemma image_frames_alloc:
  assumes "image_frames s0 s ps" "alloc_page s = Some (a, s')"
  shows "image_frames s0 s' (ps @ [a])"
proof -
  obtain qs where q: "free_set s \<subseteq> free_set s0" "ps = map page_addr qs" "distinct qs" "set qs \<subseteq> free_set s0 - free_set s"
    using assms(1) by (auto simp: image_frames_def)
  from assms(2) show ?thesis
  proof (rule alloc_page_SomeD)
    fix p assume p: "p \<in> free_set s" "a = page_addr p" "free_set s' = free_set s - {p}"
    have "ps @ [a] = map page_addr (qs @ [p])" "distinct (qs @ [p])" "set (qs @ [p]) \<subseteq> free_set s0 - free_set s'"
      using q p by auto
    then show ?thesis using q(1) p(3) unfolding image_frames_def by blast
  qed
qed

lemma get_page_frames:
  assumes "get_page r v pl s = load_ok (phys, pl') s'" "image_frames s0 s (fst pl)"
  shows "image_frames s0 s' (fst pl')"
proof (cases "find_page v (snd pl)")
  case None
  obtain s1 s2 where 1: "alloc_page s = Some (phys, s1)" and fst': "fst pl' = fst pl @ [phys]"
    and 2: "map_page_into r v phys (USER OR WRITE) (write_bytes (phys_to_virt s1 phys) 0 4096 s1) = Inr ((), s')"
    using assms(1) None by (auto simp: get_page_def Let_def load_ok_def load_err_def rbind_eq_Inr split: option.splits)
  have "image_frames s0 s1 (fst pl @ [phys])" using image_frames_alloc [OF assms(2) 1] .
  then show ?thesis using map_page_into_free [OF 2] fst' by (auto intro: image_frames_mono)
next
  case (Some x)
  then show ?thesis using assms by (auto simp: get_page_def load_ok_def)
qed

lemma copy_page_free: "copy_page data g v phys s = Inr s' \<Longrightarrow> free_set s' = free_set s"
  by (auto simp: copy_page_def rbind_eq_Inr copy_to_def free_set_def is_used_def split: option.splits)

lemma rbind_eq_ok: "rbind m f = load_ok y s' \<longleftrightarrow> (\<exists>x. m = Inr x \<and> f x = load_ok y s')"
  by (simp add: load_ok_def rbind_eq_Inr)

lemma load_pages_frames:
  "load_pages n data r g v pl s = load_ok pl' s' \<Longrightarrow> image_frames s0 s (fst pl) \<Longrightarrow> image_frames s0 s' (fst pl')"
proof (induction n arbitrary: v pl s)
  case (Suc n)
  obtain phys pl1 s1 s2 where 1: "get_page r v pl s = load_ok (phys, pl1) s1" "copy_page data g v phys s1 = Inr s2"
    "load_pages n data r g (v + 4096) pl1 s2 = load_ok pl' s'"
    using Suc.prems(1) by (auto simp: ebind_eq_ok rbind_eq_ok)
  then show ?case using Suc.IH [OF 1(3)] get_page_frames [OF 1(1) Suc.prems(2)] copy_page_free [OF 1(2)]
    by (auto intro: image_frames_mono)
qed (auto simp: load_ok_def)

lemma load_segments_frames:
  "load_segments n off sz data r pl s = load_ok pl' s' \<Longrightarrow> image_frames s0 s (fst pl) \<Longrightarrow> image_frames s0 s' (fst pl')"
proof (induction n arbitrary: off pl s)
  case (Suc n)
  obtain ph pl1 s1 where 1: "load_segment data r (parse_segment ph) pl s = load_ok pl1 s1"
    "load_segments n (off + sz) sz data r pl1 s1 = load_ok pl' s'"
    using Suc.prems(1) by (auto simp: ebind_eq_ok rbind_eq_ok split: if_splits)
  have "image_frames s0 s1 (fst pl1)"
    using 1(1) Suc.prems(2) by (auto simp: load_segment_def split: if_splits dest: load_pages_frames)
  then show ?case using Suc.IH [OF 1(2)] by blast
qed (auto simp: load_ok_def)

section \<open>Properties\<close>

text \<open>
  when \<open>load\<close> succeeds the pages it returns are at least one, pairwise distinct frames that were free
  before the call and are in use after it, so the caller frees each of them exactly once.
\<close>

lemma elf_load_pages:
  assumes "elf_load data pml4 s = load_ok img s'"
  shows "\<exists>qs. l_pages img = map page_addr qs \<and> qs \<noteq> [] \<and> distinct qs \<and> set qs \<subseteq> free_set s - free_set s'"
proof -
  obtain pl where pl: "load_segments (unat (le_u16 data 56)) (le_u64 data 32) (ucast (le_u16 data 54)) data pml4 ([], []) s = load_ok pl s'"
    "fst pl \<noteq> []" "l_pages img = fst pl"
    using assms by (auto simp: elf_load_def ebind_eq_ok split: option.splits if_splits)
  have "image_frames s s (fst (([], []) :: page_list))" by (simp add: image_frames_def)
  then have "image_frames s s' (fst pl)" by (rule load_segments_frames [OF pl(1)])
  then show ?thesis using pl(2,3) by (auto simp: image_frames_def)
qed

text \<open>
  The bytes copied into a page of a segment lie inside that page, whatever the addresses and sizes in
  the file, even where their sums wrap.
\<close>

lemma copy_window_in_page:
  "case copy_window g lo of None \<Rightarrow> True
   | Some (dst_off, src_off, len) \<Rightarrow> 0 < unat len \<and> unat dst_off + unat len \<le> 4096"
proof (cases "copy_window g lo")
  case (Some w)
  define a where "a = max (p_vaddr g) lo"
  define b where "b = min (p_vaddr g + p_filesz g) (lo + 4096)"
  have ab: "a < b" and w: "fst w = a - lo" "snd (snd w) = b - a"
    using Some by (auto simp: copy_window_def Let_def a_def b_def split: if_splits)
  have le: "lo \<le> a" "b \<le> lo + 4096" by (simp_all add: a_def b_def)
  have "lo < b" using le(1) ab by (rule order.strict_trans1)
  then have "lo < lo + 4096" using le(2) by (rule order.strict_trans2)
  then have "lo \<le> lo + 4096" by (rule less_imp_le)
  then have hi: "unat (lo + 4096) = unat lo + 4096" using unat_plus_simple [of lo 4096] by simp
  have n: "unat lo \<le> unat a" "unat a < unat b" "unat b \<le> unat lo + 4096"
    using le ab hi by (simp_all add: word_le_nat_alt word_less_nat_alt)
  have "unat (a - lo) = unat a - unat lo" "unat (b - a) = unat b - unat a"
    using n by (simp_all add: unat_sub word_le_nat_alt)
  then show ?thesis using Some w n by (cases w) simp
qed simp

text \<open>
  an executable header whose program header offset is in the last 56 bytes of the address space makes
  the bounds check wrap and \<open>load\<close> panic on the slice, although it reports every other malformed file as an
  error.
\<close>

lemma elf_load_wrap_panics:
  assumes "header_error data = None" "0 < le_u16 data 56" "le_u64 data 32 + 56 < le_u64 data 32" "length data < 2 ^ 63"
  shows "elf_load data pml4 s = Inl (Panic ''slice index out of range'')"
proof -
  define off where "off = le_u64 data 32"
  obtain n where n: "unat (le_u16 data 56) = Suc n"
    using assms(2) by (cases "unat (le_u16 data 56)") (auto simp: word_less_nat_alt)
  have l: "64 \<le> length data" using assms(1) by (simp add: header_error_def split: if_splits)
  have nle: "\<not> off \<le> off + 56" using assms(3) by (simp add: off_def)
  then have "\<not> 56 \<le> 56 + off" using unat_plus_simple [of off 56] unat_plus_simple [of 56 off] by (simp add: add.commute)
  then have "unat (off + 56) < unat (56 :: u64)" by (simp only: word_less_nat_alt [symmetric] add.commute not_le)
  moreover have "unat (word_of_nat (length data) :: u64) = length data" using assms(4) by (intro unat_u64_of_nat) simp
  ultimately have "\<not> word_of_nat (length data) < off + 56" using l by (simp add: word_less_nat_alt)
  moreover have "slice_at data off (off + 56) = Inl (Panic ''slice index out of range'')"
    using nle by (simp add: slice_at_def)
  ultimately show ?thesis using assms(1) n by (simp add: elf_load_def off_def)
qed

definition wrap_elf :: "u8 list" where
  "wrap_elf =
    [127, 69, 76, 70, 2, 1, 1, 0, 0, 0, 0, 0, 0, 0, 0, 0, 2, 0, 62, 0, 0, 0, 0, 0, 0, 0, 0, 0, 0, 0, 0,
     0, 255, 255, 255, 255, 255, 255, 255, 255, 0, 0, 0, 0, 0, 0, 0, 0, 0, 0, 0, 0, 0, 0, 56, 0, 1, 0,
     0, 0, 0, 0, 0, 0]"

lemmas file_simps = header_error_def le_u16_def le_u32_def le_u64_def u16_from_le_bytes_def u32_from_le_bytes_def
  u64_from_le_bytes_def

definition tiny_elf :: "u8 list" where
  "tiny_elf =
    [127, 69, 76, 70, 2, 1, 1, 0, 0, 0, 0, 0, 0, 0, 0, 0, 2, 0, 62, 0, 0, 0, 0, 0, 0, 0, 0, 0, 0, 0, 0,
     0, 64, 0, 0, 0, 0, 0, 0, 0, 0, 0, 0, 0, 0, 0, 0, 0, 0, 0, 0, 0, 0, 0, 56, 0, 1, 0, 0, 0, 0, 0, 0,
     0, 1, 0, 0, 0, 7, 0, 0, 0, 0, 0, 0, 0, 0, 0, 0, 0, 0, 0, 64, 0, 0, 0, 0, 0, 0, 0, 0, 0, 0, 0, 0, 0,
     0, 0, 0, 0, 0, 0, 0, 0, 1, 0, 0, 0, 0, 0, 0, 0, 0, 0, 0, 0, 0, 0, 0, 0]"

lemma get_or_make_user_succeeds:
  assumes "n < card (free_set s)"
  obtains q s' where "get_or_make_user t i s = Inr (q, s')" "n \<le> card (free_set s')"
proof (cases "read_u64 s (entry_ptr s t i) AND PRESENT = 0")
  case True
  have "free_set s \<noteq> {}" using assms by auto
  then obtain a s1 where a: "alloc_page s = Some (a, s1)" by (simp add: alloc_page_eq Let_def)
  from a have "n \<le> card (free_set s1)" by (rule alloc_page_SomeD) (use assms in simp)
  then show thesis using a True
    by (intro that [of a "write_u64 (entry_ptr s t i) (a OR PRESENT OR WRITE OR USER)
          (write_bytes (phys_to_virt s1 a) 0 4096 s1)"]) (simp_all add: get_or_make_user_def Let_def)
next
  case False
  then show thesis using assms by (intro that [of _ s]) (simp_all add: get_or_make_user_def Let_def)
qed

lemma map_page_into_succeeds:
  assumes "n + 3 \<le> card (free_set s)"
  obtains s' where "map_page_into r v p f s = Inr ((), s')" "n \<le> card (free_set s')"
proof -
  obtain q3 s3 where 3: "get_or_make_user r (table_index 4 v) s = Inr (q3, s3)" "n + 2 \<le> card (free_set s3)"
    by (rule get_or_make_user_succeeds [of "n + 2" s r "table_index 4 v"]) (use assms in auto)
  obtain q2 s2 where 2: "get_or_make_user q3 (table_index 3 v) s3 = Inr (q2, s2)" "n + 1 \<le> card (free_set s2)"
    by (rule get_or_make_user_succeeds [of "n + 1" s3 q3 "table_index 3 v"]) (use 3 in auto)
  obtain q1 s1 where 1: "get_or_make_user q2 (table_index 2 v) s2 = Inr (q1, s1)" "n \<le> card (free_set s1)"
    by (rule get_or_make_user_succeeds [of n s2 q2 "table_index 2 v"]) (use 2 in auto)
  show thesis using 1 2(1) 3(1)
    by (intro that [of "write_u64 (entry_ptr s1 q1 (table_index 1 v)) (p OR f OR PRESENT) s1"]) (simp_all add: map_page_into_def Let_def)
qed

lemma tiny_elf_load:
  assumes "n + 4 \<le> card (free_set s)"
  shows "\<exists>img s'. elf_load tiny_elf pml4 s = load_ok img s' \<and> n \<le> card (free_set s')"
proof -
  have "free_set s \<noteq> {}" using assms by auto
  then obtain a s1 where a: "alloc_page s = Some (a, s1)" by (simp add: alloc_page_eq Let_def)
  from a have c: "n + 3 \<le> card (free_set s1)" by (rule alloc_page_SomeD) (use assms in simp)
  obtain s2 where s2: "map_page_into pml4 0x400000 a (USER OR WRITE) (write_bytes (phys_to_virt s1 a) 0 4096 s1) = Inr ((), s2)"
      "n \<le> card (free_set s2)"
    by (rule map_page_into_succeeds [of n "write_bytes (phys_to_virt s1 a) 0 4096 s1"]) (use c in auto)
  have h: "header_error tiny_elf = None" "unat (le_u16 tiny_elf 56) = Suc 0" "le_u64 tiny_elf 32 = 64" "length tiny_elf = 120"
    "ucast (le_u16 tiny_elf 54) = (56 :: u64)"
    by (simp_all add: tiny_elf_def file_simps)
  define g where "g = parse_segment (drop 64 tiny_elf)"
  have g: "p_type g = 1" "p_memsz g = 1" "p_filesz g = 0" "p_vaddr g = 0x400000"
    by (simp_all add: g_def parse_segment_def tiny_elf_def file_simps)
  have sl: "slice_at tiny_elf 64 (64 + 56) = Inr (drop 64 tiny_elf)" using h(4) by (simp add: slice_at_def)
  have np: "unat (num_pages g) = Suc 0" "page_start g = 0x400000"
    by (simp_all add: num_pages_def page_start_def page_down_def g)
  have gp: "get_page pml4 0x400000 ([], []) s = load_ok (a, ([a], [(0x400000, a)])) s2"
    using a s2 by (simp add: get_page_def find_page_def Let_def)
  have cp: "copy_page tiny_elf g 0x400000 a s2 = Inr s2"
    by (simp add: copy_page_def copy_window_def g Let_def)
  have ls: "load_segment tiny_elf pml4 g ([], []) s = load_ok ([a], [(0x400000, a)]) s2"
    using g gp cp by (simp add: load_segment_def np)
  show ?thesis using h sl ls s2(2) by (simp add: elf_load_def g_def [symmetric] h(4))
qed

lemma example_kmem_free: "4 \<le> card (free_set example_kmem)"
proof -
  have "{2, 3, 4, 5} \<subseteq> free_set example_kmem" by (simp add: example_free_set MAX_PAGES_def)
  then have "card {2, 3, 4, 5 :: nat} \<le> card (free_set example_kmem)" by (intro card_mono) simp_all
  then show ?thesis by simp
qed

end
