(* ===== verification/Process.thy ===== *)
theory Process
  imports Scheduler Elf Rust_Text "HOL-Library.Multiset"
begin

text \<open>
  User processes, \<open>kernel/src/process.rs\<close>: the per-task slots, memory mapped into a running process, the
  captured output, the process table, the address space of a process, the entry to ring 3 and the return
  from it, and processes run by their own task (\<open>exec_async\<close>, \<open>poll_async\<close>).

  What the processor and the other tasks do between the \<open>iretq\<close> and the process's \<open>SYS_EXIT\<close> is the parameter
  \<open>ring3\<close>: the exit code and the state it leaves, or \<open>None\<close> for a process that never exits. Strings are their
  UTF-8 bytes; the ELF images the build script bakes in are parameters.
\<close>

section \<open>Statics\<close>

definition USER_STACK_PAGES :: u64 where "USER_STACK_PAGES = 8"
definition USER_STACK_TOP :: u64 where "USER_STACK_TOP = 0x7FFFF000"
definition USER_STACK_BASE :: u64 where "USER_STACK_BASE = USER_STACK_TOP - USER_STACK_PAGES * 4096"
definition USER_MMIO_BASE :: u64 where "USER_MMIO_BASE = 0x60000000"
definition MAX_TASKS :: nat where "MAX_TASKS = 32"
definition MAX_PROCS :: nat where "MAX_PROCS = 32"

record ProcSlot =
  kernel_return_rsp :: u64
  exit_code :: u64
  user_running :: bool
  mmio_next_va :: u64
  ps_pid :: u32

definition ProcSlot_empty :: ProcSlot where
  "ProcSlot_empty = \<lparr>kernel_return_rsp = 0, exit_code = 0, user_running = False, mmio_next_va = 0, ps_pid = 0\<rparr>"

datatype ProcState = ProcRunning | ProcExited

record ProcEntry =
  pe_pid :: u32
  pe_name :: "u8 list"
  pe_state :: ProcState
  pe_exit_code :: u64

record AsyncJob =
  job_issuer :: nat
  job_name :: "u8 list"
  job_data :: "u8 list"
  job_arg :: u64

record proc_state = sched_state +
  PROC_SLOTS :: "ProcSlot list"
  PROC_OUT :: "(nat \<times> u8 list) list"
  PROCTAB :: "ProcEntry list"
  NEXT_PID :: u32
  PENDING_QUEUE :: "AsyncJob list"
  DONE_QUEUE :: "(nat \<times> u8 list) list"
  ACTIVE_JOBS :: u64

definition slot_index :: "'a proc_state_scheme \<Rightarrow> nat" where
  "slot_index s = min (current_task_index s) (MAX_TASKS - 1)"

definition slot :: "'a proc_state_scheme \<Rightarrow> ProcSlot" where
  "slot s = PROC_SLOTS s ! slot_index s"

definition set_slot :: "nat \<Rightarrow> (ProcSlot \<Rightarrow> ProcSlot) \<Rightarrow> 'a proc_state_scheme \<Rightarrow> 'a proc_state_scheme" where
  "set_slot i f s = s\<lparr>PROC_SLOTS := (PROC_SLOTS s)[i := f (PROC_SLOTS s ! i)]\<rparr>"

definition current_pid :: "'a proc_state_scheme \<Rightarrow> u32" where
  "current_pid s = ps_pid (slot s)"

definition is_user_running :: "'a proc_state_scheme \<Rightarrow> bool" where
  "is_user_running s = user_running (slot s)"

section \<open>Memory of a running process\<close>

fun map_user_pages :: "nat \<Rightarrow> u64 \<Rightarrow> u64 \<Rightarrow> 'a proc_state_scheme \<Rightarrow> panic + 'a proc_state_scheme" where
  "map_user_pages 0 virt phys s = Inr s"
| "map_user_pages (Suc n) virt phys s =
    rbind (map_page_current_user virt phys (WRITE OR NOCACHE) s) (\<lambda>(_, s).
    map_user_pages n (virt + 4096) (phys + 4096) s)"

definition map_mmio_for_user :: "u64 \<Rightarrow> u64 \<Rightarrow> 'a proc_state_scheme \<Rightarrow> panic + (u64 \<times> 'a proc_state_scheme)" where
  "map_mmio_for_user phys len s =
    (if \<not> user_running (slot s) then Inr (0, s)
     else if len = 0 \<or> len > 16 * 1024 * 1024 then Inr (0, s)
     else let page_off = phys AND 0xFFF; phys_base = phys AND NOT 0xFFF;
              pages = (page_off + len + 0xFFF) div 4096;
              virt_base = mmio_next_va (slot s);
              s = set_slot (slot_index s) (mmio_next_va_update (\<lambda>v. v + pages * 4096)) s in
          rbind (map_user_pages (unat pages) virt_base phys_base s) (\<lambda>s. Inr (virt_base + page_off, s)))"

fun map_anon_pages :: "nat \<Rightarrow> u64 \<Rightarrow> 'a proc_state_scheme \<Rightarrow> panic + (bool \<times> 'a proc_state_scheme)" where
  "map_anon_pages 0 virt s = Inr (True, s)"
| "map_anon_pages (Suc n) virt s = (case alloc_page s of
     None \<Rightarrow> Inr (False, s)
   | Some (phys, s) \<Rightarrow>
       rbind (map_page_current_user virt phys WRITE (write_bytes (phys_to_virt s phys) 0 4096 s)) (\<lambda>(_, s).
       map_anon_pages n (virt + 4096) s))"

definition map_anon_for_user :: "u64 \<Rightarrow> 'a proc_state_scheme \<Rightarrow> panic + (u64 \<times> 'a proc_state_scheme)" where
  "map_anon_for_user len s =
    (if \<not> user_running (slot s) then Inr (0, s)
     else if len = 0 \<or> len > 64 * 1024 * 1024 then Inr (0, s)
     else let pages = (len + 0xFFF) div 4096;
              virt_base = mmio_next_va (slot s);
              s = set_slot (slot_index s) (mmio_next_va_update (\<lambda>v. v + pages * 4096)) s in
          rbind (map_anon_pages (unat pages) virt_base s) (\<lambda>(mapped, s).
          Inr (if mapped then virt_base else 0, s)))"

section \<open>Captured output\<close>

fun append_out :: "nat \<Rightarrow> u8 list \<Rightarrow> (nat \<times> u8 list) list \<Rightarrow> (nat \<times> u8 list) list" where
  "append_out idx bs [] = [(idx, bs)]"
| "append_out idx bs ((i, buf) # out) = (if i = idx then (i, buf @ bs) # out else (i, buf) # append_out idx bs out)"

definition remove_at :: "nat \<Rightarrow> 'a list \<Rightarrow> 'a list" where
  "remove_at i xs = take i xs @ drop (Suc i) xs"

definition proc_write :: "u8 list \<Rightarrow> 'a proc_state_scheme \<Rightarrow> 'a proc_state_scheme" where
  "proc_write bs s = s\<lparr>PROC_OUT := append_out (slot_index s) bs (PROC_OUT s)\<rparr>"

definition take_proc_output :: "'a proc_state_scheme \<Rightarrow> u8 list \<times> 'a proc_state_scheme" where
  "take_proc_output s = (case position (\<lambda>(i, _). i = slot_index s) (PROC_OUT s) of
     Some p \<Rightarrow> (snd (PROC_OUT s ! p), s\<lparr>PROC_OUT := remove_at p (PROC_OUT s)\<rparr>)
   | None \<Rightarrow> ([], s))"

section \<open>The process table\<close>

definition table_add :: "u32 \<Rightarrow> u8 list \<Rightarrow> ProcEntry list \<Rightarrow> ProcEntry list" where
  "table_add pid nm tab =
    (let tab = (if MAX_PROCS \<le> length tab then
        (case position (\<lambda>e. pe_state e = ProcExited) tab of Some i \<Rightarrow> remove_at i tab | None \<Rightarrow> tab) else tab)
     in tab @ [\<lparr>pe_pid = pid, pe_name = nm, pe_state = ProcRunning, pe_exit_code = 0\<rparr>])"

fun table_exit :: "u32 \<Rightarrow> u64 \<Rightarrow> ProcEntry list \<Rightarrow> ProcEntry list" where
  "table_exit pid code [] = []"
| "table_exit pid code (e # tab) = (if pe_pid e = pid
     then e\<lparr>pe_state := ProcExited, pe_exit_code := code\<rparr> # tab else e # table_exit pid code tab)"

definition for_each_proc :: "(u32 \<Rightarrow> u8 list \<Rightarrow> bool \<Rightarrow> u64 \<Rightarrow> 'r \<Rightarrow> 'r) \<Rightarrow> 'a proc_state_scheme \<Rightarrow> 'r \<Rightarrow> 'r" where
  "for_each_proc f s = fold (\<lambda>e. f (pe_pid e) (pe_name e) (pe_state e = ProcRunning) (pe_exit_code e)) (PROCTAB s)"

definition is_process_running :: "u8 list \<Rightarrow> 'a proc_state_scheme \<Rightarrow> bool" where
  "is_process_running nm s = for_each_proc (\<lambda>_ n running _ found. if running \<and> n = nm then True else found) s False"

definition pid_for_name :: "u8 list \<Rightarrow> 'a proc_state_scheme \<Rightarrow> u32 option" where
  "pid_for_name nm s = for_each_proc (\<lambda>pid n running _ found. if running \<and> n = nm then Some pid else found) s None"

definition name_for_running_pid :: "u32 \<Rightarrow> 'a proc_state_scheme \<Rightarrow> u8 list option" where
  "name_for_running_pid pid s = for_each_proc (\<lambda>p n running _ found. if running \<and> p = pid then Some n else found) s None"

section \<open>The address space of a process\<close>

definition proc_read_cr3 :: "'a proc_state_scheme \<Rightarrow> u64" where
  "proc_read_cr3 s = CR3 s AND NOT 0xFFF"

fun copy_entries :: "nat list \<Rightarrow> u64 \<Rightarrow> u64 \<Rightarrow> 'a proc_state_scheme \<Rightarrow> 'a proc_state_scheme" where
  "copy_entries [] cur new s = s"
| "copy_entries (i # is) cur new s =
    copy_entries is cur new (write_u64 (new + 8 * word_of_nat i) (read_u64 s (cur + 8 * word_of_nat i)) s)"

definition kernel_entries :: "nat list" where
  "kernel_entries = [256 ..< 512]"

definition create_user_pml4 :: "'a proc_state_scheme \<Rightarrow> panic + (u64 \<times> 'a proc_state_scheme)" where
  "create_user_pml4 s = (case alloc_page s of
     None \<Rightarrow> Inl (Panic ''process: OOM for PML4'')
   | Some (phys, s) \<Rightarrow>
       let virt = phys_to_virt s phys; cur_cr3 = proc_read_cr3 s;
           s = write_bytes virt 0 4096 s
       in Inr (phys, copy_entries kernel_entries (phys_to_virt s cur_cr3) virt s))"

fun map_stack :: "nat \<Rightarrow> u64 \<Rightarrow> u64 \<Rightarrow> u64 list \<Rightarrow> 'a proc_state_scheme \<Rightarrow>
    panic + ((string + u64 list) \<times> 'a proc_state_scheme)" where
  "map_stack 0 virt pml4 pages s = Inr (Inr pages, s)"
| "map_stack (Suc n) virt pml4 pages s = (case alloc_page s of
     None \<Rightarrow> Inr (Inl ''run_elf: OOM for stack'', s)
   | Some (p, s) \<Rightarrow>
       rbind (map_page_into pml4 virt p (USER OR WRITE) (write_bytes (phys_to_virt s p) 0 4096 s)) (\<lambda>(_, s).
       map_stack n (virt + 4096) pml4 (pages @ [p]) s))"

section \<open>Ring 3\<close>

text \<open>The part of the \<open>iretq\<close> frame and of the registers that is not in \<open>cpu_regs\<close>.\<close>

record user_frame =
  uf_cs :: u64
  uf_rflags :: u64
  uf_ss :: u64
  uf_rdi :: u64

type_synonym 's ring3 = "user_frame \<Rightarrow> 's \<Rightarrow> (u64 \<times> 's) option"

definition iretq :: "u64 \<Rightarrow> 'a proc_state_scheme \<Rightarrow> user_frame \<times> 'a proc_state_scheme" where
  "iretq rdi s = (let sp = rsp (CPU s) in
     (\<lparr>uf_cs = read_u64 s (sp + 8), uf_rflags = read_u64 s (sp + 16), uf_ss = read_u64 s (sp + 32), uf_rdi = rdi\<rparr>,
      s\<lparr>CPU := (CPU s)\<lparr>rip := read_u64 s sp, rsp := read_u64 s (sp + 24)\<rparr>\<rparr>))"

text \<open>From its entry, where \<open>rsp\<close> points at the return address; \<open>idx\<close> is the slot \<open>krsp_ptr\<close> points into.\<close>

definition save_callee :: "'a proc_state_scheme \<Rightarrow> 'a proc_state_scheme" where
  "save_callee s = push_of r15 (push_of r14 (push_of r13 (push_of r12 (push_of rbx (push_of rbp s)))))"

definition enter_ring3 :: "u64 \<Rightarrow> u64 \<Rightarrow> nat \<Rightarrow> u64 \<Rightarrow> 'a proc_state_scheme \<Rightarrow> user_frame \<times> 'a proc_state_scheme" where
  "enter_ring3 entry stack_top idx arg s =
    (let s = save_callee s;
         s = set_slot idx (kernel_return_rsp_update (\<lambda>_. rsp (CPU s))) s;
         s = push_reg 0x1b s;
         s = push_reg stack_top s;
         s = push_reg 0x202 s;
         s = push_reg 0x23 s;
         s = push_reg entry s
     in iretq arg s)"

definition do_exit :: "u64 \<Rightarrow> 'a proc_state_scheme \<Rightarrow> 'a proc_state_scheme" where
  "do_exit code s =
    (let s = set_slot (slot_index s) (\<lambda>p. p\<lparr>exit_code := code, user_running := False\<rparr>) s;
         krsp = kernel_return_rsp (slot s);
         s = s\<lparr>gs_swapped := \<not> gs_swapped s\<rparr>;
         s = load_rsp krsp s
     in pop_into rip_update (pop_into rbp_update (pop_into rbx_update (pop_into r12_update
          (pop_into r13_update (pop_into r14_update (pop_into r15_update s)))))))"

definition run_elf :: "'a proc_state_scheme ring3 \<Rightarrow> u64 \<Rightarrow> u32 \<Rightarrow> u8 list \<Rightarrow> u64 \<Rightarrow> 'a proc_state_scheme \<Rightarrow>
    (panic + ((string + u64) \<times> 'a proc_state_scheme)) option" where
  "run_elf ring3 ret pid data arg s =
    (let idx = slot_index s;
         s = set_slot idx (\<lambda>_. ProcSlot_empty\<lparr>ps_pid := pid, mmio_next_va := USER_MMIO_BASE\<rparr>) s in
     case create_user_pml4 s of Inl e \<Rightarrow> Some (Inl e) | Inr (pml4, s) \<Rightarrow>
     (case elf_load data pml4 s of Inl e \<Rightarrow> Some (Inl e) | Inr (Inl msg, s) \<Rightarrow> Some (Inr (Inl msg, s)) | Inr (Inr loaded, s) \<Rightarrow>
     (case map_stack (unat USER_STACK_PAGES) USER_STACK_BASE pml4 [] s of
        Inl e \<Rightarrow> Some (Inl e) | Inr (Inl msg, s) \<Rightarrow> Some (Inr (Inl msg, s)) | Inr (Inr stack_pages, s) \<Rightarrow>
     let orig_cr3 = proc_read_cr3 s;
         s = set_current_cr3 pml4 (write_cr3 pml4 s);
         s = set_slot idx (user_running_update (\<lambda>_. True)) s;
         (frame, s) = enter_ring3 (l_entry loaded) USER_STACK_TOP idx arg (push_reg ret s) in
     (case ring3 frame s of None \<Rightarrow> None | Some (code, s) \<Rightarrow>
     let s = do_exit code s;
         s = set_current_cr3 orig_cr3 (write_cr3 orig_cr3 s);
         s = fold free_page stack_pages s;
         s = fold free_page (l_pages loaded) s;
         s = free_page pml4 s
     in Some (Inr (Inr (exit_code (PROC_SLOTS s ! idx)), s))))))"

definition exec_blocking :: "'a proc_state_scheme ring3 \<Rightarrow> u64 \<Rightarrow> u8 list \<Rightarrow> u8 list \<Rightarrow> u64 \<Rightarrow> 'a proc_state_scheme \<Rightarrow>
    (panic + ((string + u64) \<times> 'a proc_state_scheme)) option" where
  "exec_blocking ring3 ret nm data arg s =
    (let (_, s) = take_proc_output s;
         pid = NEXT_PID s;
         s = s\<lparr>NEXT_PID := pid + 1\<rparr>;
         s = s\<lparr>PROCTAB := table_add pid nm (PROCTAB s)\<rparr> in
     case run_elf ring3 ret pid data arg s of
       Some (Inr (result, s)) \<Rightarrow>
         Some (Inr (result, s\<lparr>PROCTAB := table_exit pid (case result of Inr c \<Rightarrow> c | Inl _ \<Rightarrow> - 1) (PROCTAB s)\<rparr>))
     | r \<Rightarrow> r)"

section \<open>Processes in the background\<close>

definition job_in_progress :: "'a proc_state_scheme \<Rightarrow> bool" where
  "job_in_progress s \<longleftrightarrow> 0 < ACTIVE_JOBS s"

definition exec_async_with_arg :: "u64 \<Rightarrow> u64 \<Rightarrow> nat \<Rightarrow> u8 list \<Rightarrow> u8 list \<Rightarrow> u64 \<Rightarrow> 'a proc_state_scheme \<Rightarrow>
    panic + ((string + unit) \<times> 'a proc_state_scheme)" where
  "exec_async_with_arg trampoline entry issuer nm data arg s =
    (if data = [] then Inr (Inl ''nothing to run'', s)
     else let s = s\<lparr>ACTIVE_JOBS := ACTIVE_JOBS s + 1\<rparr>;
              s = s\<lparr>PENDING_QUEUE := PENDING_QUEUE s @
                [\<lparr>job_issuer = issuer, job_name = nm, job_data = data, job_arg = arg\<rparr>]\<rparr> in
          rbind (spawn trampoline ''user_proc'' entry s) (\<lambda>(_, s). Inr (Inr (), s)))"

definition exec_async :: "u64 \<Rightarrow> u64 \<Rightarrow> nat \<Rightarrow> u8 list \<Rightarrow> u8 list \<Rightarrow> 'a proc_state_scheme \<Rightarrow>
    panic + ((string + unit) \<times> 'a proc_state_scheme)" where
  "exec_async trampoline entry issuer nm data s = exec_async_with_arg trampoline entry issuer nm data 0 s"

definition pop_last :: "'x list \<Rightarrow> 'x option \<times> 'x list" where
  "pop_last xs = (if xs = [] then (None, []) else (Some (last xs), butlast xs))"

definition exit_message :: "u8 list \<Rightarrow> u8 list \<Rightarrow> string + u64 \<Rightarrow> u8 list" where
  "exit_message nm output result = (case result of
     Inr code \<Rightarrow>
       (let t = (if output = [] then [] else
           let t = utf8_lossy output in if last t = 10 then t else t @ [10])
        in t @ nm @ str_bytes '' exited: '' @ decimal (unat code))
   | Inl e \<Rightarrow> nm @ str_bytes '': '' @ str_bytes e)"

definition async_task_entry :: "'a proc_state_scheme ring3 \<Rightarrow> u64 \<Rightarrow> u64 \<Rightarrow> 'a proc_state_scheme \<Rightarrow>
    (panic + (bool \<times> 'a proc_state_scheme)) option" where
  "async_task_entry ring3 ret ret' s =
    (let (popped, q) = pop_last (PENDING_QUEUE s);
         s = s\<lparr>PENDING_QUEUE := q\<rparr>;
         finish = (\<lambda>s. Inr (exit_current ret' (s\<lparr>ACTIVE_JOBS := ACTIVE_JOBS s - 1\<rparr>))) in
     case popped of
       None \<Rightarrow> Some (finish s)
     | Some j \<Rightarrow>
         (case exec_blocking ring3 ret (job_name j) (job_data j) (job_arg j) s of
            None \<Rightarrow> None
          | Some (Inl e) \<Rightarrow> Some (Inl e)
          | Some (Inr (result, s)) \<Rightarrow>
              let (output, s) = take_proc_output s;
                  msg = exit_message (job_name j) output result
              in Some (finish (s\<lparr>DONE_QUEUE := DONE_QUEUE s @ [(job_issuer j, msg)]\<rparr>))))"

definition poll_async :: "'a proc_state_scheme \<Rightarrow> (nat \<times> u8 list) option \<times> 'a proc_state_scheme" where
  "poll_async s = (let (r, q) = pop_last (DONE_QUEUE s) in (r, s\<lparr>DONE_QUEUE := q\<rparr>))"

section \<open>The baked-in programs\<close>

definition TEST_ELF :: "u8 list" where
  "TEST_ELF = [
     0x7f, 0x45, 0x4c, 0x46, 0x02, 0x01, 0x01, 0x00, 0x00, 0x00, 0x00, 0x00, 0x00, 0x00, 0x00, 0x00,
     0x02, 0x00, 0x3e, 0x00, 0x01, 0x00, 0x00, 0x00, 0x78, 0x00, 0x40, 0x00, 0x00, 0x00, 0x00, 0x00,
     0x40, 0x00, 0x00, 0x00, 0x00, 0x00, 0x00, 0x00, 0x00, 0x00, 0x00, 0x00, 0x00, 0x00, 0x00, 0x00,
     0x00, 0x00, 0x00, 0x00, 0x40, 0x00, 0x38, 0x00, 0x01, 0x00, 0x40, 0x00, 0x00, 0x00, 0x00, 0x00,
     0x01, 0x00, 0x00, 0x00, 0x05, 0x00, 0x00, 0x00, 0x00, 0x00, 0x00, 0x00, 0x00, 0x00, 0x00, 0x00,
     0x00, 0x00, 0x40, 0x00, 0x00, 0x00, 0x00, 0x00, 0x00, 0x00, 0x40, 0x00, 0x00, 0x00, 0x00, 0x00,
     0xb7, 0x00, 0x00, 0x00, 0x00, 0x00, 0x00, 0x00, 0xb7, 0x00, 0x00, 0x00, 0x00, 0x00, 0x00, 0x00,
     0x00, 0x10, 0x00, 0x00, 0x00, 0x00, 0x00, 0x00, 0x48, 0xc7, 0xc0, 0x01, 0x00, 0x00, 0x00, 0x48,
     0xc7, 0xc7, 0x01, 0x00, 0x00, 0x00, 0x48, 0x8d, 0x35, 0x17, 0x00, 0x00, 0x00, 0x48, 0xc7, 0xc2,
     0x13, 0x00, 0x00, 0x00, 0x0f, 0x05, 0x48, 0xc7, 0xc0, 0x3c, 0x00, 0x00, 0x00, 0x48, 0x31, 0xff,
     0x0f, 0x05, 0xeb, 0xfe, 0x48, 0x65, 0x6c, 0x6c, 0x6f, 0x20, 0x66, 0x72, 0x6f, 0x6d, 0x20, 0x72,
     0x69, 0x6e, 0x67, 0x20, 0x33, 0x21, 0x0a]"

definition not_built :: "string \<Rightarrow> string" where
  "not_built nm = nm @ '' ELF not built '' @ [CHR 0xE2, CHR 0x80, CHR 0x94] @ '' run build.ps1 first''"

definition run_test_async :: "u64 \<Rightarrow> u64 \<Rightarrow> nat \<Rightarrow> 'a proc_state_scheme \<Rightarrow> panic + ((string + unit) \<times> 'a proc_state_scheme)" where
  "run_test_async trampoline entry issuer s = exec_async trampoline entry issuer (str_bytes ''<test>'') TEST_ELF s"

definition run_hello_async :: "u8 list \<Rightarrow> u64 \<Rightarrow> u64 \<Rightarrow> nat \<Rightarrow> 'a proc_state_scheme \<Rightarrow>
    panic + ((string + unit) \<times> 'a proc_state_scheme)" where
  "run_hello_async HELLO_ELF trampoline entry issuer s =
    (if HELLO_ELF = [] then Inr (Inl (not_built ''hello''), s)
     else exec_async trampoline entry issuer (str_bytes ''<hello>'') HELLO_ELF s)"

definition run_hwtest_async :: "u8 list \<Rightarrow> u64 \<Rightarrow> u64 \<Rightarrow> nat \<Rightarrow> 'a proc_state_scheme \<Rightarrow>
    panic + ((string + unit) \<times> 'a proc_state_scheme)" where
  "run_hwtest_async HWTEST_ELF trampoline entry issuer s =
    (if HWTEST_ELF = [] then Inr (Inl (not_built ''hwtest''), s)
     else exec_async trampoline entry issuer (str_bytes ''<hwtest>'') HWTEST_ELF s)"

definition run_memtest_async :: "u8 list \<Rightarrow> u64 \<Rightarrow> u64 \<Rightarrow> nat \<Rightarrow> 'a proc_state_scheme \<Rightarrow>
    panic + ((string + unit) \<times> 'a proc_state_scheme)" where
  "run_memtest_async MEMTEST_ELF trampoline entry issuer s =
    (if MEMTEST_ELF = [] then Inr (Inl (not_built ''memtest''), s)
     else exec_async trampoline entry issuer (str_bytes ''<memtest>'') MEMTEST_ELF s)"

definition run_inputtest_async :: "u8 list \<Rightarrow> u64 \<Rightarrow> u64 \<Rightarrow> nat \<Rightarrow> 'a proc_state_scheme \<Rightarrow>
    panic + ((string + unit) \<times> 'a proc_state_scheme)" where
  "run_inputtest_async INPUTTEST_ELF trampoline entry issuer s =
    (if INPUTTEST_ELF = [] then Inr (Inl (not_built ''inputtest''), s)
     else exec_async trampoline entry issuer (str_bytes ''<inputtest>'') INPUTTEST_ELF s)"

definition run_fstest_async :: "u8 list \<Rightarrow> u64 \<Rightarrow> u64 \<Rightarrow> nat \<Rightarrow> 'a proc_state_scheme \<Rightarrow>
    panic + ((string + unit) \<times> 'a proc_state_scheme)" where
  "run_fstest_async FSTEST_ELF trampoline entry issuer s =
    (if FSTEST_ELF = [] then Inr (Inl (not_built ''fstest''), s)
     else exec_async trampoline entry issuer (str_bytes ''<fstest>'') FSTEST_ELF s)"

definition run_svctest_async :: "u8 list \<Rightarrow> u64 \<Rightarrow> u64 \<Rightarrow> nat \<Rightarrow> 'a proc_state_scheme \<Rightarrow>
    panic + ((string + unit) \<times> 'a proc_state_scheme)" where
  "run_svctest_async SVCTEST_ELF trampoline entry issuer s =
    (if SVCTEST_ELF = [] then Inr (Inl (not_built ''svctest''), s)
     else exec_async trampoline entry issuer (str_bytes ''<svctest>'') SVCTEST_ELF s)"

section \<open>Entering and leaving ring 3\<close>

lemma frame_fold_push:
  assumes "length vs = 7" "56 \<le> unat (rsp (CPU s))"
  shows "rsp (CPU (fold push_reg vs s)) = rsp (CPU s) - 56" "frame_words (fold push_reg vs s) (rsp (CPU s) - 56) = rev vs"
proof -
  let ?r = "rsp (CPU s)" and ?s = "fold push_reg vs s"
  have b: "8 * length vs \<le> unat ?r" using assms by simp
  show "rsp (CPU ?s) = ?r - 56" using fold_push(1) [OF b] assms(1) by simp
  have rd: "read_u64 ?s (?r - word_of_nat (8 * Suc k)) = vs ! k" if "k < 7" for k
    using fold_push(2) [OF b] assms(1) that by simp
  have "frame_words ?s (?r - 56) = [vs ! 6, vs ! 5, vs ! 4, vs ! 3, vs ! 2, vs ! 1, vs ! 0]"
    unfolding frame_words_def
    using rd [of 6] rd [of 5] rd [of 4] rd [of 3] rd [of 2] rd [of 1] rd [of 0]
    by (simp add: upt_rec algebra_simps del: fold_simps)
  also have "\<dots> = rev vs"
    by (rule nth_equalityI) (use assms(1) in \<open>auto simp: rev_nth less_Suc_eq eval_nat_numeral\<close>)
  finally show "frame_words ?s (?r - 56) = rev vs" .
qed

lemma push_reg_slots [simp]:
  "PROC_SLOTS (push_reg v s) = PROC_SLOTS s" "current (push_reg v s) = current s"
  by (simp_all add: push_reg_def write_u64_def Let_def)

lemma set_slot_fields [simp]:
  "CPU (set_slot i f s) = CPU s" "MEM (set_slot i f s) = MEM s" "read_u64 (set_slot i f s) q = read_u64 s q"
  "PROC_SLOTS (set_slot i f s) = (PROC_SLOTS s)[i := f (PROC_SLOTS s ! i)]" "current (set_slot i f s) = current s"
  by (simp_all add: set_slot_def read_u64_def)

lemma save_callee_fold:
  "save_callee (push_reg ret s) =
     fold push_reg [ret, rbp (CPU s), rbx (CPU s), r12 (CPU s), r13 (CPU s), r14 (CPU s), r15 (CPU s)] s"
  by (simp add: save_callee_def push_of_def)

lemma fold_push_slots [simp]: "PROC_SLOTS (fold push_reg vs s) = PROC_SLOTS s"
  by (induction vs arbitrary: s) simp_all

lemma unat_frame_slot:
  assumes "56 \<le> unat (r :: u64)" "k < 7"
  shows "unat (r - 56 + 8 * word_of_nat k) = unat r - 56 + 8 * k"
proof -
  have 1: "unat (r - word_of_nat 56) = unat r - 56" by (rule unat_minus_small) (use assms(1) in simp)
  have 2: "unat (8 * word_of_nat k :: u64) = 8 * k" using unat_u64_of_nat [of "8 * k"] assms(2) by simp
  have "unat r + 8 * k - 56 < 18446744073709551616" using unat_u64_less [of r] assms by linarith
  then show ?thesis using 1 2 assms unat_add_u64 [of "r - 56" "8 * word_of_nat k"] by simp
qed

text \<open>The state in which ring 3 starts.\<close>

lemma enter_ring3_start:
  assumes "96 \<le> unat (rsp (CPU s))" "idx < length (PROC_SLOTS s)"
    "enter_ring3 entry stack_top idx arg (push_reg ret s) = (f, s1)"
  shows "f = \<lparr>uf_cs = 0x23, uf_rflags = 0x202, uf_ss = 0x1b, uf_rdi = arg\<rparr>" "rip (CPU s1) = entry" "rsp (CPU s1) = stack_top"
    "PROC_SLOTS s1 = (PROC_SLOTS s)[idx := (PROC_SLOTS s ! idx)\<lparr>kernel_return_rsp := rsp (CPU s) - 56\<rparr>]"
    "frame_words s1 (rsp (CPU s) - 56) =
       [r15 (CPU s), r14 (CPU s), r13 (CPU s), r12 (CPU s), rbx (CPU s), rbp (CPU s), ret]"
proof -
  let ?vs = "[ret, rbp (CPU s), rbx (CPU s), r12 (CPU s), r13 (CPU s), r14 (CPU s), r15 (CPU s)]"
  let ?ws = "[0x1b, stack_top, 0x202, 0x23, entry]"
  define c where "c = fold push_reg ?vs s"
  define t where "t = set_slot idx (kernel_return_rsp_update (\<lambda>_. rsp (CPU c))) c"
  define u where "u = fold push_reg ?ws t"
  have c: "rsp (CPU c) = rsp (CPU s) - 56" "frame_words c (rsp (CPU s) - 56) = rev ?vs"
    unfolding c_def by (rule frame_fold_push; use assms(1) in simp)+
  have t: "rsp (CPU t) = rsp (CPU s) - 56" "\<And>q. read_u64 t q = read_u64 c q" using c by (simp_all add: t_def)
  have "unat (rsp (CPU s) - word_of_nat 56) = unat (rsp (CPU s)) - 56" by (rule unat_minus_small) (use assms(1) in simp)
  then have b: "8 * length ?ws \<le> unat (rsp (CPU t))" using assms(1) t(1) by simp
  have "enter_ring3 entry stack_top idx arg (push_reg ret s) = iretq arg u"
    unfolding enter_ring3_def Let_def save_callee_fold u_def t_def c_def by simp
  then have i: "iretq arg u = (f, s1)" using assms(3) by simp
  have sp: "rsp (CPU u) = rsp (CPU t) - 40" using fold_push(1) [OF b] by (simp add: u_def)
  have rd: "read_u64 u (rsp (CPU t) - word_of_nat (8 * Suc k)) = ?ws ! k" if "k < 5" for k
    unfolding u_def using fold_push(2) [OF b] that by simp
  show "f = \<lparr>uf_cs = 0x23, uf_rflags = 0x202, uf_ss = 0x1b, uf_rdi = arg\<rparr>" "rip (CPU s1) = entry" "rsp (CPU s1) = stack_top"
    using i rd [of 4] rd [of 3] rd [of 2] rd [of 1] rd [of 0] by (auto simp: iretq_def Let_def sp algebra_simps)
  have sl: "PROC_SLOTS s1 = PROC_SLOTS u" "MEM s1 = MEM u" using i by (auto simp: iretq_def Let_def)
  then show "PROC_SLOTS s1 = (PROC_SLOTS s)[idx := (PROC_SLOTS s ! idx)\<lparr>kernel_return_rsp := rsp (CPU s) - 56\<rparr>]"
    using c(1) unfolding u_def t_def fold_push_slots set_slot_fields by (simp add: c_def del: fold_simps)
  have "read_u64 s1 q = read_u64 c q" if "unat (rsp (CPU t)) \<le> unat q" for q
    using fold_push_other [OF b that] sl(2) t(2) by (simp add: u_def read_u64_def del: fold_simps)
  moreover have "unat (rsp (CPU t)) \<le> unat (rsp (CPU t) + 8 * word_of_nat k)" if "k < 7" for k
    using unat_frame_slot [of "rsp (CPU s)" k] unat_frame_slot [of "rsp (CPU s)" 0] assms(1) that by (simp add: t(1))
  ultimately have "frame_words s1 (rsp (CPU s) - 56) = frame_words c (rsp (CPU s) - 56)"
    by (simp add: frame_words_def t(1))
  then show "frame_words s1 (rsp (CPU s) - 56) =
       [r15 (CPU s), r14 (CPU s), r13 (CPU s), r12 (CPU s), rbx (CPU s), rbp (CPU s), ret]"
    using c(2) by simp
qed

lemma exit_cpu:
  assumes "slot_index s < length (PROC_SLOTS s)" "kernel_return_rsp (slot s) = sp"
    "frame_words s sp = [w15, w14, w13, w12, wbx, wbp, wip]"
  shows "CPU (do_exit code s) = \<lparr>rbx = wbx, rbp = wbp, r12 = w12, r13 = w13, r14 = w14, r15 = w15, rsp = sp + 56, rip = wip\<rparr>"
    "PROC_SLOTS (do_exit code s) = (PROC_SLOTS s)[slot_index s := (slot s)\<lparr>exit_code := code, user_running := False\<rparr>]"
    "gs_swapped (do_exit code s) \<longleftrightarrow> \<not> gs_swapped s"
proof -
  have cpu: "CPU (pop_into f s) = f (\<lambda>_. read_u64 s (rsp (CPU s))) ((CPU s)\<lparr>rsp := rsp (CPU s) + 8\<rparr>)"
    for f and s :: "'a proc_state_scheme" by (simp add: pop_into_def)
  define t where "t = load_rsp sp ((set_slot (slot_index s) (\<lambda>p. p\<lparr>exit_code := code, user_running := False\<rparr>) s)
      \<lparr>gs_swapped := \<not> gs_swapped s\<rparr>)"
  have r: "read_u64 t q = read_u64 s q" for q by (simp add: t_def load_rsp_def read_u64_def)
  have sp: "rsp (CPU t) = sp" by (simp add: t_def load_rsp_def)
  have kr: "kernel_return_rsp (slot (set_slot (slot_index s) (\<lambda>p. p\<lparr>exit_code := code, user_running := False\<rparr>) s)) = sp"
    using assms(1,2) by (simp add: slot_def slot_index_def current_task_index_def)
  have e: "do_exit code s = pop_into rip_update (pop_into rbp_update (pop_into rbx_update (pop_into r12_update
          (pop_into r13_update (pop_into r14_update (pop_into r15_update t))))))"
    unfolding do_exit_def Let_def kr t_def by (simp add: set_slot_def)
  show "CPU (do_exit code s) = \<lparr>rbx = wbx, rbp = wbp, r12 = w12, r13 = w13, r14 = w14, r15 = w15, rsp = sp + 56, rip = wip\<rparr>"
    unfolding e using assms(3) by (cases "CPU t") (simp add: cpu r sp [symmetric] frame_words_def upt_rec add.commute)
  show "PROC_SLOTS (do_exit code s) = (PROC_SLOTS s)[slot_index s := (slot s)\<lparr>exit_code := code, user_running := False\<rparr>]"
    "gs_swapped (do_exit code s) \<longleftrightarrow> \<not> gs_swapped s"
    unfolding e by (simp_all add: pop_into_def t_def load_rsp_def slot_def)
qed

text \<open>
  C21: a process starts in ring 3 with interrupts on, at its entry point, on its own stack and with its
  argument, and its exit resumes the caller of \<open>enter_ring3\<close>: when ring 3 gives the processor back with the
  task's slot and the seven words it saved on the task's stack as they were, \<open>do_exit\<close> restores every callee-saved
  register, the stack pointer and the return address, records the exit code and marks the process as stopped.
\<close>

theorem ring3_round_trip:
  assumes "96 \<le> unat (rsp (CPU s))" "slot_index s < length (PROC_SLOTS s)"
    "enter_ring3 entry stack_top (slot_index s) arg (push_reg ret s) = (f, s1)"
    "ring3 f s1 = Some (code, s2)" "slot_index s2 = slot_index s" "length (PROC_SLOTS s2) = length (PROC_SLOTS s)"
    "kernel_return_rsp (slot s2) = kernel_return_rsp (PROC_SLOTS s1 ! slot_index s)"
    "frame_words s2 (rsp (CPU s) - 56) = frame_words s1 (rsp (CPU s) - 56)"
  shows "f = \<lparr>uf_cs = 0x23, uf_rflags = 0x202, uf_ss = 0x1b, uf_rdi = arg\<rparr> \<and> rip (CPU s1) = entry \<and> rsp (CPU s1) = stack_top \<and>
    CPU (do_exit code s2) = (CPU s)\<lparr>rip := ret\<rparr> \<and>
    exit_code (slot (do_exit code s2)) = code \<and> \<not> user_running (slot (do_exit code s2))"
proof -
  note st = enter_ring3_start [OF assms(1,2,3)]
  have kr: "kernel_return_rsp (slot s2) = rsp (CPU s) - 56" using assms(2,7) st(4) by simp
  have lt: "slot_index s2 < length (PROC_SLOTS s2)" using assms(2,5,6) by simp
  note ex = exit_cpu [OF lt kr, unfolded assms(8), OF st(5)]
  have "CPU (do_exit code s2) = (CPU s)\<lparr>rip := ret\<rparr>" unfolding ex(1) by (cases "CPU s") simp
  moreover have "slot_index (do_exit code s2) = slot_index s2"
    by (simp add: do_exit_def Let_def slot_index_def current_task_index_def pop_into_def load_rsp_def)
  ultimately show ?thesis using st(1,2,3) ex(2) lt by (simp add: slot_def)
qed

text \<open>A machine with one running task and empty slots, for examples.\<close>

definition example_proc :: proc_state where
  "example_proc = \<lparr>BITMAP = (\<lambda>_. 0)(0 := 3), TOTAL_PAGES = 0, FREE_PAGES = 0, HHDM_OFFSET = 0xFFFF800000000000,
     MEM = \<lambda>_. 0, CR3 = 0x1000, TLB = {}, FREE_LISTS = \<lambda>_. 0,
     tasks = [example_task Running 0, example_task Ready 0], current = 0, NEXT_TASK_ID = 3, TICK_COUNT = 1,
     CPU = \<lparr>rbx = 1, rbp = 2, r12 = 3, r13 = 4, r14 = 5, r15 = 6, rsp = 0x8000, rip = 0x100\<rparr>,
     PERCPU_kernel_stack = 0, PERCPU_user_rsp = 0, TSS_rsp0 = 0, gs_swapped = False,
     PROC_SLOTS = replicate 32 ProcSlot_empty, PROC_OUT = [], PROCTAB = [], NEXT_PID = 1, PENDING_QUEUE = [],
     DONE_QUEUE = [], ACTIVE_JOBS = 0\<rparr>"

lemma example_proc_slot [simp]: "slot_index example_proc = 0" "length (PROC_SLOTS example_proc) = 32" "rsp (CPU example_proc) = 0x8000"
  by (simp_all add: slot_index_def current_task_index_def example_proc_def MAX_TASKS_def)

theorem ring3_round_trip_witness:
  "\<exists>f s1. enter_ring3 0x400078 USER_STACK_TOP 0 7 (push_reg 0x55 example_proc) = (f, s1) \<and>
     uf_rdi f = 7 \<and> CPU (do_exit 9 s1) = (CPU example_proc)\<lparr>rip := 0x55\<rparr> \<and> exit_code (slot (do_exit 9 s1)) = 9"
proof -
  obtain f s1 where e: "enter_ring3 0x400078 USER_STACK_TOP (slot_index example_proc) 7 (push_reg 0x55 example_proc) = (f, s1)"
    by (cases "enter_ring3 0x400078 USER_STACK_TOP (slot_index example_proc) 7 (push_reg 0x55 example_proc)")
  have sl: "PROC_SLOTS s1 = (PROC_SLOTS example_proc)[0 := (PROC_SLOTS example_proc ! 0)\<lparr>kernel_return_rsp := 0x8000 - 56\<rparr>]"
    using enter_ring3_start(4) [OF _ _ e] by simp
  have cur: "slot_index s1 = 0"
    using e by (auto simp: enter_ring3_def iretq_def Let_def save_callee_def push_of_def slot_index_def current_task_index_def
        example_proc_def)
  note r = ring3_round_trip [OF _ _ e, where code = 9 and ?s2.0 = s1 and ?ring3.0 = "\<lambda>_ s. Some (9, s)"]
  show ?thesis
    using r e sl cur by (simp add: slot_def)
qed

section \<open>The address space\<close>

lemma copy_entries_pte:
  assumes "hhdm_ok s" "unat cur = page_base s c" "unat new = page_base s n" "c \<noteq> n" "c < 2 ^ 20" "n < 2 ^ 20"
    "set ks \<subseteq> {256 ..< 512}" "distinct ks" "j < 512"
  shows "pte (copy_entries ks cur new s) t j = (if t = n \<and> j \<in> set ks then pte s c j else pte s t j) \<and>
    HHDM_OFFSET (copy_entries ks cur new s) = HHDM_OFFSET s \<and> free_set (copy_entries ks cur new s) = free_set s \<and>
    CR3 (copy_entries ks cur new s) = CR3 s"
  using assms
proof (induction ks arbitrary: s)
  case (Cons i ks)
  have i: "i < 512" using Cons.prems(7) by auto
  have at: "unat (p + 8 * word_of_nat i) = page_base s q + 8 * i" if "unat p = page_base s q" "q < 2 ^ 20" for p :: u64 and q
  proof -
    have "unat (8 * word_of_nat i :: u64) = 8 * i" using unat_u64_of_nat [of "8 * i"] i by simp
    moreover have "page_base s q + 8 * i < 2 ^ 64" using Cons.prems(1) that i by (simp add: hhdm_ok_def PAGE_SIZE_def)
    ultimately show ?thesis using that(1) by (simp add: unat_add_u64)
  qed
  let ?v = "read_u64 s (cur + 8 * word_of_nat i)"
  define s1 where "s1 = write_u64 (new + 8 * word_of_nat i) ?v s"
  have v: "?v = pte s c i" using at [OF Cons.prems(2,5)] by (simp add: read_u64_def pte_def)
  have p1: "pte s1 t' j' = (if (t', j') = (n, i) then pte s c i else pte s t' j')" if "j' < 512" for t' j'
    unfolding s1_def v using pte_write_entry [OF at [OF Cons.prems(3,6)] i that] by simp
  have f: "HHDM_OFFSET s1 = HHDM_OFFSET s" "free_set s1 = free_set s" "CR3 s1 = CR3 s" by (simp_all add: s1_def)
  have "pte (copy_entries ks cur new s1) t j = (if t = n \<and> j \<in> set ks then pte s1 c j else pte s1 t j) \<and>
      HHDM_OFFSET (copy_entries ks cur new s1) = HHDM_OFFSET s1 \<and> free_set (copy_entries ks cur new s1) = free_set s1 \<and>
      CR3 (copy_entries ks cur new s1) = CR3 s1"
    by (rule Cons.IH) (use Cons.prems f hhdm_ok_cong [of s1 s] in auto)
  moreover have "copy_entries (i # ks) cur new s = copy_entries ks cur new s1" by (simp add: s1_def)
  moreover have "j = i \<Longrightarrow> j \<notin> set ks" using Cons.prems(8) by auto
  ultimately show ?case using p1 [OF Cons.prems(9)] f Cons.prems(4) by auto
qed simp

lemma kernel_entries_set [simp]: "set kernel_entries = {256 ..< 512}" "distinct kernel_entries"
  by (simp_all only: kernel_entries_def set_upt distinct_upt)

text \<open>
  the address space made for a process has the kernel's half of the loaded one and nothing else: every
  entry of the upper half of the new PML4 is the loaded PML4's, every entry of the lower half is empty, so
  each kernel address translates as before and no user address translates; no other table changes.
\<close>

lemma create_user_pml4_halves:
  assumes "create_user_pml4 s = Inr (phys, s')" "hhdm_ok s" "unat (proc_read_cr3 s) = c * PAGE_SIZE" "c < MAX_PAGES" "is_used s c"
  shows "\<exists>n. n \<in> free_set s \<and> phys = page_addr n \<and> free_set s' = free_set s - {n} \<and>
    (\<forall>i < 512. pte s' n i = (if 256 \<le> i then pte s c i else 0)) \<and>
    (\<forall>t. t \<noteq> n \<longrightarrow> (\<forall>i < 512. pte s' t i = pte s t i)) \<and>
    (\<forall>v. table_index 4 v < 256 \<longrightarrow> walk (pte s') n v = None)"
proof -
  obtain s1 where a: "alloc_page s = Some (phys, s1)" using assms(1) by (auto simp: create_user_pml4_def Let_def split: option.splits)
  note k = alloc_page_kmem [OF a]
  obtain n where n: "n \<in> free_set s" "n < MAX_PAGES" "phys = page_addr n" "free_set s1 = free_set s - {n}"
    by (rule alloc_page_SomeD) (use a in simp)
  have cn: "c \<noteq> n" using n(1) assms(5) by (auto simp: free_set_def)
  have cr: "proc_read_cr3 s1 = proc_read_cr3 s" by (simp add: proc_read_cr3_def k(3))
  have h1: "hhdm_ok s1" using assms(2) hhdm_ok_cong [OF k(1)] by simp
  define z where "z = write_bytes (phys_to_virt s1 phys) 0 4096 s1"
  have v: "unat (phys_to_virt s1 phys) = page_base s1 n" using unat_phys_to_virt_page [OF h1 n(2)] n(3) by simp
  have hz: "HHDM_OFFSET z = HHDM_OFFSET s1" "hhdm_ok z" using h1 hhdm_ok_cong [of z s1] by (simp_all add: z_def)
  have u: "unat (proc_read_cr3 s) < 2 ^ 32" using assms(3,4) by (simp add: MAX_PAGES_def PAGE_SIZE_def)
  have w: "unat (phys_to_virt z (proc_read_cr3 s)) = page_base z c" using unat_phys_to_virt [OF hz(2) u] assms(3) by simp
  have s': "s' = copy_entries kernel_entries (phys_to_virt z (proc_read_cr3 s)) (phys_to_virt s1 phys) z"
    using assms(1) a cr by (simp add: create_user_pml4_def Let_def z_def)
  have bounds: "c < 2 ^ 20" "n < 2 ^ 20" using assms(4) n(2) by (simp_all add: MAX_PAGES_def)
  note c = copy_entries_pte [OF hz(2) w _ cn bounds, where new = "phys_to_virt s1 phys" and ks = kernel_entries, folded s']
  have pz: "pte z t i = (if t = n then 0 else pte s t i)" if "i < 512" for t i
  proof -
    have "pte s1 t i = pte s t i" using k(1,2) by (simp add: pte_def)
    then show ?thesis using pte_zero_page [OF v that] by (simp add: z_def)
  qed
  have e: "pte s' t i = (if t = n then (if 256 \<le> i then pte s c i else 0) else pte s t i)" if "i < 512" for t i
    using c [of i t] pz [OF that, of t] pz [OF that, of c] pz [OF that, of n] v hz(1) that cn by simp
  have "walk (pte s') n v = None" if "table_index 4 v < 256" for v
    using e [of "table_index 4 v" n] that by (simp add: walk_def leaf_slot_def upper_path_def)
  moreover have "free_set s' = free_set s - {n}" using c [of 0 0] v hz(1) n(4) by (simp add: z_def)
  ultimately show ?thesis using n e by (intro exI [of _ n]) simp
qed

section \<open>Output and process table\<close>

lemma append_out_map: "map_of (append_out idx bs out) =
    (map_of out)(idx \<mapsto> (case map_of out idx of None \<Rightarrow> bs | Some b \<Rightarrow> b @ bs))"
  by (induction idx bs out rule: append_out.induct) (auto simp: fun_eq_iff)

lemma append_out_fst: "fst ` set (append_out idx bs out) = insert idx (fst ` set out)"
  by (induction idx bs out rule: append_out.induct) (auto simp: image_iff)

lemma append_out_distinct: "distinct (map fst out) \<Longrightarrow> distinct (map fst (append_out idx bs out))"
proof (induction idx bs out rule: append_out.induct)
  case (2 idx bs i buf out)
  have "fst ` set (append_out idx bs out) = insert idx (fst ` set out)" by (rule append_out_fst)
  then show ?case using 2 by auto
qed simp

lemma position_map_of:
  assumes "distinct (map fst out)"
  shows "position (\<lambda>(i, _). i = k) out = Some p \<Longrightarrow> map_of out k = Some (snd (out ! p)) \<and>
      map_of (remove_at p out) = (map_of out)(k := None) \<and> distinct (map fst (remove_at p out))"
    "position (\<lambda>(i, _). i = k) out = None \<Longrightarrow> map_of out k = None"
  using assms
proof (induction out arbitrary: p)
  case (Cons x out)
  { case 1
    have d: "distinct (map fst out)" using 1(2) by simp
    show ?case
    proof (cases "fst x = k")
      case True
      then have "p = 0" "map_of out k = None" using 1 by (auto simp: map_of_eq_None_iff split: prod.splits)
      then show ?thesis using True d by (cases x) (auto simp: remove_at_def fun_eq_iff)
    next
      case False
      then obtain q where q: "position (\<lambda>(i, _). i = k) out = Some q" "p = Suc q" using 1(1) by (auto split: prod.splits)
      have "set (map fst (remove_at q out)) \<subseteq> set (map fst out)"
        unfolding remove_at_def by (auto dest: in_set_takeD in_set_dropD)
      then show ?thesis using Cons.IH(1) [OF q(1) d] False q(2) 1(2) by (cases x) (auto simp: remove_at_def fun_eq_iff)
    qed
  next
    case 2
    then show ?case using Cons.IH(2) by (auto split: prod.splits if_splits) }
qed simp_all

definition out_ok :: "'a proc_state_scheme \<Rightarrow> bool" where
  "out_ok s \<longleftrightarrow> distinct (map fst (PROC_OUT s))"

definition captured :: "nat \<Rightarrow> 'a proc_state_scheme \<Rightarrow> u8 list" where
  "captured i s = (case map_of (PROC_OUT s) i of None \<Rightarrow> [] | Some b \<Rightarrow> b)"

text \<open>
  The captured output is one byte string per slot. \<open>proc_write\<close> appends to the string of the calling
  task's slot, \<open>take_proc_output\<close> returns that string and empties it, neither touches the output of another
  slot, and both keep the store well formed, from the empty store on.
\<close>

lemma proc_output_slots:
  assumes "out_ok s"
  shows "out_ok (proc_write bs s) \<and> out_ok (snd (take_proc_output s)) \<and>
    captured i (proc_write bs s) = (if i = slot_index s then captured i s @ bs else captured i s) \<and>
    fst (take_proc_output s) = captured (slot_index s) s \<and>
    captured i (snd (take_proc_output s)) = (if i = slot_index s then [] else captured i s)"
proof -
  have d: "distinct (map fst (PROC_OUT s))" using assms by (simp add: out_ok_def)
  have w: "out_ok (proc_write bs s)" "captured i (proc_write bs s) = (if i = slot_index s then captured i s @ bs else captured i s)"
    using append_out_distinct [OF d] by (auto simp: out_ok_def captured_def proc_write_def append_out_map split: option.splits)
  have "out_ok (snd (take_proc_output s)) \<and> fst (take_proc_output s) = captured (slot_index s) s \<and>
    captured i (snd (take_proc_output s)) = (if i = slot_index s then [] else captured i s)"
  proof (cases "position (\<lambda>(i, _). i = slot_index s) (PROC_OUT s)")
    case None
    then show ?thesis using position_map_of(2) [OF d None] assms by (simp add: take_proc_output_def captured_def)
  next
    case (Some p)
    then show ?thesis using position_map_of(1) [OF d Some] by (simp add: take_proc_output_def captured_def out_ok_def)
  qed
  then show ?thesis using w by simp
qed

definition running_entries :: "ProcEntry list \<Rightarrow> ProcEntry list" where
  "running_entries tab = filter (\<lambda>e. pe_state e = ProcRunning) tab"

lemma remove_at_filter: "i < length xs \<Longrightarrow> \<not> P (xs ! i) \<Longrightarrow> filter P (remove_at i xs) = filter P xs"
proof -
  assume i: "i < length xs" "\<not> P (xs ! i)"
  have "filter P xs = filter P (take i xs @ xs ! i # drop (Suc i) xs)" using id_take_nth_drop [OF i(1)] by (rule arg_cong)
  then show ?thesis using i(2) by (simp add: remove_at_def)
qed

text \<open>
  Registering a process never drops a running one, appends the new one as running, and the table holds
  at most 32 entries unless more than 32 processes run at once.
\<close>

lemma table_add_bounded:
  assumes "length tab \<le> max MAX_PROCS (length (running_entries tab))"
  shows "running_entries (table_add pid nm tab) = running_entries tab @
      [\<lparr>pe_pid = pid, pe_name = nm, pe_state = ProcRunning, pe_exit_code = 0\<rparr>] \<and>
    length (table_add pid nm tab) \<le> max MAX_PROCS (length (running_entries (table_add pid nm tab)))"
proof (cases "position (\<lambda>e. pe_state e = ProcExited) tab")
  case None
  then have "running_entries tab = tab"
    by (auto simp: running_entries_def position_None filter_id_conv) (metis ProcState.exhaust)
  then show ?thesis using None by (auto simp: table_add_def running_entries_def)
next
  case (Some i)
  then have i: "i < length tab" "pe_state (tab ! i) = ProcExited" by (auto dest: position_SomeD)
  have f: "filter (\<lambda>e. pe_state e = ProcRunning) (remove_at i tab) = filter (\<lambda>e. pe_state e = ProcRunning) tab"
    using i by (intro remove_at_filter) simp_all
  have l: "length (remove_at i tab) = length tab - 1" using i(1) by (simp add: remove_at_def)
  show ?thesis using Some f l assms by (auto simp: table_add_def running_entries_def)
qed

section \<open>Background jobs under interleaving\<close>

text \<open>
  The tasks that run \<open>exec_async_with_arg\<close> and \<open>async_task_entry\<close>, by the next shared access each will make: a
  caller that has counted its job, one that has queued it, a spawned task that has not popped yet, one running
  job \<open>j\<close>, and one that has reported. \<open>delivered\<close> is what \<open>poll_async\<close> has returned so far and \<open>submitted\<close> the
  issuers of all jobs. The queue and counter accesses are those of the two functions, in their order.
\<close>

datatype job_pc = Counted AsyncJob | Queued | Spawned | Busy AsyncJob | Reported

record job_sys =
  js_tasks :: "job_pc multiset"
  js_pending :: "AsyncJob list"
  js_done :: "(nat \<times> u8 list) list"
  js_active :: u64
  delivered :: "nat multiset"
  submitted :: "nat multiset"

inductive job_step :: "job_sys \<Rightarrow> job_sys \<Rightarrow> bool" where
  count: "job_step J (J\<lparr>js_tasks := add_mset (Counted j) (js_tasks J), js_active := js_active J + 1,
    submitted := add_mset (job_issuer j) (submitted J)\<rparr>)"
| queue: "js_tasks J = add_mset (Counted j) T \<Longrightarrow>
    job_step J (J\<lparr>js_tasks := add_mset Queued T, js_pending := js_pending J @ [j]\<rparr>)"
| spawned: "js_tasks J = add_mset Queued T \<Longrightarrow> job_step J (J\<lparr>js_tasks := add_mset Spawned T\<rparr>)"
| pop: "js_tasks J = add_mset Spawned T \<Longrightarrow> pop_last (js_pending J) = (Some j, q) \<Longrightarrow>
    job_step J (J\<lparr>js_tasks := add_mset (Busy j) T, js_pending := q\<rparr>)"
| pop_none: "js_tasks J = add_mset Spawned T \<Longrightarrow> pop_last (js_pending J) = (None, q) \<Longrightarrow>
    job_step J (J\<lparr>js_tasks := add_mset Reported T, js_pending := q\<rparr>)"
| report: "js_tasks J = add_mset (Busy j) T \<Longrightarrow>
    job_step J (J\<lparr>js_tasks := add_mset Reported T, js_done := js_done J @ [(job_issuer j, exit_message (job_name j) out r)]\<rparr>)"
| uncount: "js_tasks J = add_mset Reported T \<Longrightarrow> job_step J (J\<lparr>js_tasks := T, js_active := js_active J - 1\<rparr>)"
| poll: "pop_last (js_done J) = (Some (i, m), q) \<Longrightarrow>
    job_step J (J\<lparr>js_done := q, delivered := add_mset i (delivered J)\<rparr>)"

definition job_start :: job_sys where
  "job_start = \<lparr>js_tasks = {#}, js_pending = [], js_done = [], js_active = 0, delivered = {#}, submitted = {#}\<rparr>"

fun held_job :: "job_pc \<Rightarrow> nat multiset" where
  "held_job (Counted j) = {#job_issuer j#}"
| "held_job (Busy j) = {#job_issuer j#}"
| "held_job _ = {#}"

definition waiting_tasks :: "job_sys \<Rightarrow> nat" where
  "waiting_tasks J = size (filter_mset (\<lambda>c. c = Queued \<or> c = Spawned) (js_tasks J))"

definition job_inv :: "job_sys \<Rightarrow> bool" where
  "job_inv J \<longleftrightarrow> js_active J = word_of_nat (size (js_tasks J)) \<and> length (js_pending J) = waiting_tasks J \<and>
     submitted J = sum_mset (image_mset held_job (js_tasks J)) + mset (map job_issuer (js_pending J)) +
       mset (map fst (js_done J)) + delivered J"

lemma pop_last_Some: "pop_last xs = (Some x, q) \<longleftrightarrow> xs = q @ [x]"
  by (cases xs rule: rev_cases) (auto simp: pop_last_def)

lemma pop_last_None: "pop_last xs = (None, q) \<longleftrightarrow> xs = [] \<and> q = []"
  by (auto simp: pop_last_def)

lemma job_inv_step: "job_step J J' \<Longrightarrow> job_inv J \<Longrightarrow> job_inv J'"
proof (induction rule: job_step.induct)
  case (pop_none J T q)
  then show ?case by (simp add: job_inv_def waiting_tasks_def pop_last_None)
qed (auto simp: job_inv_def waiting_tasks_def pop_last_Some)

lemma job_inv_reachable: "job_step\<^sup>*\<^sup>* job_start J \<Longrightarrow> job_inv J"
proof (induction rule: rtranclp_induct)
  case base
  show ?case by (simp add: job_inv_def job_start_def waiting_tasks_def)
next
  case (step J J')
  show ?case by (rule job_inv_step [OF step(2,3)])
qed

text \<open>
  C22: however the tasks that launch, run and collect background processes interleave, \<open>ACTIVE_JOBS\<close> counts the
  jobs in flight, a spawned task that has not popped yet always finds a job in the queue, and every submitted job
  is, with its issuer, in exactly one place: held by a task, queued, reported, or delivered.
\<close>

theorem jobs_accounted:
  assumes "job_step\<^sup>*\<^sup>* job_start J"
  shows "js_active J = word_of_nat (size (js_tasks J)) \<and> (Spawned \<in># js_tasks J \<longrightarrow> js_pending J \<noteq> []) \<and>
    submitted J = sum_mset (image_mset held_job (js_tasks J)) + mset (map job_issuer (js_pending J)) +
      mset (map fst (js_done J)) + delivered J"
proof -
  have i: "job_inv J" by (rule job_inv_reachable [OF assms])
  have "0 < waiting_tasks J" if "Spawned \<in># js_tasks J"
    using that by (auto simp: waiting_tasks_def dest!: multi_member_split)
  then show ?thesis using i by (auto simp: job_inv_def)
qed

theorem jobs_accounted_witness:
  "\<exists>J. job_step\<^sup>*\<^sup>* job_start J \<and> js_tasks J = {#Queued#} \<and> js_active J = 1 \<and> submitted J = {#5#}"
proof -
  define j where "j = \<lparr>job_issuer = 5, job_name = [], job_data = [0], job_arg = 0\<rparr>"
  define J1 where "J1 = job_start\<lparr>js_tasks := {#Counted j#}, js_active := 1, submitted := {#5#}\<rparr>"
  define J2 where "J2 = J1\<lparr>js_tasks := {#Queued#}, js_pending := [j]\<rparr>"
  have "job_step job_start J1" using job_step.count [of job_start j] by (simp add: J1_def job_start_def j_def)
  moreover have "job_step J1 J2" using job_step.queue [of J1 j "{#}"] by (simp add: J1_def J2_def job_start_def)
  ultimately have r: "job_step\<^sup>*\<^sup>* job_start J2" by (meson converse_rtranclp_into_rtranclp r_into_rtranclp)
  show ?thesis using jobs_accounted [OF r] r by (intro exI [of _ J2]) (simp add: J2_def J1_def j_def job_start_def)
qed

text \<open>An image that is refused.\<close>

lemma run_elf_too_small:
  fixes s :: proc_state
  assumes "BITMAP s = (\<lambda>_. 0)(0 := 3)"
  shows "\<exists>s'. run_elf ring3 ret pid [0] arg s = Some (Inr (Inl ''ELF too small'', s'))"
proof -
  let ?t = "set_slot (slot_index s) (\<lambda>_. ProcSlot_empty\<lparr>ps_pid := pid, mmio_next_va := USER_MMIO_BASE\<rparr>) s"
  have b: "BITMAP ?t = (\<lambda>_. 0)(0 := 3)" using assms by (simp add: set_slot_def)
  have "alloc_page ?t \<noteq> None" using two_pages_used [OF b] by (auto simp: alloc_page_eq MAX_PAGES_def Let_def)
  then obtain p s' where "create_user_pml4 ?t = Inr (p, s')" by (auto simp: create_user_pml4_def Let_def)
  then show ?thesis by (simp add: run_elf_def Let_def elf_load_def header_error_def load_err_def)
qed

end
