(* ===== verification/Process_Memory.thy ===== *)
theory Process_Memory
  imports Process
begin

text \<open>
  What a process costs in physical memory: the pages \<open>run_elf\<close> takes for the address space, the image and the stack
  (\<open>process.rs\<close>, \<open>elf.rs\<close>, \<open>paging.rs\<close>) against the free pages of the allocator (\<open>pmm.rs\<close>), from the start of the
  process to its end, on the path where it runs and on the paths where it cannot be started.
\<close>

section \<open>Free pages through the steps\<close>

lemma free_set_bitmap: "BITMAP s' = BITMAP s \<Longrightarrow> free_set s' = free_set s"
  by (simp add: free_set_def is_used_def)

lemma free_set_cpu [simp]:
  "free_set (push_reg v s) = free_set s" "free_set (pop_into f s) = free_set s" "free_set (load_rsp r s) = free_set s"
  "free_set (set_slot i g t) = free_set t" "free_set (write_cr3 c s) = free_set s" "free_set (set_current_cr3 c s) = free_set s"
  by (rule free_set_bitmap; simp add: push_reg_def pop_into_def load_rsp_def set_slot_def write_cr3_def set_current_cr3_def
      write_u64_def Let_def)+

lemma free_set_enter: "enter_ring3 en st idx arg s = (f, s') \<Longrightarrow> free_set s' = free_set s"
proof -
  assume e: "enter_ring3 en st idx arg s = (f, s')"
  have "BITMAP s' = BITMAP s"
    using e by (auto simp: enter_ring3_def iretq_def save_callee_def push_of_def push_reg_def set_slot_def write_u64_def Let_def)
  then show ?thesis by (rule free_set_bitmap)
qed

lemma free_set_exit [simp]: "free_set (do_exit code s) = free_set s"
  by (simp add: do_exit_def Let_def) (rule free_set_bitmap, simp add: set_slot_def)

lemma free_set_free_page:
  assumes "p < MAX_PAGES"
  shows "free_set (free_page (page_addr p) s) = insert p (free_set s)"
proof -
  have u: "unat (page_addr p) div PAGE_SIZE = p" using assms by (simp add: unat_page_addr PAGE_SIZE_def)
  have "free_set ((set_free p s)\<lparr>FREE_PAGES := x\<rparr>) = insert p (free_set s)" for x
    using assms free_set_bitmap [of "(set_free p s)\<lparr>FREE_PAGES := x\<rparr>" "set_free p s"] by (simp add: free_set_set_free)
  then show ?thesis using assms u by (simp add: free_page_def Let_def)
qed

lemma free_set_free_pages:
  "\<forall>p \<in> set qs. p < MAX_PAGES \<Longrightarrow> free_set (fold free_page (map page_addr qs) s) = free_set s \<union> set qs"
  by (induction qs arbitrary: s) (auto simp: free_set_free_page)

text \<open>The counter of free pages goes up by one with every call, also when the page was free already.\<close>

lemma free_pages_counted:
  "\<forall>p \<in> set qs. p < MAX_PAGES \<Longrightarrow> FREE_PAGES (fold free_page (map page_addr qs) s) = FREE_PAGES s + word_of_nat (length qs)"
proof (induction qs arbitrary: s)
  case (Cons p qs)
  have u: "unat (page_addr p) div PAGE_SIZE = p" using Cons.prems by (simp add: unat_page_addr PAGE_SIZE_def)
  then have "FREE_PAGES (free_page (page_addr p) s) = FREE_PAGES s + 1" using Cons.prems by (simp add: free_page_def Let_def)
  then show ?case using Cons by (simp add: add.assoc)
qed simp

lemma counter_right:
  assumes "free_set s' = free_set s \<union> set qs" "FREE_PAGES s' = FREE_PAGES s + word_of_nat (length qs)" "distinct qs"
    "set qs \<inter> free_set s = {}" "unat (FREE_PAGES s) = frames s"
  shows "unat (FREE_PAGES s') = frames s'"
proof -
  have c: "frames s' = frames s + length qs"
    unfolding frames_def assms(1) using assms(3,4) by (subst card_Un_disjoint) (auto simp: distinct_card)
  then have l: "frames s + length qs < 2 ^ 64" using frames_less_2p [of s'] by simp
  then have "unat (word_of_nat (length qs) :: u64) = length qs" by (intro unat_u64_of_nat) simp
  then show ?thesis using l unfolding assms(2) c assms(5) [symmetric] by (subst unat_add_u64) simp_all
qed

lemma free_counter_kept [simp]:
  "FREE_PAGES (do_exit code s) = FREE_PAGES s" "FREE_PAGES (write_cr3 c s) = FREE_PAGES s" "FREE_PAGES (set_current_cr3 c s) = FREE_PAGES s"
  by (simp_all add: do_exit_def Let_def pop_into_def load_rsp_def set_slot_def write_cr3_def set_current_cr3_def)

lemma free_set_copy_entries [simp]: "free_set (copy_entries ks cur new s) = free_set s"
  by (induction ks arbitrary: s) simp_all

lemma create_user_pml4_frame:
  assumes "create_user_pml4 s = Inr (phys, s')"
  obtains n where "n \<in> free_set s" "phys = page_addr n" "free_set s' = free_set s - {n}"
proof -
  obtain s1 where a: "alloc_page s = Some (phys, s1)" "free_set s' = free_set s1"
    using assms by (auto simp: create_user_pml4_def Let_def split: option.splits)
  show ?thesis by (rule alloc_page_SomeD [OF a(1)]) (rule that, use a in auto)
qed

lemma elf_load_frames:
  assumes "elf_load data pml4 s = Inr (Inr img, s')"
  shows "image_frames s s' (l_pages img)" "l_pages img \<noteq> []"
proof -
  obtain pl where pl: "load_segments (unat (le_u16 data 56)) (le_u64 data 32) (ucast (le_u16 data 54)) data pml4 ([], []) s = load_ok pl s'"
    "fst pl \<noteq> []" "l_pages img = fst pl"
    using assms [folded load_ok_def] by (auto simp: elf_load_def ebind_eq_ok split: option.splits if_splits)
  have "image_frames s s (fst (([], []) :: page_list))" by (simp add: image_frames_def)
  then show "image_frames s s' (l_pages img)" "l_pages img \<noteq> []" using load_segments_frames [OF pl(1)] pl(2,3) by simp_all
qed

lemma map_stack_frames:
  assumes "map_stack n v r ps s = Inr (Inr ps', s')" "image_frames s0 s ps"
  shows "image_frames s0 s' ps' \<and> length ps' = length ps + n"
  using assms
proof (induction n arbitrary: v ps s)
  case (Suc n)
  obtain p s1 where a: "alloc_page s = Some (p, s1)" using Suc.prems(1) by (auto split: option.splits)
  obtain s2 where m: "map_page_into r v p (USER OR WRITE) (write_bytes (phys_to_virt s1 p) 0 4096 s1) = Inr ((), s2)"
      "map_stack n (v + 4096) r (ps @ [p]) s2 = Inr (Inr ps', s')"
    using Suc.prems(1) a by (auto simp: rbind_eq_Inr)
  have "image_frames s0 s1 (ps @ [p])" by (rule image_frames_alloc [OF Suc.prems(2) a])
  moreover have "free_set s2 \<subseteq> free_set s1" using map_page_into_free [OF m(1)] by simp
  ultimately have "image_frames s0 s2 (ps @ [p])" by (rule image_frames_mono)
  from Suc.IH [OF m(2) this] show ?case by simp
qed simp

section \<open>What loading keeps\<close>

definition ends_in :: "('s \<Rightarrow> bool) \<Rightarrow> panic + ('x \<times> 's) \<Rightarrow> bool" where
  "ends_in P m \<longleftrightarrow> (\<forall>x s. m = Inr (x, s) \<longrightarrow> P s)"

lemma ends_in_simps [simp]:
  "ends_in P (Inl e)" "ends_in P (Inr (x, s)) \<longleftrightarrow> P s" "ends_in P (load_ok y s) \<longleftrightarrow> P s" "ends_in P (load_err msg s) \<longleftrightarrow> P s"
  by (auto simp: ends_in_def load_ok_def load_err_def)

lemma ends_in_ebind:
  assumes "ends_in P m" "\<And>x s. P s \<Longrightarrow> ends_in Q (f x s)" "\<And>s. P s \<Longrightarrow> Q s"
  shows "ends_in Q (ebind m f)"
proof (cases m)
  case (Inr r)
  obtain v s where "r = (v, s)" by (cases r)
  then show ?thesis using Inr assms by (cases v) (simp_all add: ebind_def)
qed (simp add: ebind_def)

lemma ends_in_rbind: "ends_in P m \<Longrightarrow> (\<And>x s. P s \<Longrightarrow> ends_in Q (f (x, s))) \<Longrightarrow> ends_in Q (rbind m f)"
  by (cases m) auto

lemma ends_in_rbind_state: "(\<And>s. m = Inr s \<Longrightarrow> ends_in Q (f s)) \<Longrightarrow> ends_in Q (rbind m f)"
  by (cases m) auto

text \<open>A property of the machine that page allocation and writes to memory keep is kept by loading an image.\<close>

locale kept_by_memory =
  fixes P :: "'a kmem_state_scheme \<Rightarrow> bool"
  assumes alloc: "alloc_page s = Some (p, s') \<Longrightarrow> P s \<Longrightarrow> P s'"
    and writes: "P s \<Longrightarrow> P (write_u64 a v s)" "P s \<Longrightarrow> P (write_bytes a b n s)" "P s \<Longrightarrow> P (copy_to a bs s)"
begin

lemma next_table_kept: "P s \<Longrightarrow> ends_in P (next_table fl tb i s)"
  using alloc writes(1,2) by (auto simp: next_table_def Let_def split: option.splits)

lemma map_page_into_kept: "P s \<Longrightarrow> ends_in P (map_page_into r v p f s)"
  unfolding map_page_into_eq map_entry_def
  by (auto intro!: ends_in_rbind [OF next_table_kept] writes(1))

lemma get_page_kept: "P s \<Longrightarrow> ends_in P (get_page r v pl s)"
  by (auto simp: get_page_def Let_def intro!: ends_in_rbind [OF map_page_into_kept] writes(2) dest: alloc split: option.splits)

lemma copy_page_kept: "P s \<Longrightarrow> copy_page data g v phys s = Inr s' \<Longrightarrow> P s'"
  using writes(3) by (auto simp: copy_page_def rbind_eq_Inr split: option.splits)

lemma load_pages_kept: "P s \<Longrightarrow> ends_in P (load_pages n data r g v pl s)"
proof (induction n arbitrary: v pl s)
  case (Suc n)
  have "ends_in P (rbind (copy_page data g v phys s) (load_pages n data r g (v + 4096) pl))" if "P s" for phys pl s
    by (rule ends_in_rbind_state) (rule Suc.IH [OF copy_page_kept [OF that]])
  then show ?case by (auto intro!: ends_in_ebind [OF get_page_kept [OF Suc.prems]])
qed simp

lemma load_segments_kept: "P s \<Longrightarrow> ends_in P (load_segments n off sz data r pl s)"
proof (induction n arbitrary: off pl s)
  case (Suc n)
  have "ends_in P (load_segment data r g pl s)" for g using Suc.prems by (simp add: load_segment_def load_pages_kept)
  then show ?case using Suc by (auto intro!: ends_in_rbind_state ends_in_ebind [where P = P])
qed simp

lemma elf_load_kept: "P s \<Longrightarrow> ends_in P (elf_load data pml4 s)"
  by (auto simp: elf_load_def intro!: ends_in_ebind [OF load_segments_kept] split: option.split)

end

text \<open>The same for the steps of \<open>run_elf\<close> that take pages of their own.\<close>

locale kept_by_process = kept_by_memory P for P :: "'a proc_state_scheme \<Rightarrow> bool"
begin

lemma map_stack_kept: "P s \<Longrightarrow> ends_in P (map_stack n v r ps s)"
proof (induction n arbitrary: v ps s)
  case (Suc n)
  then show ?case
    by (auto intro!: ends_in_rbind [OF map_page_into_kept] writes(2) dest: alloc split: option.split)
qed simp

lemma create_user_pml4_kept: "P s \<Longrightarrow> ends_in P (create_user_pml4 s)"
proof -
  have "P (copy_entries ks cur new s)" if "P s" for ks cur new s
    using that writes(1) by (induction ks arbitrary: s) simp_all
  then show "P s \<Longrightarrow> ends_in P (create_user_pml4 s)"
    using alloc writes(2) by (auto simp: create_user_pml4_def Let_def split: option.splits)
qed

end

text \<open>Loading only takes pages, and it does not touch what is outside the memory of the machine.\<close>

interpretation taken: kept_by_process "\<lambda>s. free_set s \<subseteq> F" for F
  by unfold_locales (auto elim!: alloc_page_SomeD)

interpretation outside: kept_by_process "\<lambda>s. kmem_state.more s = M" for M
  by unfold_locales (simp_all add: alloc_page_kmem(5))

section \<open>From start to end\<close>

lemma image_framesE:
  assumes "image_frames s0 s ps"
  obtains qs where "ps = map page_addr qs" "distinct qs" "set qs \<subseteq> free_set s0 - free_set s" "free_set s \<subseteq> free_set s0"
  using assms by (auto simp: image_frames_def)

lemma prepared:
  assumes "create_user_pml4 s = Inr (pml4, s1)" "elf_load data pml4 s1 = Inr (Inr img, s2)"
    "map_stack 8 v pml4 [] s2 = Inr (Inr stack, s3)"
  obtains qs where "map page_addr qs = stack @ l_pages img @ [pml4]" "distinct qs" "set qs \<subseteq> free_set s - free_set s3"
    "free_set s3 \<subseteq> free_set s"
proof -
  obtain n where n: "n \<in> free_set s" "pml4 = page_addr n" "free_set s1 = free_set s - {n}"
    by (rule create_user_pml4_frame [OF assms(1)])
  obtain qs where q: "l_pages img = map page_addr qs" "distinct qs" "set qs \<subseteq> free_set s1 - free_set s2" "free_set s2 \<subseteq> free_set s1"
    by (rule image_framesE [OF elf_load_frames(1) [OF assms(2)]])
  have "image_frames s2 s2 []" by (simp add: image_frames_def)
  then have m: "image_frames s2 s3 stack" using map_stack_frames [OF assms(3)] by simp
  obtain ps where p: "stack = map page_addr ps" "distinct ps" "set ps \<subseteq> free_set s2 - free_set s3" "free_set s3 \<subseteq> free_set s2"
    by (rule image_framesE [OF m])
  show ?thesis
    by (rule that [of "ps @ qs @ [n]"]) (use n q p in auto)
qed

text \<open>
  C24: a process gives back what it took. When \<open>run_elf\<close> has run a process to its end, the eight stack pages, the pages of
  the loaded image and the PML4 are distinct pages that were free before it started and in use when it entered ring 3, and
  \<open>run_elf\<close> frees each of them exactly once and nothing else: the free pages at the end are those when ring 3 exited and
  these, and the counter of free pages has gone up by their number. If ring 3 freed nothing, no page in use before
  the start has become free, and a counter that was right when ring 3 exited is right at the end.
\<close>

theorem run_elf_returns_pages:
  assumes "run_elf ring3 ret pid data arg s = Some (Inr (Inr c, s'))"
  shows "\<exists>pml4 s1 img s2 stack s3 qs f t code t'.
    create_user_pml4 (set_slot (slot_index s) (\<lambda>_. ProcSlot_empty\<lparr>ps_pid := pid, mmio_next_va := USER_MMIO_BASE\<rparr>) s) = Inr (pml4, s1) \<and>
    elf_load data pml4 s1 = Inr (Inr img, s2) \<and> map_stack 8 USER_STACK_BASE pml4 [] s2 = Inr (Inr stack, s3) \<and>
    ring3 f t = Some (code, t') \<and>
    map page_addr qs = stack @ l_pages img @ [pml4] \<and> distinct qs \<and> set qs \<subseteq> free_set s - free_set t \<and>
    free_set s' = free_set t' \<union> set qs \<and> FREE_PAGES s' = FREE_PAGES t' + word_of_nat (length stack + length (l_pages img) + 1) \<and>
    (free_set t' \<subseteq> free_set t \<longrightarrow> free_set s' \<subseteq> free_set s \<and>
       (unat (FREE_PAGES t') = frames t' \<longrightarrow> unat (FREE_PAGES s') = frames s'))"
proof -
  define s0 where "s0 = set_slot (slot_index s) (\<lambda>_. ProcSlot_empty\<lparr>ps_pid := pid, mmio_next_va := USER_MMIO_BASE\<rparr>) s"
  have n8: "unat USER_STACK_PAGES = 8" by (simp add: USER_STACK_PAGES_def)
  obtain pml4 s1 where 1: "create_user_pml4 s0 = Inr (pml4, s1)"
    using assms by (auto simp: run_elf_def Let_def s0_def split: sum.splits prod.splits)
  obtain img s2 where 2: "elf_load data pml4 s1 = Inr (Inr img, s2)"
    using assms 1 by (auto simp: run_elf_def Let_def s0_def split: sum.splits prod.splits)
  obtain stack s3 where 3: "map_stack 8 USER_STACK_BASE pml4 [] s2 = Inr (Inr stack, s3)"
    using assms 1 2 by (auto simp: run_elf_def Let_def s0_def n8 split: sum.splits prod.splits)
  define s4 where "s4 = push_reg ret (set_slot (slot_index s) (user_running_update (\<lambda>_. True)) (set_current_cr3 pml4 (write_cr3 pml4 s3)))"
  obtain f t where 4: "enter_ring3 (l_entry img) USER_STACK_TOP (slot_index s) arg s4 = (f, t)"
    by (cases "enter_ring3 (l_entry img) USER_STACK_TOP (slot_index s) arg s4")
  obtain code t' where 5: "ring3 f t = Some (code, t')"
    using assms 1 2 3 4 by (auto simp: run_elf_def Let_def s0_def n8 s4_def split: option.splits)
  define u where "u = set_current_cr3 (proc_read_cr3 s3) (write_cr3 (proc_read_cr3 s3) (do_exit code t'))"
  obtain qs where q: "map page_addr qs = stack @ l_pages img @ [pml4]" "distinct qs" "set qs \<subseteq> free_set s0 - free_set s3"
      "free_set s3 \<subseteq> free_set s0"
    by (rule prepared [OF 1 2 3])
  have s': "s' = fold free_page (map page_addr qs) u"
    using assms 1 2 3 4 5 by (simp add: run_elf_def Let_def s0_def n8 s4_def u_def q(1))
  have f0: "free_set s0 = free_set s" "free_set t = free_set s3" using free_set_enter [OF 4] by (simp_all add: s0_def s4_def)
  have lt: "\<forall>p \<in> set qs. p < MAX_PAGES" using q(3) by (auto simp: free_set_def)
  have u: "free_set u = free_set t'" "FREE_PAGES u = FREE_PAGES t'" by (simp_all add: u_def)
  have fr: "free_set s' = free_set t' \<union> set qs" unfolding s' u(1) [symmetric] by (rule free_set_free_pages [OF lt])
  have ct: "FREE_PAGES s' = FREE_PAGES t' + word_of_nat (length qs)" unfolding s' u(2) [symmetric] by (rule free_pages_counted [OF lt])
  have len: "length qs = length stack + length (l_pages img) + 1" using arg_cong [OF q(1), of length] by simp
  have cnt: "unat (FREE_PAGES s') = frames s'" if "free_set t' \<subseteq> free_set t" "unat (FREE_PAGES t') = frames t'"
    by (rule counter_right [OF fr ct q(2)]) (use that q(3) f0(2) in auto)
  show ?thesis
    by (intro exI conjI; (rule 1 [unfolded s0_def] 2 3 5 q(1) q(2) fr ct [unfolded len])?) (use q(3,4) f0 fr cnt in auto)
qed

text \<open>
  C25: a process that cannot be started costs memory. Whenever \<open>run_elf\<close> returns an error, the page taken for the PML4 stays in
  use although nothing refers to it any more.
\<close>

theorem run_elf_error_leaks:
  assumes "run_elf ring3 ret pid data arg s = Some (Inr (Inl e, s'))"
  shows "free_set s' \<subset> free_set s"
proof -
  define s0 where "s0 = set_slot (slot_index s) (\<lambda>_. ProcSlot_empty\<lparr>ps_pid := pid, mmio_next_va := USER_MMIO_BASE\<rparr>) s"
  obtain pml4 s1 where 1: "create_user_pml4 s0 = Inr (pml4, s1)"
    using assms by (auto simp: run_elf_def Let_def s0_def split: sum.splits prod.splits)
  obtain n where n: "n \<in> free_set s0" "free_set s1 = free_set s0 - {n}" by (rule create_user_pml4_frame [OF 1])
  have ld: "ends_in (\<lambda>s. free_set s \<subseteq> free_set s1) (elf_load data pml4 s1)" by (rule taken.elf_load_kept) simp
  have "free_set s' \<subseteq> free_set s1"
  proof (cases "\<exists>img s2. elf_load data pml4 s1 = Inr (Inr img, s2)")
    case True
    then obtain img s2 where 2: "elf_load data pml4 s1 = Inr (Inr img, s2)" by blast
    have "ends_in (\<lambda>s. free_set s \<subseteq> free_set s1) (map_stack (unat USER_STACK_PAGES) USER_STACK_BASE pml4 [] s2)"
      by (rule taken.map_stack_kept) (use ld 2 in simp)
    then show ?thesis using assms 1 2
      by (auto simp: run_elf_def Let_def s0_def ends_in_def split: sum.splits prod.splits option.splits)
  next
    case False
    then show ?thesis using assms 1 ld
      by (auto simp: run_elf_def Let_def s0_def ends_in_def split: sum.splits prod.splits)
  qed
  then show ?thesis using n by (auto simp: s0_def)
qed

section \<open>Examples\<close>

lemma map_stack_succeeds: "4 * n \<le> card (free_set s) \<Longrightarrow> \<exists>ps s'. map_stack n v r ps0 s = Inr (Inr ps, s')"
proof (induction n arbitrary: v ps0 s)
  case (Suc n)
  have "free_set s \<noteq> {}" using Suc.prems by auto
  then obtain p s1 where a: "alloc_page s = Some (p, s1)" by (simp add: alloc_page_eq Let_def)
  from a have c: "4 * n + 3 \<le> card (free_set s1)" by (rule alloc_page_SomeD) (use Suc.prems in simp)
  obtain s2 where m: "map_page_into r v p (USER OR WRITE) (write_bytes (phys_to_virt s1 p) 0 4096 s1) = Inr ((), s2)"
      "4 * n \<le> card (free_set s2)"
    by (rule map_page_into_succeeds [of "4 * n" "write_bytes (phys_to_virt s1 p) 0 4096 s1"]) (use c in auto)
  then show ?case using a Suc.IH [OF m(2)] by simp
qed simp

lemma run_elf_tiny:
  assumes "37 \<le> card (free_set s)" "\<And>f t. ring3 f t = Some (code, g t)"
  shows "\<exists>c s'. run_elf ring3 ret pid tiny_elf arg s = Some (Inr (Inr c, s'))"
proof -
  define s0 where "s0 = set_slot (slot_index s) (\<lambda>_. ProcSlot_empty\<lparr>ps_pid := pid, mmio_next_va := USER_MMIO_BASE\<rparr>) s"
  have f0: "free_set s0 = free_set s" by (simp add: s0_def)
  then have "free_set s0 \<noteq> {}" using assms(1) by auto
  then obtain pml4 s1 where 1: "create_user_pml4 s0 = Inr (pml4, s1)"
    by (auto simp: create_user_pml4_def alloc_page_eq Let_def)
  have c1: "32 + 4 \<le> card (free_set s1)" by (rule create_user_pml4_frame [OF 1]) (use assms(1) f0 in simp)
  obtain img s2 where 2: "elf_load tiny_elf pml4 s1 = Inr (Inr img, s2)" "32 \<le> card (free_set s2)"
    using tiny_elf_load [OF c1, of pml4] by (auto simp: load_ok_def)
  obtain stack s3 where 3: "map_stack 8 USER_STACK_BASE pml4 [] s2 = Inr (Inr stack, s3)"
    using map_stack_succeeds [of 8 s2 USER_STACK_BASE pml4 "[]"] 2(2) by auto
  show ?thesis using 1 2(1) 3
    by (simp add: run_elf_def Let_def s0_def [symmetric] USER_STACK_PAGES_def assms(2) split: prod.split)
qed

lemma example_proc_free: "free_set example_proc = {2 ..< MAX_PAGES}" "BITMAP example_proc = (\<lambda>_. 0)(0 := 3)"
  by (rule two_pages_used) (simp_all add: example_proc_def)

theorem run_elf_returns_pages_witness:
  "\<exists>c s' qs. run_elf (\<lambda>_ s. Some (7, s)) 0 1 tiny_elf 0 example_proc = Some (Inr (Inr c, s')) \<and> distinct qs \<and>
     set qs \<subseteq> free_set example_proc \<and> set qs \<subseteq> free_set s' \<and> free_set s' \<subseteq> free_set example_proc"
proof -
  have "37 \<le> card (free_set example_proc)" by (simp add: example_proc_free MAX_PAGES_def)
  then obtain c s' where r: "run_elf (\<lambda>_ s. Some (7, s)) 0 1 tiny_elf 0 example_proc = Some (Inr (Inr c, s'))"
    using run_elf_tiny [of example_proc "\<lambda>_ s. Some (7, s)" 7 "\<lambda>s. s"] by blast
  from run_elf_returns_pages [OF r] obtain qs and t t' :: proc_state where "distinct qs" "set qs \<subseteq> free_set example_proc - free_set t"
      "free_set s' = free_set t' \<union> set qs" "Some (7, t) = Some (7 :: u64, t')"
      "free_set t' \<subseteq> free_set t \<longrightarrow> free_set s' \<subseteq> free_set example_proc"
    by (elim exE conjE) auto
  then have "distinct qs \<and> set qs \<subseteq> free_set example_proc \<and> set qs \<subseteq> free_set s' \<and> free_set s' \<subseteq> free_set example_proc" by auto
  with r show ?thesis by (intro exI conjI) auto
qed

theorem run_elf_error_leaks_witness:
  "\<exists>s'. run_elf (\<lambda>_ s. Some (7, s)) 0 1 [0] 0 example_proc = Some (Inr (Inl ''ELF too small'', s')) \<and> free_set s' \<subset> free_set example_proc"
proof -
  obtain s' where r: "run_elf (\<lambda>_ s. Some (7, s)) 0 1 [0] 0 example_proc = Some (Inr (Inl ''ELF too small'', s'))"
    using run_elf_too_small [OF example_proc_free(2)] by blast
  show ?thesis using run_elf_error_leaks [OF r] r by blast
qed

end
