(* ===== verification/Process_Output.thy ===== *)
theory Process_Output
  imports Process_Memory
begin

text \<open>
  What becomes of the output of a background process (\<open>process.rs\<close>): the bytes it writes while it runs are
  collected under the slot of its task, and the message its task leaves for the issuer is made of them.
\<close>

section \<open>Steps that leave the queues alone\<close>

definition job_view :: "'a proc_state_scheme \<Rightarrow> (nat \<times> u8 list) list \<times> (nat \<times> u8 list) list \<times> AsyncJob list \<times> u64" where
  "job_view s = (PROC_OUT s, DONE_QUEUE s, PENDING_QUEUE s, ACTIVE_JOBS s)"

lemma job_view_steps [simp]:
  "job_view (push_reg v s) = job_view s" "job_view (pop_into f s) = job_view s" "job_view (load_rsp r s) = job_view s"
  "job_view (save_rsp i s) = job_view s" "job_view (use_kstack k s) = job_view s" "job_view (write_cr3 c s) = job_view s"
  "job_view (set_current_cr3 c s) = job_view s" "job_view (set_slot i g s) = job_view s" "job_view (free_page a s) = job_view s"
  by (simp_all add: job_view_def push_reg_def pop_into_def load_rsp_def save_rsp_def use_kstack_def write_cr3_def write_u64_def
      set_current_cr3_def set_slot_def free_page_def set_free_def Let_def)

lemma slots_steps [simp]:
  "PROC_SLOTS (pop_into f s) = PROC_SLOTS s" "PROC_SLOTS (load_rsp r s) = PROC_SLOTS s" "PROC_SLOTS (write_cr3 c s) = PROC_SLOTS s"
  "PROC_SLOTS (set_current_cr3 c s) = PROC_SLOTS s" "PROC_SLOTS (free_page a s) = PROC_SLOTS s"
  "current (pop_into f s) = current s" "current (load_rsp r s) = current s" "current (write_cr3 c s) = current s"
  "current (set_current_cr3 c s) = current s" "current (free_page a s) = current s"
  by (simp_all add: pop_into_def load_rsp_def write_cr3_def set_current_cr3_def free_page_def set_free_def Let_def)

lemma free_pages_view [simp]:
  "job_view (fold free_page ps s) = job_view s" "PROC_SLOTS (fold free_page ps s) = PROC_SLOTS s" "current (fold free_page ps s) = current s"
  by (induction ps arbitrary: s) simp_all

lemma enter_ring3_view:
  "enter_ring3 en st idx arg s = (f, t) \<Longrightarrow> job_view t = job_view s \<and> current t = current s \<and> length (PROC_SLOTS t) = length (PROC_SLOTS s)"
  by (auto simp: enter_ring3_def iretq_def save_callee_def push_of_def job_view_def set_slot_def push_reg_def write_u64_def Let_def)

lemma outside_view:
  "kmem_state.more s' = kmem_state.more (s :: 'a proc_state_scheme) \<Longrightarrow> job_view s' = job_view s \<and> PROC_SLOTS s' = PROC_SLOTS s \<and> current s' = current s"
  by (cases s; cases s') (simp add: job_view_def)

lemma exit_current_view: "job_view (snd (exit_current ret s)) = job_view s"
proof -
  let ?s = "s\<lparr>tasks := set_task_state (current s) Dead (tasks s)\<rparr>"
  obtain w s1 where w: "sched_next ?s = (w, s1)" by (cases "sched_next ?s")
  then have "job_view s1 = job_view s" by (auto simp: sched_next_def Let_def job_view_def split: if_split_asm)
  moreover have "job_view (switch_to ret x s1) = job_view s1" for x
    by (simp add: switch_to_def context_switch_def pop_context_def push_context_def push_of_def Let_def split: prod.splits)
  ultimately show ?thesis using w by (cases w) (simp_all add: exit_current_def)
qed

section \<open>What a process writes\<close>

lemma writes_collected:
  assumes "out_ok s"
  shows "out_ok (fold proc_write chunks s) \<and> slot_index (fold proc_write chunks s) = slot_index s \<and>
    PROC_SLOTS (fold proc_write chunks s) = PROC_SLOTS s \<and> current (fold proc_write chunks s) = current s \<and>
    (\<forall>i. captured i (fold proc_write chunks s) = (if i = slot_index s then captured i s @ concat chunks else captured i s)) \<and>
    snd (job_view (fold proc_write chunks s)) = snd (job_view s)"
  using assms
proof (induction chunks arbitrary: s)
  case (Cons bs chunks)
  have i: "slot_index (proc_write bs s) = slot_index s" by (simp add: proc_write_def slot_index_def current_task_index_def)
  have w: "PROC_SLOTS (proc_write bs s) = PROC_SLOTS s" "current (proc_write bs s) = current s" "snd (job_view (proc_write bs s)) = snd (job_view s)"
    by (simp_all add: proc_write_def job_view_def)
  have "out_ok (proc_write bs s)" using proc_output_slots [OF Cons.prems, of bs] by simp
  from Cons.IH [OF this] show ?case using proc_output_slots [OF Cons.prems, of bs] i w by simp
qed simp

lemma view_captured: "job_view s' = job_view s \<Longrightarrow> captured i s' = captured i s" "job_view s' = job_view s \<Longrightarrow> out_ok s' = out_ok s"
  by (simp_all add: job_view_def captured_def out_ok_def)

text \<open>Exit, the loaded address space and the freed pages after ring 3.\<close>

lemma after_ring3:
  assumes "s' = free_page pml4 (fold free_page ps (fold free_page qs (set_current_cr3 c (write_cr3 c (do_exit code t)))))"
    "slot_index t < length (PROC_SLOTS t)"
  shows "job_view s' = job_view t" "current s' = current t" "exit_code (PROC_SLOTS s' ! slot_index t) = code"
  using assms(2) by (simp_all add: assms(1) do_exit_def Let_def) (simp_all add: job_view_def set_slot_def)

text \<open>What a run of an image reports, and what it leaves in the store of captured output.\<close>

lemma run_elf_report:
  assumes run: "run_elf ring3 ret pid data arg s = Some (Inr (r, s'))" and sl: "slot_index s < length (PROC_SLOTS s)"
    and ring3: "\<And>f t. ring3 f t = Some (code, fold proc_write chunks t)" and ok: "out_ok s"
  shows "current s' = current s \<and> snd (job_view s') = snd (job_view s) \<and> out_ok s' \<and>
    (case r of Inr c \<Rightarrow> c = code \<and>
        (\<forall>i. captured i s' = (if i = slot_index s then captured i s @ concat chunks else captured i s))
     | Inl _ \<Rightarrow> \<forall>i. captured i s' = captured i s)"
proof -
  define s0 where "s0 = set_slot (slot_index s) (\<lambda>_. ProcSlot_empty\<lparr>ps_pid := pid, mmio_next_va := USER_MMIO_BASE\<rparr>) s"
  have v0: "job_view s0 = job_view s" "current s0 = current s" "length (PROC_SLOTS s0) = length (PROC_SLOTS s)" by (simp_all add: s0_def)
  obtain pml4 s1 where 1: "create_user_pml4 s0 = Inr (pml4, s1)"
    using run by (auto simp: run_elf_def Let_def s0_def split: sum.splits prod.splits)
  have m1: "kmem_state.more s1 = kmem_state.more s0" using outside.create_user_pml4_kept [of s0 "kmem_state.more s0"] 1 by simp
  have m2: "kmem_state.more s2 = kmem_state.more s0" if "elf_load data pml4 s1 = Inr (x, s2)" for x s2
    using outside.elf_load_kept [OF m1, of data pml4] that by simp
  have fail: ?thesis if "r = Inl e" "kmem_state.more s' = kmem_state.more s0" for e
    using outside_view [OF that(2)] v0 view_captured [of s' s] that(1) ok by simp
  obtain x s2 where 2: "elf_load data pml4 s1 = Inr (x, s2)"
    using run 1 by (auto simp: run_elf_def Let_def s0_def split: sum.splits prod.splits)
  show ?thesis
  proof (cases x)
    case (Inl e)
    then show ?thesis using run 1 2 m2 [OF 2] by (intro fail [of e]) (simp_all add: run_elf_def Let_def s0_def)
  next
    case (Inr img)
    obtain y s3 where 3: "map_stack (unat USER_STACK_PAGES) USER_STACK_BASE pml4 [] s2 = Inr (y, s3)"
      using run 1 2 Inr by (auto simp: run_elf_def Let_def s0_def split: sum.splits prod.splits)
    have m3: "kmem_state.more s3 = kmem_state.more s0" using outside.map_stack_kept [OF m2 [OF 2]] 3 by (metis ends_in_simps(2))
    show ?thesis
    proof (cases y)
      case (Inl e)
      then show ?thesis using run 1 2 3 Inr m3 by (intro fail [of e]) (simp_all add: run_elf_def Let_def s0_def)
    next
      case (Inr stack)
      define s4 where "s4 = push_reg ret (set_slot (slot_index s) (user_running_update (\<lambda>_. True)) (set_current_cr3 pml4 (write_cr3 pml4 s3)))"
      obtain f t where 4: "enter_ring3 (l_entry img) USER_STACK_TOP (slot_index s) arg s4 = (f, t)"
        by (cases "enter_ring3 (l_entry img) USER_STACK_TOP (slot_index s) arg s4")
      have v: "job_view t = job_view s" "current t = current s" "length (PROC_SLOTS t) = length (PROC_SLOTS s)"
        using enter_ring3_view [OF 4] outside_view [OF m3] v0 by (simp_all add: s4_def)
      define t' where "t' = fold proc_write chunks t"
      have si: "slot_index t = slot_index s" using v(2) by (simp add: slot_index_def current_task_index_def)
      have okt: "out_ok t" using v(1) ok view_captured(2) by metis
      note w = writes_collected [OF okt, of chunks, folded t'_def]
      define u where "u = free_page pml4 (fold free_page (l_pages img) (fold free_page stack
          (set_current_cr3 (proc_read_cr3 s3) (write_cr3 (proc_read_cr3 s3) (do_exit code t')))))"
      have e: "s' = u" "r = Inr (exit_code (PROC_SLOTS u ! slot_index s))"
        using run 1 2 3 4 \<open>x = Inr img\<close> Inr ring3 by (auto simp: run_elf_def Let_def s0_def s4_def u_def t'_def)
      have "slot_index t' < length (PROC_SLOTS t')" using w si v(3) sl by simp
      note a = after_ring3 [OF u_def this]
      have "\<forall>i. captured i u = captured i t'" "out_ok u = out_ok t'" using view_captured [OF a(1)] by simp_all
      then show ?thesis using a w si v e view_captured(1) [OF v(1)] by simp
    qed
  qed
qed

text \<open>
  C23: the output of a background process reaches its issuer. A task that takes the newest pending job and runs it to its
  end, the process writing some chunks of bytes and exiting with a code, leaves as the newest finished job the
  job's issuer with the message: all the bytes the process wrote, in order and nothing that was in the store before,
  as text and ended by a newline when there are any, then the job's name and the exit code; or the name and the loader's
  error when the image could not be started. The job has left the pending queue, the count of active jobs is one lower,
  the slot's captured output is empty again and the output of other slots is untouched.
\<close>

theorem async_output_delivered:
  assumes "async_task_entry ring3 ret ret' s = Some (Inr (sw, s'))" "PENDING_QUEUE s = q @ [j]"
    and "\<And>f t. ring3 f t = Some (code, fold proc_write chunks t)"
    and "out_ok s" "slot_index s < length (PROC_SLOTS s)"
  shows "\<exists>r t' msg. run_elf ring3 ret (NEXT_PID s) (job_data j) (job_arg j)
      ((snd (take_proc_output (s\<lparr>PENDING_QUEUE := q\<rparr>)))\<lparr>NEXT_PID := NEXT_PID s + 1, PROCTAB := table_add (NEXT_PID s) (job_name j) (PROCTAB s)\<rparr>) =
      Some (Inr (r, t')) \<and>
    DONE_QUEUE s' = DONE_QUEUE s @ [(job_issuer j, msg)] \<and>
    (case r of
       Inl e \<Rightarrow> msg = job_name j @ str_bytes '': '' @ str_bytes e
     | Inr c \<Rightarrow> c = code \<and> (let out = concat chunks; txt = utf8_lossy out in
         msg = (if out = [] then [] else if last txt = 10 then txt else txt @ [10]) @
           job_name j @ str_bytes '' exited: '' @ decimal (unat code))) \<and>
    PENDING_QUEUE s' = q \<and> ACTIVE_JOBS s' = ACTIVE_JOBS s - 1 \<and>
    (\<forall>i. captured i s' = (if i = slot_index s then [] else captured i s))"
proof -
  define s0 where "s0 = s\<lparr>PENDING_QUEUE := q\<rparr>"
  define t where "t = (snd (take_proc_output s0))\<lparr>NEXT_PID := NEXT_PID s + 1, PROCTAB := table_add (NEXT_PID s) (job_name j) (PROCTAB s)\<rparr>"
  have tk: "NEXT_PID (snd (take_proc_output s0)) = NEXT_PID s" "PROCTAB (snd (take_proc_output s0)) = PROCTAB s"
    "snd (job_view t) = (DONE_QUEUE s, q, ACTIVE_JOBS s)" "slot_index t = slot_index s" "PROC_SLOTS t = PROC_SLOTS s"
    by (simp_all add: take_proc_output_def s0_def t_def job_view_def slot_index_def current_task_index_def split: option.split)
  have o0: "out_ok s0" "slot_index s0 = slot_index s" "captured i s0 = captured i s" for i
    using assms(4) by (simp_all add: s0_def out_ok_def captured_def slot_index_def current_task_index_def)
  have ot: "out_ok t" "captured i t = (if i = slot_index s then [] else captured i s)" for i
    using proc_output_slots [OF o0(1), of "[]" i] o0 by (simp_all add: t_def out_ok_def captured_def)
  obtain r t' where e: "run_elf ring3 ret (NEXT_PID s) (job_data j) (job_arg j) t = Some (Inr (r, t'))"
    using assms(1,2) tk(1,2)
    by (auto simp: async_task_entry_def exec_blocking_def pop_last_def s0_def t_def Let_def split_beta split: option.splits sum.splits)
  have sl: "slot_index t < length (PROC_SLOTS t)" using assms(5) tk by simp
  note rp = run_elf_report [OF e sl assms(3) ot(1)]
  define t1 where "t1 = t'\<lparr>PROCTAB := table_exit (NEXT_PID s) (case r of Inr c \<Rightarrow> c | Inl _ \<Rightarrow> - 1) (PROCTAB t')\<rparr>"
  have o1: "out_ok t1" "slot_index t1 = slot_index s" "captured i t1 = captured i t'" "snd (job_view t1) = (DONE_QUEUE s, q, ACTIVE_JOBS s)" for i
    using rp tk(3,4) by (simp_all add: t1_def out_ok_def captured_def job_view_def slot_index_def current_task_index_def)
  define t2 where "t2 = snd (take_proc_output t1)"
  note out = proc_output_slots [OF o1(1), of "[]", folded t2_def]
  define msg where "msg = exit_message (job_name j) (captured (slot_index s) t1) r"
  have v2: "snd (job_view t2) = snd (job_view t1)" by (simp add: t2_def take_proc_output_def job_view_def split: option.split)
  have ex: "exec_blocking ring3 ret (job_name j) (job_data j) (job_arg j) s0 = Some (Inr (r, t1))"
    using e tk(1,2) by (simp add: exec_blocking_def Let_def split_beta t_def t1_def)
  have tk2: "take_proc_output t1 = (captured (slot_index s) t1, t2)" using out o1(2) by (simp add: t2_def prod_eq_iff)
  have "exit_current ret' (t2\<lparr>DONE_QUEUE := DONE_QUEUE t2 @ [(job_issuer j, msg)], ACTIVE_JOBS := ACTIVE_JOBS t2 - 1\<rparr>) = (sw, s')"
    using assms(1,2) ex tk2 by (simp add: async_task_entry_def pop_last_def s0_def Let_def msg_def)
  then have js: "job_view s' = (PROC_OUT t2, DONE_QUEUE s @ [(job_issuer j, msg)], q, ACTIVE_JOBS s - 1)"
    using exit_current_view [of ret' "t2\<lparr>DONE_QUEUE := DONE_QUEUE t2 @ [(job_issuer j, msg)], ACTIVE_JOBS := ACTIVE_JOBS t2 - 1\<rparr>"] v2 o1(4)
    by (simp add: job_view_def)
  then have q: "DONE_QUEUE s' = DONE_QUEUE s @ [(job_issuer j, msg)]" "PENDING_QUEUE s' = q" "ACTIVE_JOBS s' = ACTIVE_JOBS s - 1" "PROC_OUT s' = PROC_OUT t2"
    by (simp_all add: job_view_def)
  have c: "captured i s' = (if i = slot_index s then [] else captured i s)" for i
    using out [of i] o1(2,3) rp tk(4) ot(2) [of i] q(4) by (cases r) (simp_all add: captured_def)
  have m: "case r of Inl e \<Rightarrow> msg = job_name j @ str_bytes '': '' @ str_bytes e
     | Inr c \<Rightarrow> c = code \<and> (let out = concat chunks; txt = utf8_lossy out in
         msg = (if out = [] then [] else if last txt = 10 then txt else txt @ [10]) @
           job_name j @ str_bytes '' exited: '' @ decimal (unat code))"
    using rp tk(4) ot(2) [of "slot_index s"] o1(3) by (cases r) (simp_all add: msg_def exit_message_def Let_def)
  show ?thesis using e [unfolded t_def s0_def] q(1-3) c m by blast
qed

theorem async_output_delivered_witness:
  "\<exists>sw s'. async_task_entry (\<lambda>_ s. Some (7, fold proc_write [[72], [105]] s)) 0 0
       (example_proc\<lparr>PENDING_QUEUE := [\<lparr>job_issuer = 4, job_name = str_bytes ''job'', job_data = tiny_elf, job_arg = 0\<rparr>]\<rparr>) = Some (Inr (sw, s')) \<and>
     DONE_QUEUE s' = [(4, str_bytes ''Hi'' @ [10] @ str_bytes ''job exited: 7'')]"
proof -
  let ?r = "\<lambda>_ s. Some (7, fold proc_write [[72], [105]] s)"
  let ?j = "\<lparr>job_issuer = 4, job_name = str_bytes ''job'', job_data = tiny_elf, job_arg = 0\<rparr>"
  let ?s = "example_proc\<lparr>PENDING_QUEUE := [?j]\<rparr>"
  define t where "t = (snd (take_proc_output (?s\<lparr>PENDING_QUEUE := []\<rparr>)))\<lparr>NEXT_PID := NEXT_PID ?s + 1,
    PROCTAB := table_add (NEXT_PID ?s) (job_name ?j) (PROCTAB ?s)\<rparr>"
  have "BITMAP t = BITMAP example_proc" by (simp add: t_def take_proc_output_def split: option.split)
  then have "37 \<le> card (free_set t)" using free_set_bitmap [of t example_proc] by (simp add: example_proc_free MAX_PAGES_def)
  then obtain c t' where e: "run_elf ?r 0 (NEXT_PID ?s) tiny_elf 0 t = Some (Inr (Inr c, t'))"
    using run_elf_tiny [of t ?r 7 "fold proc_write [[72], [105]]"] by blast
  have "\<exists>sw s'. async_task_entry ?r 0 0 ?s = Some (Inr (sw, s'))"
    using e by (simp add: async_task_entry_def exec_blocking_def pop_last_def Let_def split_beta t_def example_proc_def take_proc_output_def)
  then obtain sw s' where a: "async_task_entry ?r 0 0 ?s = Some (Inr (sw, s'))" by blast
  have h: "out_ok ?s" "slot_index ?s < length (PROC_SLOTS ?s)" "PENDING_QUEUE ?s = [] @ [?j]" "DONE_QUEUE ?s = []"
    by (simp_all add: out_ok_def example_proc_def slot_index_def current_task_index_def MAX_TASKS_def)
  have "utf8_lossy [72, 105] = [72, 105]" "decimal 7 = [55]" by code_simp+
  then show ?thesis using async_output_delivered [OF a h(3) _ h(1,2), of 7 "[[72], [105]]"] a e h(4)
    by (auto simp: t_def str_bytes_def Let_def)
qed

end
