(* ===== verification/Services.thy ===== *)
theory Services
  imports Process
begin

text \<open>
  The life cycle of the ring-3 driver processes: \<open>is_enabled\<close>, \<open>set_enabled\<close>, \<open>is_running\<close>, \<open>start_service\<close> and
  \<open>stop_service\<close>, which \<open>kernel/src/rtl8139.rs\<close>, \<open>hda.rs\<close>, \<open>ahci.rs\<close> and \<open>xhci.rs\<close> each have with the same text
  over their own statics; here they are indexed by the service's name.

  A driver's mailbox is the pointer of its \<open>stop\<close> word and its physical address, absent until the driver has
  initialised its device. What the other tasks do while a caller spins until the process has started or
  stopped is the parameter \<open>wait\<close>, with whether the awaited condition was seen; the baked-in ELF images are
  data of the state.
\<close>

record service =
  sv_enabled :: bool
  sv_starting :: bool
  sv_mailbox :: "(u64 \<times> u64) option"
  sv_elf :: "u8 list"

record svc_state = proc_state +
  SERVICES :: "string \<Rightarrow> service"

definition set_service :: "string \<Rightarrow> (service \<Rightarrow> service) \<Rightarrow> 'a svc_state_scheme \<Rightarrow> 'a svc_state_scheme" where
  "set_service nm f s = s\<lparr>SERVICES := (SERVICES s)(nm := f (SERVICES s nm))\<rparr>"

definition SERVICE_NAME :: "string \<Rightarrow> u8 list" where
  "SERVICE_NAME nm = str_bytes (''<'' @ nm @ ''>'')"

definition is_enabled :: "string \<Rightarrow> 'a svc_state_scheme \<Rightarrow> bool" where
  "is_enabled nm s = sv_enabled (SERVICES s nm)"

definition set_enabled :: "string \<Rightarrow> bool \<Rightarrow> 'a svc_state_scheme \<Rightarrow> 'a svc_state_scheme" where
  "set_enabled nm v s = set_service nm (sv_enabled_update (\<lambda>_. v)) s"

definition is_running :: "string \<Rightarrow> 'a svc_state_scheme \<Rightarrow> bool" where
  "is_running nm s = is_process_running (SERVICE_NAME nm) s"

record 's svc_env =
  trampoline_at :: u64
  async_entry_at :: u64
  wait :: "string \<Rightarrow> bool \<Rightarrow> 's \<Rightarrow> bool \<times> 's"

definition usize_MAX :: nat where "usize_MAX = 2 ^ 64 - 1"

definition stop_word :: "u32 \<Rightarrow> u8 list" where
  "stop_word v = [word_of_nat (unat v), 0, 0, 0]"

definition launch :: "'a svc_state_scheme svc_env \<Rightarrow> string \<Rightarrow> 'a svc_state_scheme \<Rightarrow>
    panic + ((string + unit) \<times> 'a svc_state_scheme)" where
  "launch env nm s = (case sv_mailbox (SERVICES s nm) of
     None \<Rightarrow> Inr (Inl ''driver not initialized'', s)
   | Some (stop, mailbox_phys) \<Rightarrow>
       if sv_elf (SERVICES s nm) = [] then Inr (Inl (nm @ '' ELF not built''), s)
       else
         rbind (exec_async_with_arg (trampoline_at env) (async_entry_at env) usize_MAX (SERVICE_NAME nm)
                  (sv_elf (SERVICES s nm)) mailbox_phys (copy_to stop (stop_word 0) s)) (\<lambda>(r, s).
         case r of
           Inl e \<Rightarrow> Inr (Inl e, s)
         | Inr _ \<Rightarrow> let (started, s) = wait env nm True s
             in Inr (if started then Inr () else Inl ''timeout waiting for driver to start'', s)))"

definition start_service :: "'a svc_state_scheme svc_env \<Rightarrow> string \<Rightarrow> 'a svc_state_scheme \<Rightarrow>
    panic + ((string + unit) \<times> 'a svc_state_scheme)" where
  "start_service env nm s =
    (if \<not> is_enabled nm s then Inr (Inl ''disabled'', s)
     else if is_running nm s then Inr (Inl ''already running'', s)
     else if sv_starting (SERVICES s nm) then Inr (Inl ''start already in progress'', s)
     else rbind (launch env nm (set_service nm (sv_starting_update (\<lambda>_. True)) s)) (\<lambda>(r, s).
       Inr (r, set_service nm (sv_starting_update (\<lambda>_. False)) s)))"

definition stop_service :: "'a svc_state_scheme svc_env \<Rightarrow> string \<Rightarrow> 'a svc_state_scheme \<Rightarrow>
    panic + ((string + unit) \<times> 'a svc_state_scheme)" where
  "stop_service env nm s =
    (if \<not> is_running nm s then Inr (Inl ''not running'', s)
     else case sv_mailbox (SERVICES s nm) of
       None \<Rightarrow> Inr (Inl ''driver not initialized'', s)
     | Some (stop, _) \<Rightarrow> let (stopped, s) = wait env nm False (copy_to stop (stop_word 1) s)
         in Inr (if stopped then Inr () else Inl ''timeout waiting for driver to stop'', s))"

text \<open>The two functions of each driver.\<close>

definition rtl8139_start_service :: "'a svc_state_scheme svc_env \<Rightarrow> 'a svc_state_scheme \<Rightarrow>
    panic + ((string + unit) \<times> 'a svc_state_scheme)" where
  "rtl8139_start_service env s = start_service env ''rtl8139d'' s"

definition rtl8139_stop_service :: "'a svc_state_scheme svc_env \<Rightarrow> 'a svc_state_scheme \<Rightarrow>
    panic + ((string + unit) \<times> 'a svc_state_scheme)" where
  "rtl8139_stop_service env s = stop_service env ''rtl8139d'' s"

definition hda_start_service :: "'a svc_state_scheme svc_env \<Rightarrow> 'a svc_state_scheme \<Rightarrow>
    panic + ((string + unit) \<times> 'a svc_state_scheme)" where
  "hda_start_service env s = start_service env ''hdad'' s"

definition hda_stop_service :: "'a svc_state_scheme svc_env \<Rightarrow> 'a svc_state_scheme \<Rightarrow>
    panic + ((string + unit) \<times> 'a svc_state_scheme)" where
  "hda_stop_service env s = stop_service env ''hdad'' s"

definition ahci_start_service :: "'a svc_state_scheme svc_env \<Rightarrow> 'a svc_state_scheme \<Rightarrow>
    panic + ((string + unit) \<times> 'a svc_state_scheme)" where
  "ahci_start_service env s = start_service env ''ahcid'' s"

definition ahci_stop_service :: "'a svc_state_scheme svc_env \<Rightarrow> 'a svc_state_scheme \<Rightarrow>
    panic + ((string + unit) \<times> 'a svc_state_scheme)" where
  "ahci_stop_service env s = stop_service env ''ahcid'' s"

definition xhci_start_service :: "'a svc_state_scheme svc_env \<Rightarrow> 'a svc_state_scheme \<Rightarrow>
    panic + ((string + unit) \<times> 'a svc_state_scheme)" where
  "xhci_start_service env s = start_service env ''xhcid'' s"

definition xhci_stop_service :: "'a svc_state_scheme svc_env \<Rightarrow> 'a svc_state_scheme \<Rightarrow>
    panic + ((string + unit) \<times> 'a svc_state_scheme)" where
  "xhci_stop_service env s = stop_service env ''xhcid'' s"

section \<open>Launching is guarded\<close>

lemma set_service_queue [simp]: "PENDING_QUEUE (set_service nm f s) = PENDING_QUEUE s"
  "SERVICES (set_service nm f s) = (SERVICES s)(nm := f (SERVICES s nm))" "PROCTAB (set_service nm f s) = PROCTAB s"
  by (simp_all add: set_service_def)

lemma start_service_refuses:
  assumes "\<not> is_enabled nm s \<or> is_running nm s \<or> sv_starting (SERVICES s nm) \<or> sv_mailbox (SERVICES s nm) = None \<or>
    sv_elf (SERVICES s nm) = []"
  shows "\<exists>e. start_service env nm s = Inr (Inl e, s)"
proof -
  have "set_service nm (sv_starting_update (\<lambda>_. False)) (set_service nm (sv_starting_update (\<lambda>_. True)) s) = s"
    if "\<not> sv_starting (SERVICES s nm)"
    using that by (cases "SERVICES s nm") (simp add: set_service_def fun_upd_idem)
  then show ?thesis using assms by (auto simp: start_service_def launch_def split: option.splits)
qed

end
