(* ===== verification/Syscall.thy ===== *)
theory Syscall
  imports Services HepFs Input
begin

text \<open>
  System calls, \<open>kernel/src/syscall.rs\<close>: the entry stub, the dispatch and every call, the port and memory-mapped I/O
  permissions, and the two single-slot mailboxes through which a process has filesystem and service
  operations done for it by a kernel task (\<open>fs_service\<close>, \<open>svc_service\<close>).

  \<open>sys_env\<close> collects what the surroundings decide during one call: the kernel pointer through which each user
  address is accessed (\<open>mmu\<close>, \<open>None\<close> for a page fault), which spin locks another task holds at that moment, and the
  value each port reads. The serial line and the port instructions are logs of the state.
\<close>

section \<open>Numbers and state\<close>

definition SYS_READ :: u64 where "SYS_READ = 0"
definition SYS_WRITE :: u64 where "SYS_WRITE = 1"
definition SYS_EXIT :: u64 where "SYS_EXIT = 60"
definition SYS_GETPID :: u64 where "SYS_GETPID = 39"
definition SYS_MMAP_MMIO :: u64 where "SYS_MMAP_MMIO = 500"
definition SYS_PORT_IN :: u64 where "SYS_PORT_IN = 501"
definition SYS_PORT_OUT :: u64 where "SYS_PORT_OUT = 502"
definition SYS_WAIT_IRQ :: u64 where "SYS_WAIT_IRQ = 503"
definition SYS_MMAP_ANON :: u64 where "SYS_MMAP_ANON = 504"
definition SYS_INPUT_STATE :: u64 where "SYS_INPUT_STATE = 505"
definition SYS_FS_LIST_DIR :: u64 where "SYS_FS_LIST_DIR = 506"
definition SYS_FS_READ_FILE :: u64 where "SYS_FS_READ_FILE = 507"
definition SYS_FS_WRITE_FILE :: u64 where "SYS_FS_WRITE_FILE = 508"
definition SYS_FS_CREATE :: u64 where "SYS_FS_CREATE = 509"
definition SYS_FS_POLL :: u64 where "SYS_FS_POLL = 510"
definition SYS_SERVICE_CTL :: u64 where "SYS_SERVICE_CTL = 511"
definition SYS_SERVICE_POLL :: u64 where "SYS_SERVICE_POLL = 512"
definition SYS_SPAWN_BYTES :: u64 where "SYS_SPAWN_BYTES = 513"
definition ENOSYS :: u64 where "ENOSYS = - 38"
definition EBADF :: u64 where "EBADF = - 9"
definition EPERM :: u64 where "EPERM = - 1"
definition EAGAIN :: u64 where "EAGAIN = - 11"
definition EBUSY :: u64 where "EBUSY = - 16"
definition ENOENT :: u64 where "ENOENT = - 2"

datatype FsOp = ListDir | ReadFile | WriteFile "u8 list" | Create bool

record FsJob =
  fj_op :: FsOp
  fj_path :: "u8 list"
  fj_done :: bool
  fj_result :: u64
  fj_out_data :: "u8 list"

datatype SvcAction = SvcStatus | SvcStart | SvcStop | SvcEnable | SvcDisable

record SvcJob =
  sj_name :: string
  sj_start :: bool
  sj_done :: bool
  sj_result :: u64

text \<open>A port instruction: the port, the operand width in bytes, and the value of an \<open>out\<close>.\<close>

datatype port_access = PortIn u16 nat | PortOut u16 nat u32

record sys_state = svc_state +
  DYNAMIC_PORTS :: "(u16 \<times> u16) list"
  DYNAMIC_MMIO :: "(u64 \<times> u64) list"
  FS_JOB :: "FsJob option"
  SVC_JOB :: "SvcJob option"
  INPUT :: input_state
  SERIAL :: "u8 list"
  PORTS :: "port_access list"

record 's sys_env = "'s svc_env" +
  mmu :: "u64 \<Rightarrow> u64 option"
  fs_lock_busy :: bool
  svc_lock_busy :: bool
  mouse_lock_busy :: bool
  key_lock_busy :: "nat \<Rightarrow> bool"
  port_value :: "u16 \<Rightarrow> u32"
  resume_at :: u64

section \<open>Permissions\<close>

definition ALLOWED_PORTS :: "(u16 \<times> u16) list" where
  "ALLOWED_PORTS = [(0x70, 0x71)]"

definition ALLOWED_MMIO :: "(u64 \<times> u64) list" where
  "ALLOWED_MMIO = [(0xFEE00000, 0xFEE01000)]"

definition grant_port_range :: "u16 \<Rightarrow> u16 \<Rightarrow> 'a sys_state_scheme \<Rightarrow> 'a sys_state_scheme" where
  "grant_port_range lo hi s = s\<lparr>DYNAMIC_PORTS := DYNAMIC_PORTS s @ [(lo, hi)]\<rparr>"

definition grant_mmio_range :: "u64 \<Rightarrow> u64 \<Rightarrow> 'a sys_state_scheme \<Rightarrow> 'a sys_state_scheme" where
  "grant_mmio_range phys len s = s\<lparr>DYNAMIC_MMIO := DYNAMIC_MMIO s @ [(phys, phys + len)]\<rparr>"

definition port_allowed :: "u16 \<Rightarrow> 'a sys_state_scheme \<Rightarrow> bool" where
  "port_allowed port s \<longleftrightarrow> list_ex (\<lambda>(lo, hi). lo \<le> port \<and> port \<le> hi) ALLOWED_PORTS \<or>
     list_ex (\<lambda>(lo, hi). lo \<le> port \<and> port \<le> hi) (DYNAMIC_PORTS s)"

definition checked_add :: "u64 \<Rightarrow> u64 \<Rightarrow> u64 option" where
  "checked_add a b = (if unat a + unat b < 2 ^ 64 then Some (a + b) else None)"

definition mmio_allowed :: "u64 \<Rightarrow> u64 \<Rightarrow> 'a sys_state_scheme \<Rightarrow> bool" where
  "mmio_allowed phys len s = (case checked_add phys len of
     None \<Rightarrow> False
   | Some fin \<Rightarrow> list_ex (\<lambda>(lo, hi). lo \<le> phys \<and> fin \<le> hi) ALLOWED_MMIO \<or>
       list_ex (\<lambda>(lo, hi). lo \<le> phys \<and> fin \<le> hi) (DYNAMIC_MMIO s))"

section \<open>Per-CPU data\<close>

definition set_kernel_stack :: "u64 \<Rightarrow> 'a sys_state_scheme \<Rightarrow> 'a sys_state_scheme" where
  "set_kernel_stack tp s = s\<lparr>PERCPU_kernel_stack := tp\<rparr>"

definition get_user_rsp :: "'a sys_state_scheme \<Rightarrow> u64" where
  "get_user_rsp s = PERCPU_user_rsp s"

definition set_user_rsp :: "u64 \<Rightarrow> 'a sys_state_scheme \<Rightarrow> 'a sys_state_scheme" where
  "set_user_rsp v s = s\<lparr>PERCPU_user_rsp := v\<rparr>"

section \<open>User memory\<close>

fun user_bytes :: "(u64 \<Rightarrow> u64 option) \<Rightarrow> u64 \<Rightarrow> nat \<Rightarrow> 'a sys_state_scheme \<Rightarrow> panic + u8 list" where
  "user_bytes tr ptr 0 s = Inr []"
| "user_bytes tr ptr (Suc n) s = (case tr ptr of
     None \<Rightarrow> Inl (Panic ''page fault'')
   | Some p \<Rightarrow> rbind (user_bytes tr (ptr + 1) n s) (\<lambda>bs. Inr (MEM s (unat p) # bs)))"

fun write_user :: "(u64 \<Rightarrow> u64 option) \<Rightarrow> u64 \<Rightarrow> u8 list \<Rightarrow> 'a sys_state_scheme \<Rightarrow> panic + 'a sys_state_scheme" where
  "write_user tr ptr [] s = Inr s"
| "write_user tr ptr (b # bs) s = (case tr ptr of
     None \<Rightarrow> Inl (Panic ''page fault'')
   | Some p \<Rightarrow> write_user tr (ptr + 1) bs (s\<lparr>MEM := (MEM s)(unat p := b)\<rparr>))"

section \<open>The calls\<close>

text \<open>
  A call returns a value to the process, ends it (the processor is back in the caller of \<open>enter_ring3\<close>), or has
  switched to another task and returns 0 when its task is resumed.
\<close>

datatype 's outcome = Returns u64 's | Exits 's | Blocks 's

definition sys_write :: "'a sys_state_scheme sys_env \<Rightarrow> u64 \<Rightarrow> u64 \<Rightarrow> u64 \<Rightarrow> 'a sys_state_scheme \<Rightarrow>
    panic + 'a sys_state_scheme outcome" where
  "sys_write env fd buf len s =
    (if fd \<noteq> 1 \<and> fd \<noteq> 2 then Inr (Returns EBADF s)
     else let count = min len 4096 in
       if count = 0 then Inr (Returns 0 s)
       else rbind (user_bytes (mmu env) buf (unat count) s) (\<lambda>bytes.
         Inr (Returns count (proc_write bytes (s\<lparr>SERIAL := SERIAL s @ bytes\<rparr>)))))"

definition sys_exit :: "u64 \<Rightarrow> 'a sys_state_scheme \<Rightarrow> panic + 'a sys_state_scheme outcome" where
  "sys_exit code s =
    (if is_user_running s then Inr (Exits (do_exit code s))
     else Inr (Returns ENOSYS (s\<lparr>SERIAL := SERIAL s @ str_bytes ''sys_exit: no process running'' @ [10]\<rparr>)))"

definition sys_mmap_mmio :: "u64 \<Rightarrow> u64 \<Rightarrow> 'a sys_state_scheme \<Rightarrow> panic + 'a sys_state_scheme outcome" where
  "sys_mmap_mmio phys len s =
    (if \<not> mmio_allowed phys len s then Inr (Returns 0 s)
     else rbind (map_mmio_for_user phys len s) (\<lambda>(v, s). Inr (Returns v s)))"

definition sys_mmap_anon :: "u64 \<Rightarrow> 'a sys_state_scheme \<Rightarrow> panic + 'a sys_state_scheme outcome" where
  "sys_mmap_anon len s = rbind (map_anon_for_user len s) (\<lambda>(v, s). Inr (Returns v s))"

definition port_op :: "port_access \<Rightarrow> 'a sys_state_scheme \<Rightarrow> 'a sys_state_scheme" where
  "port_op a s = s\<lparr>PORTS := PORTS s @ [a]\<rparr>"

definition sys_port_in :: "'a sys_state_scheme sys_env \<Rightarrow> u64 \<Rightarrow> u64 \<Rightarrow> 'a sys_state_scheme \<Rightarrow>
    panic + 'a sys_state_scheme outcome" where
  "sys_port_in env port64 width s =
    (let port = ucast port64; v = port_value env port in
     if \<not> port_allowed port s then Inr (Returns EPERM s)
     else if width = 1 then Inr (Returns (ucast (ucast v :: u8)) (port_op (PortIn port 1) s))
     else if width = 2 then Inr (Returns (ucast (ucast v :: u16)) (port_op (PortIn port 2) s))
     else if width = 4 then Inr (Returns (ucast v) (port_op (PortIn port 4) s))
     else Inr (Returns ENOSYS s))"

definition sys_port_out :: "u64 \<Rightarrow> u64 \<Rightarrow> u64 \<Rightarrow> 'a sys_state_scheme \<Rightarrow> panic + 'a sys_state_scheme outcome" where
  "sys_port_out port64 width val s =
    (let port = ucast port64 in
     if \<not> port_allowed port s then Inr (Returns EPERM s)
     else if width = 1 then Inr (Returns 0 (port_op (PortOut port 1 (ucast (ucast val :: u8))) s))
     else if width = 2 then Inr (Returns 0 (port_op (PortOut port 2 (ucast (ucast val :: u16))) s))
     else if width = 4 then Inr (Returns 0 (port_op (PortOut port 4 (ucast val)) s))
     else Inr (Returns ENOSYS s))"

definition sys_wait_irq :: "'a sys_state_scheme sys_env \<Rightarrow> u64 \<Rightarrow> 'a sys_state_scheme \<Rightarrow> panic + 'a sys_state_scheme outcome" where
  "sys_wait_irq env vector s =
    (let (switched, s) = block_on_irq (resume_at env) (ucast vector) s
     in Inr (if switched then Blocks s else Returns 0 s))"

text \<open>The \<open>InputStateOut\<close> record as it is laid out in memory.\<close>

definition i32_bytes :: "int \<Rightarrow> u8 list" where
  "i32_bytes v = u32_to_le_bytes (word_of_int v)"

definition input_out :: "bool \<Rightarrow> MouseState \<Rightarrow> u8 list \<Rightarrow> u8 list" where
  "input_out busy m ks =
    (let pos = (if busy then (0, 0, 0, 0) else (1, m_x m, m_y m, m_buttons m)) in
     case pos of (valid, x, y, btn) \<Rightarrow>
       u32_to_le_bytes valid @ i32_bytes x @ i32_bytes y @ u32_to_le_bytes (ucast (btn :: u8)) @
       u32_to_le_bytes (word_of_nat (length ks)) @ ks @ replicate (16 - length ks) 0)"

text \<open>The loop that takes up to 16 keys; \<open>n\<close> counts down and \<open>i\<close> numbers the attempts.\<close>

fun take_keys :: "nat \<Rightarrow> nat \<Rightarrow> (nat \<Rightarrow> bool) \<Rightarrow> input_state \<Rightarrow> u8 list \<times> input_state" where
  "take_keys 0 i busy inp = ([], inp)"
| "take_keys (Suc n) i busy inp = (case try_read_char (busy i) inp of
     (Some c, inp) \<Rightarrow> (let (cs, inp) = take_keys n (Suc i) busy inp in (c # cs, inp))
   | (None, inp) \<Rightarrow> ([], inp))"

definition sys_input_state :: "'a sys_state_scheme sys_env \<Rightarrow> u64 \<Rightarrow> 'a sys_state_scheme \<Rightarrow>
    panic + 'a sys_state_scheme outcome" where
  "sys_input_state env buf s =
    (if buf = 0 then Inr (Returns 0 s)
     else let m = MOUSE (INPUT s);
              (ks, inp) = take_keys 16 0 (key_lock_busy env) (INPUT s);
              s = s\<lparr>INPUT := inp\<rparr> in
          rbind (write_user (mmu env) buf (input_out (mouse_lock_busy env) m ks) s) (\<lambda>s.
          Inr (Returns (word_of_nat (length ks)) s)))"

section \<open>Filesystem jobs\<close>

definition read_user_path :: "'a sys_state_scheme sys_env \<Rightarrow> u64 \<Rightarrow> u64 \<Rightarrow> 'a sys_state_scheme \<Rightarrow> panic + u8 list option" where
  "read_user_path env ptr len s =
    (if ptr = 0 \<or> len = 0 \<or> len > 256 then Inr None
     else rbind (user_bytes (mmu env) ptr (unat len) s) (\<lambda>bytes.
       Inr (if utf8_valid bytes then Some bytes else None)))"

definition submit_fs_job :: "bool \<Rightarrow> FsOp \<Rightarrow> u8 list \<Rightarrow> 'a sys_state_scheme \<Rightarrow> (u64 + unit) \<times> 'a sys_state_scheme" where
  "submit_fs_job busy oper path s =
    (if busy then (Inl EAGAIN, s)
     else if FS_JOB s \<noteq> None then (Inl EBUSY, s)
     else (Inr (), s\<lparr>FS_JOB := Some \<lparr>fj_op = oper, fj_path = path, fj_done = False, fj_result = 0, fj_out_data = []\<rparr>\<rparr>))"

definition submit_result :: "(u64 + unit) \<times> 'a sys_state_scheme \<Rightarrow> panic + 'a sys_state_scheme outcome" where
  "submit_result r = (case r of (Inr _, s) \<Rightarrow> Inr (Returns 0 s) | (Inl e, s) \<Rightarrow> Inr (Returns e s))"

definition sys_fs_list_dir :: "'a sys_state_scheme sys_env \<Rightarrow> u64 \<Rightarrow> u64 \<Rightarrow> 'a sys_state_scheme \<Rightarrow>
    panic + 'a sys_state_scheme outcome" where
  "sys_fs_list_dir env path_ptr path_len s =
    rbind (read_user_path env path_ptr path_len s) (\<lambda>p. case p of
      None \<Rightarrow> Inr (Returns EAGAIN s)
    | Some path \<Rightarrow> submit_result (submit_fs_job (fs_lock_busy env) ListDir path s))"

definition sys_fs_read_file :: "'a sys_state_scheme sys_env \<Rightarrow> u64 \<Rightarrow> u64 \<Rightarrow> 'a sys_state_scheme \<Rightarrow>
    panic + 'a sys_state_scheme outcome" where
  "sys_fs_read_file env path_ptr path_len s =
    rbind (read_user_path env path_ptr path_len s) (\<lambda>p. case p of
      None \<Rightarrow> Inr (Returns EAGAIN s)
    | Some path \<Rightarrow> submit_result (submit_fs_job (fs_lock_busy env) ReadFile path s))"

definition sys_fs_write_file :: "'a sys_state_scheme sys_env \<Rightarrow> u64 \<Rightarrow> u64 \<Rightarrow> u64 \<Rightarrow> u64 \<Rightarrow> 'a sys_state_scheme \<Rightarrow>
    panic + 'a sys_state_scheme outcome" where
  "sys_fs_write_file env path_ptr path_len data_ptr data_len s =
    rbind (read_user_path env path_ptr path_len s) (\<lambda>p. case p of
      None \<Rightarrow> Inr (Returns EAGAIN s)
    | Some path \<Rightarrow>
        if data_ptr = 0 \<and> data_len \<noteq> 0 then Inr (Returns EAGAIN s)
        else rbind (user_bytes (mmu env) data_ptr (unat data_len) s) (\<lambda>data.
          submit_result (submit_fs_job (fs_lock_busy env) (WriteFile data) path s)))"

definition sys_fs_create :: "'a sys_state_scheme sys_env \<Rightarrow> u64 \<Rightarrow> u64 \<Rightarrow> u64 \<Rightarrow> 'a sys_state_scheme \<Rightarrow>
    panic + 'a sys_state_scheme outcome" where
  "sys_fs_create env path_ptr path_len is_dir s =
    rbind (read_user_path env path_ptr path_len s) (\<lambda>p. case p of
      None \<Rightarrow> Inr (Returns EAGAIN s)
    | Some path \<Rightarrow> submit_result (submit_fs_job (fs_lock_busy env) (Create (is_dir \<noteq> 0)) path s))"

definition sys_fs_poll :: "'a sys_state_scheme sys_env \<Rightarrow> u64 \<Rightarrow> u64 \<Rightarrow> 'a sys_state_scheme \<Rightarrow>
    panic + 'a sys_state_scheme outcome" where
  "sys_fs_poll env out_ptr out_cap s =
    (if fs_lock_busy env then Inr (Returns EAGAIN s)
     else case FS_JOB s of
       None \<Rightarrow> Inr (Returns ENOENT s)
     | Some job \<Rightarrow>
         if \<not> fj_done job then Inr (Returns EBUSY s)
         else rbind (if out_ptr \<noteq> 0 \<and> out_cap \<noteq> 0
               then write_user (mmu env) out_ptr (take (unat out_cap) (fj_out_data job)) s else Inr s) (\<lambda>s.
           Inr (Returns (fj_result job) (s\<lparr>FS_JOB := None\<rparr>))))"

definition has_pending_job :: "'a sys_state_scheme \<Rightarrow> bool" where
  "has_pending_job s \<longleftrightarrow> (case FS_JOB s of None \<Rightarrow> False | Some j \<Rightarrow> \<not> fj_done j) \<or>
     (case SVC_JOB s of None \<Rightarrow> False | Some j \<Rightarrow> \<not> sj_done j)"

definition rfind_slash :: "u8 list \<Rightarrow> nat option" where
  "rfind_slash path = map_option (\<lambda>k. length path - 1 - k) (position (\<lambda>b. b = 47) (rev path))"

definition split_path :: "u8 list \<Rightarrow> u8 list \<times> u8 list" where
  "split_path path = (case rfind_slash path of
     Some i \<Rightarrow> (take i path, drop (i + 1) path)
   | None \<Rightarrow> ([], path))"









section \<open>Services and processes\<close>

definition service_name :: "u64 \<Rightarrow> string option" where
  "service_name sid = (if sid = 0 then Some ''rtl8139d'' else if sid = 1 then Some ''hdad'' else if sid = 2 then Some ''ahcid''
     else if sid = 3 then Some ''xhcid'' else None)"

definition known_service :: "string \<Rightarrow> bool" where
  "known_service nm \<longleftrightarrow> nm \<in> {''rtl8139d'', ''hdad'', ''ahcid'', ''xhcid''}"

definition service_is_enabled :: "string \<Rightarrow> 'a sys_state_scheme \<Rightarrow> bool" where
  "service_is_enabled nm s = (if known_service nm then is_enabled nm s else False)"

definition service_is_running :: "string \<Rightarrow> 'a sys_state_scheme \<Rightarrow> bool" where
  "service_is_running nm s = (if known_service nm then is_running nm s else False)"

definition service_set_enabled :: "string \<Rightarrow> bool \<Rightarrow> 'a sys_state_scheme \<Rightarrow> 'a sys_state_scheme" where
  "service_set_enabled nm v s = (if known_service nm then set_enabled nm v s else s)"

definition parse_svc_action :: "u64 \<Rightarrow> SvcAction option" where
  "parse_svc_action a = (if a = 0 then Some SvcStatus else if a = 1 then Some SvcStart else if a = 2 then Some SvcStop
     else if a = 3 then Some SvcEnable else if a = 4 then Some SvcDisable else None)"

definition sys_service_ctl :: "'a sys_state_scheme sys_env \<Rightarrow> u64 \<Rightarrow> u64 \<Rightarrow> 'a sys_state_scheme \<Rightarrow>
    panic + 'a sys_state_scheme outcome" where
  "sys_service_ctl env service_id action s = (case service_name service_id of
     None \<Rightarrow> Inr (Returns ENOENT s)
   | Some nm \<Rightarrow> (case parse_svc_action action of
       None \<Rightarrow> Inr (Returns ENOSYS s)
     | Some SvcStatus \<Rightarrow> Inr (Returns (push_bit 1 (of_bool (service_is_enabled nm s)) OR of_bool (service_is_running nm s)) s)
     | Some SvcEnable \<Rightarrow> Inr (Returns 0 (service_set_enabled nm True s))
     | Some SvcDisable \<Rightarrow> Inr (Returns 0 (service_set_enabled nm False s))
     | Some act \<Rightarrow>
         if svc_lock_busy env then Inr (Returns EAGAIN s)
         else if SVC_JOB s \<noteq> None then Inr (Returns EBUSY s)
         else Inr (Returns 0 (s\<lparr>SVC_JOB := Some \<lparr>sj_name = nm, sj_start = (act = SvcStart), sj_done = False, sj_result = 0\<rparr>\<rparr>))))"

definition sys_service_poll :: "'a sys_state_scheme sys_env \<Rightarrow> 'a sys_state_scheme \<Rightarrow> panic + 'a sys_state_scheme outcome" where
  "sys_service_poll env s =
    (if svc_lock_busy env then Inr (Returns EAGAIN s)
     else case SVC_JOB s of
       None \<Rightarrow> Inr (Returns ENOENT s)
     | Some job \<Rightarrow> if \<not> sj_done job then Inr (Returns EBUSY s) else Inr (Returns (sj_result job) (s\<lparr>SVC_JOB := None\<rparr>)))"

definition svc_service :: "'a sys_state_scheme sys_env \<Rightarrow> 'a sys_state_scheme \<Rightarrow> panic + 'a sys_state_scheme" where
  "svc_service env s = (case SVC_JOB s of
     None \<Rightarrow> Inr s
   | Some job \<Rightarrow>
       if sj_done job then Inr s
       else
         rbind (if sj_start job then
             (if sj_name job = ''rtl8139d'' then rtl8139_start_service (svc_env.truncate env) s
              else if sj_name job = ''hdad'' then hda_start_service (svc_env.truncate env) s
              else if sj_name job = ''ahcid'' then ahci_start_service (svc_env.truncate env) s
              else if sj_name job = ''xhcid'' then xhci_start_service (svc_env.truncate env) s
              else Inr (Inl ''unknown service'', s))
           else
             (if sj_name job = ''rtl8139d'' then rtl8139_stop_service (svc_env.truncate env) s
              else if sj_name job = ''hdad'' then hda_stop_service (svc_env.truncate env) s
              else if sj_name job = ''ahcid'' then ahci_stop_service (svc_env.truncate env) s
              else if sj_name job = ''xhcid'' then xhci_stop_service (svc_env.truncate env) s
              else Inr (Inl ''unknown service'', s))) (\<lambda>(r, s).
         Inr (s\<lparr>SVC_JOB := Some (job\<lparr>sj_result := (case r of Inr _ \<Rightarrow> 0 | Inl _ \<Rightarrow> - 1), sj_done := True\<rparr>)\<rparr>)))"

definition sys_spawn_bytes :: "'a sys_state_scheme sys_env \<Rightarrow> u64 \<Rightarrow> u64 \<Rightarrow> u64 \<Rightarrow> 'a sys_state_scheme \<Rightarrow>
    panic + 'a sys_state_scheme outcome" where
  "sys_spawn_bytes env data_ptr data_len arg s =
    (if data_ptr = 0 \<or> data_len = 0 then Inr (Returns EAGAIN s)
     else rbind (user_bytes (mmu env) data_ptr (unat data_len) s) (\<lambda>data.
       rbind (exec_async_with_arg (trampoline_at env) (async_entry_at env) usize_MAX (str_bytes ''userspawn'') data arg s)
         (\<lambda>(r, s). Inr (Returns (case r of Inr _ \<Rightarrow> 0 | Inl _ \<Rightarrow> ENOSYS) s))))"

section \<open>Dispatch and entry\<close>

definition syscall_dispatch :: "'a sys_state_scheme sys_env \<Rightarrow> u64 \<Rightarrow> u64 \<Rightarrow> u64 \<Rightarrow> u64 \<Rightarrow> u64 \<Rightarrow> 'a sys_state_scheme \<Rightarrow>
    panic + 'a sys_state_scheme outcome" where
  "syscall_dispatch env num a1 a2 a3 a4 s =
    (if num = SYS_WRITE then sys_write env a1 a2 a3 s
     else if num = SYS_EXIT then sys_exit a1 s
     else if num = SYS_GETPID then Inr (Returns (ucast (current_pid s)) s)
     else if num = SYS_MMAP_MMIO then sys_mmap_mmio a1 a2 s
     else if num = SYS_PORT_IN then sys_port_in env a1 a2 s
     else if num = SYS_PORT_OUT then sys_port_out a1 a2 a3 s
     else if num = SYS_WAIT_IRQ then sys_wait_irq env a1 s
     else if num = SYS_MMAP_ANON then sys_mmap_anon a1 s
     else if num = SYS_INPUT_STATE then sys_input_state env a1 s
     else if num = SYS_FS_LIST_DIR then sys_fs_list_dir env a1 a2 s
     else if num = SYS_FS_READ_FILE then sys_fs_read_file env a1 a2 s
     else if num = SYS_FS_WRITE_FILE then sys_fs_write_file env a1 a2 a3 a4 s
     else if num = SYS_FS_CREATE then sys_fs_create env a1 a2 a3 s
     else if num = SYS_FS_POLL then sys_fs_poll env a1 a2 s
     else if num = SYS_SERVICE_CTL then sys_service_ctl env a1 a2 s
     else if num = SYS_SERVICE_POLL then sys_service_poll env s
     else if num = SYS_SPAWN_BYTES then sys_spawn_bytes env a1 a2 a3 s
     else Inr (Returns ENOSYS s))"

text \<open>
  The registers that are not in \<open>cpu_regs\<close>: the ones a called function may change. On entry \<open>rcx\<close> and \<open>r11\<close> hold the
  caller's \<open>rip\<close> and flags.
\<close>

record user_regs =
  rax :: u64
  rdi :: u64
  rsi :: u64
  rdx :: u64
  r10 :: u64
  r8 :: u64
  r9 :: u64
  rcx :: u64
  r11 :: u64

definition entry_frame :: "user_regs \<Rightarrow> 'a sys_state_scheme \<Rightarrow> 'a sys_state_scheme" where
  "entry_frame u s =
    (let s = s\<lparr>gs_swapped := \<not> gs_swapped s\<rparr>;
         s = s\<lparr>PERCPU_user_rsp := rsp (CPU s)\<rparr>;
         s = load_rsp (PERCPU_kernel_stack s) s
     in push_of r15 (push_of r14 (push_of r13 (push_of r12 (push_of rbx (push_of rbp (push_reg (r11 u) (push_reg (rcx u) s))))))))"

definition pop_word :: "'a sys_state_scheme \<Rightarrow> u64 \<times> 'a sys_state_scheme" where
  "pop_word s = (read_u64 s (rsp (CPU s)), s\<lparr>CPU := (CPU s)\<lparr>rsp := rsp (CPU s) + 8\<rparr>\<rparr>)"

text \<open>
  The six moves that put number and arguments where the System V convention has them, in their order. What the
  compiled dispatcher leaves in these registers is not in the source: it is the parameter \<open>callee\<close> of \<open>syscall_entry\<close>.
  Nothing after the call puts the caller's argument registers back.
\<close>

definition shuffle :: "user_regs \<Rightarrow> user_regs" where
  "shuffle u =
    (let u = u\<lparr>r9 := r8 u\<rparr>;
         u = u\<lparr>r8 := r10 u\<rparr>;
         u = u\<lparr>rcx := rdx u\<rparr>;
         u = u\<lparr>rdx := rsi u\<rparr>;
         u = u\<lparr>rsi := rdi u\<rparr>
     in u\<lparr>rdi := rax u\<rparr>)"

definition leave_frame :: "u64 \<Rightarrow> user_regs \<Rightarrow> 'a sys_state_scheme \<Rightarrow> user_regs \<times> 'a sys_state_scheme" where
  "leave_frame v u s =
    (let s = pop_into rbp_update (pop_into rbx_update (pop_into r12_update
          (pop_into r13_update (pop_into r14_update (pop_into r15_update s)))));
         (flags, s) = pop_word s;
         (ip, s) = pop_word s;
         s = load_rsp (PERCPU_user_rsp s) s;
         s = s\<lparr>gs_swapped := \<not> gs_swapped s\<rparr>
     in (u\<lparr>rax := v, rcx := ip, r11 := flags\<rparr>, s\<lparr>CPU := (CPU s)\<lparr>rip := ip\<rparr>\<rparr>))"

definition syscall_entry :: "'a sys_state_scheme sys_env \<Rightarrow> (user_regs \<Rightarrow> user_regs) \<Rightarrow> user_regs \<Rightarrow> 'a sys_state_scheme \<Rightarrow>
    panic + ((user_regs \<times> 'a sys_state_scheme) + 'a sys_state_scheme outcome)" where
  "syscall_entry env callee u s =
    (let s = entry_frame u s; c = shuffle u in
     rbind (syscall_dispatch env (rdi c) (rsi c) (rdx c) (rcx c) (r8 c) s) (\<lambda>r. case r of
       Returns v s \<Rightarrow> Inr (Inl (leave_frame v (callee c) s))
     | q \<Rightarrow> Inr (Inr q)))"

section \<open>Permissions are ranges\<close>
















section \<open>The filesystem mailbox\<close>



lemma write_user_job [simp]: "write_user tr p bs s = Inr s' \<Longrightarrow> FS_JOB s' = FS_JOB s"
  by (induction tr p bs s rule: write_user.induct) (auto split: option.splits)


text \<open>
  \<open>split_path\<close> cuts a path at its last slash: the name has none, and parent, slash and name give the path back; a
  path without a slash is a name in the root.
\<close>

lemma split_path_join:
  "case split_path path of (parent, nm) \<Rightarrow>
     47 \<notin> set nm \<and> (if 47 \<in> set path then path = parent @ 47 # nm else parent = [] \<and> nm = path)"
proof (cases "position (\<lambda>b. b = 47) (rev path)")
  case None
  moreover from None have "47 \<notin> set path" by (auto simp: position_None)
  ultimately show ?thesis by (simp add: split_path_def rfind_slash_def)
next
  case (Some k)
  then have k: "k < length path" "rev path ! k = 47" "\<forall>j < k. rev path ! j \<noteq> 47" by (auto dest: position_SomeD)
  let ?i = "length path - 1 - k"
  have i: "?i < length path" "path ! ?i = 47" using k by (simp_all add: rev_nth)
  have "47 \<notin> set (drop (?i + 1) path)"
  proof
    assume "47 \<in> set (drop (?i + 1) path)"
    then obtain m where m: "m < length path - (?i + 1)" "path ! (?i + 1 + m) = 47" by (auto simp: in_set_conv_nth)
    then have "m < k" "length path - Suc (k - 1 - m) = ?i + 1 + m" using k(1) by auto
    then have "k - 1 - m < k" "rev path ! (k - 1 - m) = 47" using k(1) m(2) by (simp_all add: rev_nth)
    then show False using k(3) by blast
  qed
  moreover have "path = take ?i path @ 47 # drop (?i + 1) path" using id_take_nth_drop [OF i(1)] i(2) by simp
  moreover have "47 \<in> set path" using i by (auto simp: in_set_conv_nth)
  ultimately show ?thesis using Some by (simp add: split_path_def rfind_slash_def)
qed

section \<open>Entry and return\<close>

definition entry_words :: "'a sys_state_scheme \<Rightarrow> u64 \<Rightarrow> u64 list" where
  "entry_words s sp = map (\<lambda>k. read_u64 s (sp + 8 * word_of_nat k)) [0 ..< 8]"

lemma entry_fold_push:
  assumes "length vs = 8" "64 \<le> unat (rsp (CPU s))"
  shows "rsp (CPU (fold push_reg vs s)) = rsp (CPU s) - 64" "entry_words (fold push_reg vs s) (rsp (CPU s) - 64) = rev vs"
proof -
  let ?r = "rsp (CPU s)" and ?s = "fold push_reg vs s"
  have b: "8 * length vs \<le> unat ?r" using assms by simp
  show "rsp (CPU ?s) = ?r - 64" using fold_push(1) [OF b] assms(1) by simp
  have rd: "read_u64 ?s (?r - word_of_nat (8 * Suc k)) = vs ! k" if "k < 8" for k
    using fold_push(2) [OF b] assms(1) that by simp
  have "entry_words ?s (?r - 64) = [vs ! 7, vs ! 6, vs ! 5, vs ! 4, vs ! 3, vs ! 2, vs ! 1, vs ! 0]"
    unfolding entry_words_def
    using rd [of 7] rd [of 6] rd [of 5] rd [of 4] rd [of 3] rd [of 2] rd [of 1] rd [of 0]
    by (simp add: upt_rec algebra_simps del: fold_simps)
  also have "\<dots> = rev vs"
    by (rule nth_equalityI) (use assms(1) in \<open>auto simp: rev_nth less_Suc_eq eval_nat_numeral\<close>)
  finally show "entry_words ?s (?r - 64) = rev vs" .
qed

lemma fold_push_fields:
  "PERCPU_user_rsp (fold push_reg vs s) = PERCPU_user_rsp s" "gs_swapped (fold push_reg vs s) = gs_swapped s"
  "rbx (CPU (fold push_reg vs s)) = rbx (CPU s)" "rbp (CPU (fold push_reg vs s)) = rbp (CPU s)"
  "r12 (CPU (fold push_reg vs s)) = r12 (CPU s)" "r13 (CPU (fold push_reg vs s)) = r13 (CPU s)"
  "r14 (CPU (fold push_reg vs s)) = r14 (CPU s)" "r15 (CPU (fold push_reg vs s)) = r15 (CPU s)"
  by (induction vs arbitrary: s) (simp_all add: push_reg_def write_u64_def Let_def)

lemma entry_frame_saved:
  assumes "64 \<le> unat (PERCPU_kernel_stack s)"
  shows "rsp (CPU (entry_frame u s)) = PERCPU_kernel_stack s - 64" "PERCPU_user_rsp (entry_frame u s) = rsp (CPU s)"
    "gs_swapped (entry_frame u s) \<longleftrightarrow> \<not> gs_swapped s"
    "entry_words (entry_frame u s) (PERCPU_kernel_stack s - 64) =
      [r15 (CPU s), r14 (CPU s), r13 (CPU s), r12 (CPU s), rbx (CPU s), rbp (CPU s), r11 u, rcx u]"
proof -
  define t where "t = load_rsp (PERCPU_kernel_stack s) (s\<lparr>gs_swapped := \<not> gs_swapped s, PERCPU_user_rsp := rsp (CPU s)\<rparr>)"
  let ?vs = "[rcx u, r11 u, rbp (CPU s), rbx (CPU s), r12 (CPU s), r13 (CPU s), r14 (CPU s), r15 (CPU s)]"
  have t: "rsp (CPU t) = PERCPU_kernel_stack s" "PERCPU_user_rsp t = rsp (CPU s)" "gs_swapped t \<longleftrightarrow> \<not> gs_swapped s"
    by (simp_all add: t_def load_rsp_def)
  have e: "entry_frame u s = fold push_reg ?vs t"
    by (simp add: entry_frame_def Let_def push_of_def t_def load_rsp_def)
  show "PERCPU_user_rsp (entry_frame u s) = rsp (CPU s)" "gs_swapped (entry_frame u s) \<longleftrightarrow> \<not> gs_swapped s"
    unfolding e fold_push_fields by (rule t(2), rule t(3))
  show "rsp (CPU (entry_frame u s)) = PERCPU_kernel_stack s - 64"
    using entry_fold_push(1) [of ?vs t] assms t(1) unfolding e by simp
  show "entry_words (entry_frame u s) (PERCPU_kernel_stack s - 64) =
      [r15 (CPU s), r14 (CPU s), r13 (CPU s), r12 (CPU s), rbx (CPU s), rbp (CPU s), r11 u, rcx u]"
    using entry_fold_push(2) [of ?vs t] assms t(1) unfolding e by simp
qed

lemma leave_frame_restores:
  assumes "entry_words s (rsp (CPU s)) = [w15, w14, w13, w12, wbx, wbp, wfl, wip]"
  shows "leave_frame v u s = (u\<lparr>rax := v, rcx := wip, r11 := wfl\<rparr>, s\<lparr>gs_swapped := \<not> gs_swapped s,
    CPU := \<lparr>rbx = wbx, rbp = wbp, r12 = w12, r13 = w13, r14 = w14, r15 = w15, rsp = PERCPU_user_rsp s, rip = wip\<rparr>\<rparr>)"
proof -
  obtain p where p: "rsp (CPU s) = p" by simp
  have rd: "read_u64 s p = w15" "read_u64 s (8 + p) = w14" "read_u64 s (16 + p) = w13" "read_u64 s (24 + p) = w12"
    "read_u64 s (32 + p) = wbx" "read_u64 s (40 + p) = wbp" "read_u64 s (48 + p) = wfl" "read_u64 s (56 + p) = wip"
    using assms unfolding p by (simp_all add: entry_words_def upt_rec add.commute)
  have mem: "read_u64 (s\<lparr>CPU := c\<rparr>) q = read_u64 s q" for c q by (simp add: read_u64_def)
  show ?thesis
    by (cases "CPU s") (use p in \<open>simp add: leave_frame_def pop_word_def pop_into_def load_rsp_def Let_def mem rd rd [unfolded add.commute [of _ p]]\<close>)
qed

text \<open>
  C26: what a caller keeps over a system call. The dispatcher gets the number from \<open>rax\<close> and the arguments from
  \<open>rdi\<close>, \<open>rsi\<close>, \<open>rdx\<close> and \<open>r10\<close>. When it returns with the eight saved words, the stack pointer, the saved user stack
  pointer and the \<open>swapgs\<close> toggle as the entry stub left them, the process resumes at the instruction after \<open>syscall\<close>
  on its own stack, with the result in \<open>rax\<close>, its flags in \<open>r11\<close>, all callee-saved registers as they were, and the
  toggle undone. The argument registers are not restored: they hold what the dispatcher, called with the rearranged
  registers, left in them.
\<close>

theorem syscall_round_trip:
  assumes "64 \<le> unat (PERCPU_kernel_stack s)"
    "syscall_dispatch env (rax u) (rdi u) (rsi u) (rdx u) (r10 u) (entry_frame u s) = Inr (Returns v s2)"
    "rsp (CPU s2) = rsp (CPU (entry_frame u s))" "PERCPU_user_rsp s2 = PERCPU_user_rsp (entry_frame u s)"
    "entry_words s2 (rsp (CPU s2)) = entry_words (entry_frame u s) (rsp (CPU s2))" "gs_swapped s2 = gs_swapped (entry_frame u s)"
  shows "\<exists>s'. syscall_entry env callee u s =
      Inr (Inl ((callee (u\<lparr>r9 := r8 u, r8 := r10 u, rcx := rdx u, rdx := rsi u, rsi := rdi u, rdi := rax u\<rparr>))
        \<lparr>rax := v, rcx := rcx u, r11 := r11 u\<rparr>, s')) \<and>
    CPU s' = (CPU s)\<lparr>rip := rcx u\<rparr> \<and> gs_swapped s' = gs_swapped s"
proof -
  note e = entry_frame_saved [OF assms(1)]
  have w: "entry_words s2 (rsp (CPU s2)) =
      [r15 (CPU s), r14 (CPU s), r13 (CPU s), r12 (CPU s), rbx (CPU s), rbp (CPU s), r11 u, rcx u]"
    using assms(3,5) e(1,4) by simp
  have c: "shuffle u = u\<lparr>r9 := r8 u, r8 := r10 u, rcx := rdx u, rdx := rsi u, rsi := rdi u, rdi := rax u\<rparr>"
    by (simp add: shuffle_def Let_def)
  show ?thesis using leave_frame_restores [OF w, of v "callee (shuffle u)"] assms(2,4,6) e(2,3)
    by (cases "CPU s") (simp add: syscall_entry_def c)
qed

definition example_sys :: sys_state where
  "example_sys = proc_state.extend example_proc \<lparr>SERVICES = \<lambda>_. \<lparr>sv_enabled = True, sv_starting = False, sv_mailbox = None, sv_elf = []\<rparr>,
     DYNAMIC_PORTS = [], DYNAMIC_MMIO = [], FS_JOB = None, SVC_JOB = None,
     INPUT = \<lparr>KEYBUF = KeyBuf_new, EXTENDED = False, SHIFT = False, CAPS = False, CTRL = False, MOUSE = MouseState_new, i8042 = []\<rparr>,
     SERIAL = [], PORTS = []\<rparr>"

definition example_env :: "sys_state sys_env" where
  "example_env = \<lparr>trampoline_at = 0, async_entry_at = 0, wait = \<lambda>_ _ s. (True, s), mmu = Some, fs_lock_busy = False,
     svc_lock_busy = False, mouse_lock_busy = False, key_lock_busy = \<lambda>_. False, port_value = \<lambda>_. 0, resume_at = 0\<rparr>"

theorem syscall_round_trip_witness:
  "\<exists>s'. syscall_entry example_env (\<lambda>c. c\<lparr>rdx := 7\<rparr>)
      \<lparr>rax = SYS_GETPID, rdi = 1, rsi = 2, rdx = 3, r10 = 4, r8 = 5, r9 = 6, rcx = 0x400100, r11 = 0x202\<rparr>
      (example_sys\<lparr>PERCPU_kernel_stack := 0xA000\<rparr>) =
     Inr (Inl (\<lparr>rax = 0, rdi = SYS_GETPID, rsi = 1, rdx = 7, r10 = 4, r8 = 4, r9 = 5, rcx = 0x400100, r11 = 0x202\<rparr>, s'))"
proof -
  let ?u = "\<lparr>rax = SYS_GETPID, rdi = 1, rsi = 2, rdx = 3, r10 = 4, r8 = 5, r9 = 6, rcx = 0x400100, r11 = 0x202\<rparr>"
  let ?s = "example_sys\<lparr>PERCPU_kernel_stack := 0xA000\<rparr>"
  have "current_pid (entry_frame ?u ?s) = 0"
    by (simp add: current_pid_def slot_def slot_index_def current_task_index_def entry_frame_def Let_def push_of_def load_rsp_def
        example_sys_def proc_state.extend_def example_proc_def ProcSlot_empty_def MAX_TASKS_def)
  then have d: "syscall_dispatch example_env (rax ?u) (rdi ?u) (rsi ?u) (rdx ?u) (r10 ?u) (entry_frame ?u ?s) = Inr (Returns 0 (entry_frame ?u ?s))"
    by (simp add: syscall_dispatch_def SYS_GETPID_def SYS_WRITE_def SYS_EXIT_def)
  show ?thesis using syscall_round_trip [OF _ d, of "\<lambda>c. c\<lparr>rdx := 7\<rparr>"] by auto
qed





end
