(* ===== verification/Nvme.thy ===== *)
theory Nvme
  imports Syscall
begin

text \<open>
  The NVMe driver: \<open>kernel/src/nvme.rs\<close> (queue pairs, commands, bring-up, the hand-over of the I/O queue to the ring-3
  driver and back) and \<open>userspace/nvmed/src/main.rs\<close> (that driver).

  A queue pair is the driver's \<open>Queue\<close> (positions and phase) and what it shares with the controller (\<open>queue_hw\<close>): the
  entries of the two queue pages, the doorbells, and the controller's own positions for the pair. The controller
  itself is the parameter \<open>device\<close>, a step it takes between two reads of a waiting driver; \<open>conforms\<close> and \<open>prompt\<close> state
  what the NVMe specification says of it. The pages of the queues and the mailbox are typed objects of the state; the
  frames they occupy come from the page allocator.
\<close>

section \<open>Queues\<close>

record SqEntry =
  cdw0 :: u32
  nsid :: u32
  cdw2 :: u32
  cdw3 :: u32
  mptr :: u64
  prp1 :: u64
  prp2 :: u64
  cdw10 :: u32
  cdw11 :: u32
  cdw12 :: u32
  cdw13 :: u32
  cdw14 :: u32
  cdw15 :: u32

definition SqEntry_default :: SqEntry where
  "SqEntry_default = \<lparr>cdw0 = 0, nsid = 0, cdw2 = 0, cdw3 = 0, mptr = 0, prp1 = 0, prp2 = 0, cdw10 = 0, cdw11 = 0, cdw12 = 0,
     cdw13 = 0, cdw14 = 0, cdw15 = 0\<rparr>"

record CqEntry =
  ce_cdw0 :: u32
  ce_rsvd :: u32
  ce_sq_head :: u16
  ce_sq_id :: u16
  ce_cid :: u16
  ce_status :: u16

definition CqEntry_default :: CqEntry where
  "CqEntry_default = \<lparr>ce_cdw0 = 0, ce_rsvd = 0, ce_sq_head = 0, ce_sq_id = 0, ce_cid = 0, ce_status = 0\<rparr>"

definition QD :: nat where "QD = 64"

record Queue =
  sq_phys :: u64
  cq_phys :: u64
  sq_tail :: u32
  cq_head :: u32
  phase :: bool

record 'd queue_hw =
  SQ :: "nat \<Rightarrow> SqEntry"
  CQ :: "nat \<Rightarrow> CqEntry"
  DB_SQ :: u32
  DB_CQ :: u32
  hw_sq_head :: nat
  hw_cq_tail :: nat
  hw_phase :: bool
  hw_clock :: nat
  hw_disk :: 'd

definition with_cid :: "u16 \<Rightarrow> SqEntry \<Rightarrow> SqEntry" where
  "with_cid cid cmd = cmd\<lparr>cdw0 := (cdw0 cmd AND 0xFFFF) OR push_bit 16 (ucast cid)\<rparr>"

definition q_submit :: "u16 \<Rightarrow> SqEntry \<Rightarrow> Queue \<times> 'd queue_hw \<Rightarrow> Queue \<times> 'd queue_hw" where
  "q_submit cid cmd qh = (case qh of (q, h) \<Rightarrow>
     let h = h\<lparr>SQ := (SQ h)(unat (sq_tail q) := with_cid cid cmd)\<rparr>;
         q = q\<lparr>sq_tail := (sq_tail q + 1) mod word_of_nat QD\<rparr>
     in (q, h\<lparr>DB_SQ := sq_tail q\<rparr>))"

text \<open>One reading of the completion queue: whether the entry at the head is the awaited completion.\<close>

definition completed :: "u16 \<Rightarrow> Queue \<Rightarrow> CqEntry \<Rightarrow> bool" where
  "completed cid q e \<longleftrightarrow> ce_status e AND 1 = (if phase q then 1 else 0) \<and> ce_cid e = cid"

definition take_completion :: "CqEntry \<Rightarrow> Queue \<times> 'd queue_hw \<Rightarrow> u16 \<times> Queue \<times> 'd queue_hw" where
  "take_completion e qh = (case qh of (q, h) \<Rightarrow>
     let q = q\<lparr>cq_head := (cq_head q + 1) mod word_of_nat QD\<rparr>;
         q = (if cq_head q = 0 then q\<lparr>phase := \<not> phase q\<rparr> else q)
     in (drop_bit 1 (ce_status e) AND 0x7FF, q, h\<lparr>DB_CQ := cq_head q\<rparr>))"

text \<open>The polling loop with \<open>n\<close> readings left; the source makes 200,000,001 before it gives up.\<close>

fun q_wait_loop :: "('d queue_hw \<Rightarrow> 'd queue_hw) \<Rightarrow> u16 \<Rightarrow> nat \<Rightarrow> Queue \<times> 'd queue_hw \<Rightarrow> u16 \<times> Queue \<times> 'd queue_hw" where
  "q_wait_loop device cid 0 qh = (0xFFF, qh)"
| "q_wait_loop device cid (Suc n) (q, h) =
    (let h = device h; e = CQ h (unat (cq_head q)) in
     if completed cid q e then take_completion e (q, h) else q_wait_loop device cid n (q, h))"

definition WAIT_SPINS :: nat where "WAIT_SPINS = 200000001"

definition q_wait :: "('d queue_hw \<Rightarrow> 'd queue_hw) \<Rightarrow> u16 \<Rightarrow> Queue \<times> 'd queue_hw \<Rightarrow> u16 \<times> Queue \<times> 'd queue_hw" where
  "q_wait device cid qh = q_wait_loop device cid WAIT_SPINS qh"

section \<open>The controller object\<close>

record NvmeController =
  regs_phys :: u64
  dstrd :: nat
  admin :: Queue
  io :: Queue
  nv_cid :: u16
  nv_lba_size :: u32
  nv_lba_count :: u64
  nv_mailbox :: bool
  mailbox_page_phys :: "u64 option"

text \<open>
  The controller object with the hardware side of its two queue pairs, and what the bring-up wrote to the PCI command
  register and the controller's registers, in order.
\<close>

datatype reg_write = PciCommand u32 | Reg nat u64

record 'd nvme_ctrl =
  ctrl :: NvmeController
  admin_hw :: "'d queue_hw"
  io_hw :: "'d queue_hw"
  reg_log :: "reg_write list"

definition next_cid :: "'d nvme_ctrl \<Rightarrow> u16 \<times> 'd nvme_ctrl" where
  "next_cid c = (let cid = nv_cid (ctrl c) + 1 in (cid, c\<lparr>ctrl := (ctrl c)\<lparr>nv_cid := cid\<rparr>\<rparr>))"

definition admin_cmd :: "('d queue_hw \<Rightarrow> 'd queue_hw) \<Rightarrow> SqEntry \<Rightarrow> 'd nvme_ctrl \<Rightarrow> u16 \<times> 'd nvme_ctrl" where
  "admin_cmd device cmd c =
    (let (cid, c) = next_cid c;
         (st, q, h) = q_wait device cid (q_submit cid cmd (admin (ctrl c), admin_hw c))
     in (st, c\<lparr>ctrl := (ctrl c)\<lparr>admin := q\<rparr>, admin_hw := h\<rparr>))"

definition io_cmd :: "('d queue_hw \<Rightarrow> 'd queue_hw) \<Rightarrow> SqEntry \<Rightarrow> 'd nvme_ctrl \<Rightarrow> u16 \<times> 'd nvme_ctrl" where
  "io_cmd device cmd c =
    (let (cid, c) = next_cid c;
         (st, q, h) = q_wait device cid (q_submit cid cmd (io (ctrl c), io_hw c))
     in (st, c\<lparr>ctrl := (ctrl c)\<lparr>io := q\<rparr>, io_hw := h\<rparr>))"

definition identify :: "('d queue_hw \<Rightarrow> 'd queue_hw) \<Rightarrow> u32 \<Rightarrow> u32 \<Rightarrow> u64 \<Rightarrow> 'd nvme_ctrl \<Rightarrow> panic + 'd nvme_ctrl" where
  "identify device cns ns buf_phys c =
    (case admin_cmd device (SqEntry_default\<lparr>cdw0 := 0x06, nsid := ns, prp1 := buf_phys, cdw10 := cns\<rparr>) c of
       (st, c) \<Rightarrow> if st = 0 then Inr c else Inl (Panic ''NVMe Identify failed''))"

definition create_io_cq :: "('d queue_hw \<Rightarrow> 'd queue_hw) \<Rightarrow> u16 \<Rightarrow> u64 \<Rightarrow> u16 \<Rightarrow> 'd nvme_ctrl \<Rightarrow> panic + 'd nvme_ctrl" where
  "create_io_cq device qid phys sz c =
    (case admin_cmd device (SqEntry_default\<lparr>cdw0 := 0x05, prp1 := phys,
         cdw10 := push_bit 16 (ucast sz - 1) OR ucast qid, cdw11 := 1\<rparr>) c of
       (st, c) \<Rightarrow> if st = 0 then Inr c else Inl (Panic ''NVMe Create I/O CQ failed''))"

definition create_io_sq :: "('d queue_hw \<Rightarrow> 'd queue_hw) \<Rightarrow> u16 \<Rightarrow> u64 \<Rightarrow> u16 \<Rightarrow> u16 \<Rightarrow> 'd nvme_ctrl \<Rightarrow> panic + 'd nvme_ctrl" where
  "create_io_sq device qid phys sz cqid c =
    (case admin_cmd device (SqEntry_default\<lparr>cdw0 := 0x01, prp1 := phys,
         cdw10 := push_bit 16 (ucast sz - 1) OR ucast qid, cdw11 := push_bit 16 (ucast cqid) OR 1\<rparr>) c of
       (st, c) \<Rightarrow> if st = 0 then Inr c else Inl (Panic ''NVMe Create I/O SQ failed''))"

definition rw_command :: "u32 \<Rightarrow> u64 \<Rightarrow> u16 \<Rightarrow> u64 \<Rightarrow> SqEntry" where
  "rw_command opcode lba cnt buf_phys = SqEntry_default\<lparr>cdw0 := opcode, nsid := 1, prp1 := buf_phys,
     cdw10 := ucast lba, cdw11 := ucast (drop_bit 32 lba), cdw12 := ucast (cnt - 1)\<rparr>"

definition read_blocks_direct :: "('d queue_hw \<Rightarrow> 'd queue_hw) \<Rightarrow> u64 \<Rightarrow> u16 \<Rightarrow> u64 \<Rightarrow> 'd nvme_ctrl \<Rightarrow> panic + 'd nvme_ctrl" where
  "read_blocks_direct device lba cnt buf_phys c =
    (case io_cmd device (rw_command 0x02 lba cnt buf_phys) c of
       (st, c) \<Rightarrow> if st = 0 then Inr c else Inl (Panic ''NVMe read failed''))"

definition write_blocks_direct :: "('d queue_hw \<Rightarrow> 'd queue_hw) \<Rightarrow> u64 \<Rightarrow> u16 \<Rightarrow> u64 \<Rightarrow> 'd nvme_ctrl \<Rightarrow> panic + 'd nvme_ctrl" where
  "write_blocks_direct device lba cnt buf_phys c =
    (case io_cmd device (rw_command 0x01 lba cnt buf_phys) c of
       (st, c) \<Rightarrow> if st = 0 then Inr c else Inl (Panic ''NVMe write failed''))"

section \<open>The ring-3 driver\<close>

record Mailbox =
  mb_regs_phys :: u64
  mb_io_sq_phys :: u64
  mb_io_cq_phys :: u64
  mb_dstrd :: u32
  mb_qd :: u32
  mb_sq_tail :: u32
  mb_cq_head :: u32
  mb_phase :: u32
  mb_op :: u32
  mb_status :: u32
  mb_lba :: u64
  mb_count :: u32
  mb_data :: "u8 list"
  mb_stop :: u32

text \<open>The offset of \<open>data\<close> in the \<open>repr(C)\<close> layout: the header fields, \<open>lba\<close> aligned to 8 bytes, and padding.\<close>

definition MAILBOX_DATA :: u64 where "MAILBOX_DATA = 72"

record IoQueue =
  iq_qd :: u32
  iq_sq_tail :: u32
  iq_cq_head :: u32
  iq_phase :: bool

definition nvmed_q_submit :: "u16 \<Rightarrow> SqEntry \<Rightarrow> IoQueue \<times> 'd queue_hw \<Rightarrow> panic + (IoQueue \<times> 'd queue_hw)" where
  "nvmed_q_submit cid cmd qh = (case qh of (q, h) \<Rightarrow>
     let h = h\<lparr>SQ := (SQ h)(unat (iq_sq_tail q) := with_cid cid cmd)\<rparr> in
     if iq_qd q = 0 then Inl (Panic ''attempt to calculate the remainder with a divisor of zero'')
     else let q = q\<lparr>iq_sq_tail := (iq_sq_tail q + 1) mod iq_qd q\<rparr> in Inr (q, h\<lparr>DB_SQ := iq_sq_tail q\<rparr>))"

fun nvmed_q_wait_loop :: "('d queue_hw \<Rightarrow> 'd queue_hw) \<Rightarrow> u16 \<Rightarrow> nat \<Rightarrow> IoQueue \<times> 'd queue_hw \<Rightarrow>
    panic + (u16 option \<times> IoQueue \<times> 'd queue_hw)" where
  "nvmed_q_wait_loop device cid 0 qh = Inr (None, qh)"
| "nvmed_q_wait_loop device cid (Suc n) (q, h) =
    (let h = device h; e = CQ h (unat (iq_cq_head q)) in
     if ce_status e AND 1 = (if iq_phase q then 1 else 0) \<and> ce_cid e = cid then
       if iq_qd q = 0 then Inl (Panic ''attempt to calculate the remainder with a divisor of zero'')
       else
         let q = q\<lparr>iq_cq_head := (iq_cq_head q + 1) mod iq_qd q\<rparr>;
             q = (if iq_cq_head q = 0 then q\<lparr>iq_phase := \<not> iq_phase q\<rparr> else q)
         in Inr (Some (drop_bit 1 (ce_status e) AND 0x7FF), q, h\<lparr>DB_CQ := iq_cq_head q\<rparr>)
     else nvmed_q_wait_loop device cid n (q, h))"

definition nvmed_q_wait :: "('d queue_hw \<Rightarrow> 'd queue_hw) \<Rightarrow> u16 \<Rightarrow> IoQueue \<times> 'd queue_hw \<Rightarrow>
    panic + (u16 option \<times> IoQueue \<times> 'd queue_hw)" where
  "nvmed_q_wait device cid qh = nvmed_q_wait_loop device cid 200000000 qh"

record 'd nvmed =
  nd_q :: IoQueue
  nd_cid :: u16
  nd_mb :: Mailbox
  nd_hw :: "'d queue_hw"

definition nvmed_start :: "Mailbox \<Rightarrow> 'd queue_hw \<Rightarrow> 'd nvmed" where
  "nvmed_start mb h = \<lparr>nd_q = \<lparr>iq_qd = mb_qd mb, iq_sq_tail = mb_sq_tail mb, iq_cq_head = mb_cq_head mb,
     iq_phase = (mb_phase mb \<noteq> 0)\<rparr>, nd_cid = 0, nd_mb = mb, nd_hw = h\<rparr>"

definition saturating_sub :: "u32 \<Rightarrow> u32 \<Rightarrow> u32" where
  "saturating_sub a b = (if a < b then 0 else a - b)"

definition nvmed_command :: "u64 \<Rightarrow> Mailbox \<Rightarrow> SqEntry" where
  "nvmed_command mailbox_phys mb = SqEntry_default\<lparr>cdw0 := (if mb_op mb = 2 then 0x01 else 0x02), nsid := 1,
     prp1 := mailbox_phys + MAILBOX_DATA, cdw10 := ucast (mb_lba mb), cdw11 := ucast (drop_bit 32 (mb_lba mb)),
     cdw12 := saturating_sub (mb_count mb) 1\<rparr>"

definition nvmed_serve :: "('d queue_hw \<Rightarrow> 'd queue_hw) \<Rightarrow> u64 \<Rightarrow> 'd nvmed \<Rightarrow> panic + 'd nvmed" where
  "nvmed_serve device mailbox_phys n =
    (if mb_op (nd_mb n) = 0 then Inr n else
     let cid = nd_cid n + 1 in
     rbind (nvmed_q_submit cid (nvmed_command mailbox_phys (nd_mb n)) (nd_q n, nd_hw n)) (\<lambda>qh.
     rbind (nvmed_q_wait device cid qh) (\<lambda>(st, q, h).
     Inr (n\<lparr>nd_q := q, nd_cid := cid, nd_hw := h,
            nd_mb := (nd_mb n)\<lparr>mb_status := (if st = Some 0 then 1 else 2), mb_op := 0\<rparr>\<rparr>))))"

definition nvmed_persist :: "'d nvmed \<Rightarrow> 'd nvmed" where
  "nvmed_persist n = n\<lparr>nd_mb := (nd_mb n)\<lparr>mb_sq_tail := iq_sq_tail (nd_q n), mb_cq_head := iq_cq_head (nd_q n),
     mb_phase := (if iq_phase (nd_q n) then 1 else 0)\<rparr>\<rparr>"

text \<open>One turn of the driver's loop; \<open>None\<close> when it exits because the kernel asked it to stop.\<close>

definition nvmed_turn :: "('d queue_hw \<Rightarrow> 'd queue_hw) \<Rightarrow> u64 \<Rightarrow> 'd nvmed \<Rightarrow> panic + 'd nvmed option" where
  "nvmed_turn device mailbox_phys n =
    (if mb_stop (nd_mb n) \<noteq> 0 then Inr None
     else rbind (nvmed_serve device mailbox_phys n) (\<lambda>n. Inr (Some (nvmed_persist n))))"

section \<open>Requests through the mailbox\<close>

record 'd nvme_state = sys_state +
  NVME :: "'d nvme_ctrl option"
  MAILBOX :: Mailbox
  HANDED_OFF :: bool

text \<open>
  \<open>await\<close> is the mailbox as the kernel's spin loop leaves it: the driver's doing while the kernel waits for a status
  that is not 0, or for its patience to end.
\<close>

definition read_blocks :: "('d queue_hw \<Rightarrow> 'd queue_hw) \<Rightarrow> (Mailbox \<Rightarrow> Mailbox) \<Rightarrow> u64 \<Rightarrow> u16 \<Rightarrow> u64 \<Rightarrow>
    'd nvme_ctrl \<times> ('d, 'a) nvme_state_scheme \<Rightarrow> panic + ('d nvme_ctrl \<times> ('d, 'a) nvme_state_scheme)" where
  "read_blocks device await lba cnt buf_phys cs = (case cs of (c, s) \<Rightarrow>
    if \<not> nv_mailbox (ctrl c) then rbind (read_blocks_direct device lba cnt buf_phys c) (\<lambda>c. Inr (c, s)) else
    let len = ucast cnt * nv_lba_size (ctrl c) in
    if 4096 < unat len then Inl (Panic ''NVMe: mailbox request too large for one block'') else
    let mb = await ((MAILBOX s)\<lparr>mb_lba := lba, mb_count := ucast cnt, mb_status := 0, mb_op := 1\<rparr>);
        ok = (mb_status mb = 1);
        s = (if ok then copy_to (phys_to_virt s buf_phys) (take (unat len) (mb_data mb)) s else s);
        s = s\<lparr>MAILBOX := mb\<lparr>mb_status := 0\<rparr>\<rparr>
    in if ok then Inr (c, s) else Inl (Panic ''NVMe read failed (mailbox)''))"

definition write_blocks :: "('d queue_hw \<Rightarrow> 'd queue_hw) \<Rightarrow> (Mailbox \<Rightarrow> Mailbox) \<Rightarrow> u64 \<Rightarrow> u16 \<Rightarrow> u64 \<Rightarrow>
    'd nvme_ctrl \<times> ('d, 'a) nvme_state_scheme \<Rightarrow> panic + ('d nvme_ctrl \<times> ('d, 'a) nvme_state_scheme)" where
  "write_blocks device await lba cnt buf_phys cs = (case cs of (c, s) \<Rightarrow>
    if \<not> nv_mailbox (ctrl c) then rbind (write_blocks_direct device lba cnt buf_phys c) (\<lambda>c. Inr (c, s)) else
    let len = ucast cnt * nv_lba_size (ctrl c) in
    if 4096 < unat len then Inl (Panic ''NVMe: mailbox request too large for one block'') else
    let bytes = get_bytes (MEM s) (unat (phys_to_virt s buf_phys)) (unat len);
        mb = await ((MAILBOX s)\<lparr>mb_data := bytes @ drop (unat len) (mb_data (MAILBOX s)), mb_lba := lba,
               mb_count := ucast cnt, mb_status := 0, mb_op := 2\<rparr>);
        s = s\<lparr>MAILBOX := mb\<lparr>mb_status := 0\<rparr>\<rparr>
    in if mb_status mb = 1 then Inr (c, s) else Inl (Panic ''NVMe write failed (mailbox)''))"

section \<open>Handing the queue over\<close>

definition MAILBOX_PAGES :: nat where "MAILBOX_PAGES = 2"

definition zero_mailbox :: Mailbox where
  "zero_mailbox = \<lparr>mb_regs_phys = 0, mb_io_sq_phys = 0, mb_io_cq_phys = 0, mb_dstrd = 0, mb_qd = 0, mb_sq_tail = 0,
     mb_cq_head = 0, mb_phase = 0, mb_op = 0, mb_status = 0, mb_lba = 0, mb_count = 0, mb_data = replicate 4096 0, mb_stop = 0\<rparr>"

definition fill_mailbox :: "NvmeController \<Rightarrow> Mailbox" where
  "fill_mailbox c = zero_mailbox\<lparr>mb_regs_phys := regs_phys c, mb_io_sq_phys := sq_phys (io c), mb_io_cq_phys := cq_phys (io c),
     mb_dstrd := word_of_nat (dstrd c), mb_qd := word_of_nat QD, mb_sq_tail := sq_tail (io c), mb_cq_head := cq_head (io c),
     mb_phase := (if phase (io c) then 1 else 0)\<rparr>"

definition mailbox_frame :: "'d nvme_ctrl \<Rightarrow> ('d, 'a) nvme_state_scheme \<Rightarrow> (u64 \<times> 'd nvme_ctrl \<times> ('d, 'a) nvme_state_scheme) option" where
  "mailbox_frame c s = (case mailbox_page_phys (ctrl c) of
     Some p \<Rightarrow> Some (p, c, s)
   | None \<Rightarrow> (case alloc_contiguous MAILBOX_PAGES s of
       None \<Rightarrow> None
     | Some (p, s) \<Rightarrow> let c = c\<lparr>ctrl := (ctrl c)\<lparr>mailbox_page_phys := Some p\<rparr>\<rparr> in Some (p, c, s\<lparr>NVME := Some c\<rparr>)))"

definition handoff_to_nvmed :: "('d, 'a) nvme_state_scheme svc_env \<Rightarrow> ('d, 'a) nvme_state_scheme \<Rightarrow>
    panic + ((string + unit) \<times> ('d, 'a) nvme_state_scheme)" where
  "handoff_to_nvmed env s =
    (if sv_elf (SERVICES s ''nvmed'') = [] then Inr (Inl ''nvmed ELF not built'', s) else
     case NVME s of None \<Rightarrow> Inr (Inl ''driver not initialized'', s)
     | Some c \<Rightarrow> (case mailbox_frame c s of
         None \<Rightarrow> Inr (Inl ''mailbox OOM'', s)
       | Some (mailbox_phys, c, s) \<Rightarrow>
           let s = s\<lparr>MAILBOX := fill_mailbox (ctrl c)\<rparr>;
               s = grant_mmio_range (regs_phys (ctrl c)) 65536 s;
               s = grant_mmio_range (sq_phys (io (ctrl c))) 4096 s;
               s = grant_mmio_range (cq_phys (io (ctrl c))) 4096 s;
               s = grant_mmio_range mailbox_phys (word_of_nat (MAILBOX_PAGES * 4096)) s
           in rbind (exec_async_with_arg (trampoline_at env) (async_entry_at env) usize_MAX (SERVICE_NAME ''nvmed'')
                       (sv_elf (SERVICES s ''nvmed'')) mailbox_phys s) (\<lambda>(r, s).
              case r of Inl e \<Rightarrow> Inr (Inl e, s)
              | Inr _ \<Rightarrow>
                  let (up, s) = wait env ''nvmed'' True s in
                  if \<not> up then Inr (Inl ''nvmed did not come up'', s) else
                  case NVME s of None \<Rightarrow> Inr (Inl ''driver not initialized'', s)
                  | Some c \<Rightarrow> Inr (Inr (), s\<lparr>NVME := Some (c\<lparr>ctrl := (ctrl c)\<lparr>nv_mailbox := True\<rparr>\<rparr>)\<rparr>))))"

definition sync_back :: "Mailbox \<Rightarrow> NvmeController \<Rightarrow> NvmeController" where
  "sync_back mb c = c\<lparr>io := (io c)\<lparr>sq_tail := mb_sq_tail mb, cq_head := mb_cq_head mb, phase := (mb_phase mb \<noteq> 0)\<rparr>,
     nv_mailbox := False\<rparr>"

definition handoff_from_nvmed :: "('d, 'a) nvme_state_scheme \<Rightarrow> ('d, 'a) nvme_state_scheme" where
  "handoff_from_nvmed s = (case NVME s of None \<Rightarrow> s
   | Some c \<Rightarrow> if nv_mailbox (ctrl c) then s\<lparr>NVME := Some (c\<lparr>ctrl := sync_back (MAILBOX s) (ctrl c)\<rparr>)\<rparr> else s)"

definition spawn_pending_driver :: "('d, 'a) nvme_state_scheme svc_env \<Rightarrow> ('d, 'a) nvme_state_scheme \<Rightarrow>
    panic + ('d, 'a) nvme_state_scheme" where
  "spawn_pending_driver env s =
    (if HANDED_OFF s then Inr s else
     let s = s\<lparr>HANDED_OFF := True\<rparr> in
     if NVME s = None then Inr s else rbind (handoff_to_nvmed env s) (\<lambda>(_, s). Inr s))"

definition nvme_stop_service :: "('d, 'a) nvme_state_scheme svc_env \<Rightarrow> ('d, 'a) nvme_state_scheme \<Rightarrow>
    (string + unit) \<times> ('d, 'a) nvme_state_scheme" where
  "nvme_stop_service env s =
    (if \<not> is_running ''nvmed'' s then (Inl ''not running'', s)
     else case NVME s of None \<Rightarrow> (Inl ''driver not initialized'', s)
     | Some c \<Rightarrow> if \<not> nv_mailbox (ctrl c) then (Inl ''driver not initialized'', s)
         else let (stopped, s) = wait env ''nvmed'' False (s\<lparr>MAILBOX := (MAILBOX s)\<lparr>mb_stop := 1\<rparr>\<rparr>)
              in if stopped then (Inr (), handoff_from_nvmed s) else (Inl ''timeout waiting for driver to stop'', s))"

definition nvme_start_service :: "('d, 'a) nvme_state_scheme svc_env \<Rightarrow> ('d, 'a) nvme_state_scheme \<Rightarrow>
    panic + ((string + unit) \<times> ('d, 'a) nvme_state_scheme)" where
  "nvme_start_service env s =
    (if \<not> is_enabled ''nvmed'' s then Inr (Inl ''disabled'', s)
     else if is_running ''nvmed'' s then Inr (Inl ''already running'', s)
     else if sv_starting (SERVICES s ''nvmed'') then Inr (Inl ''start already in progress'', s)
     else rbind (handoff_to_nvmed env (set_service ''nvmed'' (sv_starting_update (\<lambda>_. True)) s)) (\<lambda>(r, s).
       Inr (r, set_service ''nvmed'' (sv_starting_update (\<lambda>_. False)) s)))"

section \<open>Bring-up\<close>

definition alloc_dma_page :: "'a kmem_state_scheme \<Rightarrow> panic + (u64 \<times> 'a kmem_state_scheme)" where
  "alloc_dma_page s = (case alloc_page s of
     None \<Rightarrow> Inl (Panic ''nvme: OOM'')
   | Some (phys, s) \<Rightarrow> Inr (phys, write_bytes (phys_to_virt s phys) 0 4096 s))"

definition zero_hw :: "'d \<Rightarrow> 'd queue_hw" where
  "zero_hw d = \<lparr>SQ = (\<lambda>_. SqEntry_default), CQ = (\<lambda>_. CqEntry_default), DB_SQ = 0, DB_CQ = 0, hw_sq_head = 0, hw_cq_tail = 0,
     hw_phase = True, hw_clock = 0, hw_disk = d\<rparr>"

definition make_queue :: "'a kmem_state_scheme \<Rightarrow> panic + (Queue \<times> 'a kmem_state_scheme)" where
  "make_queue s =
    rbind (alloc_dma_page s) (\<lambda>(sq, s).
    rbind (alloc_dma_page s) (\<lambda>(cq, s).
    Inr (\<lparr>sq_phys = sq, cq_phys = cq, sq_tail = 0, cq_head = 0, phase = True\<rparr>, s)))"

definition doorbell_sq :: "nat \<Rightarrow> nat \<Rightarrow> nat" where
  "doorbell_sq qid ds = 0x1000 + (2 * qid) * (4 * 2 ^ ds)"

definition doorbell_cq :: "nat \<Rightarrow> nat \<Rightarrow> nat" where
  "doorbell_cq qid ds = 0x1000 + (2 * qid + 1) * (4 * 2 ^ ds)"

definition bar_phys :: "u32 \<Rightarrow> u32 \<Rightarrow> u64" where
  "bar_phys bar0 bar1 = (if ucast bar0 AND 0x6 = (0x4 :: u64)
     then push_bit 32 (ucast bar1) OR (ucast bar0 AND NOT 0xF) else ucast bar0 AND NOT 0xF)"

definition cap_dstrd :: "u64 \<Rightarrow> nat" where
  "cap_dstrd cap = unat (drop_bit 32 cap AND 0xF)"

definition cap_to_ms :: "u64 \<Rightarrow> u64" where
  "cap_to_ms cap = max ((drop_bit 24 cap AND 0xFF) * 500) 500"

text \<open>
  The wait for \<open>CSTS.RDY\<close>: the loop ends at the first reading with the wanted bit, or panics after the number of
  readings the controller's timeout allows. \<open>csts\<close> is the sequence of readings.
\<close>

fun wait_rdy :: "bool \<Rightarrow> string \<Rightarrow> nat \<Rightarrow> (nat \<Rightarrow> u32) \<Rightarrow> nat \<Rightarrow> panic + unit" where
  "wait_rdy want msg 0 csts i = (if (csts i AND 1 \<noteq> 0) = want then Inr () else Inl (Panic msg))"
| "wait_rdy want msg (Suc n) csts i = (if (csts i AND 1 \<noteq> 0) = want then Inr () else wait_rdy want msg n csts (Suc i))"

definition rdy_budget :: "u64 \<Rightarrow> nat" where
  "rdy_budget to_ms = unat (to_ms * 10000000)"

text \<open>What the surroundings give the bring-up: the PCI function's base address registers, the register readings, the page
  the controller answers \<open>Identify Namespace\<close> with, and its state.\<close>

record 'd nvme_boot =
  nb_bars :: "(u32 \<times> u32) option"
  nb_pci_cmd :: u16
  nb_cap :: u64
  nb_cc :: u32
  nb_csts_off :: "nat \<Rightarrow> u32"
  nb_csts_on :: "nat \<Rightarrow> u32"
  nb_idns :: "'d \<Rightarrow> buffer"
  nb_disk :: 'd

definition idns_lba_size :: "buffer \<Rightarrow> u32" where
  "idns_lba_size b = (let lbaf_idx = unat (b 26 AND 0x0F);
     lbads = drop_bit 16 (u32_from_le_bytes (get_bytes b (128 + 4 * lbaf_idx) 4)) AND 0xFF
   in push_bit (unat lbads mod 32) 1)"

definition idns_nsze :: "buffer \<Rightarrow> u64" where
  "idns_nsze b = u64_from_le_bytes (get_bytes b 0 8)"

definition REG_CC :: nat where "REG_CC = 0x14"
definition REG_AQA :: nat where "REG_AQA = 0x24"
definition REG_ASQ :: nat where "REG_ASQ = 0x28"
definition REG_ACQ :: nat where "REG_ACQ = 0x30"

definition bringup_writes :: "'d nvme_boot \<Rightarrow> Queue \<Rightarrow> reg_write list" where
  "bringup_writes b aq = [PciCommand (ucast (nb_pci_cmd b OR 0x06)), Reg REG_CC (ucast (nb_cc b AND NOT 1)),
     Reg REG_AQA (push_bit 16 (word_of_nat QD - 1) OR (word_of_nat QD - 1)), Reg REG_ASQ (sq_phys aq), Reg REG_ACQ (cq_phys aq),
     Reg REG_CC (push_bit 20 4 OR push_bit 16 6 OR 1)]"

definition nvme_init :: "('d queue_hw \<Rightarrow> 'd queue_hw) \<Rightarrow> 'd nvme_boot \<Rightarrow> 'a kmem_state_scheme \<Rightarrow>
    panic + ('d nvme_ctrl option \<times> 'a kmem_state_scheme)" where
  "nvme_init device b s = (case nb_bars b of None \<Rightarrow> Inr (None, s)
   | Some (bar0, bar1) \<Rightarrow>
     let phys = bar_phys bar0 bar1; d = cap_dstrd (nb_cap b); budget = rdy_budget (cap_to_ms (nb_cap b)) in
     rbind (map_mmio phys 65536 s) (\<lambda>(_, s).
     rbind (wait_rdy False ''NVMe disable timeout'' budget (nb_csts_off b) 0) (\<lambda>_.
     rbind (make_queue s) (\<lambda>(aq, s).
     rbind (wait_rdy True ''NVMe enable timeout'' budget (nb_csts_on b) 0) (\<lambda>_.
     rbind (make_queue s) (\<lambda>(ioq, s).
     let c = \<lparr>ctrl = \<lparr>regs_phys = phys, dstrd = d, admin = aq, io = ioq, nv_cid = 0, nv_lba_size = 512, nv_lba_count = 0,
                nv_mailbox = False, mailbox_page_phys = None\<rparr>, admin_hw = zero_hw (nb_disk b), io_hw = zero_hw (nb_disk b),
                reg_log = bringup_writes b aq\<rparr> in
     rbind (alloc_dma_page s) (\<lambda>(id_phys, s).
     rbind (identify device 1 0 id_phys c) (\<lambda>c.
     rbind (alloc_dma_page s) (\<lambda>(ns_phys, s).
     rbind (identify device 0 1 ns_phys c) (\<lambda>c.
     let page = nb_idns b (hw_disk (admin_hw c));
         c = c\<lparr>ctrl := (ctrl c)\<lparr>nv_lba_size := idns_lba_size page, nv_lba_count := idns_nsze page\<rparr>\<rparr> in
     rbind (create_io_cq device 1 (cq_phys ioq) (word_of_nat QD) c) (\<lambda>c.
     rbind (create_io_sq device 1 (sq_phys ioq) (word_of_nat QD) 1 c) (\<lambda>c.
     Inr (Some c, s)))))))))))))"

end
