(* ===== verification/Nvme_Queue.thy ===== *)
theory Nvme_Queue
  imports Nvme
begin

text \<open>
  The queue protocol of \<open>Nvme\<close>: with a controller that follows the NVMe specification, the driver's positions and phase
  stay in step with the controller's through every wrap-around of the queues and every hand-over of the I/O queue to
  the ring-3 driver and back, and each command returns the status the controller gave it.
\<close>

section \<open>What the specification says of a controller\<close>

text \<open>
  \<open>exec\<close> is what the controller does for a command: a status code and its new state. Completing a command takes the
  entry at the submission head, posts a completion with its identifier, the status and the current phase tag at
  the completion tail, and advances both, inverting the phase when the tail wraps.
\<close>

type_synonym 'd exec = "SqEntry \<Rightarrow> 'd \<Rightarrow> u16 \<times> 'd"

definition cmd_cid :: "SqEntry \<Rightarrow> u16" where
  "cmd_cid cmd = ucast (drop_bit 16 (cdw0 cmd))"

text \<open>The status halfword of a completion: status code above the phase tag.\<close>

definition status_word :: "u16 \<Rightarrow> bool \<Rightarrow> u16" where
  "status_word st ph = push_bit 1 st OR (if ph then 1 else 0)"

definition completes :: "'d exec \<Rightarrow> 'd queue_hw \<Rightarrow> 'd queue_hw \<Rightarrow> bool" where
  "completes exec h h' \<longleftrightarrow> (let cmd = SQ h (hw_sq_head h); t = hw_cq_tail h in
     hw_sq_head h \<noteq> unat (DB_SQ h) \<and>
     ce_cid (CQ h' t) = cmd_cid cmd \<and>
     ce_status (CQ h' t) = status_word (fst (exec cmd (hw_disk h))) (hw_phase h) \<and>
     (\<forall>i. i \<noteq> t \<longrightarrow> CQ h' i = CQ h i) \<and> hw_disk h' = snd (exec cmd (hw_disk h)) \<and>
     SQ h' = SQ h \<and> DB_SQ h' = DB_SQ h \<and> hw_sq_head h' = Suc (hw_sq_head h) mod QD \<and> hw_cq_tail h' = Suc t mod QD \<and>
     hw_phase h' = (if Suc t mod QD = 0 then \<not> hw_phase h else hw_phase h))"

definition idles :: "'d queue_hw \<Rightarrow> 'd queue_hw \<Rightarrow> bool" where
  "idles h h' \<longleftrightarrow> (\<exists>t. h' = h\<lparr>hw_clock := t\<rparr>)"

text \<open>Each step of the controller completes one submitted command or leaves everything it shares with the driver alone;
  a submitted command is completed within the driver's patience.\<close>

definition conforms :: "'d exec \<Rightarrow> ('d queue_hw \<Rightarrow> 'd queue_hw) \<Rightarrow> bool" where
  "conforms exec device \<longleftrightarrow> (\<forall>h. idles h (device h) \<or> completes exec h (device h))"

definition prompt :: "'d exec \<Rightarrow> ('d queue_hw \<Rightarrow> 'd queue_hw) \<Rightarrow> bool" where
  "prompt exec device \<longleftrightarrow> (\<forall>h. hw_sq_head h \<noteq> unat (DB_SQ h) \<longrightarrow>
     (\<exists>k < 200000000. completes exec ((device ^^ k) h) (device ((device ^^ k) h))))"

section \<open>Positions in step\<close>

definition in_step :: "u32 \<Rightarrow> u32 \<Rightarrow> bool \<Rightarrow> 'd queue_hw \<Rightarrow> bool" where
  "in_step tail head ph h \<longleftrightarrow> unat tail < QD \<and> unat head < QD \<and> DB_SQ h = tail \<and> hw_sq_head h = unat tail \<and>
     hw_cq_tail h = unat head \<and> hw_phase h = ph \<and>
     (\<forall>i < QD. ce_status (CQ h i) AND 1 = (if i < unat head \<longleftrightarrow> ph then 1 else 0))"

abbreviation queue_ok :: "Queue \<Rightarrow> 'd queue_hw \<Rightarrow> bool" where
  "queue_ok q h \<equiv> in_step (sq_tail q) (cq_head q) (phase q) h"

lemma next_pos:
  assumes "unat (w :: u32) < QD"
  shows "unat ((w + 1) mod word_of_nat QD) = Suc (unat w) mod QD"
proof -
  have "unat (w + 1) = Suc (unat w)" using assms by (simp add: QD_def unat_word_ariths)
  then show ?thesis by (simp add: unat_mod_distrib QD_def)
qed

lemma bit_status_word: "bit (status_word st p) n \<longleftrightarrow> n < 16 \<and> (if n = 0 then p else bit st (n - 1))"
proof -
  have "bit (push_bit 1 st) n \<longleftrightarrow> 1 \<le> n \<and> n < 16 \<and> bit st (n - 1)"
    unfolding bit_push_bit_iff by auto
  then show ?thesis unfolding status_word_def bit_or_iff by (cases p) (auto simp: bit_1_iff)
qed

lemma status_phase: "status_word st p AND 1 = (if p then 1 else 0)"
  by (rule bit_eqI) (simp add: bit_and_iff bit_status_word bit_1_iff)

lemma status_code: "drop_bit 1 (status_word st p) AND 0x7FF = st AND 0x7FF"
proof -
  have m: "(0x7FF :: u16) = mask 11" by (simp add: mask_eq_exp_minus_1)
  show ?thesis unfolding m by (rule bit_eqI) (auto simp: bit_and_iff bit_mask_iff bit_drop_bit_eq bit_status_word)
qed

lemma cmd_cid_with_cid: "cmd_cid (with_cid cid cmd) = cid"
  by (rule bit_eqI) (auto simp: cmd_cid_def with_cid_def bit_simps)

text \<open>The state of a queue pair with one command submitted.\<close>

definition submitted :: "SqEntry \<Rightarrow> u32 \<Rightarrow> u32 \<Rightarrow> bool \<Rightarrow> 'd queue_hw \<Rightarrow> 'd queue_hw \<Rightarrow> bool" where
  "submitted cmd tail head ph h0 h \<longleftrightarrow> (\<exists>h1. in_step tail head ph h0 \<and>
     h1 = h0\<lparr>SQ := (SQ h0)(unat tail := cmd), DB_SQ := (tail + 1) mod word_of_nat QD\<rparr> \<and> idles h1 h)"

lemma submitted_available:
  assumes "submitted cmd tail head ph h0 h"
  shows "hw_sq_head h \<noteq> unat (DB_SQ h)"
proof -
  have "unat tail < QD" "DB_SQ h = (tail + 1) mod word_of_nat QD" "hw_sq_head h = unat tail"
    using assms by (auto simp: submitted_def in_step_def idles_def)
  moreover have "Suc (unat tail) mod QD \<noteq> unat tail" by (cases "Suc (unat tail) = QD") (use \<open>unat tail < QD\<close> in \<open>auto simp: QD_def\<close>)
  ultimately show ?thesis by (simp add: next_pos)
qed

lemma submitted_idle: "submitted cmd tail head ph h0 h \<Longrightarrow> idles h h' \<Longrightarrow> submitted cmd tail head ph h0 h'"
  by (auto simp: submitted_def idles_def)

text \<open>Until the controller completes the command, the entry at the head carries the old phase.\<close>

lemma submitted_waiting:
  assumes "submitted cmd tail head ph h0 h"
  shows "ce_status (CQ h (unat head)) AND 1 \<noteq> (if ph then 1 else 0)"
  using assms by (auto simp: submitted_def in_step_def idles_def)

definition next_head :: "u32 \<Rightarrow> u32" where "next_head w = (w + 1) mod word_of_nat QD"

definition next_phase :: "u32 \<Rightarrow> bool \<Rightarrow> bool" where "next_phase head ph = (if next_head head = 0 then \<not> ph else ph)"

lemma submitted_completes:
  assumes "submitted cmd tail head ph h0 h" "completes exec h h'"
  shows "ce_cid (CQ h' (unat head)) = cmd_cid cmd"
    "ce_status (CQ h' (unat head)) = status_word (fst (exec cmd (hw_disk h0))) ph"
    "hw_disk h' = snd (exec cmd (hw_disk h0))"
    "in_step (next_head tail) (next_head head) (next_phase head ph) h'"
proof -
  have h: "unat tail < QD" "unat head < QD" "SQ h (unat tail) = cmd" "DB_SQ h = next_head tail" "hw_sq_head h = unat tail"
    "hw_cq_tail h = unat head" "hw_phase h = ph" "hw_disk h = hw_disk h0"
    "\<And>i. i < QD \<Longrightarrow> ce_status (CQ h i) AND 1 = (if i < unat head \<longleftrightarrow> ph then 1 else 0)"
    using assms(1) by (auto simp: submitted_def in_step_def idles_def next_head_def)
  note c = assms(2) [unfolded completes_def Let_def h(3,4,5,6,7,8)]
  show "ce_cid (CQ h' (unat head)) = cmd_cid cmd" "hw_disk h' = snd (exec cmd (hw_disk h0))"
    "ce_status (CQ h' (unat head)) = status_word (fst (exec cmd (hw_disk h0))) ph"
    using c by simp_all
  have u: "unat (next_head tail) = Suc (unat tail) mod QD" "unat (next_head head) = Suc (unat head) mod QD"
    using h(1,2) by (simp_all add: next_head_def next_pos)
  have z: "next_head head = 0 \<longleftrightarrow> Suc (unat head) mod QD = 0" using u(2) by (metis unat_eq_0)
  have st: "ce_status (CQ h' i) AND 1 = (if i < unat (next_head head) \<longleftrightarrow> next_phase head ph then 1 else 0)" if i: "i < QD" for i
  proof (cases "i = unat head")
    case True
    have "unat head < unat (next_head head) \<longleftrightarrow> next_head head \<noteq> 0"
      using h(2) z u(2) by (cases "Suc (unat head) = QD") auto
    then show ?thesis using c True by (auto simp: status_phase next_phase_def)
  next
    case False
    have "CQ h' i = CQ h i" using c False by simp
    moreover have "i < unat (next_head head) \<longleftrightarrow> (i < unat head \<and> next_head head \<noteq> 0)"
      using h(2) z u(2) i False by (cases "Suc (unat head) = QD") auto
    moreover have "next_head head = 0 \<Longrightarrow> i < unat head" using z h(2) i False by (cases "Suc (unat head) = QD") auto
    ultimately show ?thesis using h(9) [OF i] by (auto simp: next_phase_def)
  qed
  have "0 < QD" by (simp add: QD_def)
  then show "in_step (next_head tail) (next_head head) (next_phase head ph) h'"
    unfolding in_step_def using c u z st by (auto simp: next_phase_def)
qed

section \<open>Commands\<close>

text \<open>
  The wait for a submitted command that the controller completes with its \<open>k\<close>-th step from now.
\<close>

lemma q_wait_loop_completes:
  assumes "submitted (with_cid cid cmd) tail (cq_head q) (phase q) h0 h" "conforms exec device"
    and "completes exec ((device ^^ k) h) (device ((device ^^ k) h))" "k < n"
  shows "\<exists>h'. q_wait_loop device cid n (q, h) =
      (fst (exec (with_cid cid cmd) (hw_disk h0)) AND 0x7FF,
       q\<lparr>cq_head := next_head (cq_head q), phase := next_phase (cq_head q) (phase q)\<rparr>, h') \<and>
    in_step (next_head tail) (next_head (cq_head q)) (next_phase (cq_head q) (phase q)) h' \<and>
    hw_disk h' = snd (exec (with_cid cid cmd) (hw_disk h0))"
  using assms(1,3,4)
proof (induction n arbitrary: h k)
  case (Suc n)
  show ?case
  proof (cases "completes exec h (device h)")
    case True
    note c = submitted_completes [OF Suc.prems(1) True]
    let ?e = "CQ (device h) (unat (cq_head q))"
    have "completed cid q ?e" unfolding completed_def using c(1,2) by (simp add: status_phase cmd_cid_with_cid)
    moreover have "drop_bit 1 (ce_status ?e) AND 0x7FF = fst (exec (with_cid cid cmd) (hw_disk h0)) AND 0x7FF"
      unfolding c(2) by (rule status_code)
    moreover have "in_step a b p (device h\<lparr>DB_CQ := x\<rparr>) = in_step a b p (device h)" for a b p x by (simp add: in_step_def)
    ultimately show ?thesis using c(3,4)
      by (auto simp: take_completion_def Let_def next_head_def next_phase_def)
  next
    case False
    then have i: "idles h (device h)" using assms(2) by (auto simp: conforms_def)
    then obtain j where j: "k = Suc j" using Suc.prems(2) False by (cases k) auto
    have s: "submitted (with_cid cid cmd) tail (cq_head q) (phase q) h0 (device h)"
      using Suc.prems(1) i by (rule submitted_idle)
    have "\<not> completed cid q (CQ (device h) (unat (cq_head q)))"
      using submitted_waiting [OF s] by (simp add: completed_def)
    moreover have "completes exec ((device ^^ j) (device h)) (device ((device ^^ j) (device h)))"
      using Suc.prems(2) by (simp add: j funpow_swap1)
    ultimately show ?thesis using Suc.IH [OF s, of j] Suc.prems(3) by (simp add: j Let_def)
  qed
qed simp

lemma submit_submitted:
  assumes "queue_ok q h"
  shows "\<exists>h1. q_submit cid cmd (q, h) = (q\<lparr>sq_tail := next_head (sq_tail q)\<rparr>, h1) \<and>
    submitted (with_cid cid cmd) (sq_tail q) (cq_head q) (phase q) h h1"
  using assms by (auto simp: q_submit_def submitted_def next_head_def Let_def idles_def intro!: exI [of _ "hw_clock h"])

lemma command_spec:
  assumes "queue_ok q h" "conforms exec device" "prompt exec device"
  shows "\<exists>q' h'. q_wait device cid (q_submit cid cmd (q, h)) = (fst (exec (with_cid cid cmd) (hw_disk h)) AND 0x7FF, q', h') \<and>
    queue_ok q' h' \<and> hw_disk h' = snd (exec (with_cid cid cmd) (hw_disk h)) \<and> sq_phys q' = sq_phys q \<and> cq_phys q' = cq_phys q \<and>
    sq_tail q' = next_head (sq_tail q) \<and> cq_head q' = next_head (cq_head q)"
proof -
  obtain h1 where h1: "q_submit cid cmd (q, h) = (q\<lparr>sq_tail := next_head (sq_tail q)\<rparr>, h1)"
    "submitted (with_cid cid cmd) (sq_tail q) (cq_head q) (phase q) h h1"
    using submit_submitted [OF assms(1)] by blast
  let ?q = "q\<lparr>sq_tail := next_head (sq_tail q)\<rparr>"
  obtain k where k: "k < 200000000" "completes exec ((device ^^ k) h1) (device ((device ^^ k) h1))"
    using assms(3) submitted_available [OF h1(2)] by (auto simp: prompt_def)
  have kk: "k < WAIT_SPINS" using k(1) by (simp add: WAIT_SPINS_def)
  have "submitted (with_cid cid cmd) (sq_tail q) (cq_head ?q) (phase ?q) h h1" using h1(2) by simp
  from q_wait_loop_completes [OF this assms(2) k(2) kk] obtain h' where
    "q_wait device cid (?q, h1) = (fst (exec (with_cid cid cmd) (hw_disk h)) AND 0x7FF,
       ?q\<lparr>cq_head := next_head (cq_head ?q), phase := next_phase (cq_head ?q) (phase ?q)\<rparr>, h')"
    "in_step (next_head (sq_tail q)) (next_head (cq_head q)) (next_phase (cq_head q) (phase q)) h'"
    "hw_disk h' = snd (exec (with_cid cid cmd) (hw_disk h))"
    by (auto simp: q_wait_def)
  then show ?thesis using h1(1) by auto
qed

section \<open>Direct reads and writes\<close>

record io_request =
  rq_write :: bool
  rq_lba :: u64
  rq_count :: u16
  rq_buf :: u64

definition direct_request :: "('d queue_hw \<Rightarrow> 'd queue_hw) \<Rightarrow> io_request \<Rightarrow> 'd nvme_ctrl \<Rightarrow> panic + 'd nvme_ctrl" where
  "direct_request device r c = (if rq_write r then write_blocks_direct device (rq_lba r) (rq_count r) (rq_buf r) c
     else read_blocks_direct device (rq_lba r) (rq_count r) (rq_buf r) c)"

fun direct_io :: "('d queue_hw \<Rightarrow> 'd queue_hw) \<Rightarrow> io_request list \<Rightarrow> 'd nvme_ctrl \<Rightarrow> panic + 'd nvme_ctrl" where
  "direct_io device [] c = Inr c"
| "direct_io device (r # rs) c = rbind (direct_request device r c) (direct_io device rs)"

text \<open>The reference: the controller executes the commands one after the other, until one fails.\<close>

definition request_command :: "u16 \<Rightarrow> io_request \<Rightarrow> SqEntry" where
  "request_command cid r = with_cid cid (rw_command (if rq_write r then 0x01 else 0x02) (rq_lba r) (rq_count r) (rq_buf r))"

fun exec_io :: "'d exec \<Rightarrow> u16 \<Rightarrow> io_request list \<Rightarrow> 'd \<Rightarrow> 'd option" where
  "exec_io exec cid [] d = Some d"
| "exec_io exec cid (r # rs) d = (case exec (request_command (cid + 1) r) d of
     (st, d) \<Rightarrow> if st AND 0x7FF = 0 then exec_io exec (cid + 1) rs d else None)"

lemma io_cmd_spec:
  assumes "queue_ok (io (ctrl c)) (io_hw c)" "conforms exec device" "prompt exec device"
  shows "\<exists>c'. io_cmd device cmd c = (fst (exec (with_cid (nv_cid (ctrl c) + 1) cmd) (hw_disk (io_hw c))) AND 0x7FF, c') \<and>
    queue_ok (io (ctrl c')) (io_hw c') \<and> hw_disk (io_hw c') = snd (exec (with_cid (nv_cid (ctrl c) + 1) cmd) (hw_disk (io_hw c))) \<and>
    nv_cid (ctrl c') = nv_cid (ctrl c) + 1 \<and> sq_tail (io (ctrl c')) = next_head (sq_tail (io (ctrl c)))"
  using command_spec [OF assms, of "nv_cid (ctrl c) + 1" cmd] by (auto simp: io_cmd_def next_cid_def Let_def)

lemma direct_request_spec:
  assumes "queue_ok (io (ctrl c)) (io_hw c)" "conforms exec device" "prompt exec device"
    and "exec (request_command (nv_cid (ctrl c) + 1) r) (hw_disk (io_hw c)) = (st, d)"
  shows "if st AND 0x7FF = 0 then \<exists>c'. direct_request device r c = Inr c' \<and> queue_ok (io (ctrl c')) (io_hw c') \<and>
      hw_disk (io_hw c') = d \<and> nv_cid (ctrl c') = nv_cid (ctrl c) + 1
    else \<exists>e. direct_request device r c = Inl e"
proof -
  let ?cmd = "rw_command (if rq_write r then 0x01 else 0x02) (rq_lba r) (rq_count r) (rq_buf r)"
  obtain c' where "io_cmd device ?cmd c = (st AND 0x7FF, c')" "queue_ok (io (ctrl c')) (io_hw c')" "hw_disk (io_hw c') = d"
    "nv_cid (ctrl c') = nv_cid (ctrl c) + 1"
    using io_cmd_spec [OF assms(1-3), of ?cmd] assms(4) by (auto simp: request_command_def)
  then show ?thesis by (cases "rq_write r") (simp_all add: direct_request_def read_blocks_direct_def write_blocks_direct_def)
qed

text \<open>A controller that completes each command at once, and one on which every command succeeds.\<close>

definition instant :: "'d exec \<Rightarrow> 'd queue_hw \<Rightarrow> 'd queue_hw" where
  "instant exec h = (if hw_sq_head h = unat (DB_SQ h) then h else
     let cmd = SQ h (hw_sq_head h); (st, d) = exec cmd (hw_disk h); t = hw_cq_tail h in
     h\<lparr>CQ := (CQ h)(t := \<lparr>ce_cdw0 = 0, ce_rsvd = 0, ce_sq_head = word_of_nat (Suc (hw_sq_head h) mod QD), ce_sq_id = 1,
           ce_cid = cmd_cid cmd, ce_status = status_word st (hw_phase h)\<rparr>),
       hw_disk := d, hw_sq_head := Suc (hw_sq_head h) mod QD, hw_cq_tail := Suc t mod QD,
       hw_phase := (if Suc t mod QD = 0 then \<not> hw_phase h else hw_phase h)\<rparr>)"

lemma instant_completes: "hw_sq_head h \<noteq> unat (DB_SQ h) \<Longrightarrow> completes exec h (instant exec h)"
  by (cases "exec (SQ h (hw_sq_head h)) (hw_disk h)") (simp add: completes_def instant_def Let_def)

lemma instant_ok: "conforms exec (instant exec)" "prompt exec (instant exec)"
proof -
  have "idles h (instant exec h)" if "hw_sq_head h = unat (DB_SQ h)" for h
    using that by (simp add: instant_def idles_def) (metis queue_hw.surjective queue_hw.update_convs(8))
  then show "conforms exec (instant exec)" using instant_completes by (auto simp: conforms_def)
  show "prompt exec (instant exec)" unfolding prompt_def using instant_completes by (auto intro!: exI [of _ 0])
qed

definition counting :: "nat exec" where "counting cmd d = (0, Suc d)"

definition fresh_queue :: Queue where
  "fresh_queue = \<lparr>sq_phys = 0x3000, cq_phys = 0x4000, sq_tail = 0, cq_head = 0, phase = True\<rparr>"

definition example_ctrl :: "nat nvme_ctrl" where
  "example_ctrl = \<lparr>ctrl = \<lparr>regs_phys = 0xFEB00000, dstrd = 0, admin = fresh_queue, io = fresh_queue, nv_cid = 0, nv_lba_size = 512,
     nv_lba_count = 1000, nv_mailbox = False, mailbox_page_phys = None\<rparr>, admin_hw = zero_hw 0, io_hw = zero_hw 0, reg_log = []\<rparr>"

lemma fresh_queue_ok: "queue_ok fresh_queue (zero_hw d)"
  by (simp add: in_step_def fresh_queue_def zero_hw_def QD_def CqEntry_default_def)

text \<open>
  C12: With a controller that follows the specification and answers within the driver's patience, any sequence of direct
  reads and writes has exactly the effect of the controller executing the commands one after the other: it returns
  when all of them succeed, panics at the first that fails, and leaves the driver's queue positions and phase tag in step
  with the controller's, however often the queues have wrapped around.
\<close>

theorem direct_io_refines:
  assumes "queue_ok (io (ctrl c)) (io_hw c)" "conforms exec device" "prompt exec device"
  shows "case exec_io exec (nv_cid (ctrl c)) rs (hw_disk (io_hw c)) of
      None \<Rightarrow> \<exists>e. direct_io device rs c = Inl e
    | Some d \<Rightarrow> \<exists>c'. direct_io device rs c = Inr c' \<and> hw_disk (io_hw c') = d \<and> queue_ok (io (ctrl c')) (io_hw c')"
  using assms(1)
proof (induction rs arbitrary: c)
  case (Cons r rs)
  obtain st d where x: "exec (request_command (nv_cid (ctrl c) + 1) r) (hw_disk (io_hw c)) = (st, d)" by fastforce
  note r = direct_request_spec [OF Cons.prems assms(2,3) x]
  show ?case
  proof (cases "st AND 0x7FF = 0")
    case True
    then obtain c' where c': "direct_request device r c = Inr c'" "queue_ok (io (ctrl c')) (io_hw c')" "hw_disk (io_hw c') = d"
      "nv_cid (ctrl c') = nv_cid (ctrl c) + 1" using r by auto
    then show ?thesis using Cons.IH [OF c'(2)] True x by (cases "exec_io exec (nv_cid (ctrl c) + 1) rs d") simp_all
  next
    case False
    then show ?thesis using r x by auto
  qed
qed simp

theorem direct_io_refines_witness:
  "\<exists>c'. direct_io (instant counting) (replicate 100 \<lparr>rq_write = False, rq_lba = 8, rq_count = 8, rq_buf = 0x5000\<rparr>) example_ctrl = Inr c' \<and>
    hw_disk (io_hw c') = 100"
proof -
  let ?r = "\<lparr>rq_write = False, rq_lba = 8, rq_count = 8, rq_buf = 0x5000\<rparr>"
  have e: "exec_io counting cid (replicate n ?r) d = Some (n + d)" for cid n d
    by (induction n arbitrary: cid d) (simp_all add: counting_def)
  have ok: "queue_ok (io (ctrl example_ctrl)) (io_hw example_ctrl)"
    unfolding example_ctrl_def by (simp add: fresh_queue_ok)
  have d: "hw_disk (io_hw example_ctrl) = 0" by (simp add: example_ctrl_def zero_hw_def)
  from direct_io_refines [OF ok instant_ok [of counting], of "replicate 100 ?r"] show ?thesis unfolding e d by auto
qed

section \<open>The ring-3 driver\<close>

definition as_queue :: "IoQueue \<Rightarrow> Queue" where
  "as_queue q = \<lparr>sq_phys = 0, cq_phys = 0, sq_tail = iq_sq_tail q, cq_head = iq_cq_head q, phase = iq_phase q\<rparr>"

definition as_ioqueue :: "Queue \<Rightarrow> IoQueue" where
  "as_ioqueue q = \<lparr>iq_qd = word_of_nat QD, iq_sq_tail = sq_tail q, iq_cq_head = cq_head q, iq_phase = phase q\<rparr>"

lemma nvmed_q_submit_eq:
  assumes "iq_qd q = word_of_nat QD"
  shows "nvmed_q_submit cid cmd (q, h) = (case q_submit cid cmd (as_queue q, h) of (q', h') \<Rightarrow> Inr (as_ioqueue q', h'))"
  using assms by (cases q) (simp add: nvmed_q_submit_def q_submit_def as_queue_def as_ioqueue_def Let_def QD_def)

lemma code_not_timeout: "(x :: u16) AND 0x7FF \<noteq> 0xFFF"
proof
  assume "x AND 0x7FF = 0xFFF"
  then have "bit (x AND 0x7FF) 11 = bit (0xFFF :: u16) 11" by simp
  then show False by (simp add: bit_and_iff)
qed

text \<open>
  The waiting loop of \<open>nvmed\<close> is the kernel's: with the same number of readings it takes the same completion and reports a
  timeout exactly where the kernel's returns its timeout code, which is no status a completion can carry.
\<close>

lemma nvmed_q_wait_loop_eq:
  assumes "iq_qd q = word_of_nat QD"
  shows "nvmed_q_wait_loop device cid n (q, h) = (case q_wait_loop device cid n (as_queue q, h) of
    (st, q', h') \<Rightarrow> Inr (if st = 0xFFF then None else Some st, as_ioqueue q', h'))"
  using assms
proof (induction n arbitrary: h)
  case 0
  then show ?case by (cases q) (simp add: as_queue_def as_ioqueue_def)
next
  case (Suc n)
  have z: "(word_of_nat QD :: u32) \<noteq> 0" by (simp add: QD_def)
  show ?case
    using Suc by (cases q) (auto simp: as_queue_def as_ioqueue_def completed_def take_completion_def Let_def z code_not_timeout)
qed

text \<open>
  A session of the driver: before each turn of its loop the kernel does something to the mailbox. The session ends
  after the given turns, or when the driver sees the request to stop.
\<close>

fun nvmed_session :: "('d queue_hw \<Rightarrow> 'd queue_hw) \<Rightarrow> u64 \<Rightarrow> (Mailbox \<Rightarrow> Mailbox) list \<Rightarrow> 'd nvmed \<Rightarrow> panic + 'd nvmed" where
  "nvmed_session device phys [] n = Inr n"
| "nvmed_session device phys (f # fs) n =
    (let n = n\<lparr>nd_mb := f (nd_mb n)\<rparr> in
     rbind (nvmed_turn device phys n) (\<lambda>r. case r of None \<Rightarrow> Inr n | Some n \<Rightarrow> nvmed_session device phys fs n))"

text \<open>The kernel writes requests and the stop word; the queue position in the mailbox is the driver's.\<close>

definition kernel_writes :: "(Mailbox \<Rightarrow> Mailbox) \<Rightarrow> bool" where
  "kernel_writes f \<longleftrightarrow> (\<forall>mb. mb_sq_tail (f mb) = mb_sq_tail mb \<and> mb_cq_head (f mb) = mb_cq_head mb \<and> mb_phase (f mb) = mb_phase mb)"

definition nvmed_ok :: "'d nvmed \<Rightarrow> bool" where
  "nvmed_ok n \<longleftrightarrow> iq_qd (nd_q n) = word_of_nat QD \<and> queue_ok (as_queue (nd_q n)) (nd_hw n) \<and>
     mb_sq_tail (nd_mb n) = iq_sq_tail (nd_q n) \<and> mb_cq_head (nd_mb n) = iq_cq_head (nd_q n) \<and>
     (mb_phase (nd_mb n) \<noteq> 0) = iq_phase (nd_q n)"

lemma nvmed_start_ok:
  assumes "queue_ok (io c) h"
  shows "nvmed_ok (nvmed_start (fill_mailbox c) h)"
  using assms by (cases "phase (io c)") (simp_all add: nvmed_ok_def nvmed_start_def fill_mailbox_def zero_mailbox_def as_queue_def)

lemma as_queue_as_ioqueue: "queue_ok (as_queue (as_ioqueue q)) h = queue_ok q h"
  by (simp add: as_queue_def as_ioqueue_def)

lemma nvmed_serve_spec:
  assumes "nvmed_ok n" "conforms exec device" "prompt exec device"
  shows "\<exists>n'. nvmed_serve device phys n = Inr n' \<and> iq_qd (nd_q n') = word_of_nat QD \<and> queue_ok (as_queue (nd_q n')) (nd_hw n')"
proof (cases "mb_op (nd_mb n) = 0")
  case True
  then show ?thesis using assms(1) by (simp add: nvmed_serve_def nvmed_ok_def)
next
  case False
  define q where "q = nd_q n"
  define cid where "cid = nd_cid n + 1"
  define cmd where "cmd = nvmed_command phys (nd_mb n)"
  have qd: "iq_qd q = word_of_nat QD" and ok: "queue_ok (as_queue q) (nd_hw n)" using assms(1) by (simp_all add: q_def nvmed_ok_def)
  obtain h1 where sub: "q_submit cid cmd (as_queue q, nd_hw n) = ((as_queue q)\<lparr>sq_tail := next_head (sq_tail (as_queue q))\<rparr>, h1)"
      "submitted (with_cid cid cmd) (sq_tail (as_queue q)) (cq_head (as_queue q)) (phase (as_queue q)) (nd_hw n) h1"
    using submit_submitted [OF ok] by blast
  let ?q = "(as_queue q)\<lparr>sq_tail := next_head (sq_tail (as_queue q))\<rparr>"
  obtain k where k: "k < 200000000" "completes exec ((device ^^ k) h1) (device ((device ^^ k) h1))"
    using assms(3) submitted_available [OF sub(2)] by (auto simp: prompt_def)
  have s: "submitted (with_cid cid cmd) (sq_tail (as_queue q)) (cq_head ?q) (phase ?q) (nd_hw n) h1" using sub(2) by simp
  obtain st q' h' where w: "q_wait_loop device cid 200000000 (?q, h1) = (st, q', h')" "queue_ok q' h'"
    using q_wait_loop_completes [OF s assms(2) k(2) k(1)] by auto
  have a: "as_queue (as_ioqueue ?q) = ?q" by (simp add: as_queue_def as_ioqueue_def)
  have "nvmed_q_wait_loop device cid 200000000 (as_ioqueue ?q, h1) = Inr (if st = 0xFFF then None else Some st, as_ioqueue q', h')"
    using nvmed_q_wait_loop_eq [of "as_ioqueue ?q" device cid 200000000 h1] w(1) unfolding a by (simp add: as_ioqueue_def)
  then show ?thesis
    using False sub(1) nvmed_q_submit_eq [OF qd, of cid cmd "nd_hw n"] w(2)
    by (simp add: nvmed_serve_def Let_def nvmed_q_wait_def q_def cid_def cmd_def as_queue_as_ioqueue as_ioqueue_def del: nvmed_q_wait_loop.simps)
      (simp add: as_queue_def)
qed

lemma nvmed_session_ok:
  assumes "nvmed_ok n" "conforms exec device" "prompt exec device" "list_all kernel_writes fs"
  shows "\<exists>n'. nvmed_session device phys fs n = Inr n' \<and> nvmed_ok n'"
  using assms(1,4)
proof (induction fs arbitrary: n)
  case (Cons f fs)
  let ?n = "n\<lparr>nd_mb := f (nd_mb n)\<rparr>"
  have ok: "nvmed_ok ?n" using Cons.prems by (simp add: nvmed_ok_def kernel_writes_def)
  obtain n1 where n1: "nvmed_serve device phys ?n = Inr n1" "iq_qd (nd_q n1) = word_of_nat QD" "queue_ok (as_queue (nd_q n1)) (nd_hw n1)"
    using nvmed_serve_spec [OF ok assms(2,3)] by blast
  have p: "nvmed_ok (nvmed_persist n1)" using n1(2,3) by (simp add: nvmed_ok_def nvmed_persist_def)
  show ?case
  proof (cases "mb_stop (nd_mb ?n) = 0")
    case True
    then show ?thesis using n1(1) Cons.IH [OF p] Cons.prems(2) by (simp add: nvmed_turn_def Let_def)
  next
    case False
    then show ?thesis using ok by (simp add: nvmed_turn_def Let_def)
  qed
qed simp

text \<open>
  C13: Handing the I/O queue to \<open>nvmed\<close> and taking it back loses no position: when the kernel's positions are in step with
  the controller, they are in step again after the driver was started from the mailbox, served any number of turns
  with any requests, and the kernel read its position back, also when the driver was asked to stop in between.
\<close>

theorem handoff_keeps_step:
  assumes "queue_ok (io c) h" "conforms exec device" "prompt exec device" "list_all kernel_writes fs"
  shows "\<exists>n. nvmed_session device phys fs (nvmed_start (fill_mailbox c) h) = Inr n \<and> queue_ok (io (sync_back (nd_mb n) c)) (nd_hw n)"
proof -
  obtain n where "nvmed_session device phys fs (nvmed_start (fill_mailbox c) h) = Inr n" "nvmed_ok n"
    using nvmed_session_ok [OF nvmed_start_ok [OF assms(1)] assms(2-4)] by blast
  then show ?thesis by (auto simp: nvmed_ok_def sync_back_def as_queue_def)
qed

theorem handoff_keeps_step_witness:
  "\<exists>n. nvmed_session (instant counting) 0x6000 (replicate 70 (\<lambda>mb. mb\<lparr>mb_op := 1, mb_lba := 8, mb_count := 8\<rparr>))
      (nvmed_start (fill_mailbox (ctrl example_ctrl)) (zero_hw 0)) = Inr n \<and>
    queue_ok (io (sync_back (nd_mb n) (ctrl example_ctrl))) (nd_hw n)"
proof -
  have "queue_ok (io (ctrl example_ctrl)) (zero_hw (0 :: nat))" by (simp add: example_ctrl_def fresh_queue_ok)
  moreover have "list_all kernel_writes (replicate 70 (\<lambda>mb. mb\<lparr>mb_op := 1, mb_lba := 8, mb_count := 8\<rparr>))"
    by (simp add: list_all_iff kernel_writes_def)
  ultimately show ?thesis using handoff_keeps_step [OF _ instant_ok [of counting]] by blast
qed

section \<open>Data pointers\<close>

text \<open>
  Where the controller transfers byte \<open>i\<close> of at most one page of data, by the specification of the data pointer of a
  command: from the first entry up to the end of its page, and on from the second entry.
\<close>

definition prp_byte :: "SqEntry \<Rightarrow> nat \<Rightarrow> nat" where
  "prp_byte cmd i = (if unat (prp1 cmd) mod 4096 + i < 4096 then unat (prp1 cmd) + i
     else unat (prp2 cmd) + (unat (prp1 cmd) mod 4096 + i - 4096))"

text \<open>
  C16: A block that the kernel transfers directly, from a page-aligned buffer, goes to that buffer. Of a block that \<open>nvmed\<close>
  transfers, the last 72 bytes go to the first bytes of physical memory instead of the mailbox: the data buffer
  starts 72 bytes into a page and the second entry of the data pointer is zero.
\<close>

theorem nvmed_transfers_page_zero:
  assumes "unat buf mod 4096 = 0" "unat mailbox_phys mod 4096 = 0" "unat mailbox_phys + 8192 < 2 ^ 64" "i < 4096"
  shows "prp_byte (rw_command opc lba cnt buf) i = unat buf + i \<and>
    prp_byte (nvmed_command mailbox_phys mb) i = (if i < 4024 then unat mailbox_phys + 72 + i else i - 4024)"
proof
  show "prp_byte (rw_command opc lba cnt buf) i = unat buf + i" using assms(1,4) by (simp add: prp_byte_def rw_command_def)
  have "unat (mailbox_phys + 72) = unat mailbox_phys + 72" using assms(3) by (simp add: unat_word_ariths)
  moreover have "(unat mailbox_phys + 72) mod 4096 = 72" using assms(2) by (simp add: mod_add_eq [symmetric])
  ultimately show "prp_byte (nvmed_command mailbox_phys mb) i = (if i < 4024 then unat mailbox_phys + 72 + i else i - 4024)"
    by (auto simp: prp_byte_def nvmed_command_def MAILBOX_DATA_def SqEntry_default_def)
qed

theorem nvmed_transfers_page_zero_witness:
  "prp_byte (nvmed_command 0x6000 (zero_mailbox\<lparr>mb_op := 1, mb_count := 8\<rparr>)) 4095 = 71"
  using nvmed_transfers_page_zero [of "0x5000" "0x6000" 4095] by simp

end
