(* ===== verification/Disk_Mailbox.thy ===== *)
theory Disk_Mailbox
  imports Prelude
begin

text \<open>
  The request protocol between the kernel and its two ring-3 disk drivers at the grain of the shared accesses:
  \<open>read_blocks\<close> and \<open>write_blocks\<close> of \<open>kernel/src/nvme.rs\<close>, \<open>read_sectors\<close> and \<open>write_sectors\<close> of \<open>kernel/src/ahci.rs\<close>, and the
  loops of \<open>userspace/nvmed\<close> and \<open>userspace/ahcid\<close>. Both mailboxes have the fields \<open>op\<close>, \<open>status\<close>, \<open>lba\<close> and \<open>count\<close>, written
  and read in the same order; the two sides run on one processor and are preempted anywhere between two accesses.

  They differ after a wait that ends without a status: \<open>nvme.rs\<close> panics, \<open>ahci.rs\<close> clears the status and returns false.
\<close>

section \<open>States\<close>

record request =
  r_op :: u32
  r_lba :: u64
  r_count :: u32

record shared =
  op :: u32
  status :: u32
  lba :: u64
  cnt :: u32

text \<open>
  The next access of the kernel side: it writes \<open>lba\<close>, \<open>count\<close>, \<open>status\<close>, \<open>op\<close> in this order, then reads \<open>status\<close> until it is
  not zero, clears it and returns; and of the driver: it reads \<open>op\<close>, \<open>lba\<close>, \<open>count\<close>, has the device execute the
  command, writes \<open>status\<close>, clears \<open>op\<close>.
\<close>

datatype kernel_pc = KIdle | KLba request | KCount request | KStatus request | KOp request | KWait request
  | KClear request u32 | KExpired | KPanic

datatype driver_pc = DPoll | DLba u32 | DCount u32 u64 | DExec request | DStatus request bool | DClear

datatype disk = NvmeDisk | AhciDisk

text \<open>
  \<open>served\<close> is what the device was asked to do, with its answer, newest first; \<open>returned\<close> the kernel's calls that returned,
  with the status they saw.
\<close>

record mstate =
  sh :: shared
  kpc :: kernel_pc
  dpc :: driver_pc
  served :: "(request \<times> bool) list"
  returned :: "(request \<times> u32) list"

text \<open>A scheduling choice: a new call, the next access of a side, the end of the kernel's patience, the device's answer.\<close>

datatype choice = Call request | KernelStep | Expire | DriverStep | DeviceAnswer bool

text \<open>
  The kernel's side of a call, the same on both disks. A call whose status is an error ends like any other here; on the
  NVMe disk the kernel then panics, so there the model lets it go on where the code does not.
\<close>

fun kernel_step :: "mstate \<Rightarrow> mstate option" where
  "kernel_step m = (case kpc m of
     KLba r \<Rightarrow> Some (m\<lparr>sh := (sh m)\<lparr>lba := r_lba r\<rparr>, kpc := KCount r\<rparr>)
   | KCount r \<Rightarrow> Some (m\<lparr>sh := (sh m)\<lparr>cnt := r_count r\<rparr>, kpc := KStatus r\<rparr>)
   | KStatus r \<Rightarrow> Some (m\<lparr>sh := (sh m)\<lparr>status := 0\<rparr>, kpc := KOp r\<rparr>)
   | KOp r \<Rightarrow> Some (m\<lparr>sh := (sh m)\<lparr>op := r_op r\<rparr>, kpc := KWait r\<rparr>)
   | KWait r \<Rightarrow> Some (if status (sh m) = 0 then m else m\<lparr>kpc := KClear r (status (sh m))\<rparr>)
   | KClear r st \<Rightarrow> Some (m\<lparr>sh := (sh m)\<lparr>status := 0\<rparr>, kpc := KIdle, returned := (r, st) # returned m\<rparr>)
   | KExpired \<Rightarrow> Some (m\<lparr>sh := (sh m)\<lparr>status := 0\<rparr>, kpc := KIdle\<rparr>)
   | _ \<Rightarrow> None)"

definition nvme_expire :: "mstate \<Rightarrow> mstate option" where
  "nvme_expire m = (case kpc m of KWait r \<Rightarrow> Some (m\<lparr>kpc := KPanic\<rparr>) | _ \<Rightarrow> None)"

definition ahci_expire :: "mstate \<Rightarrow> mstate option" where
  "ahci_expire m = (case kpc m of KWait r \<Rightarrow> Some (m\<lparr>kpc := KExpired\<rparr>) | _ \<Rightarrow> None)"

fun expire :: "disk \<Rightarrow> mstate \<Rightarrow> mstate option" where
  "expire NvmeDisk m = nvme_expire m"
| "expire AhciDisk m = ahci_expire m"

text \<open>The status word for the outcome of a command.\<close>

definition code :: "bool \<Rightarrow> u32" where "code ok = (if ok then 1 else 2)"

fun driver_step :: "mstate \<Rightarrow> mstate option" where
  "driver_step m = (case dpc m of
     DPoll \<Rightarrow> Some (if op (sh m) = 0 then m else m\<lparr>dpc := DLba (op (sh m))\<rparr>)
   | DLba o' \<Rightarrow> Some (m\<lparr>dpc := DCount o' (lba (sh m))\<rparr>)
   | DCount o' l \<Rightarrow> Some (m\<lparr>dpc := DExec \<lparr>r_op = o', r_lba = l, r_count = cnt (sh m)\<rparr>\<rparr>)
   | DStatus r ok \<Rightarrow> Some (m\<lparr>sh := (sh m)\<lparr>status := code ok\<rparr>, dpc := DClear\<rparr>)
   | DClear \<Rightarrow> Some (m\<lparr>sh := (sh m)\<lparr>op := 0\<rparr>, dpc := DPoll\<rparr>)
   | DExec r \<Rightarrow> None)"

fun device_answer :: "bool \<Rightarrow> mstate \<Rightarrow> mstate option" where
  "device_answer ok m = (case dpc m of
     DExec r \<Rightarrow> Some (m\<lparr>dpc := DStatus r ok, served := (r, ok) # served m\<rparr>)
   | _ \<Rightarrow> None)"

fun mb_step :: "disk \<Rightarrow> choice \<Rightarrow> mstate \<Rightarrow> mstate option" where
  "mb_step d (Call r) m = (if kpc m = KIdle \<and> r_op r \<noteq> 0 then Some (m\<lparr>kpc := KLba r\<rparr>) else None)"
| "mb_step d KernelStep m = kernel_step m"
| "mb_step d Expire m = expire d m"
| "mb_step d DriverStep m = driver_step m"
| "mb_step d (DeviceAnswer ok) m = device_answer ok m"

fun mb_run :: "disk \<Rightarrow> choice list \<Rightarrow> mstate \<Rightarrow> mstate option" where
  "mb_run d [] m = Some m"
| "mb_run d (c # cs) m = (case mb_step d c m of None \<Rightarrow> None | Some m \<Rightarrow> mb_run d cs m)"

definition mb_init :: mstate where
  "mb_init = \<lparr>sh = \<lparr>op = 0, status = 0, lba = 0, cnt = 0\<rparr>, kpc = KIdle, dpc = DPoll, served = [], returned = []\<rparr>"

inductive reachable :: "disk \<Rightarrow> mstate \<Rightarrow> bool" for d where
  start: "reachable d mb_init"
| step: "reachable d m \<Longrightarrow> mb_step d c m = Some m' \<Longrightarrow> reachable d m'"

section \<open>Completed calls\<close>

definition answers :: "mstate \<Rightarrow> (request \<times> u32) list" where
  "answers m = map (\<lambda>(r, ok). (r, code ok)) (served m)"

definition quiet :: "mstate \<Rightarrow> bool" where
  "quiet m \<longleftrightarrow> dpc m = DClear \<or> dpc m = DPoll \<and> op (sh m) = 0"

definition idle_ok :: "mstate \<Rightarrow> bool" where
  "idle_ok m \<longleftrightarrow> answers m = returned m \<and> status (sh m) = 0 \<and> quiet m"

text \<open>The driver's progress with the request the kernel waits for: not taken up yet or lost, being read, executing,
  executed, answered.\<close>

definition wait_ok :: "request \<Rightarrow> mstate \<Rightarrow> bool" where
  "wait_ok r m \<longleftrightarrow> lba (sh m) = r_lba r \<and> cnt (sh m) = r_count r \<and>
     (status (sh m) = 0 \<and> answers m = returned m \<and>
        (quiet m \<or> dpc m = DPoll \<and> op (sh m) = r_op r \<or> dpc m = DLba (r_op r) \<or> dpc m = DCount (r_op r) (r_lba r) \<or> dpc m = DExec r) \<or>
      status (sh m) = 0 \<and> (\<exists>ok. dpc m = DStatus r ok \<and> answers m = (r, code ok) # returned m) \<or>
      status (sh m) \<noteq> 0 \<and> answers m = (r, status (sh m)) # returned m \<and> quiet m)"

definition panic_ok :: "mstate \<Rightarrow> bool" where
  "panic_ok m \<longleftrightarrow> answers m = returned m \<or>
     (\<exists>x. answers m = x # returned m) \<and> (quiet m \<or> (\<exists>r ok. dpc m = DStatus r ok))"

fun mb_inv :: "mstate \<Rightarrow> bool" where
  "mb_inv m = (case kpc m of
     KIdle \<Rightarrow> idle_ok m | KLba r \<Rightarrow> idle_ok m
   | KCount r \<Rightarrow> idle_ok m \<and> lba (sh m) = r_lba r
   | KStatus r \<Rightarrow> idle_ok m \<and> lba (sh m) = r_lba r \<and> cnt (sh m) = r_count r
   | KOp r \<Rightarrow> idle_ok m \<and> lba (sh m) = r_lba r \<and> cnt (sh m) = r_count r
   | KWait r \<Rightarrow> wait_ok r m
   | KClear r st \<Rightarrow> answers m = (r, st) # returned m \<and> quiet m
   | KExpired \<Rightarrow> False
   | KPanic \<Rightarrow> panic_ok m)"

lemmas mb_defs = idle_ok_def wait_ok_def panic_ok_def quiet_def

lemma answers_simps [simp]:
  "answers (m\<lparr>sh := x\<rparr>) = answers m" "answers (m\<lparr>kpc := k\<rparr>) = answers m" "answers (m\<lparr>dpc := d\<rparr>) = answers m"
  "answers (m\<lparr>returned := R\<rparr>) = answers m" "answers (m\<lparr>dpc := d, served := (r, ok) # served m\<rparr>) = (r, code ok) # answers m"
  by (simp_all add: answers_def)

lemma code_nonzero [simp]: "code ok \<noteq> 0"
  by (simp add: code_def)

lemma request_eta: "\<lparr>r_op = r_op r, r_lba = r_lba r, r_count = r_count r\<rparr> = r"
  by simp

lemma kernel_step_inv: "mb_inv m \<Longrightarrow> kernel_step m = Some m' \<Longrightarrow> mb_inv m'"
  by (cases "kpc m") (auto simp: mb_defs split: if_splits)

lemma expire_inv: "mb_inv m \<Longrightarrow> expire NvmeDisk m = Some m' \<Longrightarrow> mb_inv m'"
  by (cases "kpc m") (auto simp: mb_defs nvme_expire_def)

lemma driver_step_inv: "mb_inv m \<Longrightarrow> driver_step m = Some m' \<Longrightarrow> mb_inv m'"
  by (cases "kpc m"; cases "dpc m") (auto simp: mb_defs split: if_splits)

lemma device_answer_inv: "mb_inv m \<Longrightarrow> device_answer ok m = Some m' \<Longrightarrow> mb_inv m'"
  by (cases "kpc m"; cases "dpc m") (auto simp: mb_defs)

lemma call_inv: "mb_inv m \<Longrightarrow> (if kpc m = KIdle \<and> r_op r \<noteq> 0 then Some (m\<lparr>kpc := KLba r\<rparr>) else None) = Some m' \<Longrightarrow> mb_inv m'"
  by (auto simp: mb_defs split: if_splits)

lemma reachable_inv: "reachable NvmeDisk m \<Longrightarrow> mb_inv m"
proof (induction rule: reachable.induct)
  case start
  then show ?case by (simp add: mb_init_def mb_defs answers_def)
next
  case (step m c m')
  then show ?case
    using kernel_step_inv [of m m'] expire_inv [of m m'] driver_step_inv [of m m'] device_answer_inv [of m _ m'] call_inv [of m _ m']
    by (cases c) (simp_all only: mb_step.simps)
qed

lemma mb_inv_served: "mb_inv m \<Longrightarrow> \<exists>xs. answers m = xs @ returned m \<and> length xs \<le> 1"
  by (cases "kpc m") (auto simp: mb_defs intro: exI [of _ "[]"] exI [of _ "[_]"])

lemma mb_run_reachable: "reachable d m \<Longrightarrow> mb_run d cs m = Some m' \<Longrightarrow> reachable d m'"
  by (induction cs arbitrary: m) (auto split: option.splits intro: reachable.step)

text \<open>The driver's turn over one request, and the kernel's accesses of one call up to its wait.\<close>

definition driver_turn :: "bool \<Rightarrow> choice list" where
  "driver_turn ok = [DriverStep, DriverStep, DriverStep, DeviceAnswer ok, DriverStep]"

definition kernel_call :: "request \<Rightarrow> choice list" where
  "kernel_call r = [Call r, KernelStep, KernelStep, KernelStep, KernelStep]"

definition req1 :: request where "req1 = \<lparr>r_op = 1, r_lba = 8, r_count = 8\<rparr>"
definition req2 :: request where "req2 = \<lparr>r_op = 1, r_lba = 16, r_count = 8\<rparr>"

lemmas trace_defs = ahci_expire_def driver_turn_def kernel_call_def req1_def req2_def mb_init_def code_def

text \<open>
  C14: Under every interleaving of the kernel's and the driver's accesses to the NVMe mailbox, the device executed every
  call that has returned exactly once, with the parameters of the call and the outcome the call saw, in the order of
  the calls, and nothing else apart from at most one command for the call the kernel is waiting for.
\<close>

theorem mailbox_calls_served:
  assumes "reachable NvmeDisk m"
  shows "\<exists>xs. answers m = xs @ returned m \<and> length xs \<le> 1"
  using reachable_inv [OF assms] by (rule mb_inv_served)

theorem mailbox_calls_served_witness:
  "\<exists>m xs. mb_run NvmeDisk (kernel_call req1 @ driver_turn True @ [KernelStep, KernelStep]) mb_init = Some m \<and>
    returned m = [(req1, 1)] \<and> answers m = xs @ returned m"
proof -
  let ?cs = "kernel_call req1 @ driver_turn True @ [KernelStep, KernelStep]"
  obtain m where m: "mb_run NvmeDisk ?cs mb_init = Some m" "returned m = [(req1, 1)]" by (simp add: trace_defs)
  have "reachable NvmeDisk m" using start m(1) by (rule mb_run_reachable)
  then show ?thesis using mailbox_calls_served [of m] m by blast
qed

text \<open>
  C15: A request can be lost: after a first call that succeeded there is a reachable state in which the kernel waits for a
  second call while the mailbox holds no request and the driver polls it. Nothing but the end of the kernel's patience
  leaves this state, upon which \<open>nvme.rs\<close> panics. The driver publishes the status before it clears \<open>op\<close>, so the clearing
  can erase the next request.
\<close>

theorem mailbox_request_lost:
  "\<exists>cs m. mb_run d cs mb_init = Some m \<and> returned m = [(req1, 1)] \<and> kpc m = KWait req2 \<and> op (sh m) = 0 \<and> dpc m = DPoll \<and>
    (\<forall>cs' m'. Expire \<notin> set cs' \<longrightarrow> mb_run d cs' m = Some m' \<longrightarrow> m' = m)"
proof -
  let ?cs = "kernel_call req1 @ driver_turn True @ [KernelStep, KernelStep] @ kernel_call req2 @ [DriverStep]"
  let ?m = "\<lparr>sh = \<lparr>op = 0, status = 0, lba = 16, cnt = 8\<rparr>, kpc = KWait req2, dpc = DPoll, served = [(req1, True)], returned = [(req1, 1)]\<rparr>"
  have run: "mb_run d ?cs mb_init = Some ?m" by (simp add: trace_defs)
  have step: "mb_step d c ?m = Some m' \<Longrightarrow> c \<noteq> Expire \<Longrightarrow> m' = ?m" for c m' by (cases c) simp_all
  have "mb_run d cs' ?m = Some m' \<Longrightarrow> Expire \<notin> set cs' \<Longrightarrow> m' = ?m" for cs' m'
  proof (induction cs')
    case (Cons c cs')
    then obtain m1 where "mb_step d c ?m = Some m1" "mb_run d cs' m1 = Some m'" by (auto split: option.splits)
    moreover have "c \<noteq> Expire" "Expire \<notin> set cs'" using Cons.prems(2) by auto
    ultimately show ?case using Cons.IH step [of c m1] by simp
  qed simp
  then show ?thesis using run by (intro exI [of _ ?cs] exI [of _ ?m]) simp
qed

theorem mailbox_request_lost_witness:
  "\<exists>cs m. mb_run NvmeDisk cs mb_init = Some m \<and> kpc m = KWait req2 \<and> mb_run NvmeDisk [DriverStep, KernelStep, DriverStep] m = Some m"
proof -
  obtain cs m where m: "mb_run NvmeDisk cs mb_init = Some m" "kpc m = KWait req2" "op (sh m) = 0" "dpc m = DPoll"
    "\<forall>cs' m'. Expire \<notin> set cs' \<longrightarrow> mb_run NvmeDisk cs' m = Some m' \<longrightarrow> m' = m"
    using mailbox_request_lost [of NvmeDisk] by blast
  obtain m' where m': "mb_run NvmeDisk [DriverStep, KernelStep, DriverStep] m = Some m'" using m(2-4) by (cases "status (sh m) = 0") simp_all
  moreover have "m' = m" using m(5) [rule_format, OF _ m'] by simp
  ultimately show ?thesis using m(1,2) by blast
qed

text \<open>
  C17: On the AHCI disk a call can return success for a command that was never executed: when a call has timed out while
  its command was still executing, the completion of that command answers the next call.
\<close>

theorem ahci_stale_answer:
  "\<exists>cs m. mb_run AhciDisk cs mb_init = Some m \<and> returned m = [(req2, 1)] \<and> served m = [(req1, True)]"
proof -
  let ?cs = "kernel_call req1 @ [DriverStep, DriverStep, DriverStep, Expire, KernelStep] @ kernel_call req2 @
    [DeviceAnswer True, DriverStep, KernelStep, KernelStep]"
  have "\<exists>m. mb_run AhciDisk ?cs mb_init = Some m \<and> returned m = [(req2, 1)] \<and> served m = [(req1, True)]"
    by (simp add: trace_defs)
  then show ?thesis by blast
qed

end
