(* ===== verification/Editor.thy ===== *)
theory Editor
  imports Input HepFs
begin

text \<open>
  The text editor, \<open>kernel/src/editor.rs\<close>, and the clipboard it uses, \<open>kernel/src/clipboard.rs\<close>: the buffer of lines with
  cursor, selection and find mode, every key and mouse action, saving to the filesystem, and the syntax
  colouring of a line. Drawing is not modelled. \<open>shift\<close> and \<open>ctrl\<close> are the modifier keys at the moment of a key
  press; vectors that are indexed or split out of range panic.
\<close>

section \<open>Vectors\<close>

definition vec_get :: "nat \<Rightarrow> 'x list \<Rightarrow> panic + 'x" where
  "vec_get i xs = (if i < length xs then Inr (xs ! i) else Inl (Panic ''index out of bounds''))"

definition vec_split_off :: "nat \<Rightarrow> 'x list \<Rightarrow> panic + ('x list \<times> 'x list)" where
  "vec_split_off i xs = (if i \<le> length xs then Inr (take i xs, drop i xs) else Inl (Panic ''split_off out of bounds''))"

definition vec_insert :: "nat \<Rightarrow> 'x \<Rightarrow> 'x list \<Rightarrow> panic + 'x list" where
  "vec_insert i x xs = (if i \<le> length xs then Inr (take i xs @ x # drop i xs) else Inl (Panic ''insertion index''))"

definition vec_remove :: "nat \<Rightarrow> 'x list \<Rightarrow> panic + ('x \<times> 'x list)" where
  "vec_remove i xs = (if i < length xs then Inr (xs ! i, take i xs @ drop (Suc i) xs) else Inl (Panic ''removal index''))"

definition vec_slice :: "nat \<Rightarrow> nat \<Rightarrow> 'x list \<Rightarrow> panic + 'x list" where
  "vec_slice a b xs = (if a \<le> b \<and> b \<le> length xs then Inr (take (b - a) (drop a xs)) else Inl (Panic ''slice index''))"

section \<open>Syntax colours\<close>

type_synonym colour = u32

definition KW_COLOR :: colour where "KW_COLOR = 0xC792EA"
definition STR_COLOR :: colour where "STR_COLOR = 0xC3E88D"
definition NUM_COLOR :: colour where "NUM_COLOR = 0xF78C6C"
definition CMT_COLOR :: colour where "CMT_COLOR = 0x546E7A"

definition KEYWORDS :: "string list" where
  "KEYWORDS = [
    ''fn'', ''let'', ''mut'', ''pub'', ''struct'', ''enum'', ''impl'', ''trait'', ''use'', ''mod'', ''crate'',
    ''self'', ''Self'', ''if'', ''else'', ''match'', ''for'', ''while'', ''loop'', ''break'', ''continue'',
    ''return'', ''true'', ''false'', ''const'', ''static'', ''unsafe'', ''async'', ''await'', ''move'',
    ''ref'', ''in'', ''as'', ''dyn'', ''where'', ''type'', ''extern'', ''super'', ''box'', ''yield'',
    ''int'', ''char'', ''float'', ''double'', ''void'', ''long'', ''short'', ''unsigned'', ''signed'',
    ''typedef'', ''sizeof'', ''goto'', ''switch'', ''case'', ''default'', ''do'', ''union'', ''volatile'',
    ''register'', ''auto'', ''include'', ''define'', ''ifdef'', ''ifndef'', ''endif'', ''class'',
    ''public'', ''private'', ''protected'', ''namespace'', ''template'', ''new'', ''delete'',
    ''virtual'', ''override'', ''nullptr'', ''NULL'']"

definition is_ascii_alphabetic :: "u8 \<Rightarrow> bool" where
  "is_ascii_alphabetic b \<longleftrightarrow> is_ascii_lowercase b \<or> is_ascii_uppercase b"

definition is_ascii_alphanumeric :: "u8 \<Rightarrow> bool" where
  "is_ascii_alphanumeric b \<longleftrightarrow> is_ascii_alphabetic b \<or> is_digit b"

definition is_ident_start :: "u8 \<Rightarrow> bool" where
  "is_ident_start b \<longleftrightarrow> b = 95 \<or> is_ascii_alphabetic b"

definition is_ident_cont :: "u8 \<Rightarrow> bool" where
  "is_ident_cont b \<longleftrightarrow> b = 95 \<or> is_ascii_alphanumeric b"

text \<open>The bytes a string or character literal takes after its opening quote, the closing quote included.\<close>

fun literal_len :: "u8 \<Rightarrow> u8 list \<Rightarrow> nat" where
  "literal_len q [] = 0"
| "literal_len q [b] = 1"
| "literal_len q (b # c # r) = (if b = q then 1 else if b = 92 then 2 + literal_len q r else 1 + literal_len q (c # r))"

function highlight_line_kw :: "u8 list list \<Rightarrow> colour \<Rightarrow> u8 list \<Rightarrow> colour list" where
  "highlight_line_kw kws d [] = []"
| "highlight_line_kw kws d (b # r) =
    (if b = 47 \<and> r \<noteq> [] \<and> hd r = 47 then replicate (Suc (length r)) CMT_COLOR
     else if b = 34 \<or> b = 39 then
       (let n = min (literal_len b r) (length r) in replicate (Suc n) STR_COLOR @ highlight_line_kw kws d (drop n r))
     else if is_digit b then
       (let w = takeWhile (\<lambda>c. is_ascii_alphanumeric c \<or> c = 46 \<or> c = 95) r
        in replicate (Suc (length w)) NUM_COLOR @ highlight_line_kw kws d (drop (length w) r))
     else if is_ident_start b then
       (let w = takeWhile is_ident_cont r
        in replicate (Suc (length w)) (if b # w \<in> set kws then KW_COLOR else d) @ highlight_line_kw kws d (drop (length w) r))
     else d # highlight_line_kw kws d r)"
  by pat_completeness auto
termination by (relation "measure (\<lambda>(_, _, l). length l)") auto

definition highlight_line :: "colour \<Rightarrow> u8 list \<Rightarrow> colour list" where
  "highlight_line d line = highlight_line_kw (map str_bytes KEYWORDS) d line"

definition to_lower :: "u8 \<Rightarrow> u8" where
  "to_lower b = (if is_ascii_uppercase b then b + 32 else b)"

definition ends_with :: "u8 list \<Rightarrow> u8 list \<Rightarrow> bool" where
  "ends_with suf xs \<longleftrightarrow> length suf \<le> length xs \<and> drop (length xs - length suf) xs = suf"

definition supports_highlighting :: "u8 list \<Rightarrow> bool" where
  "supports_highlighting path \<longleftrightarrow> list_ex (\<lambda>ext. ends_with (str_bytes ext) (map to_lower path))
     [''.rs'', ''.c'', ''.h'', ''.cpp'', ''.hpp'', ''.cc'', ''.cxx'']"

section \<open>The editor\<close>

record Editor =
  ed_path :: "u8 list"
  lines :: "u8 list list"
  cursor_row :: nat
  cursor_col :: nat
  scroll_row :: nat
  modified :: bool
  status_msg :: "u8 list"
  status_ok :: bool
  ed_open :: bool
  visible_rows_hint :: nat
  highlight :: bool
  select_anchor :: "(nat \<times> nat) option"
  find_mode :: bool
  find_query :: "u8 list"
  find_matches :: "(nat \<times> nat) list"
  find_idx :: nat

text \<open>The clipboard and the disk controller an editor action may use.\<close>

record editor_world =
  CLIPBOARD :: "u8 list"
  NVME :: "fs_state option"

definition clipboard_set :: "u8 list \<Rightarrow> editor_world \<Rightarrow> editor_world" where
  "clipboard_set bs w = w\<lparr>CLIPBOARD := bs\<rparr>"

definition clipboard_get :: "editor_world \<Rightarrow> u8 list" where
  "clipboard_get w = CLIPBOARD w"

definition help_msg :: "u8 list" where
  "help_msg = str_bytes ''F2/Ctrl+S=save  F10=close  Ctrl+F=find''"

definition Editor_new :: "u8 list \<Rightarrow> u8 list \<Rightarrow> Editor" where
  "Editor_new path content = \<lparr>ed_path = path, lines = split_on 10 content, cursor_row = 0, cursor_col = 0, scroll_row = 0,
     modified = False, status_msg = help_msg, status_ok = True, ed_open = True, visible_rows_hint = 20,
     highlight = supports_highlighting path, select_anchor = None, find_mode = False, find_query = [],
     find_matches = [], find_idx = 0\<rparr>"

definition ensure_visible :: "Editor \<Rightarrow> Editor" where
  "ensure_visible e = (if cursor_row e < scroll_row e then e\<lparr>scroll_row := cursor_row e\<rparr> else e)"

definition clamp_col :: "Editor \<Rightarrow> panic + Editor" where
  "clamp_col e = rbind (vec_get (cursor_row e) (lines e)) (\<lambda>l.
     Inr (if length l < cursor_col e then e\<lparr>cursor_col := length l\<rparr> else e))"

subsection \<open>Find\<close>

definition line_matches :: "u8 list \<Rightarrow> nat \<Rightarrow> u8 list \<Rightarrow> (nat \<times> nat) list" where
  "line_matches q r l = map (Pair r) (filter (\<lambda>c. take (length q) (drop c l) = q) [0 ..< Suc (length l) - length q])"

definition find_all :: "Editor \<Rightarrow> Editor" where
  "find_all e = (if find_query e = [] then e\<lparr>find_matches := []\<rparr>
     else e\<lparr>find_matches := concat (map (\<lambda>(r, l). line_matches (find_query e) r l) (List.enumerate 0 (lines e)))\<rparr>)"

definition go_to_match :: "nat \<Rightarrow> Editor \<Rightarrow> panic + Editor" where
  "go_to_match i e = rbind (vec_get i (find_matches e)) (\<lambda>(r, c).
     Inr (ensure_visible (e\<lparr>find_idx := i, cursor_row := r, cursor_col := c\<rparr>)))"

fun match_position :: "nat \<Rightarrow> nat \<Rightarrow> (nat \<times> nat) list \<Rightarrow> nat \<Rightarrow> nat option" where
  "match_position row col [] i = None"
| "match_position row col ((r, c) # ms) i =
    (if row < r \<or> (r = row \<and> col \<le> c) then Some i else match_position row col ms (Suc i))"

definition find_jump_nearest :: "Editor \<Rightarrow> panic + Editor" where
  "find_jump_nearest e = (if find_matches e = [] then Inr e
     else go_to_match (case match_position (cursor_row e) (cursor_col e) (find_matches e) 0 of Some i \<Rightarrow> i | None \<Rightarrow> 0) e)"

definition find_next :: "Editor \<Rightarrow> panic + Editor" where
  "find_next e = (if find_matches e = [] then Inr e
     else go_to_match ((find_idx e + 1) mod length (find_matches e)) e)"

subsection \<open>Selection\<close>

definition pos_le :: "nat \<times> nat \<Rightarrow> nat \<times> nat \<Rightarrow> bool" where
  "pos_le p q \<longleftrightarrow> fst p < fst q \<or> (fst p = fst q \<and> snd p \<le> snd q)"

definition selection_range :: "Editor \<Rightarrow> ((nat \<times> nat) \<times> (nat \<times> nat)) option" where
  "selection_range e = (case select_anchor e of
     None \<Rightarrow> None
   | Some anchor \<Rightarrow>
       let cursor = (cursor_row e, cursor_col e) in
       if anchor = cursor then None
       else Some (if pos_le anchor cursor then (anchor, cursor) else (cursor, anchor)))"

definition selection_cols_for_line :: "nat \<Rightarrow> nat \<Rightarrow> Editor \<Rightarrow> (nat \<times> nat) option" where
  "selection_cols_for_line line_idx line_len e = (case selection_range e of
     None \<Rightarrow> None
   | Some (s, t) \<Rightarrow>
       if line_idx < fst s \<or> fst t < line_idx then None
       else let start = (if line_idx = fst s then snd s else 0); fin = (if line_idx = fst t then snd t else line_len) in
         if fin \<le> start then None else Some (start, fin))"

definition delete_selection_if_any :: "Editor \<Rightarrow> panic + (bool \<times> Editor)" where
  "delete_selection_if_any e = (case selection_range e of
     None \<Rightarrow> Inr (False, e)
   | Some ((sr, sc), (er, ec)) \<Rightarrow>
       let finish = (\<lambda>ls. Inr (True, e\<lparr>lines := ls, cursor_row := sr, cursor_col := sc, select_anchor := None, modified := True\<rparr>)) in
       if sr = er then
         rbind (vec_get sr (lines e)) (\<lambda>line.
         let fin = min ec (length line)
         in finish ((lines e)[sr := take (min sc fin) line @ drop fin line]))
       else
         let e_row = min er (length (lines e) - 1) in
         rbind (vec_get e_row (lines e)) (\<lambda>last_line.
         rbind (vec_get sr (lines e)) (\<lambda>first_line.
         let e_col = min ec (length last_line);
             s_col = min sc (length first_line);
             tail = drop e_col last_line;
             ls = (lines e)[e_row := take e_col last_line];
             ls = ls[sr := take s_col (ls ! sr) @ tail]
         in finish (take (Suc sr) ls @ drop (Suc e_row) ls))))"

definition update_selection_anchor :: "bool \<Rightarrow> Editor \<Rightarrow> Editor" where
  "update_selection_anchor shift e =
    (if shift then (if select_anchor e = None then e\<lparr>select_anchor := Some (cursor_row e, cursor_col e)\<rparr> else e)
     else e\<lparr>select_anchor := None\<rparr>)"

definition move_to :: "nat \<Rightarrow> nat \<Rightarrow> Editor \<Rightarrow> panic + Editor" where
  "move_to row col e =
    (let row = min row (length (lines e) - 1) in
     rbind (vec_get row (lines e)) (\<lambda>l. Inr (e\<lparr>cursor_row := row, cursor_col := min col (length l)\<rparr>)))"

definition mouse_down :: "nat \<Rightarrow> nat \<Rightarrow> Editor \<Rightarrow> panic + Editor" where
  "mouse_down row col e = rbind (move_to row col e) (\<lambda>e.
     Inr (ensure_visible (e\<lparr>select_anchor := Some (cursor_row e, cursor_col e)\<rparr>)))"

definition mouse_drag :: "nat \<Rightarrow> nat \<Rightarrow> Editor \<Rightarrow> panic + Editor" where
  "mouse_drag row col e = rbind (move_to row col e) (\<lambda>e. Inr (ensure_visible e))"

definition select_line :: "nat \<Rightarrow> Editor \<Rightarrow> panic + Editor" where
  "select_line row e =
    (let row = min row (length (lines e) - 1) in
     rbind (vec_get row (lines e)) (\<lambda>l.
     Inr (ensure_visible (e\<lparr>cursor_row := row, cursor_col := length l, select_anchor := Some (row, 0)\<rparr>))))"

subsection \<open>Clipboard and text\<close>

fun middle_rows :: "u8 list list \<Rightarrow> u8 list" where
  "middle_rows [] = []"
| "middle_rows (l # ls) = 10 # l @ middle_rows ls"

definition copy_selection :: "Editor \<Rightarrow> editor_world \<Rightarrow> panic + editor_world" where
  "copy_selection e w = (case selection_range e of
     None \<Rightarrow> Inr w
   | Some ((sr, sc), (er, ec)) \<Rightarrow>
       rbind (vec_get sr (lines e)) (\<lambda>first_line.
       if sr = er then rbind (vec_slice sc ec first_line) (\<lambda>buf. Inr (clipboard_set buf w))
       else
         rbind (vec_slice sc (length first_line) first_line) (\<lambda>a.
         rbind (vec_slice (sr + 1) er (lines e)) (\<lambda>rows.
         rbind (vec_get er (lines e)) (\<lambda>last_line.
         rbind (vec_slice 0 ec last_line) (\<lambda>z.
         Inr (clipboard_set (a @ middle_rows rows @ 10 # z) w)))))))"

definition break_line :: "Editor \<Rightarrow> panic + Editor" where
  "break_line e =
    rbind (vec_get (cursor_row e) (lines e)) (\<lambda>l.
    rbind (vec_split_off (cursor_col e) l) (\<lambda>(a, rest).
    rbind (vec_insert (cursor_row e + 1) rest ((lines e)[cursor_row e := a])) (\<lambda>ls.
    Inr (e\<lparr>lines := ls, cursor_row := cursor_row e + 1, cursor_col := 0\<rparr>))))"

definition put_byte :: "u8 \<Rightarrow> Editor \<Rightarrow> panic + Editor" where
  "put_byte b e =
    rbind (vec_get (cursor_row e) (lines e)) (\<lambda>l.
    rbind (vec_insert (cursor_col e) b l) (\<lambda>l.
    Inr (e\<lparr>lines := (lines e)[cursor_row e := l], cursor_col := cursor_col e + 1\<rparr>)))"

fun insert_bytes :: "u8 list \<Rightarrow> Editor \<Rightarrow> panic + Editor" where
  "insert_bytes [] e = Inr e"
| "insert_bytes (b # bs) e =
    rbind (if b = 10 then break_line e else if 32 \<le> b \<and> b < 128 then put_byte b e else Inr e) (insert_bytes bs)"

definition insert_text :: "u8 list \<Rightarrow> Editor \<Rightarrow> panic + Editor" where
  "insert_text bs e = rbind (insert_bytes bs e) (\<lambda>e. Inr ((ensure_visible e)\<lparr>modified := True\<rparr>))"

definition paste_clipboard :: "Editor \<Rightarrow> editor_world \<Rightarrow> panic + Editor" where
  "paste_clipboard e w = rbind (delete_selection_if_any e) (\<lambda>(_, e). insert_text (clipboard_get w) e)"

definition clipboard_action :: "bool \<Rightarrow> Editor \<times> editor_world \<Rightarrow> panic + (Editor \<times> editor_world)" where
  "clipboard_action is_paste ew = (case ew of (e, w) \<Rightarrow>
     if is_paste then rbind (paste_clipboard e w) (\<lambda>e. Inr (e, w)) else rbind (copy_selection e w) (\<lambda>w. Inr (e, w)))"

fun join_lines :: "u8 list list \<Rightarrow> u8 list" where
  "join_lines [] = []"
| "join_lines [l] = l"
| "join_lines (l # ls) = l @ 10 # join_lines ls"

definition trim_start_slash :: "u8 list \<Rightarrow> u8 list" where
  "trim_start_slash path = dropWhile (\<lambda>b. b = 47) path"

definition save :: "Editor \<times> editor_world \<Rightarrow> panic + (Editor \<times> editor_world)" where
  "save ew = (case ew of (e, w) \<Rightarrow>
    (let data = join_lines (lines e) in
     case NVME w of
       None \<Rightarrow> Inr (e\<lparr>status_msg := str_bytes ''ERROR: no NVMe controller'', status_ok := False\<rparr>, w)
     | Some fs \<Rightarrow>
         rbind (lookup (ed_path e) fs) (\<lambda>(found, fs).
         rbind (case found of
             Some ino \<Rightarrow> Inr (ino, fs)
           | None \<Rightarrow> create_file ROOT_INO (trim_start_slash (ed_path e)) fs) (\<lambda>(ino, fs).
         rbind (write_file ino data fs) (\<lambda>fs.
         Inr (e\<lparr>modified := False, status_msg := str_bytes ''Saved '' @ ed_path e @ str_bytes '' ('' @ decimal (length data) @
                str_bytes '' bytes)'', status_ok := True\<rparr>, w\<lparr>NVME := Some fs\<rparr>))))))"

section \<open>Keys\<close>

definition KEY_F2 :: u8 where "KEY_F2 = 0x92"
definition KEY_F10 :: u8 where "KEY_F10 = 0x9A"

definition find_key :: "u8 \<Rightarrow> Editor \<Rightarrow> panic + Editor" where
  "find_key ch e =
    (if ch = 0x1B then Inr (e\<lparr>find_mode := False, find_query := [], find_matches := [], status_msg := help_msg, status_ok := True\<rparr>)
     else if ch = 10 \<or> ch = 7 then find_next e
     else if ch = 8 then find_jump_nearest (find_all (e\<lparr>find_query := butlast (find_query e)\<rparr>))
     else if 32 \<le> ch \<and> ch < 128 then find_jump_nearest (find_all (e\<lparr>find_query := find_query e @ [ch]\<rparr>))
     else Inr e)"

definition toggle_find :: "Editor \<Rightarrow> panic + Editor" where
  "toggle_find e = (if \<not> find_mode e then Inr (e\<lparr>find_mode := True, find_query := [], find_matches := [], find_idx := 0\<rparr>)
     else find_next e)"

definition close_key :: "Editor \<Rightarrow> Editor" where
  "close_key e = (if modified e
     then e\<lparr>status_msg := str_bytes ''Unsaved! Press again to force close'', status_ok := False, modified := False\<rparr>
     else e\<lparr>ed_open := False\<rparr>)"

definition key_up :: "Editor \<Rightarrow> panic + Editor" where
  "key_up e = (if 0 < cursor_row e
     then rbind (clamp_col (e\<lparr>cursor_row := cursor_row e - 1\<rparr>)) (\<lambda>e. Inr (ensure_visible e)) else Inr e)"

definition key_down :: "Editor \<Rightarrow> panic + Editor" where
  "key_down e = (if cursor_row e + 1 < length (lines e)
     then rbind (clamp_col (e\<lparr>cursor_row := cursor_row e + 1\<rparr>)) (\<lambda>e. Inr (ensure_visible e)) else Inr e)"

definition key_left :: "Editor \<Rightarrow> panic + Editor" where
  "key_left e = (if 0 < cursor_col e then Inr (e\<lparr>cursor_col := cursor_col e - 1\<rparr>)
     else if 0 < cursor_row e
     then rbind (vec_get (cursor_row e - 1) (lines e)) (\<lambda>l.
       Inr (ensure_visible (e\<lparr>cursor_row := cursor_row e - 1, cursor_col := length l\<rparr>)))
     else Inr e)"

definition key_right :: "Editor \<Rightarrow> panic + Editor" where
  "key_right e = rbind (vec_get (cursor_row e) (lines e)) (\<lambda>l.
     Inr (if cursor_col e < length l then e\<lparr>cursor_col := cursor_col e + 1\<rparr>
       else if cursor_row e + 1 < length (lines e)
       then ensure_visible (e\<lparr>cursor_row := cursor_row e + 1, cursor_col := 0\<rparr>) else e))"

definition key_home :: "bool \<Rightarrow> Editor \<Rightarrow> Editor" where
  "key_home ctrl e = (if ctrl then e\<lparr>cursor_row := 0, cursor_col := 0, scroll_row := 0\<rparr> else e\<lparr>cursor_col := 0\<rparr>)"

definition key_end :: "bool \<Rightarrow> Editor \<Rightarrow> panic + Editor" where
  "key_end ctrl e =
    (let row = (if ctrl then length (lines e) - 1 else cursor_row e) in
     rbind (vec_get row (lines e)) (\<lambda>l.
     let e = e\<lparr>cursor_row := row, cursor_col := length l\<rparr> in Inr (if ctrl then ensure_visible e else e)))"

definition key_page :: "bool \<Rightarrow> Editor \<Rightarrow> panic + Editor" where
  "key_page up e =
    (let page = max (visible_rows_hint e) 1;
         row = (if up then cursor_row e - page else min (cursor_row e + page) (length (lines e) - 1)) in
     rbind (clamp_col (e\<lparr>cursor_row := row\<rparr>)) (\<lambda>e. Inr (ensure_visible e)))"

definition key_enter :: "Editor \<Rightarrow> panic + Editor" where
  "key_enter e = rbind (delete_selection_if_any e) (\<lambda>(_, e).
     rbind (break_line e) (\<lambda>e. Inr ((ensure_visible e)\<lparr>modified := True\<rparr>)))"

definition key_backspace :: "Editor \<Rightarrow> panic + Editor" where
  "key_backspace e = rbind (delete_selection_if_any e) (\<lambda>(deleted, e).
     if deleted then Inr (ensure_visible e)
     else if 0 < cursor_col e then
       rbind (vec_get (cursor_row e) (lines e)) (\<lambda>l.
       rbind (vec_remove (cursor_col e - 1) l) (\<lambda>(_, l).
       Inr (e\<lparr>cursor_col := cursor_col e - 1, lines := (lines e)[cursor_row e := l], modified := True\<rparr>)))
     else if 0 < cursor_row e then
       rbind (vec_remove (cursor_row e) (lines e)) (\<lambda>(cur, ls).
       rbind (vec_get (cursor_row e - 1) ls) (\<lambda>prev.
       Inr ((ensure_visible (e\<lparr>cursor_row := cursor_row e - 1, cursor_col := length prev,
              lines := ls[cursor_row e - 1 := prev @ cur]\<rparr>))\<lparr>modified := True\<rparr>)))
     else Inr e)"

definition key_delete :: "Editor \<Rightarrow> panic + Editor" where
  "key_delete e = rbind (delete_selection_if_any e) (\<lambda>(deleted, e).
     if deleted then Inr (ensure_visible e)
     else rbind (vec_get (cursor_row e) (lines e)) (\<lambda>l.
       if cursor_col e < length l then
         rbind (vec_remove (cursor_col e) l) (\<lambda>(_, l). Inr (e\<lparr>lines := (lines e)[cursor_row e := l], modified := True\<rparr>))
       else if cursor_row e + 1 < length (lines e) then
         rbind (vec_remove (cursor_row e + 1) (lines e)) (\<lambda>(nxt, ls).
         rbind (vec_get (cursor_row e) ls) (\<lambda>cur.
         Inr (e\<lparr>lines := ls[cursor_row e := cur @ nxt], modified := True\<rparr>)))
       else Inr e))"

fun put_bytes_at_cursor :: "u8 list \<Rightarrow> Editor \<Rightarrow> panic + Editor" where
  "put_bytes_at_cursor [] e = Inr e"
| "put_bytes_at_cursor (b # bs) e = rbind (put_byte b e) (put_bytes_at_cursor bs)"

definition key_type :: "u8 list \<Rightarrow> Editor \<Rightarrow> panic + Editor" where
  "key_type bs e = rbind (delete_selection_if_any e) (\<lambda>(_, e).
     rbind (put_bytes_at_cursor bs e) (\<lambda>e. Inr (e\<lparr>modified := True\<rparr>)))"

definition edit_key :: "bool \<Rightarrow> bool \<Rightarrow> u8 \<Rightarrow> Editor \<Rightarrow> panic + Editor" where
  "edit_key shift ctrl ch e =
    (if ch = 0x11 \<or> ch = 0x1B then Inr (close_key e)
     else if ch = KEY_F10 then Inr (e\<lparr>ed_open := False\<rparr>)
     else if ch = KEY_UP then key_up (update_selection_anchor shift e)
     else if ch = KEY_DOWN then key_down (update_selection_anchor shift e)
     else if ch = KEY_LEFT then key_left (update_selection_anchor shift e)
     else if ch = KEY_RIGHT then key_right (update_selection_anchor shift e)
     else if ch = KEY_HOME then Inr (key_home ctrl (update_selection_anchor shift e))
     else if ch = KEY_END then key_end ctrl (update_selection_anchor shift e)
     else if ch = KEY_PGUP then key_page True (update_selection_anchor shift e)
     else if ch = KEY_PGDN then key_page False (update_selection_anchor shift e)
     else if ch = 10 then key_enter e
     else if ch = 8 then key_backspace e
     else if ch = KEY_DEL then key_delete e
     else if ch = 9 then key_type [32, 32, 32, 32] e
     else if 32 \<le> ch \<and> ch < 128 then key_type [ch] e
     else Inr e)"

definition on_key :: "bool \<Rightarrow> bool \<Rightarrow> u8 \<Rightarrow> Editor \<times> editor_world \<Rightarrow> panic + (Editor \<times> editor_world)" where
  "on_key shift ctrl ch ew = (case ew of (e, w) \<Rightarrow>
     if ch = 6 then rbind (toggle_find e) (\<lambda>e. Inr (e, w))
     else if find_mode e then rbind (find_key ch e) (\<lambda>e. Inr (e, w))
     else if ch = 0x13 \<or> ch = KEY_F2 then save (e, w)
     else if ch = 3 \<or> (ch = 67 \<and> ctrl) then rbind (copy_selection e w) (\<lambda>w. Inr (e, w))
     else if ch = 0x16 \<or> (ch = 86 \<and> ctrl) then rbind (paste_clipboard e w) (\<lambda>e. Inr (e, w))
     else rbind (edit_key shift ctrl ch e) (\<lambda>e. Inr (e, w)))"

definition read_content :: "u8 list \<Rightarrow> editor_world \<Rightarrow> panic + (u8 list \<times> editor_world)" where
  "read_content path w = (case NVME w of
     None \<Rightarrow> Inr ([], w)
   | Some fs \<Rightarrow> rbind (lookup path fs) (\<lambda>(found, fs). case found of
       Some ino \<Rightarrow> rbind (read_file ino fs) (\<lambda>(bs, fs). Inr (bs, w\<lparr>NVME := Some fs\<rparr>))
     | None \<Rightarrow> Inr ([], w\<lparr>NVME := Some fs\<rparr>)))"

definition open_editor :: "u8 list \<Rightarrow> editor_world \<Rightarrow> panic + (Editor \<times> editor_world)" where
  "open_editor path w = rbind (read_content path w) (\<lambda>(bs, w). Inr (Editor_new path bs, w))"

section \<open>The text of a buffer\<close>

text \<open>\<open>offset\<close> is the place of the cursor in the text of the whole buffer.\<close>

definition ed_text :: "Editor \<Rightarrow> u8 list" where
  "ed_text e = join_lines (lines e)"

definition offset :: "Editor \<Rightarrow> nat" where
  "offset e = length (concat (map (\<lambda>l. l @ [10]) (take (cursor_row e) (lines e)))) + cursor_col e"

definition cursor_ok :: "Editor \<Rightarrow> bool" where
  "cursor_ok e \<longleftrightarrow> cursor_row e < length (lines e) \<and> cursor_col e \<le> length (lines e ! cursor_row e)"

lemma join_split: "join_lines (split_on 10 bs) = bs"
proof (induction bs)
  case (Cons b bs)
  obtain p ps where "split_on 10 bs = p # ps" by (cases "split_on 10 bs") simp_all
  then show ?case using Cons by (cases ps) auto
qed simp

lemma join_lines_append:
  "join_lines (xs @ l # ys) = concat (map (\<lambda>l. l @ [10]) xs) @ l @ (if ys = [] then [] else 10 # join_lines ys)"
proof (induction xs)
  case Nil
  show ?case by (cases ys) simp_all
next
  case (Cons x xs)
  then show ?case by (cases xs) simp_all
qed

text \<open>The text around the cursor of a well-formed editor.\<close>

definition text_after :: "Editor \<Rightarrow> u8 list" where
  "text_after e = drop (cursor_col e) (lines e ! cursor_row e) @
     (if drop (Suc (cursor_row e)) (lines e) = [] then [] else 10 # join_lines (drop (Suc (cursor_row e)) (lines e)))"

definition text_before :: "Editor \<Rightarrow> u8 list" where
  "text_before e = concat (map (\<lambda>l. l @ [10]) (take (cursor_row e) (lines e))) @ take (cursor_col e) (lines e ! cursor_row e)"

lemma ed_text_split:
  assumes "cursor_ok e"
  shows "ed_text e = text_before e @ text_after e" "length (text_before e) = offset e"
proof -
  have r: "cursor_row e < length (lines e)" using assms by (simp add: cursor_ok_def)
  have "ed_text e = join_lines (take (cursor_row e) (lines e) @ lines e ! cursor_row e # drop (Suc (cursor_row e)) (lines e))"
    unfolding ed_text_def using id_take_nth_drop [OF r] by (rule arg_cong)
  moreover have "l @ z = take c l @ drop c l @ z" for l z :: "u8 list" and c by (simp flip: append_assoc)
  ultimately show "ed_text e = text_before e @ text_after e"
    unfolding join_lines_append text_before_def text_after_def by (simp only: append_assoc)
  show "length (text_before e) = offset e" using assms by (simp add: text_before_def offset_def cursor_ok_def)
qed

text \<open>
  \<open>splices bs e e'\<close>: the bytes \<open>bs\<close> came between the text before the cursor and the text after it, and the cursor
  is behind them.
\<close>

definition splices :: "u8 list \<Rightarrow> Editor \<Rightarrow> Editor \<Rightarrow> bool" where
  "splices bs e e' \<longleftrightarrow> cursor_ok e' \<and> text_before e' = text_before e @ bs \<and> text_after e' = text_after e \<and>
     select_anchor e' = select_anchor e \<and> scroll_row e' = scroll_row e"

lemma splices_trans: "splices bs e e' \<Longrightarrow> splices cs e' e'' \<Longrightarrow> splices (bs @ cs) e e''"
  by (simp add: splices_def)

lemma put_byte_splices:
  assumes "cursor_ok e"
  obtains e' where "put_byte b e = Inr e'" "splices [b] e e'"
proof -
  let ?l = "lines e ! cursor_row e" and ?r = "cursor_row e" and ?c = "cursor_col e"
  let ?e = "e\<lparr>lines := (lines e)[?r := take ?c ?l @ b # drop ?c ?l], cursor_col := ?c + 1\<rparr>"
  have r: "?r < length (lines e)" "?c \<le> length ?l" using assms by (simp_all add: cursor_ok_def)
  have "put_byte b e = Inr ?e" using r by (simp add: put_byte_def vec_get_def vec_insert_def)
  moreover have "splices [b] e ?e"
    using r by (simp add: splices_def cursor_ok_def text_before_def text_after_def min_def)
  ultimately show ?thesis by (rule that)
qed

lemma break_line_splices:
  assumes "cursor_ok e"
  obtains e' where "break_line e = Inr e'" "splices [10] e e'"
proof -
  let ?l = "lines e ! cursor_row e" and ?r = "cursor_row e" and ?c = "cursor_col e"
  let ?ls = "(lines e)[?r := take ?c ?l]"
  let ?e = "e\<lparr>lines := take (?r + 1) ?ls @ drop ?c ?l # drop (?r + 1) ?ls, cursor_row := ?r + 1, cursor_col := 0\<rparr>"
  have r: "?r < length (lines e)" "?c \<le> length ?l" using assms by (simp_all add: cursor_ok_def)
  have "break_line e = Inr ?e" using r by (simp add: break_line_def vec_get_def vec_split_off_def vec_insert_def)
  moreover have "take (Suc ?r) ?ls = take ?r (lines e) @ [take ?c ?l]"
    using r by (simp add: take_Suc_conv_app_nth)
  then have "splices [10] e ?e"
    using r by (simp add: splices_def cursor_ok_def text_before_def text_after_def nth_append)
  ultimately show ?thesis by (rule that)
qed

definition typed :: "u8 list \<Rightarrow> u8 list" where
  "typed bs = filter (\<lambda>b. b = 10 \<or> (32 \<le> b \<and> b < 128)) bs"

lemma insert_bytes_splices:
  assumes "cursor_ok e"
  shows "\<exists>e'. insert_bytes bs e = Inr e' \<and> splices (typed bs) e e'"
  using assms
proof (induction bs arbitrary: e)
  case Nil
  then show ?case by (simp add: splices_def typed_def)
next
  case (Cons b bs)
  let ?step = "if b = 10 then break_line e else if 32 \<le> b \<and> b < 128 then put_byte b e else Inr e"
  have "\<exists>e1. ?step = Inr e1 \<and> splices (typed [b]) e e1"
  proof (cases "b = 10")
    case True
    then show ?thesis using break_line_splices [OF Cons.prems] by (auto simp: typed_def)
  next
    case False
    show ?thesis
    proof (cases "32 \<le> b \<and> b < 128")
      case True
      obtain e1 where "put_byte b e = Inr e1" "splices [b] e e1" by (rule put_byte_splices [OF Cons.prems])
      then show ?thesis using False True by (simp add: typed_def)
    next
      case n: False
      have "typed [b] = []" using False n by (simp add: typed_def)
      moreover have "splices [] e e" using Cons.prems by (simp add: splices_def)
      ultimately show ?thesis using False n by auto
    qed
  qed
  then obtain e1 where e1: "?step = Inr e1" "splices (typed [b]) e e1" by blast
  then have "cursor_ok e1" by (simp add: splices_def)
  then obtain e2 where e2: "insert_bytes bs e1 = Inr e2" "splices (typed bs) e1 e2" using Cons.IH by blast
  have "insert_bytes (b # bs) e = Inr e2" using e1(1) e2(1) by (simp only: insert_bytes.simps rbind_simps)
  moreover have "typed (b # bs) = typed [b] @ typed bs" by (simp add: typed_def)
  then have "splices (typed (b # bs)) e e2" using splices_trans [OF e1(2) e2(2)] by (simp only:)
  ultimately show ?case by blast
qed

lemma ensure_visible_fields [simp]:
  "lines (ensure_visible e) = lines e" "cursor_row (ensure_visible e) = cursor_row e" "cursor_col (ensure_visible e) = cursor_col e"
  "select_anchor (ensure_visible e) = select_anchor e" "find_mode (ensure_visible e) = find_mode e"
  "find_matches (ensure_visible e) = find_matches e"
  "text_before (ensure_visible e) = text_before e" "text_after (ensure_visible e) = text_after e"
  "cursor_ok (ensure_visible e) = cursor_ok e"
  by (simp_all add: ensure_visible_def text_before_def text_after_def cursor_ok_def)

lemma modified_text [simp]:
  "text_before (e\<lparr>modified := m\<rparr>) = text_before e" "text_after (e\<lparr>modified := m\<rparr>) = text_after e" "cursor_ok (e\<lparr>modified := m\<rparr>) = cursor_ok e"
  "ed_text (e\<lparr>modified := m\<rparr>) = ed_text e" "offset (e\<lparr>modified := m\<rparr>) = offset e"
  by (simp_all add: text_before_def text_after_def cursor_ok_def ed_text_def offset_def)

text \<open>
  C29: inserting text, by paste or otherwise, is insertion into the text of the buffer: it never panics from a
  valid cursor, and the buffer's text becomes the old text with the printable bytes and newlines of the argument
  spliced in at the cursor's offset, the cursor standing behind them.
\<close>

theorem insert_text_splices:
  assumes "cursor_ok e"
  shows "\<exists>e'. insert_text bs e = Inr e' \<and> cursor_ok e' \<and> offset e' = offset e + length (typed bs) \<and>
    ed_text e' = take (offset e) (ed_text e) @ typed bs @ drop (offset e) (ed_text e)"
proof -
  obtain e1 where e1: "insert_bytes bs e = Inr e1" "splices (typed bs) e e1" using insert_bytes_splices [OF assms] by blast
  define e' where "e' = (ensure_visible e1)\<lparr>modified := True\<rparr>"
  have t: "text_before e' = text_before e @ typed bs" "text_after e' = text_after e" "cursor_ok e'"
    using e1(2) by (simp_all add: e'_def splices_def)
  note s = ed_text_split [OF assms] and s' = ed_text_split [OF t(3)]
  have "insert_text bs e = Inr e'" using e1(1) by (simp add: insert_text_def e'_def)
  moreover have "take (offset e) (ed_text e) = text_before e" "drop (offset e) (ed_text e) = text_after e"
    using s by (simp_all flip: s(2))
  moreover have "offset e' = offset e + length (typed bs)" using s(2) s'(2) t(1) by simp
  ultimately show ?thesis using t s'(1) by simp
qed

theorem insert_text_splices_witness:
  "\<exists>e'. insert_text [104, 10, 105] (Editor_new [] [97, 98]) = Inr e' \<and> ed_text e' = [104, 10, 105, 97, 98]"
proof -
  have c: "cursor_ok (Editor_new [] [97, 98])" by (simp add: cursor_ok_def Editor_new_def)
  have o: "offset (Editor_new [] [97, 98]) = 0" "ed_text (Editor_new [] [97, 98]) = [97, 98]"
    by (simp_all add: offset_def ed_text_def Editor_new_def)
  have t: "typed [104, 10, 105] = [104, 10, 105]" by (simp add: typed_def)
  show ?thesis using insert_text_splices [OF c, of "[104, 10, 105]"] o t by auto
qed

text \<open>The text of a file as opened is its content, so that saving it unedited writes back the same bytes.\<close>

lemma editor_new_text: "ed_text (Editor_new path content) = content \<and> cursor_ok (Editor_new path content)"
  by (simp add: ed_text_def Editor_new_def join_split cursor_ok_def)

section \<open>Keys without a selection\<close>

definition ed_ok :: "Editor \<Rightarrow> bool" where
  "ed_ok e \<longleftrightarrow> cursor_ok e \<and> select_anchor e = None \<and> (\<not> find_mode e \<longrightarrow> find_matches e = []) \<and>
     (\<forall>(r, c) \<in> set (find_matches e). r < length (lines e) \<and> c \<le> length (lines e ! r))"

definition safe :: "panic + Editor \<Rightarrow> bool" where
  "safe m \<longleftrightarrow> (\<exists>e. m = Inr e \<and> ed_ok e)"

lemma safe_Inr [simp]: "safe (Inr e) = ed_ok e"
  by (simp add: safe_def)

lemma no_selection: "select_anchor e = None \<Longrightarrow> delete_selection_if_any e = Inr (False, e)"
  by (simp add: delete_selection_if_any_def selection_range_def)

lemma ed_ok_visible [simp]: "ed_ok (ensure_visible e) = ed_ok e"
  by (simp add: ed_ok_def)

lemma ed_ok_modified [simp]: "ed_ok (e\<lparr>modified := m\<rparr>) = ed_ok e"
  by (simp add: ed_ok_def)

lemma clamp_safe:
  assumes "ed_ok e" "row < length (lines e)"
  shows "safe (rbind (clamp_col (e\<lparr>cursor_row := row\<rparr>)) (\<lambda>e. Inr (ensure_visible e)))"
  using assms by (auto simp: clamp_col_def vec_get_def ed_ok_def cursor_ok_def)

lemma move_keys_safe:
  assumes "ed_ok e"
  shows "safe (key_up e)" "safe (key_down e)" "safe (key_left e)" "safe (key_right e)" "safe (Inr (key_home ctrl e))"
    "safe (key_end ctrl e)" "safe (key_page up e)"
proof -
  have c: "cursor_row e < length (lines e)" "cursor_col e \<le> length (lines e ! cursor_row e)" "lines e \<noteq> []"
    using assms by (auto simp: ed_ok_def cursor_ok_def)
  show "safe (key_up e)" "safe (key_down e)" "safe (key_page up e)"
    using c assms by (auto simp: key_up_def key_down_def key_page_def Let_def intro!: clamp_safe)
  show "safe (key_left e)" "safe (key_right e)" "safe (Inr (key_home ctrl e))" "safe (key_end ctrl e)"
    using c assms by (auto simp: key_left_def key_right_def key_home_def key_end_def vec_get_def ed_ok_def cursor_ok_def Let_def)
qed

lemma splices_ok: "splices bs e e' \<Longrightarrow> find_mode e' = find_mode e \<Longrightarrow> find_matches e' = find_matches e \<Longrightarrow> ed_ok e \<Longrightarrow> \<not> find_mode e \<Longrightarrow> ed_ok e'"
  by (simp add: splices_def ed_ok_def)

lemma put_byte_find: "put_byte b e = Inr e' \<Longrightarrow> find_mode e' = find_mode e \<and> find_matches e' = find_matches e"
  by (auto simp: put_byte_def rbind_eq_Inr)

lemma break_line_find: "break_line e = Inr e' \<Longrightarrow> find_mode e' = find_mode e \<and> find_matches e' = find_matches e"
  by (auto simp: break_line_def rbind_eq_Inr)

lemma insert_bytes_find: "insert_bytes bs e = Inr e' \<Longrightarrow> find_mode e' = find_mode e \<and> find_matches e' = find_matches e"
  by (induction bs arbitrary: e) (auto simp: rbind_eq_Inr dest!: put_byte_find break_line_find split: if_splits)

lemma put_bytes_safe:
  assumes "ed_ok e" "\<not> find_mode e"
  shows "\<exists>e'. put_bytes_at_cursor bs e = Inr e' \<and> ed_ok e'"
  using assms
proof (induction bs arbitrary: e)
  case (Cons b bs)
  have "cursor_ok e" using Cons.prems by (simp add: ed_ok_def)
  then obtain e1 where e1: "put_byte b e = Inr e1" "splices [b] e e1" by (rule put_byte_splices)
  have f: "find_mode e1 = find_mode e" "find_matches e1 = find_matches e" using put_byte_find [OF e1(1)] by simp_all
  have "ed_ok e1" by (rule splices_ok [OF e1(2) f]) (use Cons.prems in simp_all)
  then show ?case using Cons.IH [of e1] Cons.prems(2) e1(1) f(1) by simp
qed simp

lemma type_keys_safe:
  assumes "ed_ok e" "\<not> find_mode e"
  shows "safe (key_type bs e)" "safe (key_enter e)" "safe (paste_clipboard e w)"
proof -
  have n: "delete_selection_if_any e = Inr (False, e)" and c: "cursor_ok e" using assms by (simp_all add: no_selection ed_ok_def)
  show "safe (key_type bs e)" using put_bytes_safe [OF assms, of bs] n by (auto simp: key_type_def)
  obtain e1 where e1: "break_line e = Inr e1" "splices [10] e e1" by (rule break_line_splices [OF c])
  then have "ed_ok e1" using break_line_find [OF e1(1)] splices_ok [OF e1(2)] assms by simp
  then show "safe (key_enter e)" using n e1(1) by (simp add: key_enter_def)
  obtain e2 where e2: "insert_bytes (clipboard_get w) e = Inr e2" "splices (typed (clipboard_get w)) e e2"
    using insert_bytes_splices [OF c] by blast
  then have "ed_ok e2" using insert_bytes_find [OF e2(1)] splices_ok [OF e2(2)] assms by simp
  then show "safe (paste_clipboard e w)" using n e2(1) by (simp add: paste_clipboard_def insert_text_def)
qed

lemma delete_keys_safe:
  assumes "ed_ok e" "\<not> find_mode e"
  shows "safe (key_backspace e)" "safe (key_delete e)"
proof -
  have n: "delete_selection_if_any e = Inr (False, e)" using assms by (simp add: no_selection ed_ok_def)
  have c: "cursor_row e < length (lines e)" "cursor_col e \<le> length (lines e ! cursor_row e)" "find_matches e = []" "select_anchor e = None"
    using assms by (auto simp: ed_ok_def cursor_ok_def)
  let ?r = "cursor_row e" and ?c = "cursor_col e"
  have ok: "ed_ok (e\<lparr>cursor_row := r, cursor_col := k, lines := ls, modified := True\<rparr>)"
    if "r < length ls" "k \<le> length (ls ! r)" for r k ls
    using that c(3,4) by (simp add: ed_ok_def cursor_ok_def)
  show "safe (key_backspace e)"
  proof (cases "?c = 0 \<and> 0 < ?r")
    case True
    then have "?r - 1 < length (take ?r (lines e) @ drop (Suc ?r) (lines e))" using c(1) by auto
    then show ?thesis using True c n ok [of "?r - 1" "(take ?r (lines e) @ drop (Suc ?r) (lines e))[?r - 1 := (take ?r (lines e) @ drop (Suc ?r) (lines e)) ! (?r - 1) @ lines e ! ?r]"]
      by (simp add: key_backspace_def vec_get_def vec_remove_def)
  next
    case False
    then show ?thesis using c n assms(1) ok [of ?r "(lines e)[?r := take (?c - 1) (lines e ! ?r) @ drop (Suc (?c - 1)) (lines e ! ?r)]" "?c - 1"]
      by (auto simp: key_backspace_def vec_get_def vec_remove_def ed_ok_def cursor_ok_def)
  qed
  show "safe (key_delete e)"
  proof (cases "?c < length (lines e ! ?r)")
    case True
    then show ?thesis using c n by (simp add: key_delete_def vec_get_def vec_remove_def ed_ok_def cursor_ok_def)
  next
    case False
    show ?thesis
    proof (cases "Suc ?r < length (lines e)")
      case True
      then have "?r < Suc (length (lines e) - 2)" by linarith
      then show ?thesis using True False c n
        by (simp add: key_delete_def vec_get_def vec_remove_def) (simp add: ed_ok_def cursor_ok_def nth_append)
    next
      case last: False
      then show ?thesis using False c n assms(1) by (simp add: key_delete_def vec_get_def)
    qed
  qed
qed

lemma line_matches_set:
  "(r', c) \<in> set (line_matches q r l) \<longleftrightarrow> r' = r \<and> c + length q \<le> length l \<and> take (length q) (drop c l) = q"
proof -
  have "take (length q) (drop c l) = q \<Longrightarrow> c \<le> length l \<Longrightarrow> c + length q \<le> length l"
    by (drule arg_cong [of _ _ length]) (simp add: min_def split: if_splits)
  then show ?thesis by (auto simp: line_matches_def)
qed

lemma find_all_set:
  "(r, c) \<in> set (find_matches (find_all e)) \<longleftrightarrow> find_query e \<noteq> [] \<and> r < length (lines e) \<and>
     c + length (find_query e) \<le> length (lines e ! r) \<and> take (length (find_query e)) (drop c (lines e ! r)) = find_query e"
  by (auto simp: find_all_def line_matches_set in_set_enumerate_eq) 

lemma find_all_fields [simp]: "lines (find_all e) = lines e" "cursor_row (find_all e) = cursor_row e" "cursor_col (find_all e) = cursor_col e"
  "select_anchor (find_all e) = select_anchor e" "find_mode (find_all e) = find_mode e"
  by (simp_all add: find_all_def)

lemma match_position_less: "match_position row col ms i = Some j \<Longrightarrow> j < i + length ms"
  by (induction row col ms i rule: match_position.induct) (auto split: if_splits)

lemma go_to_match_safe:
  assumes "ed_ok e" "find_mode e" "i < length (find_matches e)"
  shows "safe (go_to_match i e)"
proof -
  obtain r c where m: "find_matches e ! i = (r, c)" by (cases "find_matches e ! i")
  then have "(r, c) \<in> set (find_matches e)" using assms(3) nth_mem by fastforce
  then have "r < length (lines e)" "c \<le> length (lines e ! r)" using assms(1) by (auto simp: ed_ok_def)
  then show ?thesis using assms m by (simp add: go_to_match_def vec_get_def) (simp add: ed_ok_def cursor_ok_def)
qed

lemma find_next_safe: "ed_ok e \<Longrightarrow> find_mode e \<Longrightarrow> safe (find_next e)"
  by (auto simp: find_next_def intro!: go_to_match_safe)

lemma find_jump_safe: "ed_ok e \<Longrightarrow> find_mode e \<Longrightarrow> safe (find_jump_nearest e)"
  by (auto simp: find_jump_nearest_def intro!: go_to_match_safe split: option.split dest!: match_position_less)

lemma find_all_ok: "ed_ok e \<Longrightarrow> find_mode e \<Longrightarrow> ed_ok (find_all (e\<lparr>find_query := q\<rparr>))"
  by (auto simp: ed_ok_def cursor_ok_def find_all_set)

lemma find_key_safe:
  assumes "ed_ok e" "find_mode e"
  shows "safe (find_key ch e)"
proof -
  have "safe (find_jump_nearest (find_all (e\<lparr>find_query := q\<rparr>)))" for q
    using find_all_ok [OF assms] assms(2) by (intro find_jump_safe) simp_all
  moreover have "ed_ok (e\<lparr>find_mode := False, find_query := [], find_matches := [], status_msg := help_msg, status_ok := True\<rparr>)"
    using assms(1) by (simp add: ed_ok_def cursor_ok_def)
  ultimately show ?thesis using assms find_next_safe [OF assms] by (simp add: find_key_def)
qed

lemma edit_key_safe:
  assumes "ed_ok e" "\<not> find_mode e"
  shows "safe (edit_key False ctrl ch e)"
proof -
  have u: "update_selection_anchor False e = e" using assms by (simp add: update_selection_anchor_def ed_ok_def)
  have "ed_ok (close_key e)" "ed_ok (e\<lparr>ed_open := False\<rparr>)" using assms by (simp_all add: close_key_def ed_ok_def cursor_ok_def)
  then show ?thesis
    using move_keys_safe [OF assms(1)] type_keys_safe [OF assms] delete_keys_safe [OF assms] assms(1)
    by (simp add: edit_key_def u)
qed

text \<open>
  C30: without a selection the editor never panics: from a well-formed state (cursor inside the buffer, matches inside
  the buffer, nothing selected) every key pressed without shift, other than the two that write the file to
  the disk, leads to a well-formed state.
\<close>

theorem editor_keys_safe:
  assumes "ed_ok e" "ch \<noteq> 0x13" "ch \<noteq> KEY_F2"
  shows "\<exists>e'. on_key False ctrl ch (e, w) = Inr (e', w) \<and> ed_ok e'"
proof -
  have lift: "\<exists>e'. rbind m (\<lambda>e. Inr (e, w)) = Inr (e', w) \<and> ed_ok e'" if "safe m" for m
    using that by (auto simp: safe_def)
  have t: "safe (toggle_find e)"
    using assms(1) find_next_safe [OF assms(1)] by (simp add: toggle_find_def ed_ok_def cursor_ok_def)
  have c: "copy_selection e w = Inr w" using assms(1) by (simp add: copy_selection_def selection_range_def ed_ok_def)
  show ?thesis
    using lift [OF t] c assms lift [OF find_key_safe [OF assms(1)]] lift [OF type_keys_safe(3) [OF assms(1)]]
      lift [OF edit_key_safe [OF assms(1)]]
    by (simp add: on_key_def)
qed

theorem editor_keys_safe_witness:
  "\<exists>e'. on_key False False 97 (Editor_new [] [104, 105], \<lparr>CLIPBOARD = [], NVME = None\<rparr>) = Inr (e', \<lparr>CLIPBOARD = [], NVME = None\<rparr>) \<and> ed_ok e'"
proof -
  have "ed_ok (Editor_new [] [104, 105])" by (simp add: ed_ok_def cursor_ok_def Editor_new_def)
  then show ?thesis by (rule editor_keys_safe) (simp_all add: KEY_F2_def)
qed

text \<open>
  C31: the find command's scan is exact: its matches are the positions in the buffer at which the query occurs,
  overlapping ones included, each once and in text order.
\<close>

theorem find_all_exact:
  "set (find_matches (find_all e)) = {(r, c). find_query e \<noteq> [] \<and> r < length (lines e) \<and>
     c + length (find_query e) \<le> length (lines e ! r) \<and> take (length (find_query e)) (drop c (lines e ! r)) = find_query e} \<and>
   sorted_wrt (\<lambda>p q. fst p < fst q \<or> (fst p = fst q \<and> snd p < snd q)) (find_matches (find_all e))"
proof -
  have row: "sorted_wrt (\<lambda>p q. fst p < fst q \<or> (fst p = fst q \<and> snd p < snd q)) (line_matches q r l)" for q r l
    unfolding line_matches_def sorted_wrt_map by (simp add: sorted_wrt_filter)
  have "sorted_wrt (\<lambda>p q. fst p < fst q \<or> (fst p = fst q \<and> snd p < snd q))
      (concat (map (\<lambda>(r, l). line_matches q r l) (List.enumerate n ls)))" for q n ls
  proof (induction ls arbitrary: n)
    case (Cons l ls)
    have "n < r" if "(r, c) \<in> set (concat (map (\<lambda>(r, l). line_matches q r l) (List.enumerate (Suc n) ls)))" for r c
      using that by (auto simp: in_set_enumerate_eq line_matches_set)
    moreover have "r = n" if "(r, c) \<in> set (line_matches q n l)" for r c
      using that by (simp add: line_matches_set)
    ultimately show ?case using Cons row by (fastforce simp: sorted_wrt_append)
  qed simp
  then have "sorted_wrt (\<lambda>p q. fst p < fst q \<or> (fst p = fst q \<and> snd p < snd q)) (find_matches (find_all e))"
    by (simp add: find_all_def)
  moreover have "set (find_matches (find_all e)) = {(r, c). find_query e \<noteq> [] \<and> r < length (lines e) \<and>
     c + length (find_query e) \<le> length (lines e ! r) \<and> take (length (find_query e)) (drop c (lines e ! r)) = find_query e}"
    by (intro set_eqI) (auto simp: find_all_set)
  ultimately show ?thesis by blast
qed

section \<open>Keys after a click\<close>

text \<open>Keys pressed one after the other, without shift and control.\<close>

fun press_keys :: "u8 list \<Rightarrow> Editor \<times> editor_world \<Rightarrow> panic + (Editor \<times> editor_world)" where
  "press_keys [] ew = Inr ew"
| "press_keys (b # bs) ew = rbind (on_key False False b ew) (press_keys bs)"

definition printable :: "u8 \<Rightarrow> bool" where
  "printable b \<longleftrightarrow> 32 \<le> b \<and> b < 128"

lemma printable_key:
  assumes "printable b" "\<not> find_mode e"
  shows "on_key False False b (e, w) = rbind (key_type [b] e) (\<lambda>e. Inr (e, w))"
proof -
  have "b \<noteq> k" if "k < 32 \<or> 128 \<le> k" for k using assms(1) that by (auto simp: printable_def)
  then show ?thesis using assms
    by (simp add: on_key_def edit_key_def printable_def KEY_UP_def KEY_DOWN_def KEY_LEFT_def KEY_RIGHT_def KEY_HOME_def
      KEY_END_def KEY_PGUP_def KEY_PGDN_def KEY_DEL_def KEY_F2_def KEY_F10_def)
qed

lemma typing_splices:
  assumes "cursor_ok e" "select_anchor e = None" "\<not> find_mode e" "\<forall>b \<in> set bs. printable b"
  shows "\<exists>e'. press_keys bs (e, w) = Inr (e', w) \<and> splices bs e e'"
  using assms
proof (induction bs arbitrary: e)
  case Nil
  then show ?case by (simp add: splices_def)
next
  case (Cons b bs)
  obtain e1 where e1: "put_byte b e = Inr e1" "splices [b] e e1" by (rule put_byte_splices [OF Cons.prems(1)])
  let ?e = "e1\<lparr>modified := True\<rparr>"
  have k: "on_key False False b (e, w) = Inr (?e, w)"
    using Cons.prems e1(1) by (simp add: printable_key key_type_def no_selection)
  have "cursor_ok ?e" "select_anchor ?e = None" "\<not> find_mode ?e"
    using e1(2) put_byte_find [OF e1(1)] Cons.prems by (simp_all add: splices_def)
  then obtain e2 where e2: "press_keys bs (?e, w) = Inr (e2, w)" "splices bs ?e e2" using Cons.IH [of ?e] Cons.prems(4) by auto
  have "splices [b] e ?e" using e1(2) by (simp add: splices_def)
  from splices_trans [OF this e2(2)] show ?case using k e2(1) by simp
qed

text \<open>A byte typed right at the anchor is taken away again by the next one: it has become the selection.\<close>

lemma second_key:
  assumes "cursor_ok e" "select_anchor e = Some (cursor_row e, cursor_col e)" "\<not> find_mode e" "printable b" "printable c"
  shows "rbind (on_key False False b (e, w)) (on_key False False c) = on_key False False c (e\<lparr>select_anchor := None, modified := True\<rparr>, w)"
proof -
  let ?r = "cursor_row e" and ?p = "cursor_col e"
  let ?l = "lines e ! ?r"
  define e1 where "e1 = e\<lparr>lines := (lines e)[?r := take ?p ?l @ b # drop ?p ?l], cursor_col := ?p + 1, modified := True\<rparr>"
  have r: "?r < length (lines e)" "?p \<le> length ?l" using assms(1) by (simp_all add: cursor_ok_def)
  have "on_key False False b (e, w) = Inr (e1, w)"
    using assms(2-4) r
    by (simp add: printable_key key_type_def delete_selection_if_any_def selection_range_def put_byte_def vec_get_def vec_insert_def e1_def)
  moreover have "delete_selection_if_any e1 = Inr (True, e\<lparr>select_anchor := None, modified := True\<rparr>)"
  proof -
    have "selection_range e1 = Some ((?r, ?p), (?r, Suc ?p))" using assms(2) by (simp add: e1_def selection_range_def pos_le_def)
    then show ?thesis using r by (cases e) (simp add: delete_selection_if_any_def vec_get_def e1_def Let_def)
  qed
  ultimately show ?thesis using assms(3,5)
    by (simp add: printable_key [of c] e1_def key_type_def no_selection)
qed

lemma click_state:
  assumes "lines e \<noteq> []"
  obtains e1 where "mouse_down row col e = Inr e1" "cursor_ok e1" "select_anchor e1 = Some (cursor_row e1, cursor_col e1)"
    "lines e1 = lines e" "find_mode e1 = find_mode e"
proof -
  let ?r = "min row (length (lines e) - 1)"
  let ?c = "min col (length (lines e ! ?r))"
  have r: "?r < length (lines e)" using assms by (cases "lines e") auto
  then have "mouse_down row col e = Inr (ensure_visible (e\<lparr>cursor_row := ?r, cursor_col := ?c, select_anchor := Some (?r, ?c)\<rparr>))"
    by (simp add: mouse_down_def move_to_def vec_get_def Let_def)
  then show thesis by (rule that) (use r in \<open>simp_all add: cursor_ok_def\<close>)
qed

lemma backspace_copy:
  assumes "cursor_ok e" "select_anchor e = Some (cursor_row e, cursor_col e)" "\<not> find_mode e" "0 < cursor_col e"
  shows "rbind (on_key False False 8 (e, w)) (on_key False False 3) =
    (let l = lines e ! cursor_row e in
     if cursor_col e = length l then Inl (Panic ''slice index'')
     else Inr (e\<lparr>lines := (lines e)[cursor_row e := take (cursor_col e - 1) l @ drop (cursor_col e) l],
        cursor_col := cursor_col e - 1, modified := True\<rparr>, clipboard_set [l ! cursor_col e] w))"
proof -
  let ?r = "cursor_row e" and ?p = "cursor_col e"
  let ?l = "lines e ! ?r"
  let ?m = "take (?p - 1) ?l @ drop ?p ?l"
  let ?e = "e\<lparr>lines := (lines e)[?r := ?m], cursor_col := ?p - 1, modified := True\<rparr>"
  have r: "?r < length (lines e)" "?p \<le> length ?l" using assms(1) by (simp_all add: cursor_ok_def)
  have "on_key False False 8 (e, w) = Inr (?e, w)"
    using assms(2-4) r
    by (simp add: on_key_def edit_key_def key_backspace_def delete_selection_if_any_def selection_range_def vec_get_def
        vec_remove_def KEY_UP_def KEY_DOWN_def KEY_LEFT_def KEY_RIGHT_def KEY_HOME_def KEY_END_def KEY_PGUP_def KEY_PGDN_def
        KEY_F2_def KEY_F10_def)
  moreover have "selection_range ?e = Some ((?r, ?p - 1), (?r, ?p))"
    using assms(2,4) by (simp add: selection_range_def pos_le_def Let_def)
  moreover have "vec_slice (?p - 1) ?p ?m = (if ?p = length ?l then Inl (Panic ''slice index'') else Inr [?l ! ?p])"
    using r(2) assms(4) by (auto simp: vec_slice_def take_Suc_conv_app_nth min_def)
  ultimately show ?thesis using r(1) assms(3)
    by (simp add: on_key_def copy_selection_def vec_get_def KEY_F2_def Let_def)
qed

text \<open>
  C32: a click leaves an anchor that later keys do not move. In any buffer, wherever the click lands and whichever two or
  more printable characters are typed after it, the first of them is lost and the others are inserted at the
  place of the click. And wherever the click lands behind at least one character of its line, backspace and copy put
  the character after the deleted one into the clipboard although nothing is selected, or index the line out of range and
  panic when the deleted one was the last.
\<close>

theorem stale_anchor:
  assumes "lines e \<noteq> []" "\<not> find_mode e" "\<forall>ch \<in> set (b # c # cs). 32 \<le> ch \<and> ch < 128"
  shows "\<exists>e1 e2. mouse_down row col e = Inr e1 \<and> lines e1 = lines e \<and>
    press_keys (b # c # cs) (e1, w) = Inr (e2, w) \<and>
    ed_text e2 = take (offset e1) (ed_text e) @ (c # cs) @ drop (offset e1) (ed_text e) \<and>
    (0 < cursor_col e1 \<longrightarrow>
       (if cursor_col e1 = length (lines e ! cursor_row e1) then press_keys [8, 3] (e1, w) = Inl (Panic ''slice index'')
        else \<exists>e3. press_keys [8, 3] (e1, w) = Inr (e3, clipboard_set [lines e ! cursor_row e1 ! cursor_col e1] w)))"
proof -
  obtain e1 where e1: "mouse_down row col e = Inr e1" "cursor_ok e1" "select_anchor e1 = Some (cursor_row e1, cursor_col e1)"
    "lines e1 = lines e" "find_mode e1 = find_mode e" by (rule click_state [OF assms(1)])
  have f: "\<not> find_mode e1" using e1(5) assms(2) by simp
  let ?e = "e1\<lparr>select_anchor := None, modified := True\<rparr>"
  have t: "cursor_ok ?e" "text_before ?e = text_before e1" "text_after ?e = text_after e1"
    using e1(2) by (simp_all add: cursor_ok_def text_before_def text_after_def)
  obtain e2 where e2: "press_keys (c # cs) (?e, w) = Inr (e2, w)" "splices (c # cs) ?e e2"
    using typing_splices [of ?e "c # cs" w] t(1) f assms(3) by (auto simp: printable_def)
  have "press_keys (b # c # cs) (e1, w) = rbind (rbind (on_key False False b (e1, w)) (on_key False False c)) (press_keys cs)"
    by (cases "on_key False False b (e1, w)") simp_all
  also have "\<dots> = Inr (e2, w)"
    using second_key [OF e1(2,3) f, of b c w] e2(1) assms(3) by (simp add: printable_def)
  finally have keys: "press_keys (b # c # cs) (e1, w) = Inr (e2, w)" .
  have "ed_text e2 = text_before e1 @ (c # cs) @ text_after e1"
    using ed_text_split(1) [of e2] e2(2) t by (simp add: splices_def)
  moreover have "take (offset e1) (ed_text e) = text_before e1" "drop (offset e1) (ed_text e) = text_after e1"
    using ed_text_split [OF e1(2)] e1(4) by (simp_all add: ed_text_def)
  ultimately have "ed_text e2 = take (offset e1) (ed_text e) @ (c # cs) @ drop (offset e1) (ed_text e)" by simp
  moreover have "press_keys [8, 3] (e1, w) = rbind (on_key False False 8 (e1, w)) (on_key False False 3)"
    by (cases "on_key False False 8 (e1, w)"; simp; cases "on_key False False 3 (projr (on_key False False 8 (e1, w)))"; simp)
  ultimately show ?thesis using e1(1,4) keys backspace_copy [OF e1(2,3) f, of w]
    by (intro exI [of _ e1] exI [of _ e2]) (simp add: Let_def del: press_keys.simps)
qed

theorem stale_anchor_witness:
  "\<exists>e1 e2. mouse_down 0 1 (Editor_new [] [120, 121]) = Inr e1 \<and> press_keys [97, 98, 99] (e1, \<lparr>CLIPBOARD = [], NVME = None\<rparr>) = Inr (e2, \<lparr>CLIPBOARD = [], NVME = None\<rparr>) \<and>
     ed_text e2 = [120, 98, 99, 121]"
proof -
  let ?e = "Editor_new [] [120, 121]"
  have d: "offset e1 = 1" if "mouse_down 0 1 ?e = Inr e1" for e1
    using that by (auto simp: mouse_down_def move_to_def vec_get_def Editor_new_def offset_def ensure_visible_def)
  have "lines ?e \<noteq> []" "\<not> find_mode ?e" "\<forall>ch \<in> set [97, 98, 99]. 32 \<le> ch \<and> ch < (128 :: u8)" "ed_text ?e = [120, 121]"
    by (simp_all add: Editor_new_def ed_text_def)
  then show ?thesis using stale_anchor [of ?e 97 98 "[99]" 0 1 "\<lparr>CLIPBOARD = [], NVME = None\<rparr>"] d by fastforce
qed

end
