(* ===== verification/Framebuffer.thy ===== *)
theory Framebuffer
  imports Memory
begin

text \<open>
  Drawing, \<open>kernel/src/framebuffer.rs\<close>: the back buffer and the functions that draw into it. Coordinates are machine
  words, since callers cast negative positions to \<open>usize\<close> and the additions wrap; the back buffer is a function of the
  pixel index, the memory of the screen one of the byte offset.
\<close>

section \<open>Colours and the display\<close>

record Color =
  c_r :: u8
  c_g :: u8
  c_b :: u8

definition from_hex :: "u32 \<Rightarrow> Color" where
  "from_hex hex = \<lparr>c_r = ucast (drop_bit 16 hex AND 0xFF), c_g = ucast (drop_bit 8 hex AND 0xFF), c_b = ucast (hex AND 0xFF)\<rparr>"

record Display =
  width :: u64
  height :: u64
  pitch :: u64
  bpp :: u64
  r_shift :: nat
  g_shift :: nat
  b_shift :: nat
  backbuf :: "(nat \<Rightarrow> u32) option"
  scene_buf :: "(nat \<Rightarrow> u32) option"
  backbuf_len :: nat
  FB :: buffer

record BootFb =
  fb_width :: u32
  fb_height :: u32
  fb_pitch :: u32
  fb_bpp :: u16
  fb_red_shift :: nat
  fb_green_shift :: nat
  fb_blue_shift :: nat

definition Display_new :: "BootFb \<Rightarrow> buffer \<Rightarrow> Display" where
  "Display_new bi mem = \<lparr>width = ucast (fb_width bi), height = ucast (fb_height bi), pitch = ucast (fb_pitch bi),
     bpp = ucast (fb_bpp bi) div 8, r_shift = fb_red_shift bi, g_shift = fb_green_shift bi, b_shift = fb_blue_shift bi,
     backbuf = None, scene_buf = None, backbuf_len = 0, FB = mem\<rparr>"

text \<open>The two buffers come from the page allocator, zeroed; without memory for both, drawing goes to the screen.\<close>

definition init_backbuf :: "Display \<Rightarrow> 'a pmm_state_scheme \<Rightarrow> Display \<times> 'a pmm_state_scheme" where
  "init_backbuf d s =
    (if bpp d \<noteq> 4 then (d, s) else
     let pixels = width d * height d; pages = unat ((pixels * 4 + 4095) div 4096) in
     case alloc_contiguous pages s of None \<Rightarrow> (d, s)
     | Some (p1, s) \<Rightarrow> (case alloc_contiguous pages s of None \<Rightarrow> (d, s)
       | Some (p2, s) \<Rightarrow> (d\<lparr>backbuf := Some (\<lambda>_. 0), scene_buf := Some (\<lambda>_. 0), backbuf_len := unat pixels\<rparr>, s)))"

definition save_scene :: "Display \<Rightarrow> Display" where
  "save_scene d = (case (backbuf d, scene_buf d) of
     (Some bb, Some sc) \<Rightarrow> d\<lparr>scene_buf := Some (\<lambda>i. if i < backbuf_len d then bb i else sc i)\<rparr>
   | _ \<Rightarrow> d)"

definition copy_pixels :: "(nat \<Rightarrow> u32) \<Rightarrow> nat \<Rightarrow> nat \<Rightarrow> (nat \<Rightarrow> u32) \<Rightarrow> (nat \<Rightarrow> u32)" where
  "copy_pixels src off n dst = (\<lambda>i. if off \<le> i \<and> i < off + n then src i else dst i)"

definition restore_rows :: "u64 \<Rightarrow> u64 \<Rightarrow> Display \<Rightarrow> Display" where
  "restore_rows y cnt d = (case (backbuf d, scene_buf d) of
     (Some bb, Some sc) \<Rightarrow>
       let y0 = min y (height d); y1 = min (y + cnt) (height d); n = (y1 - y0) * width d in
       d\<lparr>backbuf := Some (copy_pixels sc (unat (y0 * width d)) (unat n) bb)\<rparr>
   | _ \<Rightarrow> d)"

definition pack_color :: "Display \<Rightarrow> Color \<Rightarrow> u32" where
  "pack_color d c = push_bit (r_shift d mod 32) (ucast (c_r c)) OR push_bit (g_shift d mod 32) (ucast (c_g c)) OR
     push_bit (b_shift d mod 32) (ucast (c_b c))"

definition put_pixel :: "u64 \<Rightarrow> u64 \<Rightarrow> Color \<Rightarrow> Display \<Rightarrow> Display" where
  "put_pixel x y c d =
    (if width d \<le> x \<or> height d \<le> y then d else
     case backbuf d of
       Some bb \<Rightarrow> d\<lparr>backbuf := Some (bb(unat (y * width d + x) := pack_color d c))\<rparr>
     | None \<Rightarrow> d\<lparr>FB := put_bytes (FB d) (unat (y * pitch d + x * bpp d)) (u32_to_le_bytes (pack_color d c))\<rparr>)"

definition fill_pixels :: "nat \<Rightarrow> nat \<Rightarrow> u32 \<Rightarrow> (nat \<Rightarrow> u32) \<Rightarrow> (nat \<Rightarrow> u32)" where
  "fill_pixels off n v dst = (\<lambda>i. if off \<le> i \<and> i < off + n then v else dst i)"

text \<open>The words from \<open>a\<close> up to but not including \<open>b\<close>: the range \<open>a..b\<close> of a loop.\<close>

definition range64 :: "u64 \<Rightarrow> u64 \<Rightarrow> u64 list" where
  "range64 a b = map word_of_nat [unat a ..< unat b]"

definition put_row :: "u64 \<Rightarrow> u64 \<Rightarrow> u64 \<Rightarrow> Color \<Rightarrow> Display \<Rightarrow> Display" where
  "put_row x x_end row c d = fold (\<lambda>col. put_pixel col row c) (range64 x x_end) d"

definition clear :: "Color \<Rightarrow> Display \<Rightarrow> Display" where
  "clear c d = (case backbuf d of
     Some bb \<Rightarrow> d\<lparr>backbuf := Some (fill_pixels 0 (backbuf_len d) (pack_color d c) bb)\<rparr>
   | None \<Rightarrow> fold (\<lambda>y. put_row 0 (width d) y c) (range64 0 (height d)) d)"

definition fill_row :: "u64 \<Rightarrow> u64 \<Rightarrow> Color \<Rightarrow> u64 \<Rightarrow> Display \<Rightarrow> Display" where
  "fill_row x x_end c row d = (case backbuf d of
     Some bb \<Rightarrow> d\<lparr>backbuf := Some (fill_pixels (unat (row * width d + x)) (unat (x_end - x)) (pack_color d c) bb)\<rparr>
   | None \<Rightarrow> d)"

definition fill_rect :: "u64 \<Rightarrow> u64 \<Rightarrow> u64 \<Rightarrow> u64 \<Rightarrow> Color \<Rightarrow> Display \<Rightarrow> Display" where
  "fill_rect x y w h c d =
    (let x_end = min (x + w) (width d); y_end = min (y + h) (height d) in
     if x_end \<le> x then d
     else case backbuf d of
       Some _ \<Rightarrow> fold (fill_row x x_end c) (range64 y y_end) d
     | None \<Rightarrow> fold (\<lambda>row. put_row x x_end row c) (range64 y y_end) d)"

section \<open>Text\<close>

text \<open>The glyphs that are not blank, by character code.\<close>

definition FONT_ROWS :: "(nat \<times> u8 list) list" where
  "FONT_ROWS = [
   (32, [0, 0, 0, 0, 0, 0, 0, 0]), (33, [24, 24, 24, 24, 24, 0, 24, 0]), (34, [102, 102, 102, 0, 0, 0, 0, 0]),
   (35, [54, 54, 127, 54, 127, 54, 54, 0]), (36, [12, 62, 3, 30, 48, 31, 12, 0]),
   (37, [0, 99, 51, 24, 12, 102, 99, 0]), (38, [28, 54, 28, 110, 59, 51, 110, 0]), (39, [6, 6, 3, 0, 0, 0, 0, 0]),
   (40, [24, 12, 6, 6, 6, 12, 24, 0]), (41, [6, 12, 24, 24, 24, 12, 6, 0]), (42, [0, 102, 60, 255, 60, 102, 0, 0]),
   (43, [0, 12, 12, 63, 12, 12, 0, 0]), (44, [0, 0, 0, 0, 0, 12, 12, 6]), (45, [0, 0, 0, 63, 0, 0, 0, 0]),
   (46, [0, 0, 0, 0, 0, 12, 12, 0]), (47, [96, 48, 24, 12, 6, 3, 1, 0]), (48, [62, 99, 115, 123, 111, 103, 62, 0]),
   (49, [12, 14, 12, 12, 12, 12, 63, 0]), (50, [30, 51, 48, 28, 6, 51, 63, 0]),
   (51, [30, 51, 48, 28, 48, 51, 30, 0]), (52, [56, 60, 54, 51, 127, 48, 120, 0]),
   (53, [63, 3, 31, 48, 48, 51, 30, 0]), (54, [28, 6, 3, 31, 51, 51, 30, 0]), (55, [63, 51, 48, 24, 12, 12, 12, 0]),
   (56, [30, 51, 51, 30, 51, 51, 30, 0]), (57, [30, 51, 51, 62, 48, 24, 14, 0]), (58, [0, 12, 12, 0, 0, 12, 12, 0]),
   (59, [0, 12, 12, 0, 0, 12, 12, 6]), (60, [24, 12, 6, 3, 6, 12, 24, 0]), (61, [0, 0, 63, 0, 0, 63, 0, 0]),
   (62, [6, 12, 24, 48, 24, 12, 6, 0]), (63, [30, 51, 48, 24, 12, 0, 12, 0]),
   (64, [62, 99, 123, 123, 123, 3, 30, 0]), (65, [12, 30, 51, 51, 63, 51, 51, 0]),
   (66, [63, 102, 102, 62, 102, 102, 63, 0]), (67, [60, 102, 3, 3, 3, 102, 60, 0]),
   (68, [31, 54, 102, 102, 102, 54, 31, 0]), (69, [127, 70, 22, 30, 22, 70, 127, 0]),
   (70, [127, 70, 22, 30, 22, 6, 15, 0]), (71, [60, 102, 3, 3, 115, 102, 124, 0]),
   (72, [51, 51, 51, 63, 51, 51, 51, 0]), (73, [30, 12, 12, 12, 12, 12, 30, 0]),
   (74, [120, 48, 48, 48, 51, 51, 30, 0]), (75, [103, 102, 54, 30, 54, 102, 103, 0]),
   (76, [15, 6, 6, 6, 70, 102, 127, 0]), (77, [99, 119, 127, 127, 107, 99, 99, 0]),
   (78, [99, 103, 111, 123, 115, 99, 99, 0]), (79, [28, 54, 99, 99, 99, 54, 28, 0]),
   (80, [63, 102, 102, 62, 6, 6, 15, 0]), (81, [30, 51, 51, 51, 59, 30, 56, 0]),
   (82, [63, 102, 102, 62, 54, 102, 103, 0]), (83, [30, 51, 7, 14, 56, 51, 30, 0]),
   (84, [63, 45, 12, 12, 12, 12, 30, 0]), (85, [51, 51, 51, 51, 51, 51, 63, 0]),
   (86, [51, 51, 51, 51, 51, 30, 12, 0]), (87, [99, 99, 99, 107, 127, 119, 99, 0]),
   (88, [99, 99, 54, 28, 28, 54, 99, 0]), (89, [51, 51, 51, 30, 12, 12, 30, 0]),
   (90, [127, 99, 49, 24, 76, 102, 127, 0]), (91, [30, 6, 6, 6, 6, 6, 30, 0]), (92, [3, 6, 12, 24, 48, 96, 64, 0]),
   (93, [30, 24, 24, 24, 24, 24, 30, 0]), (94, [8, 28, 54, 99, 0, 0, 0, 0]), (95, [0, 0, 0, 0, 0, 0, 0, 255]),
   (96, [12, 12, 24, 0, 0, 0, 0, 0]), (97, [0, 0, 30, 48, 62, 51, 110, 0]), (98, [7, 6, 6, 62, 102, 102, 59, 0]),
   (99, [0, 0, 30, 51, 3, 51, 30, 0]), (100, [56, 48, 48, 62, 51, 51, 110, 0]), (101, [0, 0, 30, 51, 63, 3, 30, 0]),
   (102, [28, 54, 6, 15, 6, 6, 15, 0]), (103, [0, 0, 110, 51, 51, 62, 48, 31]),
   (104, [7, 6, 54, 110, 102, 102, 103, 0]), (105, [12, 0, 14, 12, 12, 12, 30, 0]),
   (106, [48, 0, 48, 48, 48, 51, 51, 30]), (107, [7, 6, 102, 54, 30, 54, 103, 0]),
   (108, [14, 12, 12, 12, 12, 12, 30, 0]), (109, [0, 0, 51, 127, 127, 107, 99, 0]),
   (110, [0, 0, 31, 51, 51, 51, 51, 0]), (111, [0, 0, 30, 51, 51, 51, 30, 0]),
   (112, [0, 0, 59, 102, 102, 62, 6, 15]), (113, [0, 0, 110, 51, 51, 62, 48, 120]),
   (114, [0, 0, 59, 110, 102, 6, 15, 0]), (115, [0, 0, 62, 3, 30, 48, 31, 0]), (116, [8, 12, 62, 12, 12, 44, 24, 0]),
   (117, [0, 0, 51, 51, 51, 51, 110, 0]), (118, [0, 0, 51, 51, 51, 30, 12, 0]),
   (119, [0, 0, 99, 107, 127, 127, 54, 0]), (120, [0, 0, 99, 54, 28, 54, 99, 0]),
   (121, [0, 0, 51, 51, 51, 62, 48, 31]), (122, [0, 0, 63, 25, 12, 38, 63, 0])]"

definition FONT :: "nat \<Rightarrow> u8 list option" where
  "FONT ch = (if ch < 128 then Some (case map_of FONT_ROWS ch of Some g \<Rightarrow> g | None \<Rightarrow> replicate 8 0) else None)"

definition glyph :: "nat \<Rightarrow> u8 list" where
  "glyph ch = (case FONT ch of Some g \<Rightarrow> g | None \<Rightarrow> (case FONT 63 of Some g \<Rightarrow> g | None \<Rightarrow> []))"

definition draw_glyph_row :: "u64 \<Rightarrow> u64 \<Rightarrow> Color \<Rightarrow> u64 \<Rightarrow> nat \<times> u8 \<Rightarrow> Display \<Rightarrow> Display" where
  "draw_glyph_row cx y c scale rb d = (case rb of (row, bits) \<Rightarrow>
     fold (\<lambda>col d. if bit bits col
         then fill_rect (cx + word_of_nat col * scale) (y + word_of_nat row * scale) scale scale c d else d) [0 ..< 8] d)"

definition draw_char :: "u64 \<Rightarrow> u64 \<Rightarrow> nat \<Rightarrow> Color \<Rightarrow> u64 \<Rightarrow> Display \<Rightarrow> Display" where
  "draw_char cx y ch c scale d = fold (draw_glyph_row cx y c scale) (enumerate 0 (glyph ch)) d"

fun draw_text :: "u64 \<Rightarrow> u64 \<Rightarrow> nat list \<Rightarrow> Color \<Rightarrow> u64 \<Rightarrow> Display \<Rightarrow> Display" where
  "draw_text cx y [] c scale d = d"
| "draw_text cx y (ch # chs) c scale d = draw_text (cx + 9 * scale) y chs c scale (draw_char cx y ch c scale d)"

section \<open>What is drawn where\<close>

text \<open>A display whose back buffer fits the machine.\<close>

definition display_ok :: "Display \<Rightarrow> bool" where
  "display_ok d \<longleftrightarrow> unat (width d) * unat (height d) < 2 ^ 62 \<and> backbuf d \<noteq> None \<and>
     backbuf_len d = unat (width d) * unat (height d)"

text \<open>The pixel at a column and row.\<close>

definition pixel :: "Display \<Rightarrow> nat \<Rightarrow> nat \<Rightarrow> u32" where
  "pixel d col row = the (backbuf d) (row * unat (width d) + col)"

definition on_screen :: "Display \<Rightarrow> nat \<Rightarrow> nat \<Rightarrow> bool" where
  "on_screen d col row \<longleftrightarrow> col < unat (width d) \<and> row < unat (height d)"

text \<open>Drawing changes nothing but the pixels of the back buffer that are on the screen.\<close>

definition draws :: "Display \<Rightarrow> Display \<Rightarrow> bool" where
  "draws d d' \<longleftrightarrow> (\<exists>bb. d' = d\<lparr>backbuf := Some bb\<rparr> \<and> (\<forall>i \<ge> backbuf_len d. bb i = the (backbuf d) i))"

lemma pixel_index:
  assumes "display_ok d" "unat x < unat (width d)" "unat y < unat (height d)"
  shows "unat (y * width d + x) = unat y * unat (width d) + unat x" "unat (y * width d + x) < backbuf_len d"
proof -
  have "unat y * unat (width d) + unat x < Suc (unat y) * unat (width d)" using assms(2) by simp
  also have "\<dots> \<le> unat (height d) * unat (width d)" using assms(3) by (intro mult_le_mono1) simp
  finally have lt: "unat y * unat (width d) + unat x < unat (width d) * unat (height d)" by (simp add: mult.commute)
  then have "unat y * unat (width d) + unat x < 2 ^ 62" using assms(1) by (simp add: display_ok_def)
  then show "unat (y * width d + x) = unat y * unat (width d) + unat x" by (simp add: unat_word_ariths)
  then show "unat (y * width d + x) < backbuf_len d" using lt assms(1) by (simp add: display_ok_def)
qed

lemma row_order:
  fixes W :: nat
  assumes "r < row" "col < W"
  shows "r * W + col < row * W"
proof -
  have "r * W + col < Suc r * W" using assms(2) by simp
  also have "\<dots> \<le> row * W" using assms(1) by (intro mult_le_mono1) simp
  finally show ?thesis .
qed

lemma in_row_iff:
  fixes W :: nat
  assumes "col < W" "a \<le> b" "b \<le> W"
  shows "row * W + a \<le> r * W + col \<and> r * W + col < row * W + b \<longleftrightarrow> r = row \<and> a \<le> col \<and> col < b"
proof (cases "r = row")
  case False
  have "r * W + col < row * W" if "r < row" using row_order [OF that assms(1)] .
  moreover have "row * W + b \<le> r * W" if "row < r"
  proof -
    have "row * W + b \<le> Suc row * W" using assms(3) by simp
    also have "\<dots> \<le> r * W" using that by (intro mult_le_mono1) simp
    finally show ?thesis .
  qed
  ultimately show ?thesis using False by (cases "r < row") auto
qed auto

lemma draws_refl: "backbuf d \<noteq> None \<Longrightarrow> draws d d"
  by (cases d) (auto simp: draws_def)

lemma draws_trans: "draws d d1 \<Longrightarrow> draws d1 d2 \<Longrightarrow> draws d d2"
  by (auto simp: draws_def)

text \<open>The pixels a drawing step sets to a colour: exactly those in \<open>A\<close>, by column and row.\<close>

definition paints :: "(nat \<times> nat) set \<Rightarrow> u32 \<Rightarrow> Display \<Rightarrow> Display \<Rightarrow> bool" where
  "paints A v d d' \<longleftrightarrow> draws d d' \<and>
     (\<forall>col row. on_screen d col row \<longrightarrow> pixel d' col row = (if (col, row) \<in> A then v else pixel d col row))"

lemma paints_id: "backbuf d \<noteq> None \<Longrightarrow> A \<inter> {(col, row). on_screen d col row} = {} \<Longrightarrow> paints A v d d"
  by (auto simp: paints_def draws_refl)

lemma paints_trans:
  assumes "paints A v d d1" "paints B v d1 d2"
  shows "paints (A \<union> B) v d d2"
proof -
  have "on_screen d1 = on_screen d" using assms(1) by (auto simp: paints_def draws_def on_screen_def fun_eq_iff)
  then show ?thesis using assms draws_trans unfolding paints_def by auto
qed

lemma paints_facts:
  assumes "paints A v d d'" "display_ok d"
  shows "display_ok d'" "width d' = width d" "height d' = height d" "pack_color d' = pack_color d"
  using assms by (auto simp: paints_def draws_def display_ok_def pack_color_def fun_eq_iff)

lemma fill_row_paints:
  assumes "display_ok d" "unat x \<le> unat x_end" "unat x_end \<le> unat (width d)" "unat x < unat (width d)" "unat row < unat (height d)"
  shows "paints {(col, r). r = unat row \<and> unat x \<le> col \<and> col < unat x_end} (pack_color d c) d (fill_row x x_end c row d)"
proof -
  obtain bb where bb: "backbuf d = Some bb" using assms(1) by (auto simp: display_ok_def)
  let ?W = "unat (width d)"
  have off: "unat (row * width d + x) = unat row * ?W + unat x" using pixel_index(1) assms by blast
  have n: "unat (x_end - x) = unat x_end - unat x" using assms(2) by (simp add: unat_sub word_le_nat_alt)
  let ?bb = "fill_pixels (unat row * ?W + unat x) (unat x_end - unat x) (pack_color d c) bb"
  have d': "fill_row x x_end c row d = d\<lparr>backbuf := Some ?bb\<rparr>" by (simp add: fill_row_def bb off n)
  have "?bb i = bb i" if "backbuf_len d \<le> i" for i
  proof -
    have "Suc (unat row) * ?W \<le> unat (height d) * ?W" using assms(5) by (intro mult_le_mono1) simp
    then have "unat row * ?W + unat x_end \<le> backbuf_len d" using assms(1,3) by (simp add: display_ok_def mult.commute)
    then show ?thesis using that assms(2) by (simp add: fill_pixels_def)
  qed
  then have "draws d (fill_row x x_end c row d)" unfolding d' draws_def by (intro exI [of _ ?bb]) (simp add: bb)
  moreover have "pixel (fill_row x x_end c row d) col r = (if r = unat row \<and> unat x \<le> col \<and> col < unat x_end then pack_color d c else pixel d col r)"
    if "on_screen d col r" for col r
  proof -
    have col: "col < ?W" using that by (simp add: on_screen_def)
    have "(unat row * ?W + unat x \<le> r * ?W + col \<and> r * ?W + col < unat row * ?W + unat x + (unat x_end - unat x)) \<longleftrightarrow>
        r = unat row \<and> unat x \<le> col \<and> col < unat x_end"
      using in_row_iff [OF col assms(2,3), of "unat row" r] assms(2) by simp
    then show ?thesis unfolding d' pixel_def fill_pixels_def by (simp add: bb)
  qed
  ultimately show ?thesis by (simp add: paints_def)
qed

lemma fill_rows_paints:
  assumes "display_ok d" "unat x \<le> unat x_end" "unat x_end \<le> unat (width d)" "unat x < unat (width d)"
    and "\<And>row. row \<in> set rows \<Longrightarrow> unat row < unat (height d)"
  shows "paints {(col, r). r \<in> unat ` set rows \<and> unat x \<le> col \<and> col < unat x_end} (pack_color d c) d (fold (fill_row x x_end c) rows d)"
  using assms
proof (induction rows arbitrary: d)
  case Nil
  then show ?case by (simp add: paints_id display_ok_def)
next
  case (Cons row rows)
  let ?d = "fill_row x x_end c row d"
  have p: "paints {(col, r). r = unat row \<and> unat x \<le> col \<and> col < unat x_end} (pack_color d c) d ?d"
    using Cons.prems by (intro fill_row_paints) auto
  note f = paints_facts [OF p Cons.prems(1)]
  have "paints {(col, r). r \<in> unat ` set rows \<and> unat x \<le> col \<and> col < unat x_end} (pack_color ?d c) ?d (fold (fill_row x x_end c) rows ?d)"
    using Cons.prems f by (intro Cons.IH) auto
  from paints_trans [OF p this [unfolded f(4)]]
  have "paints ({(col, r). r = unat row \<and> unat x \<le> col \<and> col < unat x_end} \<union>
      {(col, r). r \<in> unat ` set rows \<and> unat x \<le> col \<and> col < unat x_end}) (pack_color d c) d (fold (fill_row x x_end c) (row # rows) d)"
    by simp
  moreover have "{(col, r). r = unat row \<and> unat x \<le> col \<and> col < unat x_end} \<union>
      {(col, r). r \<in> unat ` set rows \<and> unat x \<le> col \<and> col < unat x_end} =
      {(col, r). r \<in> unat ` set (row # rows) \<and> unat x \<le> col \<and> col < unat x_end}" by auto
  ultimately show ?case by simp
qed

lemma set_range64: "unat ` set (range64 a b) = {unat a ..< unat b}"
proof -
  have "unat (word_of_nat k :: u64) = k" if "k < unat b" for k
    using less_trans [OF that unat_less_2p [of b]] by (rule unat_of_nat_less)
  then show ?thesis by (force simp: range64_def image_iff)
qed

lemma unat_min: "unat (min a b :: u64) = min (unat a) (unat b)"
  by (auto simp: min_def word_le_nat_alt)

definition rect :: "u64 \<Rightarrow> u64 \<Rightarrow> u64 \<Rightarrow> u64 \<Rightarrow> (nat \<times> nat) set" where
  "rect x y w h = {unat x ..< unat (x + w)} \<times> {unat y ..< unat (y + h)}"

lemma fill_rect_paints:
  assumes "display_ok d"
  shows "paints (rect x y w h) (pack_color d c) d (fill_rect x y w h c d)"
proof -
  define x_end where "x_end = min (x + w) (width d)"
  define y_end where "y_end = min (y + h) (height d)"
  have bb: "backbuf d \<noteq> None" using assms by (simp add: display_ok_def)
  show ?thesis
  proof (cases "x_end \<le> x")
    case True
    then have "rect x y w h \<inter> {(col, row). on_screen d col row} = {}"
      by (auto simp: rect_def on_screen_def x_end_def word_le_nat_alt unat_min)
    then show ?thesis using True bb by (simp add: fill_rect_def x_end_def Let_def paints_id)
  next
    case False
    then have x: "unat x < unat x_end" "unat x_end \<le> unat (width d)" by (auto simp: x_end_def word_le_nat_alt unat_min)
    have "unat row < unat (height d)" if "row \<in> set (range64 y y_end)" for row
      using that set_range64 [of y y_end] by (auto simp: y_end_def unat_min)
    then have p: "paints {(col, r). r \<in> unat ` set (range64 y y_end) \<and> unat x \<le> col \<and> col < unat x_end} (pack_color d c) d
        (fold (fill_row x x_end c) (range64 y y_end) d)"
      using assms x by (intro fill_rows_paints) auto
    have "fill_rect x y w h c d = fold (fill_row x x_end c) (range64 y y_end) d"
      using False bb by (auto simp: fill_rect_def x_end_def y_end_def Let_def)
    moreover have "on_screen d col r \<Longrightarrow> (col, r) \<in> rect x y w h \<longleftrightarrow> r \<in> {unat y ..< unat y_end} \<and> unat x \<le> col \<and> col < unat x_end" for col r
      by (auto simp: rect_def on_screen_def x_end_def y_end_def unat_min)
    ultimately show ?thesis using p unfolding set_range64 paints_def by auto
  qed
qed

text \<open>
  C33: \<open>fill_rect\<close> gives exactly the pixels of its rectangle that are on the screen the colour and changes nothing else, for
  every position and size; sums that wrap around give an empty rectangle, so that nothing outside the back buffer is
  ever written.
\<close>

theorem fill_rect_exact:
  assumes "display_ok d"
  shows "draws d (fill_rect x y w h c d) \<and> (\<forall>col row. on_screen d col row \<longrightarrow>
    pixel (fill_rect x y w h c d) col row =
      (if unat x \<le> col \<and> col < unat (x + w) \<and> unat y \<le> row \<and> row < unat (y + h) then pack_color d c else pixel d col row))"
  using fill_rect_paints [OF assms, of x y w h c] by (auto simp: paints_def rect_def)

definition example_display :: Display where
  "example_display = (Display_new \<lparr>fb_width = 64, fb_height = 48, fb_pitch = 256, fb_bpp = 32, fb_red_shift = 16, fb_green_shift = 8,
     fb_blue_shift = 0\<rparr> (\<lambda>_. 0))\<lparr>backbuf := Some (\<lambda>_. 0), scene_buf := Some (\<lambda>_. 0), backbuf_len := 3072\<rparr>"

lemma example_display_ok: "display_ok example_display"
  by (simp add: example_display_def Display_new_def display_ok_def)

theorem fill_rect_exact_witness:
  "pixel (fill_rect 60 40 (- 1) 100 (from_hex 0xFF0000) example_display) 61 47 = 0 \<and>
   pixel (fill_rect 60 40 10 100 (from_hex 0xFF0000) example_display) 61 47 = 0xFF0000"
proof -
  have s: "on_screen example_display 61 47" by (simp add: on_screen_def example_display_def Display_new_def)
  have z: "pixel example_display 61 47 = 0" by (simp add: pixel_def example_display_def)
  have c: "pack_color example_display (from_hex 0xFF0000) = 0xFF0000"
    by (simp add: pack_color_def example_display_def Display_new_def from_hex_def)
  show ?thesis
    using fill_rect_exact [OF example_display_ok, of 60 40 "- 1" 100 "from_hex 0xFF0000"] s
      fill_rect_exact [OF example_display_ok, of 60 40 10 100 "from_hex 0xFF0000"] z c by simp
qed

section \<open>Text stays in its box\<close>

definition tints :: "(nat \<times> nat) set \<Rightarrow> u32 \<Rightarrow> Display \<Rightarrow> Display \<Rightarrow> bool" where
  "tints A v d d' \<longleftrightarrow> draws d d' \<and>
     (\<forall>col row. on_screen d col row \<longrightarrow> pixel d' col row = pixel d col row \<or> (col, row) \<in> A \<and> pixel d' col row = v)"

lemma tints_refl: "backbuf d \<noteq> None \<Longrightarrow> tints A v d d"
  by (simp add: tints_def draws_refl)

lemma tints_trans: "tints A v d d1 \<Longrightarrow> tints A v d1 d2 \<Longrightarrow> tints A v d d2"
  unfolding tints_def using draws_trans by (auto simp: draws_def on_screen_def) metis+

lemma tints_facts:
  assumes "tints A v d d'" "display_ok d"
  shows "display_ok d'" "pack_color d' = pack_color d"
  using assms by (auto simp: tints_def draws_def display_ok_def pack_color_def fun_eq_iff)

lemma tints_fold:
  assumes "\<And>z d. z \<in> set zs \<Longrightarrow> display_ok d \<Longrightarrow> tints A (pack_color d c) d (f z d)" "display_ok d"
  shows "tints A (pack_color d c) d (fold f zs d)"
  using assms
proof (induction zs arbitrary: d)
  case Nil
  then show ?case by (simp add: tints_refl display_ok_def)
next
  case (Cons z zs)
  have t: "tints A (pack_color d c) d (f z d)" using Cons.prems by simp
  note f = tints_facts [OF t Cons.prems(2)]
  have "tints A (pack_color (f z d) c) (f z d) (fold f zs (f z d))" using Cons.prems f by (intro Cons.IH) auto
  then show ?case using tints_trans [OF t] f(2) by simp
qed

lemma fill_rect_tints: "display_ok d \<Longrightarrow> rect x y w h \<subseteq> A \<Longrightarrow> tints A (pack_color d c) d (fill_rect x y w h c d)"
  using fill_rect_paints [of d x y w h c] by (auto simp: paints_def tints_def)

text \<open>The box of \<open>n\<close> characters: cells nine units wide and eight high.\<close>

definition text_box :: "u64 \<Rightarrow> u64 \<Rightarrow> nat \<Rightarrow> u64 \<Rightarrow> (nat \<times> nat) set" where
  "text_box x y n scale = {unat x ..< unat x + 9 * unat scale * n} \<times> {unat y ..< unat y + 8 * unat scale}"

lemma unat_cell:
  assumes "unat (x :: u64) + Suc k * unat scale < 2 ^ 64" "k < 2 ^ 64"
  shows "unat (x + word_of_nat k * scale) = unat x + k * unat scale"
    "unat (x + word_of_nat k * scale + scale) = unat x + Suc k * unat scale"
proof -
  have m: "unat (word_of_nat k * scale) = k * unat scale"
    using assms by (simp add: unat_word_ariths unat_u64_of_nat)
  have "unat (x + word_of_nat k * scale) = unat x + k * unat scale"
    using unat_add_u64 [of x "word_of_nat k * scale"] m assms(1) by simp
  then show "unat (x + word_of_nat k * scale) = unat x + k * unat scale" .
  then show "unat (x + word_of_nat k * scale + scale) = unat x + Suc k * unat scale"
    using unat_add_u64 [of "x + word_of_nat k * scale" scale] assms(1) by simp
qed

lemma box_mono:
  fixes a b :: nat
  shows "a \<le> a' \<Longrightarrow> b' \<le> b \<Longrightarrow> c \<le> c' \<Longrightarrow> d' \<le> d \<Longrightarrow> {a' ..< b'} \<times> {c' ..< d'} \<subseteq> {a ..< b} \<times> {c ..< d :: nat}"
  by auto

lemma length_glyph: "length (glyph ch) \<le> 8"
proof -
  have "list_all (\<lambda>(k, g). length g = 8) FONT_ROWS" by (simp add: FONT_ROWS_def)
  then have "map_of FONT_ROWS k = Some g \<Longrightarrow> length g = 8" for k g using map_of_SomeD [of FONT_ROWS k g] by (auto simp: list_all_iff)
  then have "FONT k = Some g \<Longrightarrow> length g = 8" for k g by (auto simp: FONT_def split: if_splits option.splits)
  then show ?thesis by (auto simp: glyph_def split: option.splits)
qed

lemma draw_char_tints:
  assumes "display_ok d" "unat cx + 9 * unat scale < 2 ^ 64" "unat y + 8 * unat scale < 2 ^ 64"
  shows "tints (text_box cx y 1 scale) (pack_color d c) d (draw_char cx y ch c scale d)"
proof -
  have cell: "rect (cx + word_of_nat col * scale) (y + word_of_nat row * scale) scale scale \<subseteq> text_box cx y 1 scale"
    if "col < 8" "row < 8" for col row
  proof -
    have "Suc col * unat scale \<le> 8 * unat scale" "Suc row * unat scale \<le> 8 * unat scale" using that by (intro mult_le_mono1; simp)+
    then have b: "unat cx + Suc col * unat scale < 2 ^ 64" "unat y + Suc row * unat scale < 2 ^ 64"
      "unat cx + Suc col * unat scale \<le> unat cx + 9 * unat scale" "unat y + Suc row * unat scale \<le> unat y + 8 * unat scale"
      using assms(2,3) by linarith+
    have k: "col < 2 ^ 64" "row < 2 ^ 64" using that by simp_all
    show ?thesis unfolding rect_def text_box_def unat_cell [OF b(1) k(1)] unat_cell [OF b(2) k(2)]
      using b(3,4) by (intro box_mono) simp_all
  qed
  have "tints (text_box cx y 1 scale) (pack_color d' c) d' (draw_glyph_row cx y c scale rb d')"
    if "rb \<in> set (enumerate 0 (glyph ch))" "display_ok d'" for rb d'
  proof -
    have row: "fst rb < 8" using that(1) length_glyph [of ch] by (simp add: in_set_enumerate_eq)
    have "tints (text_box cx y 1 scale) (pack_color d c) d (if bit (snd rb) col
          then fill_rect (cx + word_of_nat col * scale) (y + word_of_nat (fst rb) * scale) scale scale c d else d)"
      if "col \<in> set [0 ..< 8]" "display_ok d" for col d
    proof -
      have "col < 8" "backbuf d \<noteq> None" using that by (simp_all add: display_ok_def)
      then show ?thesis using fill_rect_tints [OF that(2) cell [OF _ row]] tints_refl by (cases "bit (snd rb) col") simp_all
    qed
    then show ?thesis unfolding draw_glyph_row_def case_prod_beta using that(2) by (rule tints_fold)
  qed
  then show ?thesis unfolding draw_char_def using assms(1) by (rule tints_fold)
qed

lemma tints_mono: "tints A v d d' \<Longrightarrow> A \<subseteq> B \<Longrightarrow> tints B v d d'"
  by (auto simp: tints_def)

text \<open>
  C34: Text drawn at a position where its box does not wrap around changes only pixels of that box, nine columns and eight
  rows per character times the scale, and only to the text's colour, whatever the characters and however little of the
  box is on the screen.
\<close>

theorem draw_text_in_box:
  assumes "display_ok d" "unat x + 9 * unat scale * length chs < 2 ^ 64" "unat y + 8 * unat scale < 2 ^ 64"
  shows "draws d (draw_text x y chs c scale d) \<and> (\<forall>col row. on_screen d col row \<longrightarrow>
    pixel (draw_text x y chs c scale d) col row = pixel d col row \<or>
    (col, row) \<in> text_box x y (length chs) scale \<and> pixel (draw_text x y chs c scale d) col row = pack_color d c)"
proof -
  have "tints (text_box x y (length chs) scale) (pack_color d c) d (draw_text x y chs c scale d)" using assms
  proof (induction chs arbitrary: x d)
    case Nil
    then show ?case by (simp add: tints_refl display_ok_def)
  next
    case (Cons ch chs)
    let ?d = "draw_char x y ch c scale d"
    have len: "unat x + 9 * unat scale + 9 * unat scale * length chs < 2 ^ 64" using Cons.prems(2) by (simp add: algebra_simps)
    have t: "tints (text_box x y 1 scale) (pack_color d c) d ?d" using Cons.prems(1,3) len by (intro draw_char_tints) linarith+
    note f = tints_facts [OF t Cons.prems(1)]
    have x': "unat (x + 9 * scale) = unat x + 9 * unat scale"
      using len unat_cell(1) [of x 8 scale] by (simp add: unat_word_ariths)
    have "tints (text_box (x + 9 * scale) y (length chs) scale) (pack_color ?d c) ?d (draw_text (x + 9 * scale) y chs c scale ?d)"
      using Cons.prems(3) len f(1) x' by (intro Cons.IH) simp_all
    moreover have "text_box (x + 9 * scale) y (length chs) scale \<subseteq> text_box x y (length (ch # chs)) scale"
      "text_box x y 1 scale \<subseteq> text_box x y (length (ch # chs)) scale"
      unfolding text_box_def x' by (auto simp: algebra_simps)
    ultimately show ?case using tints_trans [OF tints_mono [OF t] tints_mono] f(2) by simp
  qed
  then show ?thesis by (simp add: tints_def)
qed

theorem draw_text_in_box_witness:
  "pixel (draw_text 10 10 [72, 105] (from_hex 0xFFFFFF) 1 example_display) 50 12 = 0"
proof -
  have s: "on_screen example_display 50 12" by (simp add: on_screen_def example_display_def Display_new_def)
  have z: "pixel example_display 50 12 = 0" by (simp add: pixel_def example_display_def)
  let ?d = "draw_text 10 10 [72, 105] (from_hex 0xFFFFFF) 1 example_display"
  have "unat (10 :: u64) + 9 * unat (1 :: u64) * length [72 :: nat, 105] < 2 ^ 64" "unat (10 :: u64) + 8 * unat (1 :: u64) < 2 ^ 64" by simp_all
  from draw_text_in_box [OF example_display_ok this, of "from_hex 0xFFFFFF"] s
  have "pixel ?d 50 12 = pixel example_display 50 12 \<or> (50, 12) \<in> text_box 10 10 (length [72 :: nat, 105]) 1" by blast
  then show ?thesis using z by (simp add: text_box_def del: draw_text.simps)
qed

end
