(* ===== verification/Image.thy ===== *)
theory Image
  imports Framebuffer Rust_Text
begin

text \<open>
  The BMP decoder of the image viewer, \<open>decode_bmp\<close> and \<open>ImageViewer::from_bytes\<close> of \<open>kernel/src/image.rs\<close>, and the clipped
  drawing of an image. Reading past the end of the file is a panic of the model, as it is in the source.
\<close>

section \<open>Decoding\<close>

definition byte_at :: "u8 list \<Rightarrow> nat \<Rightarrow> panic + u8" where
  "byte_at data i = (if i < length data then Inr (data ! i) else Inl (Panic ''index out of bounds''))"

definition le16 :: "u8 list \<Rightarrow> nat \<Rightarrow> panic + u16" where
  "le16 data i = (if i + 2 \<le> length data then Inr (u16_from_le_bytes (take 2 (drop i data))) else Inl (Panic ''range end index out of range''))"

definition le32 :: "u8 list \<Rightarrow> nat \<Rightarrow> panic + u32" where
  "le32 data i = (if i + 4 \<le> length data then Inr (u32_from_le_bytes (take 4 (drop i data))) else Inl (Panic ''range end index out of range''))"

text \<open>The header fields the decoder looks at.\<close>

record bmp_header =
  pixel_offset :: nat
  dib_size :: nat
  width_raw :: int
  height_raw :: int
  bmp_bpp :: nat
  compression :: nat

definition read_header :: "u8 list \<Rightarrow> panic + bmp_header" where
  "read_header data =
    rbind (le32 data 10) (\<lambda>off.
    rbind (le32 data 14) (\<lambda>dib.
    rbind (le32 data 18) (\<lambda>w.
    rbind (le32 data 22) (\<lambda>h.
    rbind (le16 data 28) (\<lambda>b.
    rbind (le32 data 30) (\<lambda>c.
    Inr \<lparr>pixel_offset = unat off, dib_size = unat dib, width_raw = sint w, height_raw = sint h, bmp_bpp = unat b, compression = unat c\<rparr>))))))"

definition bmp_width :: "bmp_header \<Rightarrow> nat" where "bmp_width h = nat \<bar>width_raw h\<bar>"
definition bmp_height :: "bmp_header \<Rightarrow> nat" where "bmp_height h = nat \<bar>height_raw h\<bar>"
definition bytes_per_px :: "bmp_header \<Rightarrow> nat" where "bytes_per_px h = bmp_bpp h div 8"
definition row_stride :: "bmp_header \<Rightarrow> nat" where "row_stride h = (bmp_width h * bytes_per_px h + 3) div 4 * 4"

definition supported :: "bmp_header \<Rightarrow> bool" where
  "supported h \<longleftrightarrow> 40 \<le> dib_size h \<and> compression h = 0 \<and> (bmp_bpp h = 24 \<or> bmp_bpp h = 32) \<and>
     bmp_width h \<noteq> 0 \<and> bmp_height h \<noteq> 0 \<and> bmp_width h \<le> 4096 \<and> bmp_height h \<le> 4096"

definition row_start :: "bmp_header \<Rightarrow> nat \<Rightarrow> nat" where
  "row_start h row = pixel_offset h + (if height_raw h < 0 then row else bmp_height h - 1 - row) * row_stride h"

definition decode_pixel :: "u8 list \<Rightarrow> nat \<Rightarrow> panic + Color" where
  "decode_pixel data px =
    rbind (byte_at data px) (\<lambda>b. rbind (byte_at data (px + 1)) (\<lambda>g. rbind (byte_at data (px + 2)) (\<lambda>r.
    Inr \<lparr>c_r = r, c_g = g, c_b = b\<rparr>)))"

fun decode_row :: "u8 list \<Rightarrow> nat \<Rightarrow> nat \<Rightarrow> nat \<Rightarrow> nat list \<Rightarrow> Color list \<Rightarrow> panic + Color list" where
  "decode_row data start bytes base [] pixels = Inr pixels"
| "decode_row data start bytes base (col # cols) pixels =
    rbind (decode_pixel data (start + col * bytes)) (\<lambda>c.
    if base + col < length pixels then decode_row data start bytes base cols (pixels[base + col := c])
    else Inl (Panic ''index out of bounds''))"

fun decode_rows :: "u8 list \<Rightarrow> bmp_header \<Rightarrow> nat list \<Rightarrow> Color list \<Rightarrow> panic + Color list option" where
  "decode_rows data h [] pixels = Inr (Some pixels)"
| "decode_rows data h (row # rows) pixels =
    (if length data < row_start h row + bmp_width h * bytes_per_px h then Inr None
     else rbind (decode_row data (row_start h row) (bytes_per_px h) (row * bmp_width h) [0 ..< bmp_width h] pixels) (\<lambda>pixels.
       decode_rows data h rows pixels))"

definition decode_bmp :: "u8 list \<Rightarrow> panic + (nat \<times> nat \<times> Color list) option" where
  "decode_bmp data =
    (if length data < 54 then Inr None else
     rbind (byte_at data 0) (\<lambda>b. rbind (byte_at data 1) (\<lambda>m.
     if b \<noteq> 66 \<or> m \<noteq> 77 then Inr None else
     rbind (read_header data) (\<lambda>h.
     if \<not> supported h then Inr None
     else rbind (decode_rows data h [0 ..< bmp_height h] (replicate (bmp_width h * bmp_height h) \<lparr>c_r = 0, c_g = 0, c_b = 0\<rparr>)) (\<lambda>r.
       Inr (map_option (\<lambda>pixels. (bmp_width h, bmp_height h, pixels)) r))))))"

record ImageViewer =
  iv_path :: "u8 list"
  iv_open :: bool
  iv_width :: nat
  iv_height :: nat
  iv_pixels :: "Color list"
  iv_error :: "nat list option"

text \<open>Texts to be drawn are lists of character codes; the message has a dash outside ASCII.\<close>

definition codes :: "string \<Rightarrow> nat list" where "codes s = map of_char s"

definition unsupported_message :: "nat list" where
  "unsupported_message = codes ''Unsupported format '' @ [8212] @ codes '' only uncompressed 24/32-bit BMP''"

definition from_bytes :: "u8 list \<Rightarrow> u8 list \<Rightarrow> panic + ImageViewer" where
  "from_bytes path data = rbind (decode_bmp data) (\<lambda>r. Inr (case r of
     Some (w, h, px) \<Rightarrow> \<lparr>iv_path = path, iv_open = True, iv_width = w, iv_height = h, iv_pixels = px, iv_error = None\<rparr>
   | None \<Rightarrow> \<lparr>iv_path = path, iv_open = True, iv_width = 0, iv_height = 0, iv_pixels = [],
       iv_error = Some unsupported_message\<rparr>))"

text \<open>\<open>render\<close>: the background, then the message or the pixels inside the window from its top left corner and the size.\<close>

definition draw_one :: "ImageViewer \<Rightarrow> u64 \<Rightarrow> u64 \<Rightarrow> nat \<times> nat \<Rightarrow> panic + Display \<Rightarrow> panic + Display" where
  "draw_one v wx wy p r = rbind r (\<lambda>d. case p of (y, x) \<Rightarrow>
     if y * iv_width v + x < length (iv_pixels v)
     then Inr (put_pixel (wx + word_of_nat x) (wy + word_of_nat y) (iv_pixels v ! (y * iv_width v + x)) d)
     else Inl (Panic ''index out of bounds''))"

definition draw_pixels :: "ImageViewer \<Rightarrow> u64 \<Rightarrow> u64 \<Rightarrow> nat \<Rightarrow> nat \<Rightarrow> Display \<Rightarrow> panic + Display" where
  "draw_pixels v wx wy draw_w draw_h d = fold (draw_one v wx wy) (List.product [0 ..< draw_h] [0 ..< draw_w]) (Inr d)"

definition image_render :: "ImageViewer \<Rightarrow> u64 \<Rightarrow> u64 \<Rightarrow> u64 \<Rightarrow> u64 \<Rightarrow> Display \<Rightarrow> panic + Display" where
  "image_render v wx wy ww wh d =
    (let d = fill_rect wx wy ww wh (from_hex 0x0A0A14) d in
     case iv_error v of
       Some err \<Rightarrow> Inr (draw_text (wx + 8) (wy + 8) err (from_hex 0xFF6B6B) 1 d)
     | None \<Rightarrow>
         if iv_width v = 0 \<or> iv_height v = 0
         then Inr (draw_text (wx + 8) (wy + 8) (codes ''(empty image)'') (from_hex 0x888888) 1 d)
         else (let draw_w = min (iv_width v) (unat ww); draw_h = min (iv_height v) (unat wh) in
           rbind (draw_pixels v wx wy draw_w draw_h d) (\<lambda>d.
           Inr (if word_of_nat draw_h + 12 \<le> wh
             then draw_text (wx + 4) (wy + word_of_nat draw_h + 2)
               (map unat (decimal (iv_width v)) @ codes ''x'' @ map unat (decimal (iv_height v)) @ codes '' BMP'') (from_hex 0x888888) 1 d
             else d))))"

section \<open>Correctness\<close>

text \<open>
  The format: a line takes its bits rounded up to a multiple of 32, the lines follow each other from the pixel offset, the
  bottom one first when the height is positive, and a pixel is stored blue byte first.
\<close>

definition line_bytes :: "bmp_header \<Rightarrow> nat" where
  "line_bytes h = (bmp_width h * bmp_bpp h + 31) div 32 * 4"

definition line_of :: "bmp_header \<Rightarrow> nat \<Rightarrow> nat" where
  "line_of h row = (if 0 < height_raw h then nat (height_raw h) - 1 - row else row)"

definition file_pos :: "bmp_header \<Rightarrow> nat \<Rightarrow> nat" where
  "file_pos h row = pixel_offset h + line_of h row * line_bytes h"

definition stored_pixel :: "u8 list \<Rightarrow> bmp_header \<Rightarrow> nat \<Rightarrow> nat \<Rightarrow> Color" where
  "stored_pixel data h start col = (let px = start + col * (bmp_bpp h div 8) in
     \<lparr>c_r = data ! (px + 2), c_g = data ! (px + 1), c_b = data ! px\<rparr>)"

definition complete :: "u8 list \<Rightarrow> bmp_header \<Rightarrow> nat \<Rightarrow> bool" where
  "complete data h start \<longleftrightarrow> start + bmp_width h * (bmp_bpp h div 8) \<le> length data"

lemma row_start_file_pos: "supported h \<Longrightarrow> row_start h row = file_pos h row"
proof -
  assume s: "supported h"
  have "(w * 24 + 31) div 32 = (w * 3 + 3) div 4" "(w * 32 + 31) div 32 = (w * 4 + 3) div 4" for w :: nat
  proof -
    have "(w * 24 + 31) div 32 = (w * 24 + 31) div 8 div 4" by (simp flip: div_mult2_eq)
    also have "(w * 24 + 31) div 8 = w * 3 + 3" by simp
    finally show "(w * 24 + 31) div 32 = (w * 3 + 3) div 4" .
    show "(w * 32 + 31) div 32 = (w * 4 + 3) div 4" by simp
  qed
  then have "row_stride h = line_bytes h" using s by (auto simp: supported_def row_stride_def line_bytes_def bytes_per_px_def)
  moreover have "(if height_raw h < 0 then row else bmp_height h - 1 - row) = line_of h row"
    using s by (auto simp: supported_def bmp_height_def line_of_def)
  ultimately show ?thesis by (simp add: row_start_def file_pos_def)
qed

lemma pixel_in_row:
  assumes "col < w" "3 \<le> (b :: nat)"
  shows "start + col * b + 2 < start + w * b"
proof -
  have "Suc col * b \<le> w * b" using assms(1) by (intro mult_le_mono1) simp
  then show ?thesis using assms(2) by simp
qed

lemma decode_row_spec:
  assumes "\<And>col. col \<in> set cols \<Longrightarrow> start + col * b + 2 < length data" "\<And>col. col \<in> set cols \<Longrightarrow> base + col < length pixels"
  shows "\<exists>pixels'. decode_row data start b base cols pixels = Inr pixels' \<and> length pixels' = length pixels \<and>
    (\<forall>i < length pixels. pixels' ! i = (if \<exists>col \<in> set cols. i = base + col
       then (let px = start + (i - base) * b in \<lparr>c_r = data ! (px + 2), c_g = data ! (px + 1), c_b = data ! px\<rparr>) else pixels ! i))"
  using assms
proof (induction cols arbitrary: pixels)
  case (Cons col cols)
  let ?c = "\<lparr>c_r = data ! (start + col * b + 2), c_g = data ! (start + col * b + 1), c_b = data ! (start + col * b)\<rparr>"
  have "decode_pixel data (start + col * b) = Inr ?c" using Cons.prems(1) [of col] by (simp add: decode_pixel_def byte_at_def)
  moreover obtain p' where p': "decode_row data start b base cols (pixels[base + col := ?c]) = Inr p'" "length p' = length pixels"
      "\<forall>i < length pixels. p' ! i = (if \<exists>col \<in> set cols. i = base + col
         then (let px = start + (i - base) * b in \<lparr>c_r = data ! (px + 2), c_g = data ! (px + 1), c_b = data ! px\<rparr>)
         else pixels[base + col := ?c] ! i)"
    using Cons.IH [of "pixels[base + col := ?c]"] Cons.prems by auto
  ultimately show ?case using Cons.prems(2) [of col] by (auto simp: Let_def nth_list_update)
qed simp

lemma decode_rows_spec:
  assumes "3 \<le> bytes_per_px h" "\<And>row. row \<in> set rows \<Longrightarrow> row < bmp_height h" "length pixels = bmp_width h * bmp_height h" "distinct rows"
  shows "if \<forall>row \<in> set rows. complete data h (row_start h row) then
      \<exists>pixels'. decode_rows data h rows pixels = Inr (Some pixels') \<and> length pixels' = length pixels \<and>
        (\<forall>row col. row < bmp_height h \<longrightarrow> col < bmp_width h \<longrightarrow> pixels' ! (row * bmp_width h + col) =
           (if row \<in> set rows then stored_pixel data h (row_start h row) col else pixels ! (row * bmp_width h + col)))
    else decode_rows data h rows pixels = Inr None"
  using assms
proof (induction rows arbitrary: pixels)
  case (Cons row rows)
  let ?w = "bmp_width h"
  show ?case
  proof (cases "complete data h (row_start h row)")
    case False
    then show ?thesis by (auto simp: complete_def bytes_per_px_def)
  next
    case True
    have lt: "r * ?w + c < length pixels" if "r < bmp_height h" "c < ?w" for r c
      using row_order [OF that] Cons.prems(3) by (simp add: mult.commute)
    have in_data: "row_start h row + c * bytes_per_px h + 2 < length data" if "c \<in> set [0 ..< ?w]" for c
      using pixel_in_row [of c ?w "bytes_per_px h" "row_start h row"] that True Cons.prems(1) by (simp add: complete_def bytes_per_px_def)
    obtain p1 where p1: "decode_row data (row_start h row) (bytes_per_px h) (row * ?w) [0 ..< ?w] pixels = Inr p1" "length p1 = length pixels"
        "\<forall>i < length pixels. p1 ! i = (if \<exists>col \<in> set [0 ..< ?w]. i = row * ?w + col
           then (let px = row_start h row + (i - row * ?w) * bytes_per_px h in
             \<lparr>c_r = data ! (px + 2), c_g = data ! (px + 1), c_b = data ! px\<rparr>) else pixels ! i)"
      using decode_row_spec [OF in_data, of "[0 ..< ?w]" "row * ?w" pixels] lt Cons.prems(2) [of row] by auto
    have at: "p1 ! (r * ?w + c) = (if r = row then stored_pixel data h (row_start h row) c else pixels ! (r * ?w + c))"
      if "r < bmp_height h" "c < ?w" for r c
    proof -
      have "(\<exists>col \<in> set [0 ..< ?w]. r * ?w + c = row * ?w + col) \<longleftrightarrow> r = row"
        using in_row_iff [of c ?w 0 ?w row r] that(2) by (auto simp: le_iff_add)
      then show ?thesis using p1(3) lt [OF that] by (auto simp: stored_pixel_def bytes_per_px_def)
    qed
    have step: "decode_rows data h (row # rows) pixels = decode_rows data h rows p1" using True p1(1) by (simp add: complete_def bytes_per_px_def)
    have "\<And>r. r \<in> set rows \<Longrightarrow> r < bmp_height h" "length p1 = ?w * bmp_height h" "distinct rows" "row \<notin> set rows"
      using Cons.prems p1(2) by auto
    then show ?thesis using Cons.IH [of p1] Cons.prems(1) at p1(2) True unfolding step by (auto split: if_splits)
  qed
qed simp

lemma read_header_total: "54 \<le> length data \<Longrightarrow> \<exists>h. read_header data = Inr h"
  by (simp add: read_header_def le32_def le16_def)

text \<open>
  C35: The BMP decoder never panics on any file. It accepts exactly the files with a supported header whose every row lies
  in the file, and then gives one colour per pixel, from the top left, read from the place the format stores it: rows padded
  to four bytes, bottom row first unless the height is negative, blue byte first.
\<close>

theorem decode_bmp_correct:
  "(\<exists>r. decode_bmp data = Inr r) \<and>
   (\<forall>h. 54 \<le> length data \<longrightarrow> read_header data = Inr h \<longrightarrow>
     (if data ! 0 = 66 \<and> data ! 1 = 77 \<and> supported h \<and> (\<forall>row < bmp_height h. complete data h (file_pos h row))
      then \<exists>pixels. decode_bmp data = Inr (Some (bmp_width h, bmp_height h, pixels)) \<and> length pixels = bmp_width h * bmp_height h \<and>
        (\<forall>row col. row < bmp_height h \<longrightarrow> col < bmp_width h \<longrightarrow> pixels ! (row * bmp_width h + col) = stored_pixel data h (file_pos h row) col)
      else decode_bmp data = Inr None))"
proof -
  have main: "if data ! 0 = 66 \<and> data ! 1 = 77 \<and> supported h \<and> (\<forall>row < bmp_height h. complete data h (file_pos h row))
      then \<exists>pixels. decode_bmp data = Inr (Some (bmp_width h, bmp_height h, pixels)) \<and> length pixels = bmp_width h * bmp_height h \<and>
        (\<forall>row col. row < bmp_height h \<longrightarrow> col < bmp_width h \<longrightarrow> pixels ! (row * bmp_width h + col) = stored_pixel data h (file_pos h row) col)
      else decode_bmp data = Inr None" if "54 \<le> length data" "read_header data = Inr h" for h
  proof (cases "data ! 0 = 66 \<and> data ! 1 = 77 \<and> supported h")
    case False
    then show ?thesis using that by (auto simp: decode_bmp_def byte_at_def)
  next
    case True
    let ?p = "replicate (bmp_width h * bmp_height h) \<lparr>c_r = 0 :: u8, c_g = 0, c_b = 0\<rparr>"
    have "3 \<le> bytes_per_px h" using True by (auto simp: supported_def bytes_per_px_def)
    note d = decode_rows_spec [OF this, of "[0 ..< bmp_height h]" ?p data]
    have "0 < length data" "1 < length data" using that(1) by linarith+
    then have b: "byte_at data 0 = Inr 66" "byte_at data 1 = Inr 77" using True unfolding byte_at_def by simp_all
    have "decode_bmp data = rbind (decode_rows data h [0 ..< bmp_height h] ?p) (\<lambda>r. Inr (map_option (\<lambda>pixels. (bmp_width h, bmp_height h, pixels)) r))"
      using that True b by (simp add: decode_bmp_def)
    then show ?thesis using d True row_start_file_pos [of h] by (auto split: if_splits)
  qed
  have "\<exists>r. decode_bmp data = Inr r"
  proof (cases "54 \<le> length data")
    case True
    then obtain h where "read_header data = Inr h" using read_header_total by blast
    from main [OF True this] show ?thesis by (auto split: if_splits)
  qed (simp add: decode_bmp_def)
  then show ?thesis using main by blast
qed

text \<open>A viewer made from any file renders without a panic.\<close>

lemma draw_pixels_total:
  assumes "length (iv_pixels v) = iv_width v * iv_height v" "\<And>y x. (y, x) \<in> set ps \<Longrightarrow> y < iv_height v \<and> x < iv_width v"
  shows "\<exists>d'. fold (draw_one v wx wy) ps (Inr d) = Inr d'"
  using assms(2)
proof (induction ps arbitrary: d)
  case (Cons p ps)
  obtain y x where p: "p = (y, x)" by force
  then have "y * iv_width v + x < length (iv_pixels v)" using row_order [of y "iv_height v" x "iv_width v"] Cons.prems [of y x] assms(1)
    by (simp add: mult.commute)
  then have "\<exists>d1. draw_one v wx wy p (Inr d) = Inr d1" by (simp add: draw_one_def p)
  then show ?case using Cons.IH Cons.prems by fastforce
qed simp

lemma image_render_total:
  assumes "iv_error v = None \<Longrightarrow> length (iv_pixels v) = iv_width v * iv_height v"
  shows "\<exists>d'. image_render v wx wy ww wh d = Inr d'"
proof (cases "iv_error v")
  case None
  let ?ps = "List.product [0 ..< min (iv_height v) (unat wh)] [0 ..< min (iv_width v) (unat ww)]"
  have "\<exists>d'. draw_pixels v wx wy (min (iv_width v) (unat ww)) (min (iv_height v) (unat wh)) d0 = Inr d'" for d0
    unfolding draw_pixels_def by (rule draw_pixels_total) (use assms None in auto)
  then obtain d' where "draw_pixels v wx wy (min (iv_width v) (unat ww)) (min (iv_height v) (unat wh))
      (fill_rect wx wy ww wh (from_hex 0x0A0A14) d) = Inr d'" by blast
  then show ?thesis using None by (simp add: image_render_def Let_def)
qed (simp add: image_render_def Let_def)

text \<open>A bitmap of two by one pixels with 24 bits each: red, then blue.\<close>

definition tiny_bmp :: "u8 list" where
  "tiny_bmp = [66, 77] @ replicate 8 0 @ [54, 0, 0, 0, 40, 0, 0, 0, 2, 0, 0, 0, 1, 0, 0, 0, 1, 0, 24, 0] @ replicate 24 0 @
     [0, 0, 255, 255, 0, 0, 0, 0]"

theorem decode_bmp_correct_witness:
  "\<exists>pixels. decode_bmp tiny_bmp = Inr (Some (2, 1, pixels)) \<and> pixels ! 0 = \<lparr>c_r = 255, c_g = 0, c_b = 0\<rparr>"
proof -
  define h where "h = \<lparr>pixel_offset = 54, dib_size = 40, width_raw = 2, height_raw = 1, bmp_bpp = 24, compression = 0\<rparr>"
  have r: "read_header tiny_bmp = Inr h" unfolding h_def by code_simp
  have l: "54 \<le> length tiny_bmp" by (simp add: tiny_bmp_def)
  have s: "supported h" "bmp_width h = 2" "bmp_height h = 1" unfolding h_def by code_simp+
  have c: "tiny_bmp ! 0 = 66" "tiny_bmp ! 1 = 77" "complete tiny_bmp h (file_pos h 0)" unfolding h_def by code_simp+
  have p: "stored_pixel tiny_bmp h (file_pos h 0) 0 = \<lparr>c_r = 255, c_g = 0, c_b = 0\<rparr>" unfolding h_def by code_simp
  from decode_bmp_correct [of tiny_bmp] l r obtain pixels where "decode_bmp tiny_bmp = Inr (Some (2, 1, pixels))"
    "\<forall>row col. row < 1 \<longrightarrow> col < 2 \<longrightarrow> pixels ! (row * 2 + col) = stored_pixel tiny_bmp h (file_pos h row) col"
    using s c by auto
  then show ?thesis using p by (intro exI [of _ pixels]) (auto dest: spec [of _ 0])
qed

end
