(* ===== verification/Gopd.thy ===== *)
theory Gopd
  imports Framebuffer
begin

text \<open>
  Presenting frames, \<open>request_flush\<close> of \<open>kernel/src/framebuffer.rs\<close> and the loop of the ring-3 driver
  \<open>userspace/gopd/src/main.rs\<close>, interleaved at their accesses to the shared mailbox and to each row of the shared buffers. The
  kernel's own back buffer does not change during one call, so a call carries its frame.
\<close>

section \<open>Cursor drawing of the driver\<close>

record gop_cfg =
  g_width :: nat
  g_height :: nat
  g_pitch :: nat

definition g_pixel :: "gop_cfg \<Rightarrow> u32 \<Rightarrow> int \<times> int \<Rightarrow> (nat \<Rightarrow> u32) \<Rightarrow> (nat \<Rightarrow> u32)" where
  "g_pixel c color p fb = (case p of (x, y) \<Rightarrow>
     if 0 \<le> x \<and> 0 \<le> y \<and> nat x < g_width c \<and> nat y < g_height c then fb(nat y * g_pitch c + nat x := color) else fb)"

definition g_rect :: "gop_cfg \<Rightarrow> int \<Rightarrow> int \<Rightarrow> nat \<Rightarrow> nat \<Rightarrow> u32 \<Rightarrow> (nat \<Rightarrow> u32) \<Rightarrow> (nat \<Rightarrow> u32)" where
  "g_rect c x y w h color fb =
    fold (\<lambda>(yy, xx). g_pixel c color (x + int xx, y + int yy)) (List.product [0 ..< h] [0 ..< w]) fb"

definition g_rects :: "gop_cfg \<Rightarrow> (int \<times> int \<times> nat \<times> nat \<times> u32) list \<Rightarrow> (nat \<Rightarrow> u32) \<Rightarrow> (nat \<Rightarrow> u32)" where
  "g_rects c rs fb = fold (\<lambda>(x, y, w, h, color). g_rect c x y w h color) rs fb"

definition draw_cursor :: "gop_cfg \<Rightarrow> int \<times> int \<times> u32 \<Rightarrow> (nat \<Rightarrow> u32) \<Rightarrow> (nat \<Rightarrow> u32)" where
  "draw_cursor c cur fb = (case cur of (cx, cy, kind) \<Rightarrow>
     (let W = 0x00FFFFFF; B = 0x00111111;
          diag = (\<lambda>sgn. fold (\<lambda>i fb. g_pixel c W (cx + i, cy + sgn * i) (g_pixel c B (cx + i + 1, cy + sgn * i + 1) fb))
            [-4, -3, -2, -1, 0, 1, 2, 3, 4]) in
      if kind = 1 then g_rects c [(cx - 7, cy, 15, 1, B), (cx - 7, cy - 3, 1, 7, B), (cx + 7, cy - 3, 1, 7, B),
          (cx - 6, cy, 13, 1, W), (cx - 6, cy - 2, 1, 5, W), (cx + 6, cy - 2, 1, 5, W)] fb
      else if kind = 2 then g_rects c [(cx, cy - 7, 1, 15, B), (cx - 3, cy - 7, 7, 1, B), (cx - 3, cy + 7, 7, 1, B),
          (cx, cy - 6, 1, 13, W), (cx - 2, cy - 6, 5, 1, W), (cx - 2, cy + 6, 5, 1, W)] fb
      else if kind = 3 then g_rects c [(cx - 3, cy - 4, 5, 1, B), (cx - 4, cy - 3, 1, 4, B), (cx + 1, cy + 5, 5, 1, B), (cx + 5, cy + 1, 1, 4, B),
          (cx - 3, cy - 5, 5, 1, W), (cx - 5, cy - 3, 1, 4, W), (cx + 1, cy + 5, 4, 1, W), (cx + 5, cy + 1, 1, 4, W)] (diag 1 fb)
      else if kind = 4 then g_rects c [(cx - 3, cy + 4, 5, 1, B), (cx - 4, cy - 3, 1, 4, B), (cx + 1, cy - 4, 5, 1, B), (cx + 5, cy - 3, 1, 4, B),
          (cx - 3, cy + 4, 4, 1, W), (cx - 5, cy - 3, 1, 4, W), (cx + 1, cy - 5, 5, 1, W), (cx + 5, cy - 3, 1, 4, W)] (diag (-1) fb)
      else g_rects c [(cx - 6, cy, 13, 1, W), (cx, cy - 6, 1, 13, W)] fb))"

section \<open>The handshake\<close>

record flush =
  f_frame :: "nat \<Rightarrow> u32"
  f_y0 :: nat
  f_y1 :: nat
  f_cursor :: "int \<times> int \<times> u32"

text \<open>A request for the rows \<open>y .. y + count\<close>, clipped to the screen.\<close>

definition flush_of :: "gop_cfg \<Rightarrow> (nat \<Rightarrow> u32) \<Rightarrow> u64 \<Rightarrow> u64 \<Rightarrow> int \<times> int \<times> u32 \<Rightarrow> flush" where
  "flush_of c frame y count cur = \<lparr>f_frame = frame, f_y0 = min (unat y) (g_height c), f_y1 = min (unat (y + count)) (g_height c), f_cursor = cur\<rparr>"

datatype kernel_pc = K_Idle | K_Check flush u32 | K_Copy flush u32 nat | K_Fields flush u32 | K_Publish flush u32

datatype gopd_pc = G_Poll | G_Fields u32 | G_Row u32 nat nat | G_Cursor u32 | G_Ack u32

record gop_state =
  mb_dirty_y :: u32
  mb_dirty_count :: u32
  mb_cursor :: "int \<times> int \<times> u32"
  mb_req :: u32
  mb_ack :: u32
  publish_buf :: "nat \<Rightarrow> u32"
  fb_mem :: "nat \<Rightarrow> u32"
  k_todo :: "flush list"
  k_pc :: kernel_pc
  g_pc :: gopd_pc
  last_req :: u32
  published :: "flush option"

definition copy_row :: "nat \<Rightarrow> nat \<Rightarrow> nat \<Rightarrow> (nat \<Rightarrow> u32) \<Rightarrow> (nat \<Rightarrow> u32) \<Rightarrow> (nat \<Rightarrow> u32)" where
  "copy_row n src dst from to = (\<lambda>i. if dst \<le> i \<and> i < dst + n then from (src + (i - dst)) else to i)"

text \<open>
  One access of the kernel: take the next request and read \<open>ack\<close>, compare with \<open>req\<close> and drop the request if they differ, copy
  a row, write the fields, bump \<open>req\<close>. \<open>published\<close> records the last request that got so far.
\<close>

definition flush_step :: "gop_cfg \<Rightarrow> gop_state \<Rightarrow> gop_state" where
  "flush_step c s = (case k_pc s of
     K_Idle \<Rightarrow> (case k_todo s of [] \<Rightarrow> s
       | f # fs \<Rightarrow> if f_y1 f \<le> f_y0 f then s\<lparr>k_todo := fs\<rparr> else s\<lparr>k_todo := fs, k_pc := K_Check f (mb_ack s)\<rparr>)
   | K_Check f ack \<Rightarrow> if ack \<noteq> mb_req s then s\<lparr>k_pc := K_Idle\<rparr> else s\<lparr>k_pc := K_Copy f (mb_req s) (f_y0 f)\<rparr>
   | K_Copy f req row \<Rightarrow>
       if row < f_y1 f
       then s\<lparr>publish_buf := copy_row (g_width c) (row * g_width c) (row * g_width c) (f_frame f) (publish_buf s), k_pc := K_Copy f req (row + 1)\<rparr>
       else s\<lparr>k_pc := K_Fields f req\<rparr>
   | K_Fields f req \<Rightarrow> s\<lparr>mb_dirty_y := word_of_nat (f_y0 f), mb_dirty_count := word_of_nat (f_y1 f - f_y0 f), mb_cursor := f_cursor f,
       k_pc := K_Publish f req\<rparr>
   | K_Publish f req \<Rightarrow> s\<lparr>mb_req := req + 1, published := Some f, k_pc := K_Idle\<rparr>)"

definition gopd_step :: "gop_cfg \<Rightarrow> gop_state \<Rightarrow> gop_state" where
  "gopd_step c s = (case g_pc s of
     G_Poll \<Rightarrow> if mb_req s \<noteq> last_req s then s\<lparr>last_req := mb_req s, g_pc := G_Fields (mb_req s)\<rparr> else s
   | G_Fields req \<Rightarrow> (let dirty_y = min (unat (mb_dirty_y s)) (g_height c) in
       s\<lparr>g_pc := G_Row req dirty_y (min (dirty_y + unat (mb_dirty_count s)) (g_height c))\<rparr>)
   | G_Row req row y1 \<Rightarrow>
       if row < y1 then s\<lparr>fb_mem := copy_row (g_width c) (row * g_width c) (row * g_pitch c) (publish_buf s) (fb_mem s), g_pc := G_Row req (row + 1) y1\<rparr>
       else s\<lparr>g_pc := G_Cursor req\<rparr>
   | G_Cursor req \<Rightarrow> s\<lparr>fb_mem := draw_cursor c (mb_cursor s) (fb_mem s), g_pc := G_Ack req\<rparr>
   | G_Ack req \<Rightarrow> s\<lparr>mb_ack := req, g_pc := G_Poll\<rparr>)"

definition gop_step :: "gop_cfg \<Rightarrow> bool \<Rightarrow> gop_state \<Rightarrow> gop_state" where
  "gop_step c k s = (if k then flush_step c s else gopd_step c s)"

text \<open>What \<open>spawn_gopd\<close> leaves: a zeroed mailbox; the buffers hold anything.\<close>

definition gop_start :: "(nat \<Rightarrow> u32) \<Rightarrow> (nat \<Rightarrow> u32) \<Rightarrow> flush list \<Rightarrow> gop_state" where
  "gop_start pub fb todo = \<lparr>mb_dirty_y = 0, mb_dirty_count = 0, mb_cursor = (0, 0, 0), mb_req = 0, mb_ack = 0, publish_buf = pub, fb_mem = fb,
     k_todo = todo, k_pc = K_Idle, g_pc = G_Poll, last_req = 0, published = None\<rparr>"

text \<open>Before the driver runs, the kernel copies the rows to the screen itself.\<close>

definition flush_direct :: "gop_cfg \<Rightarrow> flush \<Rightarrow> (nat \<Rightarrow> u32) \<Rightarrow> (nat \<Rightarrow> u32)" where
  "flush_direct c f fb = fold (\<lambda>row. copy_row (g_width c) (row * g_width c) (row * g_pitch c) (f_frame f)) [f_y0 f ..< f_y1 f] fb"

section \<open>No tearing\<close>

definition rows_eq :: "nat \<Rightarrow> nat \<Rightarrow> nat \<Rightarrow> nat \<Rightarrow> (nat \<Rightarrow> u32) \<Rightarrow> (nat \<Rightarrow> u32) \<Rightarrow> bool" where
  "rows_eq w p a b frame mem \<longleftrightarrow> (\<forall>row col. a \<le> row \<longrightarrow> row < b \<longrightarrow> col < w \<longrightarrow> mem (row * p + col) = frame (row * w + col))"

lemma copy_row_rows_eq:
  assumes "w \<le> p" "rows_eq w p a row frame mem" "a \<le> row" "\<And>col. col < w \<Longrightarrow> from (row * w + col) = frame (row * w + col)"
  shows "rows_eq w p a (row + 1) frame (copy_row w (row * w) (row * p) from mem)"
  unfolding rows_eq_def
proof (intro allI impI)
  fix r col assume r: "a \<le> r" "r < row + 1" "col < w"
  have i: "row * p + 0 \<le> r * p + col \<and> r * p + col < row * p + w \<longleftrightarrow> r = row \<and> 0 \<le> col \<and> col < w"
    using r assms(1) by (intro in_row_iff) simp_all
  show "copy_row w (row * w) (row * p) from mem (r * p + col) = frame (r * w + col)"
  proof (cases "r = row")
    case True
    then show ?thesis using r assms(4) by (simp add: copy_row_def)
  next
    case False
    then have "r < row" using r by simp
    then show ?thesis using i False assms(2) r by (auto simp: copy_row_def rows_eq_def)
  qed
qed

lemma flush_direct_rows:
  assumes "g_width c \<le> g_pitch c" "f_y0 f \<le> f_y1 f"
  shows "rows_eq (g_width c) (g_pitch c) (f_y0 f) (f_y1 f) (f_frame f) (flush_direct c f fb)"
proof -
  have "rows_eq (g_width c) (g_pitch c) (f_y0 f) n (f_frame f)
      (fold (\<lambda>row. copy_row (g_width c) (row * g_width c) (row * g_pitch c) (f_frame f)) [f_y0 f ..< n] fb)" if "f_y0 f \<le> n" for n
    using that
  proof (induction n rule: dec_induct)
    case base
    then show ?case by (simp add: rows_eq_def)
  next
    case (step n)
    then show ?case using copy_row_rows_eq [OF assms(1) step.IH step.hyps(1), of "f_frame f"] by simp
  qed
  then show ?thesis using assms(2) by (simp add: flush_direct_def)
qed

definition flush_ok :: "gop_cfg \<Rightarrow> flush \<Rightarrow> bool" where
  "flush_ok c f \<longleftrightarrow> f_y0 f \<le> g_height c \<and> f_y1 f \<le> g_height c"

definition cfg_ok :: "gop_cfg \<Rightarrow> bool" where
  "cfg_ok c \<longleftrightarrow> g_width c \<le> g_pitch c \<and> g_height c < 2 ^ 32"

text \<open>The kernel side: while a request is being written, the driver has answered the previous one.\<close>

fun k_inv :: "gop_cfg \<Rightarrow> gop_state \<Rightarrow> kernel_pc \<Rightarrow> bool" where
  "k_inv c s K_Idle = True"
| "k_inv c s (K_Check f ack) = (flush_ok c f \<and> f_y0 f < f_y1 f \<and> (ack = mb_req s \<longrightarrow> mb_ack s = mb_req s))"
| "k_inv c s (K_Copy f req row) = (flush_ok c f \<and> f_y0 f < f_y1 f \<and> req = mb_req s \<and> mb_ack s = mb_req s \<and> f_y0 f \<le> row \<and> row \<le> f_y1 f \<and>
     rows_eq (g_width c) (g_width c) (f_y0 f) row (f_frame f) (publish_buf s))"
| "k_inv c s (K_Fields f req) = (flush_ok c f \<and> f_y0 f < f_y1 f \<and> req = mb_req s \<and> mb_ack s = mb_req s \<and>
     rows_eq (g_width c) (g_width c) (f_y0 f) (f_y1 f) (f_frame f) (publish_buf s))"
| "k_inv c s (K_Publish f req) = (flush_ok c f \<and> f_y0 f < f_y1 f \<and> req = mb_req s \<and> mb_ack s = mb_req s \<and>
     rows_eq (g_width c) (g_width c) (f_y0 f) (f_y1 f) (f_frame f) (publish_buf s) \<and>
     unat (mb_dirty_y s) = f_y0 f \<and> unat (mb_dirty_count s) = f_y1 f - f_y0 f \<and> mb_cursor s = f_cursor f)"

text \<open>What is published while the driver has not answered.\<close>

definition pub_ok :: "gop_cfg \<Rightarrow> gop_state \<Rightarrow> bool" where
  "pub_ok c s = (case published s of None \<Rightarrow> False | Some f \<Rightarrow> flush_ok c f \<and> f_y0 f < f_y1 f \<and>
     rows_eq (g_width c) (g_width c) (f_y0 f) (f_y1 f) (f_frame f) (publish_buf s) \<and>
     unat (mb_dirty_y s) = f_y0 f \<and> unat (mb_dirty_count s) = f_y1 f - f_y0 f \<and> mb_cursor s = f_cursor f)"

fun g_inv :: "gop_cfg \<Rightarrow> gop_state \<Rightarrow> gopd_pc \<Rightarrow> bool" where
  "g_inv c s G_Poll = (mb_ack s = last_req s)"
| "g_inv c s (G_Fields req) = (req = last_req s \<and> req = mb_req s \<and> mb_ack s \<noteq> mb_req s)"
| "g_inv c s (G_Row req row y1) = (req = last_req s \<and> req = mb_req s \<and> mb_ack s \<noteq> mb_req s \<and> (case published s of None \<Rightarrow> False | Some f \<Rightarrow>
     y1 = f_y1 f \<and> f_y0 f \<le> row \<and> row \<le> y1 \<and> rows_eq (g_width c) (g_pitch c) (f_y0 f) row (f_frame f) (fb_mem s)))"
| "g_inv c s (G_Cursor req) = (req = last_req s \<and> req = mb_req s \<and> mb_ack s \<noteq> mb_req s \<and> (case published s of None \<Rightarrow> False | Some f \<Rightarrow>
     rows_eq (g_width c) (g_pitch c) (f_y0 f) (f_y1 f) (f_frame f) (fb_mem s)))"
| "g_inv c s (G_Ack req) = (req = last_req s \<and> req = mb_req s \<and> mb_ack s \<noteq> mb_req s)"

definition gop_inv :: "gop_cfg \<Rightarrow> gop_state \<Rightarrow> bool" where
  "gop_inv c s \<longleftrightarrow> k_inv c s (k_pc s) \<and> g_inv c s (g_pc s) \<and> (mb_ack s \<noteq> mb_req s \<longrightarrow> pub_ok c s) \<and> (\<forall>f \<in> set (k_todo s). flush_ok c f)"

lemma succ_ne: "(n :: u32) \<noteq> n + 1" by simp

lemma flush_step_inv:
  assumes "cfg_ok c" "gop_inv c s"
  shows "gop_inv c (flush_step c s)"
proof (cases "k_pc s")
  case K_Idle
  show ?thesis
  proof (cases "k_todo s")
    case Nil
    then show ?thesis using K_Idle assms(2) by (simp add: flush_step_def)
  next
    case (Cons f fs)
    then show ?thesis using K_Idle assms(2)
      by (cases "g_pc s") (auto simp: flush_step_def gop_inv_def pub_ok_def split: option.splits)
  qed
next
  case (K_Check f ack)
  then show ?thesis using assms(2)
    by (cases "g_pc s") (auto simp: flush_step_def gop_inv_def pub_ok_def flush_ok_def rows_eq_def split: option.splits)
next
  case (K_Copy f req row)
  have idle: "g_pc s = G_Poll" "mb_ack s = mb_req s" using assms(2) K_Copy by (cases "g_pc s"; simp add: gop_inv_def)+
  show ?thesis
  proof (cases "row < f_y1 f")
    case True
    have "rows_eq (g_width c) (g_width c) (f_y0 f) (row + 1) (f_frame f)
        (copy_row (g_width c) (row * g_width c) (row * g_width c) (f_frame f) (publish_buf s))"
      using assms(2) K_Copy by (intro copy_row_rows_eq) (simp_all add: gop_inv_def)
    then show ?thesis using assms(2) K_Copy True idle by (simp add: flush_step_def gop_inv_def)
  next
    case False
    then have "row = f_y1 f" using assms(2) K_Copy by (simp add: gop_inv_def)
    then show ?thesis using assms(2) K_Copy idle by (simp add: flush_step_def gop_inv_def)
  qed
next
  case (K_Fields f req)
  have idle: "g_pc s = G_Poll" "mb_ack s = mb_req s" using assms(2) K_Fields by (cases "g_pc s"; simp add: gop_inv_def)+
  have "f_y0 f < 2 ^ 32" "f_y1 f < 2 ^ 32" using assms K_Fields by (auto simp: gop_inv_def flush_ok_def cfg_ok_def)
  then have "f_y0 f < 2 ^ 32" "f_y1 f - f_y0 f < 2 ^ 32" by linarith+
  then have "unat (word_of_nat (f_y0 f) :: u32) = f_y0 f" "unat (word_of_nat (f_y1 f - f_y0 f) :: u32) = f_y1 f - f_y0 f"
    by (simp_all add: unat_of_nat take_bit_nat_eq_self)
  then show ?thesis using assms(2) K_Fields idle by (simp add: flush_step_def gop_inv_def)
next
  case (K_Publish f req)
  have idle: "g_pc s = G_Poll" "mb_ack s = mb_req s" using assms(2) K_Publish by (cases "g_pc s"; simp add: gop_inv_def)+
  then show ?thesis using assms(2) K_Publish by (simp add: flush_step_def gop_inv_def pub_ok_def)
qed

lemma gopd_step_inv:
  assumes "cfg_ok c" "gop_inv c s"
  shows "gop_inv c (gopd_step c s)"
proof (cases "g_pc s")
  case G_Poll
  then show ?thesis using assms(2)
    by (cases "k_pc s") (auto simp: gopd_step_def gop_inv_def pub_ok_def split: option.splits)
next
  case (G_Fields req)
  then obtain f where f: "published s = Some f" "flush_ok c f" "f_y0 f < f_y1 f" "unat (mb_dirty_y s) = f_y0 f" "unat (mb_dirty_count s) = f_y1 f - f_y0 f"
    using assms(2) by (auto simp: gop_inv_def pub_ok_def split: option.splits)
  then show ?thesis using G_Fields assms(2)
    by (cases "k_pc s") (auto simp: gopd_step_def gop_inv_def pub_ok_def flush_ok_def rows_eq_def Let_def)
next
  case (G_Row req row y1)
  then obtain f where f: "published s = Some f" "y1 = f_y1 f" "f_y0 f \<le> row" "row \<le> y1"
      "rows_eq (g_width c) (g_pitch c) (f_y0 f) row (f_frame f) (fb_mem s)"
      "rows_eq (g_width c) (g_width c) (f_y0 f) (f_y1 f) (f_frame f) (publish_buf s)"
    using assms(2) by (auto simp: gop_inv_def pub_ok_def split: option.splits)
  show ?thesis
  proof (cases "row < y1")
    case True
    have "rows_eq (g_width c) (g_pitch c) (f_y0 f) (row + 1) (f_frame f)
        (copy_row (g_width c) (row * g_width c) (row * g_pitch c) (publish_buf s) (fb_mem s))"
      using assms(1) f True by (intro copy_row_rows_eq) (auto simp: cfg_ok_def rows_eq_def)
    then show ?thesis using G_Row True f assms(2) by (cases "k_pc s") (auto simp: gopd_step_def gop_inv_def pub_ok_def)
  next
    case False
    then show ?thesis using G_Row f assms(2) by (cases "k_pc s") (auto simp: gopd_step_def gop_inv_def pub_ok_def)
  qed
next
  case (G_Cursor req)
  then show ?thesis using assms(2) by (cases "k_pc s") (auto simp: gopd_step_def gop_inv_def pub_ok_def split: option.splits)
next
  case (G_Ack req)
  then show ?thesis using assms(2) by (cases "k_pc s") (auto simp: gopd_step_def gop_inv_def pub_ok_def split: option.splits)
qed

lemma gop_run_inv: "cfg_ok c \<Longrightarrow> gop_inv c s \<Longrightarrow> gop_inv c (fold (gop_step c) sched s)"
  by (induction sched arbitrary: s) (simp_all add: gop_step_def flush_step_inv gopd_step_inv)

text \<open>
  C40: Whatever the interleaving of the kernel's flushes with the driver, when the driver has copied a request and is about to
  draw the cursor, the rows of that request on the screen are those of one frame, the one the kernel published, and the
  cursor it reads is the one that belongs to that frame: a frame is never mixed with a later one.
\<close>

theorem no_tearing:
  assumes "cfg_ok c" "\<forall>f \<in> set todo. flush_ok c f" "s = fold (gop_step c) sched (gop_start pub fb todo)" "g_pc s = G_Cursor req"
  shows "\<exists>f. published s = Some f \<and> mb_cursor s = f_cursor f \<and>
    (\<forall>row col. f_y0 f \<le> row \<longrightarrow> row < f_y1 f \<longrightarrow> col < g_width c \<longrightarrow>
       fb_mem s (row * g_pitch c + col) = f_frame f (row * g_width c + col))"
proof -
  have "gop_inv c (gop_start pub fb todo)" using assms(2) by (simp add: gop_inv_def gop_start_def)
  then have "gop_inv c s" unfolding assms(3) by (rule gop_run_inv [OF assms(1)])
  then show ?thesis using assms(4) by (auto simp: gop_inv_def pub_ok_def rows_eq_def split: option.splits)
qed

text \<open>
  A request that arrives while the driver is busy is dropped and not repeated: the kernel goes back to idle with the screen,
  the published buffer and the mailbox unchanged.
\<close>

lemma busy_flush_dropped:
  "k_pc s = K_Check f ack \<Longrightarrow> ack \<noteq> mb_req s \<Longrightarrow> flush_step c s = s\<lparr>k_pc := K_Idle\<rparr>"
  by (simp add: flush_step_def)

definition example_cfg :: gop_cfg where "example_cfg = \<lparr>g_width = 2, g_height = 2, g_pitch = 3\<rparr>"

definition example_flush :: flush where "example_flush = flush_of example_cfg (\<lambda>i. word_of_nat (i + 10)) 0 2 (0, 0, 0)"

definition example_sched :: "bool list" where "example_sched = replicate 7 True @ replicate 5 False"

theorem no_tearing_witness:
  "g_pc (fold (gop_step example_cfg) example_sched (gop_start (\<lambda>_. 0) (\<lambda>_. 0) [example_flush])) = G_Cursor 1 \<and>
   (\<exists>f. published (fold (gop_step example_cfg) example_sched (gop_start (\<lambda>_. 0) (\<lambda>_. 0) [example_flush])) = Some f \<and>
     mb_cursor (fold (gop_step example_cfg) example_sched (gop_start (\<lambda>_. 0) (\<lambda>_. 0) [example_flush])) = f_cursor f)"
proof -
  have c: "cfg_ok example_cfg" "\<forall>f \<in> set [example_flush]. flush_ok example_cfg f"
    by (simp_all add: cfg_ok_def example_cfg_def flush_ok_def example_flush_def flush_of_def)
  have g: "g_pc (fold (gop_step example_cfg) example_sched (gop_start (\<lambda>_. 0) (\<lambda>_. 0) [example_flush])) = G_Cursor 1" by code_simp
  from no_tearing [OF c refl g] g show ?thesis by blast
qed

end
