(* ===== verification/Rtc.thy ===== *)
theory Rtc
  imports Rust_Text
begin

text \<open>
  The real-time clock, \<open>kernel/src/rtc.rs\<close>. The clock is a parameter: \<open>clk n reg\<close> is what the \<open>n\<close>-th read returns when it
  selects register \<open>reg\<close>. The wait for the end of an update has no bound in the source and takes fuel here.
\<close>

definition bcd :: "u8 \<Rightarrow> u8" where "bcd v = (v AND 0x0F) + drop_bit 4 v * 10"

record DateTime =
  dt_hour :: u8
  dt_min :: u8
  dt_sec :: u8
  dt_day :: u8
  dt_month :: u8
  dt_year :: u16

fun wait_update :: "nat \<Rightarrow> (nat \<Rightarrow> u8 \<Rightarrow> u8) \<Rightarrow> nat \<Rightarrow> nat option" where
  "wait_update 0 clk n = None"
| "wait_update (Suc fuel) clk n = (if clk n 0x0A AND 0x80 \<noteq> 0 then wait_update fuel clk (n + 1) else Some (n + 1))"

definition now :: "nat \<Rightarrow> (nat \<Rightarrow> u8 \<Rightarrow> u8) \<Rightarrow> nat \<Rightarrow> (DateTime \<times> nat) option" where
  "now fuel clk n = (case wait_update fuel clk n of None \<Rightarrow> None | Some n \<Rightarrow>
     Some (\<lparr>dt_hour = bcd (clk (n + 2) 0x04), dt_min = bcd (clk (n + 1) 0x02), dt_sec = bcd (clk n 0x00),
        dt_day = bcd (clk (n + 3) 0x07), dt_month = bcd (clk (n + 4) 0x08), dt_year = 2000 + ucast (bcd (clk (n + 5) 0x09))\<rparr>, n + 6))"

definition digits2 :: "u8 \<Rightarrow> u8 list" where "digits2 v = [48 + v div 10, 48 + v mod 10]"

definition or_text :: "u8 list \<Rightarrow> string \<Rightarrow> u8 list" where
  "or_text bs alt = (if utf8_valid bs then bs else str_bytes alt)"

definition time_text :: "DateTime \<Rightarrow> u8 list" where
  "time_text t = or_text (digits2 (dt_hour t) @ [58] @ digits2 (dt_min t)) ''??:??''"

definition fmt_time :: "nat \<Rightarrow> (nat \<Rightarrow> u8 \<Rightarrow> u8) \<Rightarrow> nat \<Rightarrow> u8 list option" where
  "fmt_time fuel clk n = map_option (\<lambda>(t, _). time_text t) (now fuel clk n)"

definition date_text :: "DateTime \<Rightarrow> u8 list" where
  "date_text t = (let y = dt_year t in
     or_text ([48 + ucast (y div 1000), 48 + ucast (y div 100 mod 10), 48 + ucast (y div 10 mod 10), 48 + ucast (y mod 10), 45] @
       digits2 (dt_month t) @ [45] @ digits2 (dt_day t)) ''????-??-??'')"

definition fmt_date :: "nat \<Rightarrow> (nat \<Rightarrow> u8 \<Rightarrow> u8) \<Rightarrow> nat \<Rightarrow> u8 list option" where
  "fmt_date fuel clk n = map_option (\<lambda>(t, _). date_text t) (now fuel clk n)"

section \<open>Reading the clock\<close>

text \<open>The wait ends, with any fuel that reaches it, at the first read that shows no update in progress.\<close>

lemma wait_update_ends:
  "clk (n + k) 0x0A AND 0x80 = 0 \<Longrightarrow> (\<And>j. j < k \<Longrightarrow> clk (n + j) 0x0A AND 0x80 \<noteq> 0) \<Longrightarrow> k < fuel \<Longrightarrow>
   wait_update fuel clk n = Some (n + k + 1)"
proof (induction k arbitrary: n fuel)
  case 0
  then show ?case by (cases fuel) simp_all
next
  case (Suc k)
  then obtain f where f: "fuel = Suc f" by (cases fuel) simp_all
  have "wait_update f clk (n + 1) = Some (n + 1 + k + 1)"
    using Suc.prems(1,3) Suc.prems(2) [of "Suc _"] f by (intro Suc.IH) simp_all
  then show ?case using Suc.prems(2) [of 0] f by simp
qed

definition to_bcd :: "nat \<Rightarrow> u8" where "to_bcd v = word_of_nat (v div 10 * 16 + v mod 10)"

lemma bcd_to_bcd_all: "list_all (\<lambda>v. bcd (to_bcd v) = word_of_nat v) [0 ..< 100]" by code_simp

text \<open>Decoding undoes the encoding of every two-digit number.\<close>

lemma bcd_to_bcd: "v < 100 \<Longrightarrow> bcd (to_bcd v) = word_of_nat v"
  using bcd_to_bcd_all by (simp add: list_all_iff del: upt_conv_Cons)

text \<open>A clock that shows a time of day and is not updated between the reads is printed as that time.\<close>

lemma fmt_time_shows:
  assumes "\<And>m. clk m 0x0A = 0" "\<And>m. clk m 0x04 = to_bcd h" "\<And>m. clk m 0x02 = to_bcd mi" "h < 24" "mi < 60"
  shows "fmt_time (Suc fuel) clk n = Some (time_text \<lparr>dt_hour = word_of_nat h, dt_min = word_of_nat mi, dt_sec = bcd (clk (n + 1) 0),
    dt_day = bcd (clk (n + 4) 7), dt_month = bcd (clk (n + 5) 8), dt_year = 2000 + ucast (bcd (clk (n + 6) 9))\<rparr>)"
  using assms by (simp add: fmt_time_def now_def bcd_to_bcd eval_nat_numeral)

end
