(* ===== verification/Desktop.thy ===== *)
theory Desktop
  imports HepFs
begin

text \<open>
  The window manager, \<open>kernel/src/desktop.rs\<close>: windows, desktop icons, pins, taskbar grouping, the name prompt and the mouse
  handler \<open>update_mouse\<close>. Screen coordinates are integers and sizes naturals: screens are far smaller than the range of
  \<open>i32\<close> and higher than the taskbar. The time stamp counter, the tick count, the shift key and the values of the two
  floating-point expressions (volume slider, grab position on a maximised title bar) are given to the handler.
\<close>

section \<open>Kinds, icons and windows\<close>

datatype AppKind = Welcome | Files | Terminal | Editor_App | Sysmon | Settings | Image_Viewer | Audio_Player

definition app_label :: "AppKind \<Rightarrow> u8 list" where
  "app_label kind = str_bytes (case kind of Welcome \<Rightarrow> ''Welcome'' | Files \<Rightarrow> ''Files'' | Terminal \<Rightarrow> ''Terminal'' | Editor_App \<Rightarrow> ''Editor''
     | Sysmon \<Rightarrow> ''Sysmon'' | Settings \<Rightarrow> ''Settings'' | Image_Viewer \<Rightarrow> ''Image Viewer'' | Audio_Player \<Rightarrow> ''Audio Player'')"

definition program_win_id :: "AppKind \<Rightarrow> nat option" where
  "program_win_id kind = (case kind of Welcome \<Rightarrow> Some 0 | Files \<Rightarrow> Some 1 | Terminal \<Rightarrow> Some 2 | Editor_App \<Rightarrow> Some 3
     | Sysmon \<Rightarrow> Some 4 | Settings \<Rightarrow> Some 5 | Image_Viewer \<Rightarrow> None | Audio_Player \<Rightarrow> None)"

datatype IconKind = Program AppKind nat | FsEntry u32 bool

record DesktopIcon =
  ic_kind :: IconKind
  ic_label :: "u8 list"
  ic_x :: int
  ic_y :: int

definition TITLE_H :: nat where "TITLE_H = 22"
definition TASKBAR_H :: nat where "TASKBAR_H = 32"
definition BORDER_W :: nat where "BORDER_W = 1"
definition START_W :: nat where "START_W = 68"
definition TASK_BTN_W :: nat where "TASK_BTN_W = 120"
definition MENU_ENTRY_H :: nat where "MENU_ENTRY_H = 26"
definition MENU_W :: nat where "MENU_W = 160"
definition DOCK_W :: nat where "DOCK_W = 56"
definition ICON_SIZE :: nat where "ICON_SIZE = 48"
definition ICON_STRIDE :: nat where "ICON_STRIDE = 80"
definition ICON_X :: nat where "ICON_X = DOCK_W + 16"

definition in_pin_dock :: "int \<Rightarrow> int \<Rightarrow> nat \<Rightarrow> bool" where
  "in_pin_dock mx my h \<longleftrightarrow> 0 \<le> mx \<and> nat mx < DOCK_W \<and> 0 \<le> my \<and> nat my < h - TASKBAR_H"

definition icon_grid_pos :: "nat \<Rightarrow> int \<times> int" where
  "icon_grid_pos slot = (int ICON_X, int (16 + slot * ICON_STRIDE))"

definition icon_snap :: "int \<Rightarrow> int \<Rightarrow> int \<times> int" where
  "icon_snap x y =
    (let dx = max (x - int ICON_X) 0; dy = max (y - 16) 0;
         col = (dx + 45) div 90; row = (dy + 40) div 80
     in (int ICON_X + col * 90, 16 + row * 80))"

datatype AnimKind = Opening | Closing | Transition "int \<times> int \<times> nat \<times> nat"

record WindowAnim =
  an_kind :: AnimKind
  an_start :: u64

record Window =
  w_id :: nat
  app_kind :: AppKind
  w_title :: "u8 list"
  w_x :: int
  w_y :: int
  w_w :: nat
  w_h :: nat
  minimized :: bool
  maximized :: bool
  is_terminal :: bool
  saved_rect :: "int \<times> int \<times> nat \<times> nat"
  drag_off :: "int \<times> int"
  dragging :: bool
  resizing :: bool
  resize_edge_flags :: u8
  resize_orig :: "int \<times> int \<times> nat \<times> nat"
  resize_orig_m :: "int \<times> int"
  anim :: "WindowAnim option"
  ever_shown :: bool

definition w_rect :: "Window \<Rightarrow> int \<times> int \<times> nat \<times> nat" where "w_rect w = (w_x w, w_y w, w_w w, w_h w)"

definition set_rect :: "int \<times> int \<times> nat \<times> nat \<Rightarrow> Window \<Rightarrow> Window" where
  "set_rect r w = (case r of (x, y, ww, h) \<Rightarrow> w\<lparr>w_x := x, w_y := y, w_w := ww, w_h := h\<rparr>)"

definition Window_new :: "u64 \<Rightarrow> nat \<Rightarrow> AppKind \<Rightarrow> u8 list \<Rightarrow> int \<Rightarrow> int \<Rightarrow> nat \<Rightarrow> nat \<Rightarrow> Window" where
  "Window_new tsc i kind title x y w h = \<lparr>w_id = i, app_kind = kind, w_title = title, w_x = x, w_y = y, w_w = w, w_h = h,
     minimized = False, maximized = False, is_terminal = False, saved_rect = (x, y, w, h), drag_off = (0, 0), dragging = False,
     resizing = False, resize_edge_flags = 0, resize_orig = (x, y, w, h), resize_orig_m = (0, 0),
     anim = Some \<lparr>an_kind = Opening, an_start = tsc\<rparr>, ever_shown = True\<rparr>"

definition win_show :: "u64 \<Rightarrow> Window \<Rightarrow> Window" where
  "win_show tsc w = (let w = w\<lparr>ever_shown := True\<rparr> in
     if minimized w then w\<lparr>minimized := False, anim := Some \<lparr>an_kind = Opening, an_start = tsc\<rparr>\<rparr> else w)"

definition win_hide :: "u64 \<Rightarrow> Window \<Rightarrow> Window" where
  "win_hide tsc w = (if minimized w then w else w\<lparr>anim := Some \<lparr>an_kind = Closing, an_start = tsc\<rparr>\<rparr>)"

definition win_close :: "u64 \<Rightarrow> Window \<Rightarrow> Window" where
  "win_close tsc w = (win_hide tsc w)\<lparr>ever_shown := False\<rparr>"

definition hide_instant :: "Window \<Rightarrow> Window" where
  "hide_instant w = w\<lparr>minimized := True, anim := None, ever_shown := False\<rparr>"

definition is_closing :: "Window \<Rightarrow> bool" where
  "is_closing w = (case anim w of Some a \<Rightarrow> an_kind a = Closing | None \<Rightarrow> False)"

definition start_transition :: "u64 \<Rightarrow> int \<times> int \<times> nat \<times> nat \<Rightarrow> Window \<Rightarrow> Window" where
  "start_transition tsc from w = w\<lparr>anim := Some \<lparr>an_kind = Transition from, an_start = tsc\<rparr>\<rparr>"

definition toggle_maximize :: "u64 \<Rightarrow> nat \<Rightarrow> nat \<Rightarrow> Window \<Rightarrow> Window" where
  "toggle_maximize tsc sw sh w =
    (let from = w_rect w;
         w = (if maximized w then set_rect (saved_rect w) (w\<lparr>maximized := False\<rparr>)
              else set_rect (int BORDER_W, int TITLE_H + int BORDER_W, sw - BORDER_W * 2, sh - (TITLE_H + TASKBAR_H + BORDER_W * 2))
                (w\<lparr>saved_rect := from, maximized := True\<rparr>))
     in start_transition tsc from w)"

definition outer_x :: "Window \<Rightarrow> int" where "outer_x w = w_x w - int BORDER_W"
definition outer_y :: "Window \<Rightarrow> int" where "outer_y w = w_y w - int TITLE_H - int BORDER_W"
definition outer_w :: "Window \<Rightarrow> nat" where "outer_w w = w_w w + BORDER_W * 2"
definition outer_h :: "Window \<Rightarrow> nat" where "outer_h w = w_h w + TITLE_H + BORDER_W * 2"

definition in_box :: "int \<Rightarrow> int \<Rightarrow> int \<Rightarrow> int \<Rightarrow> int \<Rightarrow> int \<Rightarrow> bool" where
  "in_box x y w h mx my \<longleftrightarrow> x \<le> mx \<and> mx < x + w \<and> y \<le> my \<and> my < y + h"

definition maximize_hit :: "int \<Rightarrow> int \<Rightarrow> Window \<Rightarrow> bool" where
  "maximize_hit mx my w = in_box (max (w_x w) 0 + int (w_w w) - 34) (outer_y w + int BORDER_W + 4) 14 14 mx my"

definition minimize_hit :: "int \<Rightarrow> int \<Rightarrow> Window \<Rightarrow> bool" where
  "minimize_hit mx my w = in_box (max (w_x w) 0 + int (w_w w) - 50) (outer_y w + int BORDER_W + 4) 14 14 mx my"

definition title_hit :: "int \<Rightarrow> int \<Rightarrow> Window \<Rightarrow> bool" where
  "title_hit mx my w \<longleftrightarrow> outer_x w \<le> mx \<and> mx < outer_x w + int (outer_w w) \<and> outer_y w \<le> my \<and> my < w_y w"

definition close_hit :: "int \<Rightarrow> int \<Rightarrow> Window \<Rightarrow> bool" where
  "close_hit mx my w = in_box (outer_x w + int (outer_w w) - 18) (outer_y w + 4) 14 14 mx my"

definition content_hit :: "int \<Rightarrow> int \<Rightarrow> Window \<Rightarrow> bool" where
  "content_hit mx my w = in_box (w_x w) (w_y w) (int (w_w w)) (int (w_h w)) mx my"

definition resize_edges_at :: "int \<Rightarrow> int \<Rightarrow> Window \<Rightarrow> u8" where
  "resize_edges_at mx my w =
    (if maximized w then 0 else
     let cx1 = w_x w + int (w_w w); cy0 = w_y w; cy1 = w_y w + int (w_h w); ox = outer_x w; ow = int (outer_w w) in
     if mx < ox - 6 \<or> ox + ow + 6 \<le> mx then 0
     else if my < cy0 \<or> cy1 + 6 \<le> my then 0
     else (if cx1 - 6 \<le> mx \<and> mx < cx1 + 6 \<and> cy0 \<le> my then 1 else 0) OR
          (if cy1 - 6 \<le> my \<and> my < cy1 + 6 then 2 else 0) OR
          (if ox - 6 \<le> mx \<and> mx < ox + 6 \<and> cy0 \<le> my then 4 else 0))"

definition resize_hit :: "int \<Rightarrow> int \<Rightarrow> Window \<Rightarrow> bool" where "resize_hit mx my w \<longleftrightarrow> resize_edges_at mx my w \<noteq> 0"

definition newterm_hit :: "int \<Rightarrow> int \<Rightarrow> Window \<Rightarrow> bool" where
  "newterm_hit mx my w \<longleftrightarrow> is_terminal w \<and> in_box (max (w_x w) 0 + 4) (outer_y w + int BORDER_W + 4) 14 14 mx my"

section \<open>The desktop\<close>

datatype PromptKind = NewFile | NewFolder | RenameIcon nat | RenameFsPane

record TextPrompt =
  p_kind :: PromptKind
  p_buf :: "u8 list"

datatype PromptOutcome = CreateFile "u8 list" | CreateFolder "u8 list" | RenameEntry "u8 list" "u8 list" | RenameInPane nat u32 "u8 list" "u8 list"

datatype SnapZone = SnapLeft | SnapRight | SnapTop

datatype CursorType = CursorNormal | ResizeEW | ResizeNS | ResizeNWSE | ResizeNESW

datatype MenuAnimKind = MenuOpening | MenuClosing

datatype ContextMenuKind =
  Background
| AppMenu AppKind
| EditText nat
| IconMenu nat
| FsRow nat u32 "u8 list" u32 "u8 list" bool bool "(u32 \<times> u8 list \<times> bool) list"
| FsPane nat u32 "u8 list"

record Desktop =
  windows :: "Window list"
  focused :: "nat option"
  next_id :: nat
  fb_w :: nat
  fb_h :: nat
  prev_btn :: u8
  dirty :: bool
  mouse_dirty :: bool
  prev_c :: "int \<times> int"
  start_menu_open :: bool
  start_menu_anim :: "(MenuAnimKind \<times> u64) option"
  dbl_click_pending :: "nat option"
  snap_zone :: "SnapZone option"
  context_menu :: "(int \<times> int) option"
  context_menu_kind :: ContextMenuKind
  open_settings_requested :: bool
  new_window_requested :: "AppKind option"
  taskbar_jumplist :: "(AppKind \<times> nat) option"
  clipboard_action_requested :: "(nat \<times> bool) option"
  volume_popup_open :: bool
  volume_drag :: bool
  icons :: "DesktopIcon list"
  icon_dragging :: "nat option"
  icon_drag_off :: "int \<times> int"
  icon_drag_start_pos :: "int \<times> int"
  icon_drag_moved :: bool
  icon_selected :: "nat list"
  icon_last_clicked :: "nat option"
  icon_selected_at :: u64
  marquee_start :: "(int \<times> int) option"
  icon_message :: "(u8 list \<times> u64) option"
  text_prompt :: "TextPrompt option"
  prompt_result :: "PromptOutcome option"
  fs_rename_ctx :: "(nat \<times> u32 \<times> u8 list) option"
  open_fs_entry_requested :: "(u32 \<times> bool \<times> u8 list \<times> u8 list) option"
  fs_context_menu_pending :: "(nat \<times> int \<times> int) option"
  taskbar_dragging :: "AppKind option"
  taskbar_drag_start_x :: int
  taskbar_drag_moved :: bool
  taskbar_click_pending :: "(AppKind \<times> nat \<times> AppKind option) option"

text \<open>
  The statics of the module, the filesystem with its disk, and two facts about locks: \<open>DESKTOP_HELD\<close> is whether the running
  task holds the lock of \<open>DESKTOP\<close>, and \<open>NVME_PRESENT\<close> whether \<open>nvme::CONTROLLER\<close> holds a controller.
\<close>

record wm_state =
  DESKTOP :: Desktop
  FS :: fs_state
  DESKTOP_HELD :: bool
  NVME_PRESENT :: bool
  PINNED_FILES :: "(u32 \<times> u8 list \<times> u8 list \<times> bool) list"
  PINNED_TASKBAR :: "AppKind list"
  FS_CLIPBOARD :: "(u32 \<times> u32 \<times> u8 list \<times> bool) list"
  VOLUME :: u8

text \<open>\<open>slice::get\<close>, \<open>Vec::remove\<close> at the first match, and an update through \<open>iter_mut().find\<close>.\<close>

definition get_at :: "'a list \<Rightarrow> nat \<Rightarrow> 'a option" where
  "get_at xs i = (if i < length xs then Some (xs ! i) else None)"

fun remove_first :: "('a \<Rightarrow> bool) \<Rightarrow> 'a list \<Rightarrow> 'a list" where
  "remove_first P [] = []"
| "remove_first P (x # xs) = (if P x then xs else x # remove_first P xs)"

fun update_first :: "('a \<Rightarrow> bool) \<Rightarrow> ('a \<Rightarrow> 'a) \<Rightarrow> 'a list \<Rightarrow> 'a list" where
  "update_first P f [] = []"
| "update_first P f (x # xs) = (if P x then f x # xs else x # update_first P f xs)"

fun position :: "('a \<Rightarrow> bool) \<Rightarrow> 'a list \<Rightarrow> nat option" where
  "position P [] = None"
| "position P (x # xs) = (if P x then Some 0 else map_option Suc (position P xs))"

definition update_window :: "nat \<Rightarrow> (Window \<Rightarrow> Window) \<Rightarrow> Desktop \<Rightarrow> Desktop" where
  "update_window i f d = d\<lparr>windows := update_first (\<lambda>w. w_id w = i) f (windows d)\<rparr>"

definition find_window :: "nat \<Rightarrow> Desktop \<Rightarrow> Window option" where
  "find_window i d = find (\<lambda>w. w_id w = i) (windows d)"

definition program_icons :: "DesktopIcon list" where
  "program_icons = map (\<lambda>(slot, k). case icon_grid_pos slot of (x, y) \<Rightarrow>
       \<lparr>ic_kind = Program k slot, ic_label = app_label k, ic_x = x, ic_y = y\<rparr>)
     (enumerate 0 [Welcome, Files, Terminal, Editor_App, Sysmon, Settings])"

definition Desktop_new :: "nat \<Rightarrow> nat \<Rightarrow> Desktop" where
  "Desktop_new w h = \<lparr>windows = [], focused = None, next_id = 0, fb_w = w, fb_h = h, prev_btn = 0, dirty = True, mouse_dirty = False,
     prev_c = (0, 0), start_menu_open = False, start_menu_anim = None, dbl_click_pending = None, snap_zone = None,
     context_menu = None, context_menu_kind = Background, open_settings_requested = False, new_window_requested = None,
     taskbar_jumplist = None, clipboard_action_requested = None, volume_popup_open = False, volume_drag = False,
     icons = program_icons, icon_dragging = None, icon_drag_off = (0, 0), icon_drag_start_pos = (0, 0), icon_drag_moved = False,
     icon_selected = [], icon_last_clicked = None, icon_selected_at = 0, marquee_start = None, icon_message = None,
     text_prompt = None, prompt_result = None, fs_rename_ctx = None, open_fs_entry_requested = None, fs_context_menu_pending = None,
     taskbar_dragging = None, taskbar_drag_start_x = 0, taskbar_drag_moved = False, taskbar_click_pending = None\<rparr>"

section \<open>Icons and pins\<close>

definition is_pinned_file :: "u32 \<Rightarrow> wm_state \<Rightarrow> bool" where
  "is_pinned_file ino s = list_ex (\<lambda>p. fst p = ino) (PINNED_FILES s)"

definition toggle_pinned_file :: "u32 \<Rightarrow> u8 list \<Rightarrow> u8 list \<Rightarrow> bool \<Rightarrow> wm_state \<Rightarrow> wm_state" where
  "toggle_pinned_file ino parent_path nm is_dir s =
    (if is_pinned_file ino s then s\<lparr>PINNED_FILES := remove_first (\<lambda>p. fst p = ino) (PINNED_FILES s)\<rparr>
     else s\<lparr>PINNED_FILES := PINNED_FILES s @ [(ino, parent_path, nm, is_dir)]\<rparr>)"

definition pin_file :: "u32 \<Rightarrow> u8 list \<Rightarrow> u8 list \<Rightarrow> bool \<Rightarrow> wm_state \<Rightarrow> wm_state" where
  "pin_file ino parent_path nm is_dir s =
    (if is_pinned_file ino s then s else s\<lparr>PINNED_FILES := PINNED_FILES s @ [(ino, parent_path, nm, is_dir)]\<rparr>)"

definition is_pinned_taskbar :: "AppKind \<Rightarrow> wm_state \<Rightarrow> bool" where
  "is_pinned_taskbar kind s = List.member (PINNED_TASKBAR s) kind"

definition toggle_pinned_taskbar :: "AppKind \<Rightarrow> wm_state \<Rightarrow> wm_state" where
  "toggle_pinned_taskbar kind s =
    (if is_pinned_taskbar kind s then s\<lparr>PINNED_TASKBAR := remove_first (\<lambda>k. k = kind) (PINNED_TASKBAR s)\<rparr>
     else s\<lparr>PINNED_TASKBAR := PINNED_TASKBAR s @ [kind]\<rparr>)"

definition is_entry :: "u32 \<Rightarrow> DesktopIcon \<Rightarrow> bool" where
  "is_entry ino icon = (case ic_kind icon of FsEntry i _ \<Rightarrow> i = ino | Program _ _ \<Rightarrow> False)"

definition new_icon :: "IconKind \<Rightarrow> u8 list \<Rightarrow> DesktopIcon list \<Rightarrow> DesktopIcon" where
  "new_icon kind label ics = (case icon_grid_pos (length ics) of (x, y) \<Rightarrow> \<lparr>ic_kind = kind, ic_label = label, ic_x = x, ic_y = y\<rparr>)"

definition sync_entry :: "u32 \<times> u8 list \<times> bool \<Rightarrow> DesktopIcon list \<Rightarrow> DesktopIcon list" where
  "sync_entry e ics = (case e of (ino, nm, is_dir) \<Rightarrow>
     if list_ex (is_entry ino) ics then update_first (is_entry ino) (\<lambda>icon. icon\<lparr>ic_label := nm\<rparr>) ics
     else ics @ [new_icon (FsEntry ino is_dir) nm ics])"

definition sync_fs_icons :: "(u32 \<times> u8 list \<times> bool) list \<Rightarrow> Desktop \<Rightarrow> Desktop" where
  "sync_fs_icons listing d =
    d\<lparr>icons := fold sync_entry listing (filter (\<lambda>icon. case ic_kind icon of
         FsEntry ino _ \<Rightarrow> list_ex (\<lambda>e. fst e = ino) listing | Program _ _ \<Rightarrow> True) (icons d)),
      dirty := True\<rparr>"

definition take_prompt_result :: "Desktop \<Rightarrow> PromptOutcome option \<times> Desktop" where
  "take_prompt_result d = (prompt_result d, d\<lparr>prompt_result := None\<rparr>)"

definition icon_at :: "int \<Rightarrow> int \<Rightarrow> Desktop \<Rightarrow> nat option" where
  "icon_at mx my d = position (\<lambda>icon. in_box (ic_x icon) (ic_y icon) (int ICON_SIZE) (int ICON_SIZE + 12) mx my) (icons d)"

definition is_program :: "AppKind \<Rightarrow> DesktopIcon \<Rightarrow> bool" where
  "is_program kind icon = (case ic_kind icon of Program k _ \<Rightarrow> k = kind | FsEntry _ _ \<Rightarrow> False)"

definition is_pinned_desktop :: "AppKind \<Rightarrow> Desktop \<Rightarrow> bool" where
  "is_pinned_desktop kind d = list_ex (is_program kind) (icons d)"

definition toggle_pinned_desktop :: "AppKind \<Rightarrow> Desktop \<Rightarrow> Desktop" where
  "toggle_pinned_desktop kind d =
    (let d = (if is_pinned_desktop kind d then d\<lparr>icons := remove_first (is_program kind) (icons d)\<rparr>
       else case program_win_id kind of
         Some win_id \<Rightarrow> d\<lparr>icons := icons d @ [new_icon (Program kind win_id) (app_label kind) (icons d)]\<rparr>
       | None \<Rightarrow> d)
     in d\<lparr>dirty := True\<rparr>)"

section \<open>Windows of the desktop\<close>

definition add_window :: "u64 \<Rightarrow> AppKind \<Rightarrow> u8 list \<Rightarrow> int \<Rightarrow> int \<Rightarrow> nat \<Rightarrow> nat \<Rightarrow> Desktop \<Rightarrow> nat \<times> Desktop" where
  "add_window tsc kind title x y w h d =
    (next_id d, d\<lparr>next_id := next_id d + 1, windows := windows d @ [Window_new tsc (next_id d) kind title x y w h],
       focused := Some (next_id d)\<rparr>)"

definition set_terminal_window :: "nat \<Rightarrow> Desktop \<Rightarrow> Desktop" where
  "set_terminal_window i d = update_window i (\<lambda>w. w\<lparr>is_terminal := True\<rparr>) d"

definition cursor_for_flags :: "u8 \<Rightarrow> CursorType" where
  "cursor_for_flags f = (if f = 1 \<or> f = 4 then ResizeEW else if f = 2 then ResizeNS else if f = 3 then ResizeNWSE
     else if f = 6 then ResizeNESW else ResizeNS)"

definition cursor_type_at :: "int \<Rightarrow> int \<Rightarrow> Desktop \<Rightarrow> CursorType" where
  "cursor_type_at mx my d = (case find resizing (windows d) of
     Some w \<Rightarrow> cursor_for_flags (resize_edge_flags w)
   | None \<Rightarrow> (case find (\<lambda>w. \<not> minimized w \<and> \<not> maximized w \<and> resize_edges_at mx my w \<noteq> 0) (rev (windows d)) of
       Some w \<Rightarrow> cursor_for_flags (resize_edges_at mx my w)
     | None \<Rightarrow> CursorNormal))"

fun group_add :: "Window \<Rightarrow> (AppKind \<times> nat list) list \<Rightarrow> (AppKind \<times> nat list) list" where
  "group_add w [] = [(app_kind w, [w_id w])]"
| "group_add w (g # gs) = (if fst g = app_kind w then (fst g, snd g @ [w_id w]) # gs else g # group_add w gs)"

definition group_by_kind :: "Window list \<Rightarrow> (AppKind \<times> nat list) list" where
  "group_by_kind ws = fold group_add ws []"

definition grouped_taskbar_entries :: "Desktop \<Rightarrow> (AppKind \<times> nat list) list" where
  "grouped_taskbar_entries d = group_by_kind (filter ever_shown (windows d))"

definition grouped_all_entries :: "Desktop \<Rightarrow> (AppKind \<times> nat list) list" where
  "grouped_all_entries d = group_by_kind (windows d)"

fun entry_set :: "AppKind \<times> nat list \<Rightarrow> (AppKind \<times> nat list) list \<Rightarrow> (AppKind \<times> nat list) list" where
  "entry_set g [] = [g]"
| "entry_set g (e # es) = (if fst e = fst g then (fst e, snd g) # es else e # entry_set g es)"

definition taskbar_entries :: "wm_state \<Rightarrow> (AppKind \<times> nat list) list" where
  "taskbar_entries s = fold entry_set (grouped_taskbar_entries (DESKTOP s)) (map (\<lambda>k. (k, [])) (PINNED_TASKBAR s))"

definition instance_label :: "AppKind \<Rightarrow> nat list \<Rightarrow> nat \<Rightarrow> Desktop \<Rightarrow> u8 list" where
  "instance_label kind ids i d = (case find_window i d of None \<Rightarrow> [] | Some w \<Rightarrow>
     if w_title w = app_label kind
     then app_label kind @ str_bytes '' '' @ decimal ((case position (\<lambda>j. j = i) ids of Some n \<Rightarrow> n | None \<Rightarrow> 0) + 1)
     else w_title w)"

definition bring_to_front :: "nat \<Rightarrow> Desktop \<Rightarrow> Desktop" where
  "bring_to_front i d = (case find_window i d of
     Some w \<Rightarrow> d\<lparr>windows := remove_first (\<lambda>w. w_id w = i) (windows d) @ [w], focused := Some i\<rparr>
   | None \<Rightarrow> d)"

definition any_animating :: "Desktop \<Rightarrow> bool" where
  "any_animating d = list_ex (\<lambda>w. anim w \<noteq> None) (windows d)"

definition open_start_menu :: "u64 \<Rightarrow> Desktop \<Rightarrow> Desktop" where
  "open_start_menu tsc d = d\<lparr>start_menu_open := True, start_menu_anim := Some (MenuOpening, tsc)\<rparr>"

definition close_start_menu :: "u64 \<Rightarrow> Desktop \<Rightarrow> Desktop" where
  "close_start_menu tsc d =
    (let d = (if start_menu_open d then d\<lparr>start_menu_anim := Some (MenuClosing, tsc)\<rparr> else d) in d\<lparr>start_menu_open := False\<rparr>)"

text \<open>
  An animation is over when its milliseconds have passed; \<open>progress\<close> compares as \<open>f32\<close>, in which the two limits are exact.
  Each window reads the counter itself: \<open>tsc i\<close> is the reading for the window at index \<open>i\<close>, \<open>mtsc\<close> the one for the menu.
\<close>

definition anim_over :: "u64 \<Rightarrow> nat \<Rightarrow> u64 \<Rightarrow> u64 \<Rightarrow> bool" where
  "anim_over tsc_per_ms limit start now \<longleftrightarrow> limit \<le> unat ((now - start) div max tsc_per_ms 1)"

definition tick_window :: "u64 \<Rightarrow> u64 \<Rightarrow> Window \<Rightarrow> Window" where
  "tick_window tsc_per_ms now w = (case anim w of
     Some a \<Rightarrow> if anim_over tsc_per_ms 180 (an_start a) now
       then (if an_kind a = Closing then w\<lparr>minimized := True, anim := None\<rparr> else w\<lparr>anim := None\<rparr>) else w
   | None \<Rightarrow> w)"

definition tick_anims :: "u64 \<Rightarrow> (nat \<Rightarrow> u64) \<Rightarrow> u64 \<Rightarrow> Desktop \<Rightarrow> bool \<times> Desktop" where
  "tick_anims tsc_per_ms tsc mtsc d =
    (let ws = map (\<lambda>(i, w). tick_window tsc_per_ms (tsc i) w) (enumerate 0 (windows d));
         menu_over = (case start_menu_anim d of Some (_, start) \<Rightarrow> anim_over tsc_per_ms 150 start mtsc | None \<Rightarrow> False);
         changed = (list_ex (\<lambda>(i, w). case anim w of Some a \<Rightarrow> anim_over tsc_per_ms 180 (an_start a) (tsc i) | None \<Rightarrow> False)
           (enumerate 0 (windows d)))
     in (changed \<or> menu_over, d\<lparr>windows := ws, start_menu_anim := (if menu_over then None else start_menu_anim d)\<rparr>))"

section \<open>Opening, prompts\<close>

definition show_front :: "u64 \<Rightarrow> nat \<Rightarrow> Desktop \<Rightarrow> Desktop" where
  "show_front tsc i d = bring_to_front i (update_window i (win_show tsc) d)"

definition taskbar_button_click :: "u64 \<Rightarrow> AppKind \<Rightarrow> nat \<Rightarrow> AppKind option \<Rightarrow> wm_state \<Rightarrow> wm_state" where
  "taskbar_button_click tsc kind slot jl s = (let d = DESKTOP s in
     case get_at (taskbar_entries s) slot of
       None \<Rightarrow> s
     | Some (k, ids) \<Rightarrow>
         if k \<noteq> kind then s else
         let d' = (case ids of
             [] \<Rightarrow> d\<lparr>new_window_requested := Some kind\<rparr>
           | [wid] \<Rightarrow>
               if (case find_window wid d of Some w \<Rightarrow> minimized w | None \<Rightarrow> False) then show_front tsc wid d
               else if focused d = Some wid then (update_window wid (win_hide tsc) d)\<lparr>focused := None\<rparr>
               else bring_to_front wid d
           | _ \<Rightarrow> if jl = Some kind then d else d\<lparr>taskbar_jumplist := Some (kind, START_W + slot * TASK_BTN_W)\<rparr>)
         in s\<lparr>DESKTOP := d'\<lparr>dirty := True\<rparr>\<rparr>)"

definition home_desktop :: "u8 list" where "home_desktop = str_bytes ''/home/desktop''"

definition open_icon :: "u64 \<Rightarrow> nat \<Rightarrow> Desktop \<Rightarrow> Desktop" where
  "open_icon tsc idx d = (case get_at (icons d) idx of None \<Rightarrow> d | Some icon \<Rightarrow>
     (let d = (case ic_kind icon of
         Program _ win_id \<Rightarrow> show_front tsc win_id d
       | FsEntry ino is_dir \<Rightarrow> d\<lparr>open_fs_entry_requested := Some (ino, is_dir, ic_label icon, home_desktop)\<rparr>)
      in d\<lparr>icon_selected := [], icon_last_clicked := None, dirty := True\<rparr>))"

definition show_message :: "u64 \<Rightarrow> u8 list \<Rightarrow> Desktop \<Rightarrow> Desktop" where
  "show_message ticks msg d = d\<lparr>icon_message := Some (msg, ticks + 150), dirty := True\<rparr>"

definition tick_icon_message :: "u64 \<Rightarrow> Desktop \<Rightarrow> Desktop" where
  "tick_icon_message ticks d = (case icon_message d of
     Some (_, expire) \<Rightarrow> if expire \<le> ticks then d\<lparr>icon_message := None, dirty := True\<rparr> else d
   | None \<Rightarrow> d)"

definition begin_rename :: "u64 \<Rightarrow> nat \<Rightarrow> Desktop \<Rightarrow> Desktop" where
  "begin_rename ticks idx d = (case get_at (icons d) idx of None \<Rightarrow> d | Some icon \<Rightarrow>
     (case ic_kind icon of
        Program _ _ \<Rightarrow> show_message ticks (str_bytes (''Programs can'' @ [CHR 0x27] @ ''t be renamed'')) d
      | FsEntry _ _ \<Rightarrow> d\<lparr>text_prompt := Some \<lparr>p_kind = RenameIcon idx, p_buf = ic_label icon\<rparr>\<rparr>)\<lparr>dirty := True\<rparr>)"

definition begin_new_entry :: "bool \<Rightarrow> Desktop \<Rightarrow> Desktop" where
  "begin_new_entry is_dir d = d\<lparr>text_prompt := Some \<lparr>p_kind = (if is_dir then NewFolder else NewFile), p_buf = []\<rparr>, dirty := True\<rparr>"

definition begin_rename_fs_pane :: "nat \<Rightarrow> u32 \<Rightarrow> u8 list \<Rightarrow> Desktop \<Rightarrow> Desktop" where
  "begin_rename_fs_pane win_id parent_ino old_name d =
    d\<lparr>text_prompt := Some \<lparr>p_kind = RenameFsPane, p_buf = old_name\<rparr>, fs_rename_ctx := Some (win_id, parent_ino, old_name), dirty := True\<rparr>"

text \<open>\<open>String::pop\<close> drops the last character: its continuation bytes and its first byte.\<close>

definition pop_char :: "u8 list \<Rightarrow> u8 list" where
  "pop_char bs = rev (drop 1 (dropWhile (\<lambda>b. b AND 0xC0 = 0x80) (rev bs)))"

definition confirm_prompt :: "TextPrompt \<Rightarrow> Desktop \<Rightarrow> Desktop" where
  "confirm_prompt prompt d =
    (if p_buf prompt = [] then d\<lparr>text_prompt := None, dirty := True\<rparr> else
     case p_kind prompt of
       NewFile \<Rightarrow> d\<lparr>prompt_result := Some (CreateFile (p_buf prompt)), text_prompt := None, dirty := True\<rparr>
     | NewFolder \<Rightarrow> d\<lparr>prompt_result := Some (CreateFolder (p_buf prompt)), text_prompt := None, dirty := True\<rparr>
     | RenameIcon idx \<Rightarrow> (case get_at (icons d) idx of
         Some icon \<Rightarrow> (case ic_kind icon of
             FsEntry _ _ \<Rightarrow> d\<lparr>prompt_result := Some (RenameEntry (ic_label icon) (p_buf prompt)), text_prompt := None, dirty := True\<rparr>
           | Program _ _ \<Rightarrow> d\<lparr>text_prompt := None\<rparr>)
       | None \<Rightarrow> d\<lparr>text_prompt := None\<rparr>)
     | RenameFsPane \<Rightarrow> (case fs_rename_ctx d of
         Some (win_id, parent_ino, old_name) \<Rightarrow> d\<lparr>fs_rename_ctx := None,
             prompt_result := Some (RenameInPane win_id parent_ino old_name (p_buf prompt)), text_prompt := None, dirty := True\<rparr>
       | None \<Rightarrow> d\<lparr>text_prompt := None\<rparr>))"

definition prompt_on_key :: "nat \<Rightarrow> Desktop \<Rightarrow> Desktop" where
  "prompt_on_key c d = (case text_prompt d of None \<Rightarrow> d | Some prompt \<Rightarrow>
     if c = 0x1B then d\<lparr>text_prompt := None, fs_rename_ctx := None, dirty := True\<rparr>
     else if c = 0x08 then d\<lparr>text_prompt := Some (prompt\<lparr>p_buf := pop_char (p_buf prompt)\<rparr>), dirty := True\<rparr>
     else if c = 0x0A \<or> c = 0x0D then confirm_prompt prompt d
     else if 32 \<le> c \<and> c < 128 then d\<lparr>text_prompt := Some (prompt\<lparr>p_buf := p_buf prompt @ [word_of_nat c]\<rparr>), dirty := True\<rparr>
     else d\<lparr>dirty := True\<rparr>)"

end
