(* ===== verification/Desktop_Mouse.thy ===== *)
theory Desktop_Mouse
  imports Desktop
begin

text \<open>
  The mouse handler \<open>update_mouse\<close> of \<open>kernel/src/desktop.rs\<close>, part by part in the order of the source, and its composition. A
  part that can return early gives an option, \<open>Some\<close> when the handler returns there.
\<close>

section \<open>Held button\<close>

record mouse_env =
  e_tsc :: u64
  e_ticks :: u64
  e_shift :: bool
  e_volume :: "int \<Rightarrow> u8"
  e_grab :: "int \<Rightarrow> nat \<Rightarrow> nat \<Rightarrow> int"
  e_fuel :: nat

definition half :: "int \<Rightarrow> int" where "half a = (if a < 0 then - (- a div 2) else a div 2)"

definition prompt_rect :: "Desktop \<Rightarrow> (int \<times> int \<times> int \<times> int) option" where
  "prompt_rect d = (case text_prompt d of None \<Rightarrow> None | Some prompt \<Rightarrow> (case p_kind prompt of
     RenameIcon idx \<Rightarrow> (case get_at (icons d) idx of None \<Rightarrow> None | Some icon \<Rightarrow>
       (let bw = int (min (max (length (p_buf prompt)) 4 * 8 + 6) 140);
            bx = ic_x icon - max (bw - int ICON_SIZE) 0 div 2
        in Some (bx, ic_y icon + int ICON_SIZE + 4, bw, 12)))
   | _ \<Rightarrow> Some (half (int (fb_w d) - 240), half (int (fb_h d) - 60), 240, 60)))"

definition resize_right :: "int \<Rightarrow> Window \<Rightarrow> Window" where
  "resize_right dmx w = (case resize_orig w of (ox, oy, ow, oh) \<Rightarrow> w\<lparr>w_w := nat (max (int ow + dmx) 120)\<rparr>)"

definition resize_bottom :: "int \<Rightarrow> Window \<Rightarrow> Window" where
  "resize_bottom dmy w = (case resize_orig w of (ox, oy, ow, oh) \<Rightarrow> w\<lparr>w_h := nat (max (int oh + dmy) 60)\<rparr>)"

definition resize_left :: "int \<Rightarrow> Window \<Rightarrow> Window" where
  "resize_left dmx w = (case resize_orig w of (ox, oy, ow, oh) \<Rightarrow>
     (let new_w = max (int ow - dmx) 120 in w\<lparr>w_x := ox + (int ow - new_w), w_w := nat new_w\<rparr>))"

definition resize_to :: "int \<Rightarrow> int \<Rightarrow> Window \<Rightarrow> Window" where
  "resize_to mx my w =
    (let dmx = mx - fst (resize_orig_m w); dmy = my - snd (resize_orig_m w); f = resize_edge_flags w;
         w = (if f AND 1 \<noteq> 0 then resize_right dmx w else w);
         w = (if f AND 2 \<noteq> 0 then resize_bottom dmy w else w)
     in if f AND 4 \<noteq> 0 then resize_left dmx w else w)"

definition drag_to :: "int \<Rightarrow> int \<Rightarrow> nat \<Rightarrow> nat \<Rightarrow> Window \<Rightarrow> Window" where
  "drag_to mx my fw fh w = w\<lparr>w_x := min (max (mx - fst (drag_off w)) 0) (int fw - int (w_w w)),
     w_y := min (max (my - snd (drag_off w)) (int TITLE_H)) (int fh - int TASKBAR_H - 1)\<rparr>"

definition zone_at :: "int \<Rightarrow> int \<Rightarrow> nat \<Rightarrow> SnapZone option" where
  "zone_at mx my fw = (if mx \<le> 4 then Some SnapLeft else if int fw - 4 \<le> mx then Some SnapRight
     else if my \<le> 4 then Some SnapTop else None)"

definition held_window :: "int \<Rightarrow> int \<Rightarrow> Desktop \<Rightarrow> Desktop option" where
  "held_window mx my d = (case focused d of None \<Rightarrow> None | Some fid \<Rightarrow> (case find_window fid d of None \<Rightarrow> None | Some w \<Rightarrow>
     if resizing w then Some ((update_window fid (resize_to mx my) d)\<lparr>dirty := True\<rparr>)
     else if dragging w \<and> \<not> maximized w
     then Some ((update_window fid (drag_to mx my (fb_w d) (fb_h d)) d)\<lparr>snap_zone := zone_at mx my (fb_w d), dirty := True\<rparr>)
     else None))"

definition held_taskbar :: "int \<Rightarrow> Desktop \<Rightarrow> Desktop" where
  "held_taskbar mx d =
    (if taskbar_dragging d = None then d else
     let d = (if 12 < \<bar>mx - taskbar_drag_start_x d\<bar> then d\<lparr>taskbar_drag_moved := True\<rparr> else d)
     in if taskbar_drag_moved d then d\<lparr>dirty := True\<rparr> else d)"

definition clamp :: "int \<Rightarrow> int \<Rightarrow> int \<Rightarrow> int" where "clamp lo hi x = (if x < lo then lo else if hi < x then hi else x)"

definition max_icon_x :: "Desktop \<Rightarrow> int" where "max_icon_x d = max (int (fb_w d) - int ICON_SIZE) 0"
definition max_icon_y :: "Desktop \<Rightarrow> int" where "max_icon_y d = max (int (fb_h d) - int TASKBAR_H - int ICON_SIZE - 12) 0"

definition move_icon :: "int \<Rightarrow> int \<Rightarrow> int \<Rightarrow> int \<Rightarrow> nat \<Rightarrow> DesktopIcon list \<Rightarrow> DesktopIcon list" where
  "move_icon dx dy hx hy i ics = (if i < length ics
     then ics[i := (ics ! i)\<lparr>ic_x := clamp 0 hx (ic_x (ics ! i) + dx), ic_y := clamp 0 hy (ic_y (ics ! i) + dy)\<rparr>] else ics)"

definition held_icon :: "int \<Rightarrow> int \<Rightarrow> Desktop \<Rightarrow> Desktop option" where
  "held_icon mx my d = (case icon_dragging d of None \<Rightarrow> None | Some idx \<Rightarrow> (case get_at (icons d) idx of None \<Rightarrow> None | Some icon \<Rightarrow>
     (let hx = max_icon_x d; hy = max_icon_y d;
          new_x = clamp 0 hx (mx - fst (icon_drag_off d)); new_y = clamp 0 hy (my - snd (icon_drag_off d));
          moved = (3 < \<bar>new_x - fst (icon_drag_start_pos d)\<bar> \<or> 3 < \<bar>new_y - snd (icon_drag_start_pos d)\<bar>);
          ics = (if 1 < length (icon_selected d) \<and> List.member (icon_selected d) idx
             then fold (move_icon (new_x - ic_x icon) (new_y - ic_y icon) hx hy) (icon_selected d) (icons d)
             else (icons d)[idx := icon\<lparr>ic_x := new_x, ic_y := new_y\<rparr>])
      in Some (d\<lparr>icon_drag_moved := icon_drag_moved d \<or> moved, icons := ics, dirty := True\<rparr>))))"

definition held_marquee :: "int \<Rightarrow> int \<Rightarrow> Desktop \<Rightarrow> Desktop option" where
  "held_marquee mx my d = (case marquee_start d of None \<Rightarrow> None | Some (sx, sy) \<Rightarrow>
     Some (d\<lparr>icon_selected := map fst (filter (\<lambda>(i, icon).
           ic_x icon < max sx mx \<and> min sx mx < ic_x icon + int ICON_SIZE \<and> ic_y icon < max sy my \<and> min sy my < ic_y icon + int ICON_SIZE)
         (enumerate 0 (icons d))),
       icon_last_clicked := None, dirty := True\<rparr>))"

definition vol_icon_rect :: "nat \<Rightarrow> nat \<Rightarrow> nat \<times> nat \<times> nat \<times> nat" where
  "vol_icon_rect fw ty = (fw - 110, ty + 4, 24, TASKBAR_H - 8)"

definition vol_popup_rect :: "nat \<Rightarrow> nat \<Rightarrow> nat \<times> nat \<times> nat \<times> nat" where
  "vol_popup_rect fw ty = (case vol_icon_rect fw ty of (ix, _, iw, _) \<Rightarrow> (min (ix + iw div 2 - 140 div 2) (fw - 140), ty - 50, 140, 50))"

definition in_rect :: "nat \<times> nat \<times> nat \<times> nat \<Rightarrow> int \<Rightarrow> int \<Rightarrow> bool" where
  "in_rect r mx my = (case r of (x, y, w, h) \<Rightarrow> in_box (int x) (int y) (int w) (int h) mx my)"

definition set_volume :: "u8 \<Rightarrow> wm_state \<Rightarrow> wm_state" where "set_volume vol s = s\<lparr>VOLUME := min vol 100\<rparr>"

definition slide_volume :: "mouse_env \<Rightarrow> int \<Rightarrow> wm_state \<Rightarrow> wm_state" where
  "slide_volume e mx s = (let d = DESKTOP s; px = fst (vol_popup_rect (fb_w d) (fb_h d - TASKBAR_H)) in
     (set_volume (e_volume e (mx - int (px + 12))) s)\<lparr>DESKTOP := d\<lparr>dirty := True\<rparr>\<rparr>)"

definition held :: "mouse_env \<Rightarrow> int \<Rightarrow> int \<Rightarrow> wm_state \<Rightarrow> bool \<times> wm_state" where
  "held e mx my s = (case held_window mx my (DESKTOP s) of
     Some d \<Rightarrow> (True, s\<lparr>DESKTOP := d\<rparr>)
   | None \<Rightarrow> (let d = held_taskbar mx (DESKTOP s) in
       case held_icon mx my d of
         Some d \<Rightarrow> (True, s\<lparr>DESKTOP := d\<rparr>)
       | None \<Rightarrow> (case held_marquee mx my d of
           Some d \<Rightarrow> (True, s\<lparr>DESKTOP := d\<rparr>)
         | None \<Rightarrow> if volume_drag d then (True, slide_volume e mx (s\<lparr>DESKTOP := d\<rparr>)) else (False, s\<lparr>DESKTOP := d\<rparr>))))"

section \<open>Release\<close>

definition drop_taskbar :: "int \<Rightarrow> AppKind \<Rightarrow> wm_state \<Rightarrow> wm_state" where
  "drop_taskbar mx kind s =
    (let pinned = filter (\<lambda>k. k \<noteq> kind) (PINNED_TASKBAR s); at = min ((nat mx - START_W) div TASK_BTN_W) (length pinned)
     in s\<lparr>PINNED_TASKBAR := take at pinned @ [kind] @ drop at pinned, DESKTOP := (DESKTOP s)\<lparr>dirty := True\<rparr>\<rparr>)"

definition release_taskbar :: "mouse_env \<Rightarrow> int \<Rightarrow> wm_state \<Rightarrow> wm_state" where
  "release_taskbar e mx s =
    (let pending = taskbar_click_pending (DESKTOP s); dragged = taskbar_dragging (DESKTOP s);
         s = s\<lparr>DESKTOP := (DESKTOP s)\<lparr>taskbar_click_pending := None, taskbar_dragging := None\<rparr>\<rparr>
     in case dragged of None \<Rightarrow> s | Some kind \<Rightarrow>
       if taskbar_drag_moved (DESKTOP s) then drop_taskbar mx kind s
       else case pending of
         Some (k, slot, jl) \<Rightarrow> if k = kind then taskbar_button_click (e_tsc e) k slot jl s else s
       | None \<Rightarrow> s)"

definition snap_icon :: "nat \<Rightarrow> DesktopIcon list \<Rightarrow> DesktopIcon list" where
  "snap_icon i ics = (if i < length ics then (case icon_snap (ic_x (ics ! i)) (ic_y (ics ! i)) of (x, y) \<Rightarrow>
     ics[i := (ics ! i)\<lparr>ic_x := x, ic_y := y\<rparr>]) else ics)"

definition release_icon :: "mouse_env \<Rightarrow> Desktop \<Rightarrow> Desktop" where
  "release_icon e d = (case icon_dragging d of None \<Rightarrow> d | Some idx \<Rightarrow>
     (let d = d\<lparr>icon_dragging := None\<rparr>;
          d = (if icon_drag_moved d
            then d\<lparr>icons := fold snap_icon (if 1 < length (icon_selected d) \<and> List.member (icon_selected d) idx
                     then icon_selected d else [idx]) (icons d)\<rparr>
            else if icon_last_clicked d = Some idx
            then (let elapsed = (if icon_selected_at d \<le> e_ticks e then e_ticks e - icon_selected_at d else 0);
                      d = (if elapsed \<le> 60 then open_icon (e_tsc e) idx d
                           else if elapsed \<le> 300 then begin_rename (e_ticks e) idx d else d)
                  in d\<lparr>icon_selected_at := e_ticks e\<rparr>)
            else d\<lparr>icon_last_clicked := Some idx, icon_selected_at := e_ticks e\<rparr>)
      in d\<lparr>dirty := True\<rparr>))"

definition snap_window :: "mouse_env \<Rightarrow> SnapZone \<Rightarrow> nat \<Rightarrow> nat \<Rightarrow> Window \<Rightarrow> Window" where
  "snap_window e zone sw sh w =
    (let bx = int BORDER_W; bY = int TITLE_H + int BORDER_W; hw = sw div 2; fh = sh - (TITLE_H + TASKBAR_H + BORDER_W * 2) in
     case zone of
       SnapLeft \<Rightarrow> start_transition (e_tsc e) (w_rect w) (set_rect (bx, bY, hw - BORDER_W * 2, fh) w)
     | SnapRight \<Rightarrow> start_transition (e_tsc e) (w_rect w) (set_rect (bx + int hw, bY, hw - BORDER_W * 2, fh) w)
     | SnapTop \<Rightarrow> toggle_maximize (e_tsc e) sw sh w)"

definition release_snap :: "mouse_env \<Rightarrow> Desktop \<Rightarrow> Desktop" where
  "release_snap e d = (case snap_zone d of None \<Rightarrow> d | Some zone \<Rightarrow>
     (let d = d\<lparr>snap_zone := None\<rparr> in
      case focused d of None \<Rightarrow> d | Some fid \<Rightarrow>
        if list_ex (\<lambda>w. w_id w = fid \<and> dragging w) (windows d)
        then d\<lparr>windows := update_first (\<lambda>w. w_id w = fid \<and> dragging w) (snap_window e zone (fb_w d) (fb_h d)) (windows d), dirty := True\<rparr>
        else d))"

definition release :: "mouse_env \<Rightarrow> int \<Rightarrow> wm_state \<Rightarrow> wm_state" where
  "release e mx s =
    (let s = release_taskbar e mx s;
         d = release_snap e ((release_icon e ((DESKTOP s)\<lparr>marquee_start := None\<rparr>))\<lparr>volume_drag := False\<rparr>)
     in s\<lparr>DESKTOP := d\<lparr>windows := map (\<lambda>w. w\<lparr>dragging := False, resizing := False\<rparr>) (windows d)\<rparr>\<rparr>)"

section \<open>Right click\<close>

definition window_hit :: "int \<Rightarrow> int \<Rightarrow> Window \<Rightarrow> bool" where
  "window_hit mx my w \<longleftrightarrow> \<not> minimized w \<and> (close_hit mx my w \<or> maximize_hit mx my w \<or> minimize_hit mx my w \<or> newterm_hit mx my w \<or>
     title_hit mx my w \<or> resize_hit mx my w \<or> content_hit mx my w)"

definition menu_top :: "Desktop \<Rightarrow> nat" where
  "menu_top d = fb_h d - TASKBAR_H - (length (grouped_all_entries d) * MENU_ENTRY_H + 8)"

definition in_taskbar :: "int \<Rightarrow> Desktop \<Rightarrow> bool" where "in_taskbar my d \<longleftrightarrow> int (fb_h d) - int TASKBAR_H \<le> my"

definition in_menu :: "int \<Rightarrow> int \<Rightarrow> Desktop \<Rightarrow> bool" where
  "in_menu mx my d \<longleftrightarrow> start_menu_open d \<and> 0 \<le> mx \<and> nat mx < MENU_W \<and> int (menu_top d) \<le> my \<and> my < int (fb_h d) - int TASKBAR_H"

definition menu_entry :: "int \<Rightarrow> Desktop \<Rightarrow> (AppKind \<times> nat list) option" where
  "menu_entry my d = get_at (grouped_all_entries d) ((nat my - menu_top d) div MENU_ENTRY_H)"

definition clicked_kind :: "int \<Rightarrow> int \<Rightarrow> wm_state \<Rightarrow> AppKind option" where
  "clicked_kind mx my s =
    (let d = DESKTOP s;
         tb = (if in_taskbar my d \<and> START_W \<le> nat mx then map_option fst (get_at (taskbar_entries s) ((nat mx - START_W) div TASK_BTN_W)) else None);
         sm = (if in_menu mx my d then map_option fst (menu_entry my d) else None)
     in case tb of Some k \<Rightarrow> Some k | None \<Rightarrow> sm)"

definition right_click_desktop :: "u64 \<Rightarrow> int \<Rightarrow> int \<Rightarrow> Desktop \<Rightarrow> Desktop" where
  "right_click_desktop tsc mx my d =
    (case find (\<lambda>w. \<not> minimized w \<and> content_hit mx my w \<and> (app_kind w = Editor_App \<or> app_kind w = Terminal)) (rev (windows d)) of
       Some w \<Rightarrow> d\<lparr>context_menu := Some (mx, my), context_menu_kind := EditText (w_id w), taskbar_jumplist := None, dirty := True\<rparr>
     | None \<Rightarrow> (case find (\<lambda>w. \<not> minimized w \<and> content_hit mx my w \<and> app_kind w = Files) (rev (windows d)) of
         Some w \<Rightarrow> d\<lparr>fs_context_menu_pending := Some (w_id w, mx, my), taskbar_jumplist := None, dirty := True\<rparr>
       | None \<Rightarrow>
           if list_ex (window_hit mx my) (windows d) then d
           else (close_start_menu tsc (d\<lparr>context_menu := Some (mx, my),
               context_menu_kind := (case icon_at mx my d of Some idx \<Rightarrow> IconMenu idx | None \<Rightarrow> Background)\<rparr>))\<lparr>taskbar_jumplist := None, dirty := True\<rparr>))"

definition right_click :: "mouse_env \<Rightarrow> int \<Rightarrow> int \<Rightarrow> wm_state \<Rightarrow> wm_state" where
  "right_click e mx my s =
    (let d = DESKTOP s in
     case clicked_kind mx my s of
       Some kind \<Rightarrow> s\<lparr>DESKTOP := d\<lparr>context_menu := Some (mx, my), context_menu_kind := AppMenu kind, taskbar_jumplist := None, dirty := True\<rparr>\<rparr>
     | None \<Rightarrow> if in_taskbar my d then s else s\<lparr>DESKTOP := right_click_desktop (e_tsc e) mx my d\<rparr>)"

section \<open>The context menu\<close>

definition context_menu_labels :: "wm_state \<Rightarrow> string list" where
  "context_menu_labels s = (case context_menu_kind (DESKTOP s) of
     Background \<Rightarrow> [''Change background'', ''New File'', ''New Folder'']
   | AppMenu k \<Rightarrow> [''New Window'', if is_pinned_taskbar k s then ''Unpin from Taskbar'' else ''Pin to Taskbar''] @
       (if program_win_id k = None then [] else [if is_pinned_desktop k (DESKTOP s) then ''Unpin from Desktop'' else ''Pin to Desktop''])
   | EditText _ \<Rightarrow> [''Copy'', ''Paste'']
   | IconMenu idx \<Rightarrow> (case map_option ic_kind (get_at (icons (DESKTOP s)) idx) of
       Some (Program k _) \<Rightarrow> [''Open'', if is_pinned_taskbar k s then ''Unpin from Taskbar'' else ''Pin to Taskbar'', ''Unpin from Desktop'']
     | Some (FsEntry ino _) \<Rightarrow> [''Open'', if is_pinned_file ino s then ''Unpin'' else ''Pin'', ''Copy'']
     | None \<Rightarrow> [''Open''])
   | FsRow _ _ _ _ _ _ is_pinned _ \<Rightarrow> [''Open'', if is_pinned then ''Unpin'' else ''Pin'', ''Copy'']
   | FsPane _ _ _ \<Rightarrow> [''Paste''])"

definition context_menu_item_at :: "int \<Rightarrow> int \<Rightarrow> wm_state \<Rightarrow> nat option" where
  "context_menu_item_at mx my s = (case context_menu (DESKTOP s) of None \<Rightarrow> None | Some (cx, cy) \<Rightarrow>
     (let cm_h = length (context_menu_labels s) * 26 + 8;
          x = int (min (nat cx) (fb_w (DESKTOP s) - 168));
          y = int (min (nat cy) (fb_h (DESKTOP s) - (cm_h + TASKBAR_H)))
      in if x \<le> mx \<and> mx < x + 168 \<and> y + 4 \<le> my \<and> my < y + 4 + int cm_h - 8 then Some (nat ((my - (y + 4)) div 26)) else None))"

text \<open>
  How a part of the handler ends: it returns, it panics, the machine goes off, or it never returns because it waits for a lock
  it holds. The lock of \<open>DESKTOP\<close> is a spin lock: a task that asks for it while holding it spins for ever. \<open>Unfinished\<close> is a copy
  that has not ended within the fuel it was given.
\<close>

datatype 'a outcome = Ret 'a | Panicked panic | Power_off | Rebooted | Spins | Unfinished

fun obind :: "'a outcome \<Rightarrow> ('a \<Rightarrow> 'b outcome) \<Rightarrow> 'b outcome" where
  "obind (Ret x) f = f x"
| "obind (Panicked p) f = Panicked p"
| "obind Power_off f = Power_off"
| "obind Rebooted f = Rebooted"
| "obind Spins f = Spins"
| "obind Unfinished f = Unfinished"

text \<open>A filesystem call under the lock of the controller.\<close>

definition with_fs :: "(fs_state \<Rightarrow> panic + ('a \<times> fs_state)) \<Rightarrow> wm_state \<Rightarrow> ('a \<times> wm_state) outcome" where
  "with_fs f s = (case f (FS s) of Inl p \<Rightarrow> Panicked p | Inr (x, fs) \<Rightarrow> Ret (x, s\<lparr>FS := fs\<rparr>))"

fun stat_entries :: "(u32 \<times> u8 list) list \<Rightarrow> wm_state \<Rightarrow> ((u32 \<times> u8 list \<times> bool) list \<times> wm_state) outcome" where
  "stat_entries [] s = Ret ([], s)"
| "stat_entries ((ino, nm) # es) s =
    obind (with_fs (stat ino) s) (\<lambda>((is_dir, _), s). obind (stat_entries es s) (\<lambda>(r, s). Ret ((ino, nm, is_dir) # r, s)))"

definition refresh_desktop_icons :: "wm_state \<Rightarrow> wm_state outcome" where
  "refresh_desktop_icons s =
    (if \<not> NVME_PRESENT s then Ret s else
     obind (with_fs (lookup home_desktop) s) (\<lambda>(dir, s). case dir of None \<Rightarrow> Ret s | Some dir_ino \<Rightarrow>
     obind (with_fs (list_dir dir_ino) s) (\<lambda>(es, s).
     obind (stat_entries es s) (\<lambda>(listing, s).
     if DESKTOP_HELD s then Spins else Ret (s\<lparr>DESKTOP := sync_fs_icons listing (DESKTOP s)\<rparr>)))))"

fun paste_entries :: "nat \<Rightarrow> u32 \<Rightarrow> (u32 \<times> u32 \<times> u8 list \<times> bool) list \<Rightarrow> wm_state \<Rightarrow> wm_state outcome" where
  "paste_entries fuel to_parent [] s = Ret s"
| "paste_entries fuel to_parent ((from_parent, _, nm, _) # es) s = (case copy_entry_unique fuel from_parent to_parent nm (FS s) of
     None \<Rightarrow> Unfinished
   | Some r \<Rightarrow> obind (with_fs (\<lambda>_. r) s) (\<lambda>(_, s). paste_entries fuel to_parent es s))"

definition paste_clip :: "nat \<Rightarrow> u32 \<Rightarrow> wm_state \<Rightarrow> wm_state outcome" where
  "paste_clip fuel parent_ino s =
    (if FS_CLIPBOARD s = [] then Ret s else
     obind (if NVME_PRESENT s then paste_entries fuel parent_ino (FS_CLIPBOARD s) s else Ret s) (\<lambda>s.
     obind (refresh_desktop_icons s) (\<lambda>s. Ret (s\<lparr>DESKTOP := (DESKTOP s)\<lparr>dirty := True\<rparr>\<rparr>))))"

definition icon_menu_click :: "mouse_env \<Rightarrow> nat \<Rightarrow> nat \<Rightarrow> wm_state \<Rightarrow> wm_state outcome" where
  "icon_menu_click e idx n s = (case get_at (icons (DESKTOP s)) idx of None \<Rightarrow> Ret s | Some icon \<Rightarrow> (case ic_kind icon of
     Program k _ \<Rightarrow> Ret (if n = 1 then toggle_pinned_taskbar k s else s\<lparr>DESKTOP := toggle_pinned_desktop k (DESKTOP s)\<rparr>)
   | FsEntry ino is_dir \<Rightarrow>
       if n = 1 then Ret (toggle_pinned_file ino home_desktop (ic_label icon) is_dir s)
       else if \<not> NVME_PRESENT s then Ret s
       else obind (with_fs (lookup home_desktop) s) (\<lambda>(p, s). case p of None \<Rightarrow> Ret s
         | Some parent_ino \<Rightarrow> Ret (s\<lparr>FS_CLIPBOARD := [(parent_ino, ino, ic_label icon, is_dir)]\<rparr>))))"

definition context_click :: "mouse_env \<Rightarrow> int \<Rightarrow> int \<Rightarrow> wm_state \<Rightarrow> wm_state outcome" where
  "context_click e mx my s =
    (let item = context_menu_item_at mx my s; d = (DESKTOP s)\<lparr>context_menu := None, dirty := True\<rparr>; s = s\<lparr>DESKTOP := d\<rparr> in
     case item of None \<Rightarrow> Ret s | Some n \<Rightarrow> (case context_menu_kind d of
       Background \<Rightarrow> Ret (s\<lparr>DESKTOP := (if n = 0 then d\<lparr>open_settings_requested := True\<rparr> else if n = 1 then begin_new_entry False d
           else if n = 2 then begin_new_entry True d else d)\<rparr>)
     | AppMenu k \<Rightarrow> Ret (if n = 0 then s\<lparr>DESKTOP := d\<lparr>new_window_requested := Some k\<rparr>\<rparr> else if n = 1 then toggle_pinned_taskbar k s
           else if n = 2 then s\<lparr>DESKTOP := toggle_pinned_desktop k d\<rparr> else s)
     | EditText i \<Rightarrow> Ret (if n = 0 then s\<lparr>DESKTOP := d\<lparr>clipboard_action_requested := Some (i, False)\<rparr>\<rparr>
           else if n = 1 then s\<lparr>DESKTOP := d\<lparr>clipboard_action_requested := Some (i, True)\<rparr>\<rparr> else s)
     | IconMenu idx \<Rightarrow> if n = 0 then Ret (s\<lparr>DESKTOP := open_icon (e_tsc e) idx d\<rparr>)
           else if n = 1 \<or> n = 2 then icon_menu_click e idx n s else Ret s
     | FsRow win parent_ino parent_path ino nm is_dir is_pinned extra \<Rightarrow> Ret (
           if n = 0 then s\<lparr>DESKTOP := d\<lparr>open_fs_entry_requested := Some (ino, is_dir, nm, parent_path)\<rparr>\<rparr>
           else if n = 1 then toggle_pinned_file ino parent_path nm is_dir s
           else if n = 2 then s\<lparr>FS_CLIPBOARD := (parent_ino, ino, nm, is_dir) # map (\<lambda>(i, nm, b). (parent_ino, i, nm, b)) extra\<rparr>
           else s)
     | FsPane win parent_ino parent_path \<Rightarrow> if n = 0 then paste_clip (e_fuel e) parent_ino s else Ret s))"

section \<open>Left click\<close>

definition jumplist_item_at :: "nat \<Rightarrow> nat list \<Rightarrow> int \<Rightarrow> int \<Rightarrow> Desktop \<Rightarrow> nat option" where
  "jumplist_item_at btn_x ids mx my d =
    (let jl_h = length ids * MENU_ENTRY_H + 8; x = int (min btn_x (fb_w d - 180)); y = int (fb_h d - TASKBAR_H - jl_h) in
     if mx < x \<or> x + 180 \<le> mx \<or> my < y + 4 \<or> y + int jl_h - 4 \<le> my then None
     else get_at ids (nat (my - y - 4) div MENU_ENTRY_H))"

text \<open>A click with the jump list open: whether the handler returns, and for which program the list was just closed.\<close>

definition jumplist_click :: "u64 \<Rightarrow> int \<Rightarrow> int \<Rightarrow> Desktop \<Rightarrow> bool \<times> AppKind option \<times> Desktop" where
  "jumplist_click tsc mx my d = (case taskbar_jumplist d of None \<Rightarrow> (False, None, d) | Some (jl_kind, jl_x) \<Rightarrow>
     (let ids = (case find (\<lambda>g. fst g = jl_kind) (grouped_all_entries d) of Some g \<Rightarrow> snd g | None \<Rightarrow> []);
          hit = jumplist_item_at jl_x ids mx my d;
          d = d\<lparr>taskbar_jumplist := None, dirty := True\<rparr>
      in case hit of Some i \<Rightarrow> (True, None, show_front tsc i d) | None \<Rightarrow> (False, Some jl_kind, d)))"

definition volume_click :: "mouse_env \<Rightarrow> int \<Rightarrow> int \<Rightarrow> wm_state \<Rightarrow> bool \<times> wm_state" where
  "volume_click e mx my s =
    (let d = DESKTOP s; ty = fb_h d - TASKBAR_H in
     if \<not> volume_popup_open d then (False, s)
     else if in_rect (vol_popup_rect (fb_w d) ty) mx my
     then (let sy = int (fst (snd (vol_popup_rect (fb_w d) ty)) + 28) in
       (True, if sy - 4 \<le> my \<and> my < sy + 8 + 4
         then (let s = slide_volume e mx s in s\<lparr>DESKTOP := (DESKTOP s)\<lparr>volume_drag := True\<rparr>\<rparr>) else s))
     else (False, if in_rect (vol_icon_rect (fb_w d) ty) mx my then s else s\<lparr>DESKTOP := d\<lparr>volume_popup_open := False, dirty := True\<rparr>\<rparr>))"

definition menu_btn_hit :: "nat \<Rightarrow> nat \<Rightarrow> nat \<Rightarrow> bool" where
  "menu_btn_hit bx rel_x rel_y \<longleftrightarrow> bx \<le> rel_x \<and> rel_x < bx + 14 \<and> 2 \<le> rel_y \<and> rel_y < 2 + 14"

definition menu_click :: "u64 \<Rightarrow> int \<Rightarrow> int \<Rightarrow> Desktop \<Rightarrow> Desktop outcome" where
  "menu_click tsc mx my d =
    (let rel_x = nat mx; rel_y = nat (my - int (menu_top d)) in
     if menu_btn_hit (MENU_W - 14 - 4) rel_x rel_y then Power_off
     else if menu_btn_hit (MENU_W - 14 - 4 - 14 - 4) rel_x rel_y then Rebooted
     else case menu_entry my d of None \<Rightarrow> Ret d | Some (kind, ids) \<Rightarrow>
       (let d = close_start_menu tsc d;
            d = (case ids of [i] \<Rightarrow> show_front tsc i d | _ \<Rightarrow> d\<lparr>taskbar_jumplist := Some (kind, 0)\<rparr>)
        in Ret (d\<lparr>dirty := True\<rparr>)))"

definition taskbar_click :: "u64 \<Rightarrow> int \<Rightarrow> int \<Rightarrow> AppKind option \<Rightarrow> wm_state \<Rightarrow> Desktop" where
  "taskbar_click tsc mx my jl s =
    (let d = DESKTOP s in
     if nat mx < START_W then (if start_menu_open d then close_start_menu tsc d else open_start_menu tsc d)\<lparr>dirty := True\<rparr>
     else if in_rect (vol_icon_rect (fb_w d) (fb_h d - TASKBAR_H)) mx my
     then (let d = close_start_menu tsc d in d\<lparr>volume_popup_open := \<not> volume_popup_open d, dirty := True\<rparr>)
     else (let d = close_start_menu tsc d; slot = (nat mx - START_W) div TASK_BTN_W in
       case get_at (taskbar_entries s) slot of None \<Rightarrow> d
       | Some (kind, _) \<Rightarrow> d\<lparr>taskbar_dragging := Some kind, taskbar_drag_start_x := mx, taskbar_drag_moved := False,
           taskbar_click_pending := Some (kind, slot, jl), dirty := True\<rparr>))"

definition topmost_hit :: "int \<Rightarrow> int \<Rightarrow> Desktop \<Rightarrow> nat option" where
  "topmost_hit mx my d = map_option w_id (find (window_hit mx my) (rev (windows d)))"

definition dock_click :: "int \<Rightarrow> int \<Rightarrow> wm_state \<Rightarrow> Desktop option" where
  "dock_click mx my s =
    (if \<not> (nat mx < DOCK_W \<and> 0 \<le> my) then None else
     let slot = (nat my - 16) div 56; y = 16 + slot * 56 in
     case get_at (PINNED_FILES s) slot of None \<Rightarrow> None | Some (ino, parent_path, nm, is_dir) \<Rightarrow>
       if int y \<le> my \<and> my < int (y + 40 + 12)
       then Some ((DESKTOP s)\<lparr>open_fs_entry_requested := Some (ino, is_dir, nm, parent_path), dirty := True\<rparr>) else None)"

definition icon_click :: "bool \<Rightarrow> int \<Rightarrow> int \<Rightarrow> Desktop \<Rightarrow> Desktop" where
  "icon_click shift mx my d = (case icon_at mx my d of
     Some idx \<Rightarrow>
       if shift
       then d\<lparr>icon_selected := (if List.member (icon_selected d) idx then remove_first (\<lambda>i. i = idx) (icon_selected d) else icon_selected d @ [idx]),
           icon_last_clicked := None, dirty := True\<rparr>
       else (let icon = icons d ! idx in d\<lparr>icon_selected := (if List.member (icon_selected d) idx then icon_selected d else [idx]),
           icon_dragging := Some idx, icon_drag_off := (mx - ic_x icon, my - ic_y icon), icon_drag_moved := False,
           icon_drag_start_pos := (ic_x icon, ic_y icon), dirty := True\<rparr>)
   | None \<Rightarrow> if shift then d
       else d\<lparr>icon_selected := [], icon_last_clicked := None, marquee_start := Some (mx, my), dirty := True\<rparr>)"

definition start_drag :: "int \<Rightarrow> int \<Rightarrow> Window \<Rightarrow> Window" where
  "start_drag mx my w = w\<lparr>dragging := True, drag_off := (mx - w_x w, my - w_y w)\<rparr>"

definition grab_maximized :: "mouse_env \<Rightarrow> int \<Rightarrow> int \<Rightarrow> nat \<Rightarrow> nat \<Rightarrow> Window \<Rightarrow> Window" where
  "grab_maximized e mx my sw sh w =
    (let ox = outer_x w; ow = max (outer_w w) 1; w = toggle_maximize (e_tsc e) sw sh w
     in start_drag mx my (w\<lparr>w_x := mx - e_grab e (mx - ox) ow (w_w w), w_y := my - int TITLE_H div 2\<rparr>))"

definition start_resize :: "u8 \<Rightarrow> int \<Rightarrow> int \<Rightarrow> Window \<Rightarrow> Window" where
  "start_resize edges mx my w = w\<lparr>resizing := True, resize_edge_flags := edges, resize_orig := w_rect w, resize_orig_m := (mx, my)\<rparr>"

definition window_click :: "mouse_env \<Rightarrow> int \<Rightarrow> int \<Rightarrow> nat option \<Rightarrow> nat \<Rightarrow> Desktop \<Rightarrow> bool \<times> Desktop" where
  "window_click e mx my prev_dbl i d =
    (let d = (bring_to_front i d)\<lparr>dirty := True\<rparr> in
     case find_window i d of None \<Rightarrow> (False, d) | Some w \<Rightarrow>
     if close_hit mx my w then (False, (update_window i (win_close (e_tsc e)) d)\<lparr>focused := None\<rparr>)
     else if minimize_hit mx my w then (False, (update_window i (win_hide (e_tsc e)) d)\<lparr>focused := None\<rparr>)
     else if newterm_hit mx my w then (True, d)
     else if maximize_hit mx my w then (False, update_window i (toggle_maximize (e_tsc e) (fb_w d) (fb_h d)) d)
     else if maximized w then (False, if title_hit mx my w then update_window i (grab_maximized e mx my (fb_w d) (fb_h d)) d else d)
     else if resize_edges_at mx my w \<noteq> 0 then (False, update_window i (start_resize (resize_edges_at mx my w) mx my) d)
     else if title_hit mx my w
     then (False, if prev_dbl = Some i then update_window i (toggle_maximize (e_tsc e) (fb_w d) (fb_h d)) d
                  else update_window i (start_drag mx my) (d\<lparr>dbl_click_pending := Some i\<rparr>))
     else (False, d))"

definition desktop_click :: "mouse_env \<Rightarrow> int \<Rightarrow> int \<Rightarrow> nat option \<Rightarrow> wm_state \<Rightarrow> bool \<times> wm_state" where
  "desktop_click e mx my prev_dbl s =
    (let s = s\<lparr>DESKTOP := close_start_menu (e_tsc e) (DESKTOP s)\<rparr> in
     case topmost_hit mx my (DESKTOP s) of
       Some i \<Rightarrow> (case window_click e mx my prev_dbl i (DESKTOP s) of (spawn, d) \<Rightarrow> (spawn, s\<lparr>DESKTOP := d\<rparr>))
     | None \<Rightarrow> (False, s\<lparr>DESKTOP := (case dock_click mx my s of Some d \<Rightarrow> d | None \<Rightarrow> icon_click (e_shift e) mx my (DESKTOP s))\<rparr>))"

definition left_click :: "mouse_env \<Rightarrow> int \<Rightarrow> int \<Rightarrow> wm_state \<Rightarrow> (bool \<times> wm_state) outcome" where
  "left_click e mx my s =
    (if context_menu (DESKTOP s) \<noteq> None then obind (context_click e mx my s) (\<lambda>s. Ret (False, s)) else
     case jumplist_click (e_tsc e) mx my (DESKTOP s) of (ret, jl, d) \<Rightarrow>
     if ret then Ret (False, s\<lparr>DESKTOP := d\<rparr>) else
     case volume_click e mx my (s\<lparr>DESKTOP := d\<rparr>) of (ret, s) \<Rightarrow>
     if ret then Ret (False, s) else
     let prev_dbl = dbl_click_pending (DESKTOP s); s = s\<lparr>DESKTOP := (DESKTOP s)\<lparr>dbl_click_pending := None\<rparr>\<rparr> in
     if in_menu mx my (DESKTOP s) then obind (menu_click (e_tsc e) mx my (DESKTOP s)) (\<lambda>d. Ret (False, s\<lparr>DESKTOP := d\<rparr>))
     else if in_taskbar my (DESKTOP s) then Ret (False, s\<lparr>DESKTOP := taskbar_click (e_tsc e) mx my jl s\<rparr>)
     else Ret (desktop_click e mx my prev_dbl s))"

section \<open>The handler\<close>

definition moved :: "int \<Rightarrow> int \<Rightarrow> Desktop \<Rightarrow> Desktop" where
  "moved mx my d = (if (mx, my) \<noteq> prev_c d then d\<lparr>mouse_dirty := True, prev_c := (mx, my)\<rparr> else d)"

definition dismissed :: "int \<Rightarrow> int \<Rightarrow> Desktop \<Rightarrow> bool" where
  "dismissed mx my d = (case prompt_rect d of None \<Rightarrow> False | Some (px, py, pw, ph) \<Rightarrow> \<not> in_box px py pw ph mx my)"

definition update_mouse :: "mouse_env \<Rightarrow> int \<Rightarrow> int \<Rightarrow> u8 \<Rightarrow> wm_state \<Rightarrow> (bool \<times> wm_state) outcome" where
  "update_mouse e mx my buttons s =
    (let old = prev_btn (DESKTOP s);
         right_clicked = (buttons AND 2 \<noteq> 0 \<and> old AND 2 = 0); clicked = (buttons AND 1 \<noteq> 0 \<and> old AND 1 = 0);
         released = (buttons AND 1 = 0 \<and> old AND 1 \<noteq> 0); held_btn = (buttons AND 1 \<noteq> 0);
         d = (moved mx my (DESKTOP s))\<lparr>prev_btn := buttons\<rparr>; s = s\<lparr>DESKTOP := d\<rparr>
     in if (clicked \<or> right_clicked) \<and> dismissed mx my d then Ret (False, s\<lparr>DESKTOP := d\<lparr>text_prompt := None, dirty := True\<rparr>\<rparr>)
     else case (if held_btn then held e mx my s else (False, s)) of (ret, s) \<Rightarrow>
     if ret then Ret (False, s)
     else (let s = (if released then release e mx s else s); s = (if right_clicked then right_click e mx my s else s)
       in if clicked then left_click e mx my s else Ret (False, s)))"

text \<open>The main loop calls the handler with the lock held (\<open>kernel/src/main.rs\<close>).\<close>

definition mouse_turn :: "mouse_env \<Rightarrow> int \<Rightarrow> int \<Rightarrow> u8 \<Rightarrow> wm_state \<Rightarrow> (bool \<times> wm_state) outcome" where
  "mouse_turn e mx my btn s =
    (if DESKTOP_HELD s then Spins else
     obind (update_mouse e mx my btn (s\<lparr>DESKTOP_HELD := True\<rparr>)) (\<lambda>(spawn, s). Ret (spawn, s\<lparr>DESKTOP_HELD := False\<rparr>)))"

definition snap_preview_rect :: "Desktop \<Rightarrow> (int \<times> int \<times> nat \<times> nat) option" where
  "snap_preview_rect d = (case snap_zone d of None \<Rightarrow> None | Some zone \<Rightarrow>
     (let bx = int BORDER_W; bY = int TITLE_H + int BORDER_W; hw = fb_w d div 2; fh = fb_h d - (TITLE_H + TASKBAR_H + BORDER_W * 2) in
      Some (case zone of
        SnapLeft \<Rightarrow> (bx, bY, hw - BORDER_W * 2, fh)
      | SnapRight \<Rightarrow> (bx + int hw, bY, hw - BORDER_W * 2, fh)
      | SnapTop \<Rightarrow> (bx, bY, fb_w d - BORDER_W * 2, fh))))"

end
