(* ===== verification/Desktop_Windows.thy ===== *)
theory Desktop_Windows
  imports Desktop_Mouse "HOL-Library.Multiset"
begin

text \<open>
  What the window manager keeps over every sequence of events: its windows and the focus, and the pins of the taskbar.
\<close>

section \<open>Windows are kept\<close>

lemma update_first_ids: "(\<And>w. w_id (f w) = w_id w) \<Longrightarrow> map w_id (update_first P f ws) = map w_id ws"
  by (induction ws) auto

lemma set_rect_id [simp]: "w_id (set_rect r w) = w_id w" by (simp add: set_rect_def split: prod.split)

lemma win_ids [simp]:
  "w_id (win_show t w) = w_id w" "w_id (win_hide t w) = w_id w" "w_id (win_close t w) = w_id w" "w_id (hide_instant w) = w_id w"
  "w_id (start_transition t r w) = w_id w" "w_id (tick_window p t w) = w_id w"
  by (simp_all add: win_show_def win_hide_def win_close_def hide_instant_def start_transition_def tick_window_def Let_def split: option.split)

lemma toggle_maximize_id [simp]: "w_id (toggle_maximize t sw sh w) = w_id w"
  by (simp add: toggle_maximize_def Let_def)

lemma mouse_win_ids [simp]:
  "w_id (resize_right n w) = w_id w" "w_id (resize_bottom n w) = w_id w" "w_id (resize_left n w) = w_id w"
  "w_id (drag_to mx my a b w) = w_id w" "w_id (start_drag mx my w) = w_id w" "w_id (start_resize f mx my w) = w_id w"
  by (simp_all add: resize_right_def resize_bottom_def resize_left_def drag_to_def start_drag_def start_resize_def Let_def split: prod.split)

lemma mouse_win_ids2 [simp]:
  "w_id (resize_to mx my w) = w_id w" "w_id (snap_window e z a b w) = w_id w" "w_id (grab_maximized e mx my a b w) = w_id w"
  by (simp_all add: resize_to_def snap_window_def grab_maximized_def Let_def split: SnapZone.split)

text \<open>The windows are the same up to order and changes of their state, and a valid focus stays valid.\<close>

definition ids :: "Desktop \<Rightarrow> nat list" where "ids d = map w_id (windows d)"

definition focus_ok :: "Desktop \<Rightarrow> bool" where
  "focus_ok d = (case focused d of None \<Rightarrow> True | Some i \<Rightarrow> i \<in> set (ids d))"

definition keeps :: "Desktop \<Rightarrow> Desktop \<Rightarrow> bool" where
  "keeps d d' \<longleftrightarrow> next_id d' = next_id d \<and> mset (ids d') = mset (ids d) \<and> (focus_ok d \<longrightarrow> focus_ok d')"

lemma keeps_trans [trans]: "keeps d d1 \<Longrightarrow> keeps d1 d2 \<Longrightarrow> keeps d d2" by (simp add: keeps_def)

lemma keepsI: "next_id d' = next_id d \<Longrightarrow> ids d' = ids d \<Longrightarrow> focused d' = focused d \<or> focused d' = None \<Longrightarrow> keeps d d'"
  by (auto simp: keeps_def focus_ok_def split: option.split)

lemma keeps_windows: "keeps d d' \<Longrightarrow> next_id d'' = next_id d' \<Longrightarrow> windows d'' = windows d' \<Longrightarrow> focused d'' = focused d' \<or> focused d'' = None \<Longrightarrow> keeps d d''"
  by (rule keeps_trans, assumption, rule keepsI) (simp_all add: ids_def)

lemma keeps_refl [simp]: "keeps d d" by (simp add: keeps_def)

lemmas keep_simps = ids_def update_first_ids update_window_def

lemma keeps_update_window: "(\<And>w. w_id (f w) = w_id w) \<Longrightarrow> keeps d (update_window i f d)"
  by (rule keepsI) (simp_all add: keep_simps)

lemma remove_first_mset: "find P xs = Some x \<Longrightarrow> mset (remove_first P xs @ [x]) = mset xs"
  by (induction xs) (auto split: if_splits)

lemma find_id: "find (\<lambda>w. w_id w = i) ws = Some w \<Longrightarrow> w_id w = i \<and> w \<in> set ws"
  by (induction ws) (auto split: if_splits)

lemma keeps_bring_to_front [simp]: "keeps d (bring_to_front i d)"
proof (cases "find_window i d")
  case (Some w)
  then have f: "find (\<lambda>w. w_id w = i) (windows d) = Some w" by (simp add: find_window_def)
  note m = remove_first_mset [OF f]
  have "mset (map w_id (remove_first (\<lambda>w. w_id w = i) (windows d) @ [w])) = mset (map w_id (windows d))"
    unfolding mset_map m ..
  then show ?thesis using Some find_id [OF f] by (simp add: keeps_def bring_to_front_def ids_def focus_ok_def)
qed (simp add: bring_to_front_def)

lemma keeps_show_front [simp]: "keeps d (show_front t i d)"
  unfolding show_front_def using keeps_trans [OF keeps_update_window [of "win_show t"] keeps_bring_to_front] by simp

lemma keeps_open_icon [simp]: "keeps d (open_icon t idx d)"
proof (cases "get_at (icons d) idx")
  case (Some icon)
  show ?thesis
  proof (cases "ic_kind icon")
    case (Program k i)
    then show ?thesis using Some by (intro keeps_windows [OF keeps_show_front [of d t i]]) (simp_all add: open_icon_def)
  next
    case (FsEntry ino b)
    then show ?thesis using Some by (intro keeps_windows [OF keeps_refl]) (simp_all add: open_icon_def)
  qed
qed (simp add: open_icon_def)

lemma keeps_menu [simp]: "keeps d (close_start_menu t d)" "keeps d (open_start_menu t d)"
  by (intro keeps_windows [OF keeps_refl]; simp add: close_start_menu_def open_start_menu_def Let_def)+

lemma keeps_taskbar_button_click: "keeps (DESKTOP s) (DESKTOP (taskbar_button_click t kind slot jl s))"
proof (cases "get_at (taskbar_entries s) slot")
  case (Some g)
  obtain k l where g: "g = (k, l)" by force
  let ?d = "DESKTOP s"
  have *: "keeps ?d (case l of [] \<Rightarrow> ?d\<lparr>new_window_requested := Some kind\<rparr>
      | [wid] \<Rightarrow> if (case find_window wid ?d of Some w \<Rightarrow> minimized w | None \<Rightarrow> False) then show_front t wid ?d
          else if focused ?d = Some wid then (update_window wid (win_hide t) ?d)\<lparr>focused := None\<rparr> else bring_to_front wid ?d
      | _ \<Rightarrow> if jl = Some kind then ?d else ?d\<lparr>taskbar_jumplist := Some (kind, START_W + slot * TASK_BTN_W)\<rparr>)" (is "keeps _ ?d'")
    by (auto simp: keeps_show_front keeps_bring_to_front keep_simps intro!: keepsI split: list.split)
  have "DESKTOP (taskbar_button_click t kind slot jl s) = (if k = kind then ?d'\<lparr>dirty := True\<rparr> else ?d)"
    using Some g by (simp add: taskbar_button_click_def Let_def)
  then show ?thesis using keeps_windows [OF *] by simp
qed (simp add: taskbar_button_click_def Let_def)

section \<open>The mouse handler keeps the windows\<close>

lemma keeps_held_window: "held_window mx my d = Some d' \<Longrightarrow> keeps d d'"
  unfolding held_window_def
  by (auto simp: keep_simps split: option.splits if_splits intro!: keepsI)

lemma held_taskbar_same [simp]:
  "windows (held_taskbar mx d) = windows d" "next_id (held_taskbar mx d) = next_id d" "focused (held_taskbar mx d) = focused d"
  by (simp_all add: held_taskbar_def Let_def)

lemma keeps_held: "held e mx my s = (r, s') \<Longrightarrow> keeps (DESKTOP s) (DESKTOP s') \<and> PINNED_TASKBAR s' = PINNED_TASKBAR s"
proof (cases "held_window mx my (DESKTOP s)")
  case (Some d)
  then show "held e mx my s = (r, s') \<Longrightarrow> ?thesis" using keeps_held_window [OF Some] by (auto simp: held_def)
next
  case None
  have i: "held_icon mx my d = Some d' \<Longrightarrow> windows d' = windows d \<and> next_id d' = next_id d \<and> focused d' = focused d" for d d'
    by (auto simp: held_icon_def Let_def split: option.splits)
  have m: "held_marquee mx my d = Some d' \<Longrightarrow> windows d' = windows d \<and> next_id d' = next_id d \<and> focused d' = focused d" for d d'
    by (auto simp: held_marquee_def split: option.splits)
  assume "held e mx my s = (r, s')"
  then have "windows (DESKTOP s') = windows (DESKTOP s) \<and> next_id (DESKTOP s') = next_id (DESKTOP s) \<and> focused (DESKTOP s') = focused (DESKTOP s) \<and>
      PINNED_TASKBAR s' = PINNED_TASKBAR s"
    using None i m by (auto simp: held_def Let_def slide_volume_def set_volume_def split: option.splits if_splits)
  then show ?thesis using keeps_windows [OF keeps_refl] by blast
qed

text \<open>The same on the state of the module, where the pins of the taskbar stay without repetition.\<close>

definition wm_keeps :: "wm_state \<Rightarrow> wm_state \<Rightarrow> bool" where
  "wm_keeps s s' \<longleftrightarrow> keeps (DESKTOP s) (DESKTOP s') \<and> (distinct (PINNED_TASKBAR s) \<longrightarrow> distinct (PINNED_TASKBAR s'))"

lemma wm_keeps_trans [trans]: "wm_keeps s s1 \<Longrightarrow> wm_keeps s1 s2 \<Longrightarrow> wm_keeps s s2"
  using keeps_trans by (auto simp: wm_keeps_def)

lemma wm_keeps_refl [simp]: "wm_keeps s s" by (simp add: wm_keeps_def)

lemma wm_keepsI: "keeps (DESKTOP s) (DESKTOP s') \<Longrightarrow> PINNED_TASKBAR s' = PINNED_TASKBAR s \<Longrightarrow> wm_keeps s s'"
  by (simp add: wm_keeps_def)

lemma wm_keeps_desktop: "keeps (DESKTOP s) d \<Longrightarrow> wm_keeps s (s\<lparr>DESKTOP := d\<rparr>)"
  by (simp add: wm_keeps_def)

lemma keeps_same: "windows d' = windows d \<Longrightarrow> next_id d' = next_id d \<Longrightarrow> focused d' = focused d \<Longrightarrow> keeps d d'"
  by (rule keepsI) (simp_all add: ids_def)

lemma distinct_remove_first: "distinct xs \<Longrightarrow> distinct (remove_first P xs) \<and> set (remove_first P xs) \<subseteq> set xs"
  by (induction xs) auto

lemma wm_keeps_toggle_pinned_taskbar: "wm_keeps s (toggle_pinned_taskbar k s)"
  using distinct_remove_first [of "PINNED_TASKBAR s"]
  by (auto simp: wm_keeps_def toggle_pinned_taskbar_def is_pinned_taskbar_def)

lemma pinned_taskbar_button_click [simp]: "PINNED_TASKBAR (taskbar_button_click t k slot jl s) = PINNED_TASKBAR s"
  by (simp add: taskbar_button_click_def Let_def split: option.split prod.split)

lemma distinct_insert_at: "distinct xs \<Longrightarrow> x \<notin> set xs \<Longrightarrow> distinct (take n xs @ [x] @ drop n xs)"
  using set_take_disj_set_drop_if_distinct [of xs n n] by (auto dest: in_set_takeD in_set_dropD)

lemma wm_keeps_release_taskbar: "wm_keeps s (release_taskbar e mx s)"
proof -
  let ?s = "s\<lparr>DESKTOP := (DESKTOP s)\<lparr>taskbar_click_pending := None, taskbar_dragging := None\<rparr>\<rparr>"
  have s: "wm_keeps s ?s" by (rule wm_keeps_desktop, rule keeps_same) simp_all
  have d: "wm_keeps ?s (drop_taskbar mx k ?s)" for k
    using distinct_insert_at [of "filter (\<lambda>j. j \<noteq> k) (PINNED_TASKBAR ?s)" k] keeps_same [of "(DESKTOP ?s)\<lparr>dirty := True\<rparr>" "DESKTOP ?s"]
    by (simp add: wm_keeps_def drop_taskbar_def Let_def)
  have b: "wm_keeps ?s (taskbar_button_click t k slot jl ?s)" for t k slot jl
    using keeps_taskbar_button_click [of ?s] by (intro wm_keepsI) simp_all
  from wm_keeps_trans [OF s d] wm_keeps_trans [OF s b] s show ?thesis
    unfolding release_taskbar_def Let_def by (simp split: option.split prod.split)
qed

lemma keeps_release_icon: "keeps d (release_icon e d)"
proof (cases "icon_dragging d")
  case (Some idx)
  let ?d = "d\<lparr>icon_dragging := None\<rparr>"
  have *: "keeps d ?d" by (rule keeps_same) simp_all
  have o: "keeps d ((open_icon t idx ?d)\<lparr>icon_selected_at := n, dirty := True\<rparr>)" for t n
    by (rule keeps_trans [OF keeps_trans [OF * keeps_open_icon [of ?d t idx]] keeps_same]) simp_all
  have r: "windows (begin_rename t idx ?d) = windows d \<and> next_id (begin_rename t idx ?d) = next_id d \<and> focused (begin_rename t idx ?d) = focused d" for t
    by (simp add: begin_rename_def show_message_def split: option.split IconKind.split)
  show ?thesis using Some o r by (auto simp: release_icon_def Let_def intro!: keeps_same)
qed (simp add: release_icon_def)

lemma keeps_release_snap: "keeps d (release_snap e d)"
  by (auto simp: release_snap_def Let_def keep_simps intro!: keepsI split: option.split)

lemma wm_keeps_release: "wm_keeps s (release e mx s)"
proof -
  let ?s = "release_taskbar e mx s"
  let ?d = "release_snap e ((release_icon e ((DESKTOP ?s)\<lparr>marquee_start := None\<rparr>))\<lparr>volume_drag := False\<rparr>)"
  have 1: "keeps (DESKTOP ?s) ((DESKTOP ?s)\<lparr>marquee_start := None\<rparr>)" by (rule keeps_same) simp_all
  have 2: "keeps d (d\<lparr>volume_drag := False\<rparr>)" for d by (rule keeps_same) simp_all
  have 3: "keeps d (d\<lparr>windows := map (\<lambda>w. w\<lparr>dragging := False, resizing := False\<rparr>) (windows d)\<rparr>)" for d
    by (rule keepsI) (simp_all add: ids_def)
  have "keeps (DESKTOP ?s) (?d\<lparr>windows := map (\<lambda>w. w\<lparr>dragging := False, resizing := False\<rparr>) (windows ?d)\<rparr>)"
    by (rule keeps_trans [OF keeps_trans [OF keeps_trans [OF 1 keeps_release_icon] keeps_trans [OF 2 keeps_release_snap]] 3])
  then show ?thesis unfolding release_def Let_def by (rule wm_keeps_trans [OF wm_keeps_release_taskbar wm_keeps_desktop])
qed

lemma wm_keeps_right_click: "wm_keeps s (right_click e mx my s)"
proof -
  have d: "keeps d (right_click_desktop t mx my d)" for t d
    unfolding right_click_desktop_def by (auto simp: close_start_menu_def Let_def intro!: keeps_same split: option.split)
  have k: "keeps d (d\<lparr>context_menu := a, context_menu_kind := b, taskbar_jumplist := None, dirty := True\<rparr>)" for d a b
    by (rule keeps_same) simp_all
  show ?thesis unfolding right_click_def Let_def by (auto intro!: wm_keeps_desktop d k split: option.split)
qed

section \<open>Clicks\<close>

fun ret_keeps :: "wm_state \<Rightarrow> wm_state outcome \<Rightarrow> bool" where
  "ret_keeps s (Ret s') = wm_keeps s s'"
| "ret_keeps s _ = True"

lemma ret_keeps_obind:
  "(\<And>x s1. m = Ret (x, s1) \<Longrightarrow> wm_keeps s s1) \<Longrightarrow> (\<And>x s1. ret_keeps s1 (f x s1)) \<Longrightarrow> ret_keeps s (obind m (\<lambda>(x, s1). f x s1))"
proof (cases m)
  case (Ret p)
  assume a: "\<And>x s1. m = Ret (x, s1) \<Longrightarrow> wm_keeps s s1" "\<And>x s1. ret_keeps s1 (f x s1)"
  obtain x s1 where p: "p = (x, s1)" by force
  show ?thesis using a(1) [of x s1] a(2) [of s1 x] Ret p by (cases "f x s1") (auto intro: wm_keeps_trans)
qed simp_all

lemma with_fs_keeps: "with_fs f s = Ret (x, s1) \<Longrightarrow> wm_keeps s s1"
  by (auto simp: with_fs_def intro!: wm_keepsI keeps_same split: sum.splits prod.splits)

lemma with_fs_desktop: "with_fs f s = Ret (x, s1) \<Longrightarrow> DESKTOP s1 = DESKTOP s \<and> PINNED_TASKBAR s1 = PINNED_TASKBAR s"
  by (auto simp: with_fs_def split: sum.splits prod.splits)

lemma obind_Ret: "obind m f = Ret y \<longleftrightarrow> (\<exists>x. m = Ret x \<and> f x = Ret y)"
  by (cases m) auto

lemma stat_entries_same: "stat_entries es s = Ret (r, s1) \<Longrightarrow> DESKTOP s1 = DESKTOP s \<and> PINNED_TASKBAR s1 = PINNED_TASKBAR s"
proof (induction es s arbitrary: r rule: stat_entries.induct)
  case (2 ino nm es s)
  from "2.prems" obtain b n s0 r' where w: "with_fs (stat ino) s = Ret ((b, n), s0)" and r: "stat_entries es s0 = Ret (r', s1)"
    by (auto simp: obind_Ret)
  have "DESKTOP s1 = DESKTOP s0 \<and> PINNED_TASKBAR s1 = PINNED_TASKBAR s0" by (rule "2.IH" [OF r])
  then show ?case using with_fs_desktop [OF w] by simp
qed simp

lemma ret_keeps_refresh: "ret_keeps s (refresh_desktop_icons s)"
  unfolding refresh_desktop_icons_def
  by (auto intro!: ret_keeps_obind wm_keepsI keeps_same simp: sync_fs_icons_def
      dest!: stat_entries_same with_fs_desktop split: option.split)

lemma ret_keeps_paste_entries: "ret_keeps s (paste_entries fuel p es s)"
proof (induction fuel p es s rule: paste_entries.induct)
  case (2 fuel p q i nm b es s)
  then show ?case by (auto intro!: ret_keeps_obind dest: with_fs_keeps split: option.split)
qed simp

lemma ret_keeps_then: "ret_keeps s m \<Longrightarrow> (\<And>s1. ret_keeps s1 (f s1)) \<Longrightarrow> ret_keeps s (obind m f)"
proof (cases m)
  case (Ret s1)
  assume "ret_keeps s m" "\<And>s1. ret_keeps s1 (f s1)"
  from this(1) this(2) [of s1] show ?thesis using Ret by (cases "f s1") (auto intro: wm_keeps_trans)
qed simp_all

lemma ret_keeps_paste_clip: "ret_keeps s (paste_clip fuel p s)"
  unfolding paste_clip_def
  by (auto intro!: ret_keeps_then ret_keeps_paste_entries ret_keeps_refresh wm_keeps_desktop keeps_same)

lemma toggle_desktop_same [simp]: "windows (toggle_pinned_desktop k d) = windows d" "next_id (toggle_pinned_desktop k d) = next_id d"
    "focused (toggle_pinned_desktop k d) = focused d"
  by (simp_all add: toggle_pinned_desktop_def Let_def split: option.split)

lemma toggle_file_same [simp]: "DESKTOP (toggle_pinned_file i p n b s) = DESKTOP s" "PINNED_TASKBAR (toggle_pinned_file i p n b s) = PINNED_TASKBAR s"
  by (simp_all add: toggle_pinned_file_def)

lemma ret_keeps_icon_menu: "ret_keeps s (icon_menu_click e idx n s)"
  unfolding icon_menu_click_def
  by (auto intro!: ret_keeps_obind wm_keepsI keeps_same simp: wm_keeps_toggle_pinned_taskbar dest!: with_fs_desktop split: option.split IconKind.split)

lemma ret_keeps_context_click: "ret_keeps s (context_click e mx my s)"
proof -
  let ?d = "(DESKTOP s)\<lparr>context_menu := None, dirty := True\<rparr>"
  have s: "ret_keeps s m" if "ret_keeps (s\<lparr>DESKTOP := ?d\<rparr>) m" for m
    using that wm_keeps_trans [OF wm_keeps_desktop [OF keeps_same [of ?d "DESKTOP s"]]] by (cases m) auto
  let ?s = "s\<lparr>DESKTOP := ?d\<rparr>"
  have k: "wm_keeps ?s (?s\<lparr>DESKTOP := d\<rparr>)" if "keeps ?d d" for d using wm_keeps_desktop [of ?s d] that by simp
  have n: "wm_keeps ?s (?s\<lparr>DESKTOP := begin_new_entry b ?d\<rparr>)" for b by (rule k, rule keeps_same) (simp_all add: begin_new_entry_def)
  show ?thesis
  proof (cases "context_menu_item_at mx my s")
    case None
    then show ?thesis by (intro s) (simp add: context_click_def Let_def)
  next
    case (Some i)
    note c = context_click_def Let_def Some
    show ?thesis
    proof (cases "context_menu_kind (DESKTOP s)")
      case Background
      have "wm_keeps ?s (?s\<lparr>DESKTOP := ?d\<lparr>open_settings_requested := True\<rparr>\<rparr>)" by (rule k, rule keeps_same) simp_all
      then show ?thesis using Background n k [OF keeps_refl] by (intro s) (simp add: c)
    next
      case (AppMenu kind)
      have "wm_keeps ?s (?s\<lparr>DESKTOP := ?d\<lparr>new_window_requested := Some kind\<rparr>\<rparr>)" "wm_keeps ?s (?s\<lparr>DESKTOP := toggle_pinned_desktop kind ?d\<rparr>)"
        by (rule k, rule keeps_same; simp)+
      then show ?thesis using AppMenu wm_keeps_toggle_pinned_taskbar by (intro s) (simp add: c)
    next
      case (EditText w)
      have "wm_keeps ?s (?s\<lparr>DESKTOP := ?d\<lparr>clipboard_action_requested := r\<rparr>\<rparr>)" for r by (rule k, rule keeps_same) simp_all
      then show ?thesis using EditText by (intro s) (simp add: c)
    next
      case (IconMenu idx)
      then show ?thesis using k [OF keeps_open_icon] ret_keeps_icon_menu by (intro s) (simp add: c)
    next
      case (FsRow win parent_ino parent_path ino nm is_dir is_pinned extra)
      have "wm_keeps ?s (?s\<lparr>DESKTOP := ?d\<lparr>open_fs_entry_requested := r\<rparr>\<rparr>)" for r by (rule k, rule keeps_same) simp_all
      moreover have "wm_keeps ?s (toggle_pinned_file i p n b ?s)" "wm_keeps ?s (?s\<lparr>FS_CLIPBOARD := r\<rparr>)" for i p n b r
        by (rule wm_keepsI; simp)+
      ultimately show ?thesis using FsRow by (intro s) (simp add: c)
    next
      case (FsPane win parent_ino parent_path)
      then show ?thesis using ret_keeps_paste_clip by (intro s) (simp add: c)
    qed
  qed
qed

lemma keeps_jumplist_click: "jumplist_click t mx my d = (r, jl, d') \<Longrightarrow> keeps d d'"
proof -
  have *: "keeps d (d\<lparr>taskbar_jumplist := None, dirty := True\<rparr>)" by (rule keeps_same) simp_all
  show "jumplist_click t mx my d = (r, jl, d') \<Longrightarrow> keeps d d'"
    using * keeps_trans [OF * keeps_show_front] by (auto simp: jumplist_click_def Let_def split: option.splits)
qed

lemma wm_keeps_volume_click: "volume_click e mx my s = (r, s') \<Longrightarrow> wm_keeps s s'"
  by (auto simp: volume_click_def slide_volume_def set_volume_def Let_def intro!: wm_keepsI keeps_same split: if_splits)

lemma keeps_menu_click: "menu_click t mx my d = Ret d' \<Longrightarrow> keeps d d'"
proof (cases "menu_entry my d")
  case (Some g)
  obtain k l where g: "g = (k, l)" by force
  let ?d = "close_start_menu t d"
  have a: "keeps d ((show_front t i ?d)\<lparr>dirty := True\<rparr>)" for i
    using keeps_trans [OF keeps_menu(1) [of d t] keeps_show_front [of ?d t i]] by (rule keeps_windows) simp_all
  have b: "keeps d (?d\<lparr>taskbar_jumplist := j, dirty := True\<rparr>)" for j
    using keeps_menu(1) [of d t] by (rule keeps_windows) simp_all
  show "menu_click t mx my d = Ret d' \<Longrightarrow> ?thesis"
    using Some g a b by (auto simp: menu_click_def Let_def split: if_splits list.splits)
qed (auto simp: menu_click_def Let_def split: if_splits)

lemma keeps_taskbar_click: "keeps (DESKTOP s) (taskbar_click t mx my jl s)"
  by (auto simp: taskbar_click_def close_start_menu_def open_start_menu_def Let_def intro!: keeps_same split: option.split)

lemma keeps_dock_click: "dock_click mx my s = Some d \<Longrightarrow> keeps (DESKTOP s) d"
  by (auto simp: dock_click_def Let_def intro!: keeps_same split: if_splits option.splits)

lemma keeps_icon_click: "keeps d (icon_click shift mx my d)"
  by (auto simp: icon_click_def Let_def intro!: keeps_same split: option.split)

lemma keeps_window_click: "window_click e mx my dbl i d = (b, d') \<Longrightarrow> keeps d d'"
proof -
  let ?d = "(bring_to_front i d)\<lparr>dirty := True\<rparr>"
  have *: "keeps d ?d" by (rule keeps_windows [OF keeps_bring_to_front [of d i]]) simp_all
  have u: "keeps d (update_window i f ?d)" "keeps d ((update_window i f ?d)\<lparr>focused := None\<rparr>)"
      "keeps d (update_window i f (?d\<lparr>dbl_click_pending := j\<rparr>))" if "\<And>w. w_id (f w) = w_id w" for f j
    using that by (auto simp: keep_simps intro!: keeps_trans [OF *] keepsI)
  show "window_click e mx my dbl i d = (b, d') \<Longrightarrow> keeps d d'"
    using * u by (auto simp: window_click_def Let_def split: option.splits if_splits)
qed

lemma wm_keeps_desktop_click: "desktop_click e mx my dbl s = (b, s') \<Longrightarrow> wm_keeps s s'"
proof -
  let ?s = "s\<lparr>DESKTOP := close_start_menu (e_tsc e) (DESKTOP s)\<rparr>"
  have *: "wm_keeps s ?s" by (rule wm_keeps_desktop) simp
  have k: "wm_keeps s (?s\<lparr>DESKTOP := d\<rparr>)" if "keeps (DESKTOP ?s) d" for d by (rule wm_keeps_trans [OF * wm_keeps_desktop [OF that]])
  assume a: "desktop_click e mx my dbl s = (b, s')"
  show "wm_keeps s s'"
  proof (cases "topmost_hit mx my (DESKTOP ?s)")
    case None
    have "keeps (DESKTOP ?s) (case dock_click mx my ?s of Some d \<Rightarrow> d | None \<Rightarrow> icon_click (e_shift e) mx my (DESKTOP ?s))"
      using keeps_dock_click [of mx my ?s] keeps_icon_click by (simp split: option.split)
    from k [OF this] show ?thesis using a None by (simp add: desktop_click_def Let_def)
  next
    case (Some i)
    obtain c d where w: "window_click e mx my dbl i (DESKTOP ?s) = (c, d)" by force
    from k [OF keeps_window_click [OF w]] show ?thesis using a Some w by (simp add: desktop_click_def Let_def)
  qed
qed

lemma wm_keeps_left_click: "left_click e mx my s = Ret (b, s') \<Longrightarrow> wm_keeps s s'"
proof (cases "context_menu (DESKTOP s) = None")
  case False
  then show "left_click e mx my s = Ret (b, s') \<Longrightarrow> ?thesis" using ret_keeps_context_click [of s e mx my]
    by (auto simp: left_click_def obind_Ret)
next
  case True
  assume a: "left_click e mx my s = Ret (b, s')"
  obtain r jl d where j: "jumplist_click (e_tsc e) mx my (DESKTOP s) = (r, jl, d)" using prod_cases3 by blast
  note j1 = wm_keeps_desktop [OF keeps_jumplist_click [OF j]]
  obtain r2 s2 where v: "volume_click e mx my (s\<lparr>DESKTOP := d\<rparr>) = (r2, s2)" by force
  note s2 = wm_keeps_trans [OF j1 wm_keeps_volume_click [OF v]]
  let ?s = "s2\<lparr>DESKTOP := (DESKTOP s2)\<lparr>dbl_click_pending := None\<rparr>\<rparr>"
  have "wm_keeps s2 ?s" by (rule wm_keeps_desktop, rule keeps_same) simp_all
  note s3 = wm_keeps_trans [OF s2 this]
  have m: "wm_keeps s (?s\<lparr>DESKTOP := d'\<rparr>)" if "keeps (DESKTOP ?s) d'" for d' by (rule wm_keeps_trans [OF s3 wm_keeps_desktop [OF that]])
  have dk: "wm_keeps s s'" if "desktop_click e mx my (dbl_click_pending (DESKTOP s2)) ?s = (b, s')"
    by (rule wm_keeps_trans [OF s3 wm_keeps_desktop_click [OF that]])
  show ?thesis
  proof (cases "r \<or> r2")
    case True
    then show ?thesis using a \<open>context_menu (DESKTOP s) = None\<close> j v j1 s2 by (auto simp: left_click_def split: if_splits)
  next
    case False
    then show ?thesis using a True j v m [OF keeps_menu_click [of "e_tsc e" mx my]] m [OF keeps_taskbar_click] dk
      by (auto simp: left_click_def Let_def obind_Ret split: if_splits)
  qed
qed

lemma wm_keeps_update_mouse: "update_mouse e mx my btn s = Ret (b, s') \<Longrightarrow> wm_keeps s s'"
proof -
  assume a: "update_mouse e mx my btn s = Ret (b, s')"
  let ?d = "(moved mx my (DESKTOP s))\<lparr>prev_btn := btn\<rparr>"
  let ?s = "s\<lparr>DESKTOP := ?d\<rparr>"
  have d: "keeps (DESKTOP s) ?d" by (rule keeps_same) (simp_all add: moved_def)
  note s = wm_keeps_desktop [OF d]
  have p: "wm_keeps s (?s\<lparr>DESKTOP := ?d\<lparr>text_prompt := None, dirty := True\<rparr>\<rparr>)"
    by (rule wm_keeps_trans [OF s wm_keeps_desktop], rule keeps_same) simp_all
  obtain r s1 where h: "(if btn AND 1 \<noteq> 0 then held e mx my ?s else (False, ?s)) = (r, s1)" by force
  have s1: "wm_keeps s s1"
    using h s wm_keeps_trans [OF s wm_keepsI] keeps_held [of e mx my ?s r s1] by (auto split: if_splits)
  define s2 where "s2 = (if btn AND 1 = 0 \<and> prev_btn (DESKTOP s) AND 1 \<noteq> 0 then release e mx s1 else s1)"
  define s3 where "s3 = (if btn AND 2 \<noteq> 0 \<and> prev_btn (DESKTOP s) AND 2 = 0 then right_click e mx my s2 else s2)"
  have "wm_keeps s1 s2" "wm_keeps s2 s3" by (simp_all add: s2_def s3_def wm_keeps_release wm_keeps_right_click)
  then have s3: "wm_keeps s s3" using s1 wm_keeps_trans by blast
  have l: "wm_keeps s s'" if "left_click e mx my s3 = Ret (b, s')" using wm_keeps_left_click [OF that] s3 wm_keeps_trans by blast
  show "wm_keeps s s'" using a p h s1 s3 l unfolding update_mouse_def Let_def s2_def s3_def
    by (simp split: if_splits)
qed

section \<open>Events\<close>

text \<open>What the main loop and the applications do with the desktop.\<close>

datatype event =
  Mouse mouse_env int int u8
| Add_Window u64 AppKind "u8 list" int int nat nat
| Set_Terminal nat
| Show_Window u64 nat
| Hide_Instant nat
| Prompt_Key nat
| Rename_Pane nat u32 "u8 list"
| Take_Prompt
| Message u64 "u8 list"
| Message_Tick u64
| Refresh_Icons
| Anim_Tick u64 "nat \<Rightarrow> u64" u64

definition on_desktop :: "(Desktop \<Rightarrow> Desktop) \<Rightarrow> wm_state \<Rightarrow> wm_state outcome" where
  "on_desktop f s = Ret (s\<lparr>DESKTOP := f (DESKTOP s)\<rparr>)"

fun wm_step :: "event \<Rightarrow> wm_state \<Rightarrow> wm_state outcome" where
  "wm_step (Mouse e mx my btn) s = obind (mouse_turn e mx my btn s) (\<lambda>(spawn, s). Ret s)"
| "wm_step (Add_Window t k title x y w h) s = on_desktop (\<lambda>d. snd (add_window t k title x y w h d)) s"
| "wm_step (Set_Terminal i) s = on_desktop (set_terminal_window i) s"
| "wm_step (Show_Window t i) s = on_desktop (show_front t i) s"
| "wm_step (Hide_Instant i) s = on_desktop (update_window i hide_instant) s"
| "wm_step (Prompt_Key c) s = on_desktop (prompt_on_key c) s"
| "wm_step (Rename_Pane i ino nm) s = on_desktop (begin_rename_fs_pane i ino nm) s"
| "wm_step Take_Prompt s = on_desktop (\<lambda>d. snd (take_prompt_result d)) s"
| "wm_step (Message t m) s = on_desktop (show_message t m) s"
| "wm_step (Message_Tick t) s = on_desktop (tick_icon_message t) s"
| "wm_step Refresh_Icons s = refresh_desktop_icons s"
| "wm_step (Anim_Tick p t m) s = on_desktop (\<lambda>d. snd (tick_anims p t m d)) s"

fun wm_run :: "event list \<Rightarrow> wm_state \<Rightarrow> wm_state outcome" where
  "wm_run [] s = Ret s"
| "wm_run (ev # evs) s = obind (wm_step ev s) (wm_run evs)"

definition wm_ok :: "wm_state \<Rightarrow> bool" where
  "wm_ok s \<longleftrightarrow> mset (ids (DESKTOP s)) = mset [0 ..< next_id (DESKTOP s)] \<and> focus_ok (DESKTOP s) \<and> distinct (PINNED_TASKBAR s)"

lemma wm_ok_keeps: "wm_keeps s s' \<Longrightarrow> wm_ok s \<Longrightarrow> wm_ok s'"
  by (simp add: wm_ok_def wm_keeps_def keeps_def)

lemma wm_ok_desktop: "keeps (DESKTOP s) d \<Longrightarrow> wm_ok s \<Longrightarrow> wm_ok (s\<lparr>DESKTOP := d\<rparr>)"
  by (rule wm_ok_keeps, rule wm_keeps_desktop)

lemma keeps_prompt_on_key: "keeps d (prompt_on_key c d)"
  by (auto simp: prompt_on_key_def confirm_prompt_def intro!: keeps_same split: option.split PromptKind.split IconKind.split)

lemma keeps_tick_icon_message: "keeps d (tick_icon_message t d)"
  by (auto simp: tick_icon_message_def intro!: keeps_same split: option.split)

lemma keeps_tick_anims: "keeps d (snd (tick_anims p t m d))"
proof -
  have "map (w_id \<circ> (\<lambda>(i, w). tick_window p (t i) w)) (enumerate n ws) = map w_id ws" for n ws
    by (induction ws arbitrary: n) simp_all
  then show ?thesis by (intro keepsI) (simp_all add: tick_anims_def Let_def ids_def)
qed

lemma mouse_turn_keeps: "mouse_turn e mx my btn s = Ret (b, s') \<Longrightarrow> wm_keeps s s'"
  by (auto simp: mouse_turn_def obind_Ret wm_keeps_def dest!: wm_keeps_update_mouse split: if_splits)

lemma wm_step_ok: "wm_step ev s = Ret s' \<Longrightarrow> wm_ok s \<Longrightarrow> wm_ok s'"
proof (cases ev)
  case (Mouse e mx my btn)
  then show "wm_step ev s = Ret s' \<Longrightarrow> wm_ok s \<Longrightarrow> ?thesis" by (auto simp: obind_Ret dest: mouse_turn_keeps intro: wm_ok_keeps)
next
  case Refresh_Icons
  then show "wm_step ev s = Ret s' \<Longrightarrow> wm_ok s \<Longrightarrow> ?thesis" using ret_keeps_refresh [of s] by (auto intro: wm_ok_keeps)
next
  case (Add_Window t k title x y w h)
  then show "wm_step ev s = Ret s' \<Longrightarrow> wm_ok s \<Longrightarrow> ?thesis"
    by (auto simp: on_desktop_def add_window_def wm_ok_def ids_def focus_ok_def Window_new_def simp del: mset_upt)
qed (auto simp: on_desktop_def set_terminal_window_def take_prompt_result_def begin_rename_fs_pane_def show_message_def
    intro!: wm_ok_desktop keeps_update_window keeps_prompt_on_key keeps_tick_anims keeps_tick_icon_message intro: keeps_same)

lemma wm_run_ok: "wm_run evs s = Ret s' \<Longrightarrow> wm_ok s \<Longrightarrow> wm_ok s'"
  by (induction evs arbitrary: s) (auto simp: obind_Ret dest: wm_step_ok)

text \<open>
  C36: After every sequence of mouse reports, keys, animation ticks, requests of applications and icon refreshes that returns,
  the desktop has each window it ever created exactly once, the focused window is one of them, and no program is pinned to the
  taskbar twice.
\<close>

theorem windows_kept:
  assumes "wm_run evs s = Ret s'" "DESKTOP s = Desktop_new w h" "distinct (PINNED_TASKBAR s)"
  shows "distinct (map w_id (windows (DESKTOP s'))) \<and> w_id ` set (windows (DESKTOP s')) = {..< next_id (DESKTOP s')} \<and>
    (case focused (DESKTOP s') of None \<Rightarrow> True | Some i \<Rightarrow> i < next_id (DESKTOP s')) \<and> distinct (PINNED_TASKBAR s')"
proof -
  have "wm_ok s" using assms(2,3) by (simp add: wm_ok_def ids_def focus_ok_def Desktop_new_def)
  then have ok: "wm_ok s'" using assms(1) wm_run_ok by blast
  then have m: "mset (map w_id (windows (DESKTOP s'))) = mset [0 ..< next_id (DESKTOP s')]" by (simp add: wm_ok_def ids_def)
  then have "distinct (map w_id (windows (DESKTOP s')))" using mset_eq_imp_distinct_iff distinct_upt by blast
  moreover have "set (map w_id (windows (DESKTOP s'))) = set [0 ..< next_id (DESKTOP s')]" using m by (rule mset_eq_setD)
  moreover have "{..< next_id (DESKTOP s')} = set [0 ..< next_id (DESKTOP s')]" by auto
  ultimately show ?thesis using ok by (auto simp: wm_ok_def focus_ok_def ids_def split: option.split)
qed

definition example_wm :: wm_state where
  "example_wm = \<lparr>DESKTOP = Desktop_new 1280 800, FS = \<lparr>BITMAP = (\<lambda>_. 0), TOTAL_PAGES = 0, FREE_PAGES = 0, DISK = (\<lambda>_. 0), dev = Nvme,
     dev_lba_size = 512, dev_lba_count = 100, GENERATION = 0\<rparr>, DESKTOP_HELD = False, NVME_PRESENT = False, PINNED_FILES = [],
     PINNED_TASKBAR = [], FS_CLIPBOARD = [], VOLUME = 50\<rparr>"

text \<open>Two windows are created, and the first is brought to the front.\<close>

theorem windows_kept_witness:
  "\<exists>s'. wm_run [Add_Window 0 Welcome [] 100 100 300 200, Add_Window 0 Files [] 150 150 300 200, Show_Window 5 0] example_wm = Ret s' \<and>
    focused (DESKTOP s') = Some 0 \<and> distinct (map w_id (windows (DESKTOP s')))"
proof -
  obtain s' where s': "wm_run [Add_Window 0 Welcome [] 100 100 300 200, Add_Window 0 Files [] 150 150 300 200, Show_Window 5 0] example_wm = Ret s'"
    "focused (DESKTOP s') = Some 0"
    by (simp add: on_desktop_def add_window_def show_front_def update_window_def bring_to_front_def find_window_def Window_new_def
      win_show_def example_wm_def Desktop_new_def)
  from windows_kept [OF s'(1), of 1280 800] s' show ?thesis by (auto simp: example_wm_def)
qed

section \<open>Geometry\<close>

text \<open>Resizing from the left keeps the right edge; no resize makes a window smaller than the minimum.\<close>

lemma resize_left_right_edge:
  "resize_orig w = (ox, oy, ow, oh) \<Longrightarrow> resize_edge_flags w = 4 \<Longrightarrow>
   w_x (resize_to mx my w) + int (w_w (resize_to mx my w)) = ox + int ow \<and> 120 \<le> w_w (resize_to mx my w)"
  by (auto simp: resize_to_def resize_left_def Let_def max_def)

text \<open>A dragged window that fits the screen stays on it, with its title bar above the taskbar.\<close>

lemma drag_on_screen:
  "w_w w \<le> fw \<Longrightarrow> TITLE_H + TASKBAR_H < fh \<Longrightarrow>
   0 \<le> w_x (drag_to mx my fw fh w) \<and> w_x (drag_to mx my fw fh w) + int (w_w w) \<le> int fw \<and>
   int TITLE_H \<le> w_y (drag_to mx my fw fh w) \<and> w_y (drag_to mx my fw fh w) < int fh - int TASKBAR_H"
  by (auto simp: drag_to_def)

text \<open>Maximising and restoring gives back the rectangle.\<close>

lemma toggle_maximize_twice:
  "\<not> maximized w \<Longrightarrow> w_rect (toggle_maximize t2 sw sh (toggle_maximize t1 sw sh w)) = w_rect w \<and>
   \<not> maximized (toggle_maximize t2 sw sh (toggle_maximize t1 sw sh w))"
  by (simp add: toggle_maximize_def Let_def start_transition_def set_rect_def w_rect_def)

text \<open>
  A dropped icon moves to a grid cell. The cell is not kept on the screen: on 1280 columns an icon dragged to the
  right edge, where dragging stops it, is snapped ten columns past it.
\<close>

lemma icon_snap_off_screen: "fst (icon_snap (max_icon_x (Desktop_new 1280 800)) 16) = max_icon_x (Desktop_new 1280 800) + 10"
  by (simp add: icon_snap_def max_icon_x_def Desktop_new_def ICON_X_def ICON_SIZE_def DOCK_W_def)

end
