(* ===== verification/Desktop_Taskbar.thy ===== *)
theory Desktop_Taskbar
  imports Desktop_Windows
begin

text \<open>
  What the taskbar shows, and a fault of the window manager: a window that is hidden although it was opened again.
\<close>

section \<open>What the taskbar shows\<close>

lemma group_add_kinds: "map fst (group_add w gs) = (if app_kind w \<in> set (map fst gs) then map fst gs else map fst gs @ [app_kind w])"
  by (induction gs) auto

lemma group_add_at:
  "map_of (group_add w gs) k = (if k = app_kind w then Some ((case map_of gs k of Some l \<Rightarrow> l | None \<Rightarrow> []) @ [w_id w]) else map_of gs k)"
  by (induction gs) auto

lemma group_by_kind_snoc: "group_by_kind (ws @ [w]) = group_add w (group_by_kind ws)"
  by (simp add: group_by_kind_def)

definition kinds_in_order :: "Window list \<Rightarrow> AppKind list" where
  "kinds_in_order ws = rev (remdups (rev (map app_kind ws)))"

lemma group_by_kind_kinds: "map fst (group_by_kind ws) = kinds_in_order ws"
proof (induction ws rule: rev_induct)
  case (snoc w ws)
  then have "set (map fst (group_by_kind ws)) = app_kind ` set ws" by (simp add: kinds_in_order_def)
  with snoc show ?case by (simp add: group_by_kind_snoc group_add_kinds kinds_in_order_def)
qed (simp add: group_by_kind_def kinds_in_order_def)

definition ids_of_kind :: "AppKind \<Rightarrow> Window list \<Rightarrow> nat list" where
  "ids_of_kind k ws = map w_id (filter (\<lambda>w. app_kind w = k) ws)"

lemma group_by_kind_at: "map_of (group_by_kind ws) k = (if k \<in> app_kind ` set ws then Some (ids_of_kind k ws) else None)"
proof (induction ws rule: rev_induct)
  case (snoc w ws)
  have "k \<notin> app_kind ` set ws \<Longrightarrow> ids_of_kind k ws = []" by (auto simp: ids_of_kind_def filter_empty_conv)
  then show ?case using snoc by (auto simp: group_by_kind_snoc group_add_at ids_of_kind_def)
qed (simp add: group_by_kind_def)

lemma entry_set_kinds: "map fst (entry_set g es) = (if fst g \<in> set (map fst es) then map fst es else map fst es @ [fst g])"
  by (induction es) auto

lemma entry_set_at: "map_of (entry_set g es) k = (if k = fst g then Some (snd g) else map_of es k)"
  by (induction es) auto

lemma fold_entry_set_kinds:
  "distinct (map fst gs) \<Longrightarrow> map fst (fold entry_set gs es) = map fst es @ filter (\<lambda>k. k \<notin> set (map fst es)) (map fst gs)"
proof (induction gs arbitrary: es)
  case (Cons g gs)
  have "filter (\<lambda>k. k \<notin> set (map fst (entry_set g es))) (map fst gs) = filter (\<lambda>k. k \<notin> set (map fst es)) (map fst gs)"
  proof (rule filter_cong [OF refl])
    have "fst g \<notin> set (map fst gs)" using Cons.prems by simp
    moreover fix k assume "k \<in> set (map fst gs)"
    ultimately have "k \<noteq> fst g" by blast
    then show "(k \<notin> set (map fst (entry_set g es))) = (k \<notin> set (map fst es))" unfolding entry_set_kinds by simp
  qed
  moreover have "map fst (fold entry_set gs (entry_set g es)) =
      map fst (entry_set g es) @ filter (\<lambda>k. k \<notin> set (map fst (entry_set g es))) (map fst gs)"
    using Cons.prems by (intro Cons.IH) simp
  ultimately show ?case by (simp add: entry_set_kinds)
qed simp

lemma fold_entry_set_at:
  "distinct (map fst gs) \<Longrightarrow> map_of (fold entry_set gs es) k = (case map_of gs k of Some l \<Rightarrow> Some l | None \<Rightarrow> map_of es k)"
proof (induction gs arbitrary: es)
  case (Cons g gs)
  then have "map_of gs (fst g) = None" by (auto simp: map_of_eq_None_iff)
  then show ?case using Cons by (auto simp: entry_set_at split: option.split)
qed simp

lemma map_of_pins: "map_of (map (\<lambda>k. (k, [])) ks) k = (if k \<in> set ks then Some [] else None)"
  by (induction ks) auto

text \<open>
  C37: The taskbar has one button per pinned program, in the order of the pins, followed by one per other program with a window
  that has been shown, in the order in which those first appear from the back; the button of a program stands for exactly its
  shown windows, from back to front.
\<close>

theorem taskbar_entries_exact:
  "let shown = filter ever_shown (windows (DESKTOP s)) in
    map fst (taskbar_entries s) = PINNED_TASKBAR s @ filter (\<lambda>k. \<not> is_pinned_taskbar k s) (kinds_in_order shown) \<and>
    (\<forall>k. map_of (taskbar_entries s) k = (if is_pinned_taskbar k s \<or> k \<in> app_kind ` set shown then Some (ids_of_kind k shown) else None))"
proof -
  define shown where "shown = filter ever_shown (windows (DESKTOP s))"
  let ?gs = "grouped_taskbar_entries (DESKTOP s)"
  have gs: "map fst ?gs = kinds_in_order shown" "map_of ?gs k = (if k \<in> app_kind ` set shown then Some (ids_of_kind k shown) else None)" for k
    by (simp_all add: grouped_taskbar_entries_def group_by_kind_kinds group_by_kind_at shown_def)
  have d: "distinct (map fst ?gs)" unfolding gs(1) by (simp add: kinds_in_order_def)
  have p: "map fst (map (\<lambda>k. (k, [])) (PINNED_TASKBAR s)) = PINNED_TASKBAR s" by (simp add: comp_def)
  have "map fst (taskbar_entries s) = PINNED_TASKBAR s @ filter (\<lambda>k. \<not> is_pinned_taskbar k s) (kinds_in_order shown)"
    using fold_entry_set_kinds [OF d, of "map (\<lambda>k. (k, [])) (PINNED_TASKBAR s)"]
    unfolding taskbar_entries_def gs(1) p by (simp add: is_pinned_taskbar_def)
  moreover have "k \<notin> app_kind ` set shown \<Longrightarrow> ids_of_kind k shown = []" for k by (auto simp: ids_of_kind_def filter_empty_conv)
  then have "map_of (taskbar_entries s) k = (if is_pinned_taskbar k s \<or> k \<in> app_kind ` set shown then Some (ids_of_kind k shown) else None)" for k
    unfolding taskbar_entries_def fold_entry_set_at [OF d] gs(2) map_of_pins is_pinned_taskbar_def by auto
  ultimately show ?thesis unfolding Let_def shown_def [symmetric] by blast
qed

section \<open>A window that is hidden although it was opened again\<close>

lemma update_first_update_first:
  "(\<And>x. P x \<Longrightarrow> P (f x)) \<Longrightarrow> find P xs = Some x \<Longrightarrow> find P (update_first P f xs) = Some (f x)"
  by (induction xs) (auto split: if_splits)

lemma find_remove_first:
  "distinct (map w_id ws) \<Longrightarrow> find (\<lambda>w. w_id w = i) ws = Some w \<Longrightarrow>
   find (\<lambda>w. w_id w = i) (remove_first (\<lambda>w. w_id w = i) ws @ [w]) = Some w"
proof (induction ws)
  case (Cons v ws)
  show ?case
  proof (cases "w_id v = i")
    case True
    then have "find (\<lambda>w. w_id w = i) (ws @ [w]) = find (\<lambda>w. w_id w = i) [w]" using Cons.prems(1)
      by (induction ws) auto
    then show ?thesis using True Cons.prems(2) by simp
  qed (use Cons in auto)
qed simp

lemma find_tick:
  "find (\<lambda>w. w_id w = i) ws = Some w \<Longrightarrow>
   \<exists>j. find (\<lambda>w. w_id w = i) (map (\<lambda>(j, w). tick_window p (t j) w) (enumerate n ws)) = Some (tick_window p (t j) w)"
  by (induction ws arbitrary: n) (auto split: if_splits)

lemma hidden_button:
  assumes "get_at (taskbar_entries s) slot = Some (kind, [i])" "find_window i (DESKTOP s) = Some w" "\<not> minimized w"
    "focused (DESKTOP s) = Some i"
  shows "taskbar_button_click t kind slot jl s =
    s\<lparr>DESKTOP := (update_window i (win_hide t) (DESKTOP s))\<lparr>focused := None, dirty := True\<rparr>\<rparr>"
  using assms by (simp add: taskbar_button_click_def Let_def)

lemma group_by_kind_cong:
  "map (\<lambda>w. (app_kind w, w_id w)) ws = map (\<lambda>w. (app_kind w, w_id w)) ws' \<Longrightarrow> group_by_kind ws = group_by_kind ws'"
proof (induction ws arbitrary: ws' rule: rev_induct)
  case Nil
  then show ?case by simp
next
  case (snoc w ws)
  then obtain vs v where v: "ws' = vs @ [v]" by (cases ws' rule: rev_cases) auto
  have "group_add w gs = group_add v gs" for gs using snoc.prems v by (induction gs) auto
  then show ?case using snoc.IH [of vs] snoc.prems v by (simp add: group_by_kind_snoc)
qed

lemma shown_hide:
  "map (\<lambda>w. (app_kind w, w_id w)) (filter ever_shown (update_first P (win_hide t) ws)) = map (\<lambda>w. (app_kind w, w_id w)) (filter ever_shown ws)"
  by (induction ws) (auto simp: win_hide_def)

text \<open>
  C39: Clicking the taskbar button of the focused window twice within the 180 milliseconds of the closing animation should
  hide and reopen it; instead the second click brings the window to the front and gives it the focus without stopping the
  animation, and when that ends the window is minimised with the focus still on it.
\<close>

theorem reopen_lost:
  assumes "get_at (taskbar_entries s) slot = Some (kind, [i])" "find_window i (DESKTOP s) = Some w" "\<not> minimized w"
    "focused (DESKTOP s) = Some i" "distinct (map w_id (windows (DESKTOP s)))"
    "s2 = taskbar_button_click t2 kind slot None (taskbar_button_click t1 kind slot None s)"
    "\<And>j. anim_over p 180 t1 (tsc j)"
  shows "\<exists>w'. find_window i (snd (tick_anims p tsc m (DESKTOP s2))) = Some w' \<and> minimized w' \<and>
    focused (snd (tick_anims p tsc m (DESKTOP s2))) = Some i"
proof -
  let ?d1 = "(update_window i (win_hide t1) (DESKTOP s))\<lparr>focused := None, dirty := True\<rparr>"
  let ?s1 = "s\<lparr>DESKTOP := ?d1\<rparr>"
  have e: "get_at (taskbar_entries ?s1) slot = Some (kind, [i])"
    using assms(1) group_by_kind_cong [OF shown_hide]
    by (simp add: taskbar_entries_def grouped_taskbar_entries_def update_window_def)
  have w1: "find_window i ?d1 = Some (win_hide t1 w)"
    using assms(2) by (simp add: find_window_def update_window_def update_first_update_first)
  have h: "win_hide t1 w = w\<lparr>anim := Some \<lparr>an_kind = Closing, an_start = t1\<rparr>\<rparr>" using assms(3) by (simp add: win_hide_def)
  have "s2 = s\<lparr>DESKTOP := (bring_to_front i ?d1)\<lparr>dirty := True\<rparr>\<rparr>"
    unfolding assms(6) hidden_button [OF assms(1-4)] using e w1 assms(3) by (simp add: taskbar_button_click_def Let_def h)
  then have d2: "windows (DESKTOP s2) = remove_first (\<lambda>w. w_id w = i) (windows ?d1) @ [win_hide t1 w]" "focused (DESKTOP s2) = Some i"
    using w1 by (simp_all add: bring_to_front_def)
  have "distinct (map w_id (windows ?d1))" using assms(5) by (simp add: update_window_def update_first_ids)
  then have "find (\<lambda>w. w_id w = i) (windows (DESKTOP s2)) = Some (win_hide t1 w)"
    unfolding d2(1) using w1 by (intro find_remove_first) (simp_all add: find_window_def)
  from find_tick [OF this, of p tsc 0] obtain j where
    "find (\<lambda>w. w_id w = i) (windows (snd (tick_anims p tsc m (DESKTOP s2)))) = Some (tick_window p (tsc j) (win_hide t1 w))"
    by (auto simp: tick_anims_def Let_def)
  moreover have "minimized (tick_window p (tsc j) (win_hide t1 w))" using assms(7) by (simp add: h tick_window_def)
  moreover have "focused (snd (tick_anims p tsc m (DESKTOP s2))) = Some i" using d2(2) by (simp add: tick_anims_def Let_def)
  ultimately show ?thesis by (simp add: find_window_def)
qed

definition example_open :: wm_state where
  "example_open = example_wm\<lparr>DESKTOP := snd (add_window 0 Files [] 100 100 300 200 (Desktop_new 1280 800))\<rparr>"

theorem reopen_lost_witness:
  "\<exists>w'. find_window 0 (snd (tick_anims 1000 (\<lambda>_. 1000000) 0
     (DESKTOP (taskbar_button_click 600000 Files 0 None (taskbar_button_click 500000 Files 0 None example_open))))) = Some w' \<and> minimized w'"
proof -
  let ?w = "Window_new 0 0 Files [] 100 100 300 200"
  have d: "windows (DESKTOP example_open) = [?w]" "focused (DESKTOP example_open) = Some 0" "PINNED_TASKBAR example_open = []"
    by (simp_all add: example_open_def example_wm_def add_window_def Desktop_new_def)
  have a: "get_at (taskbar_entries example_open) 0 = Some (Files, [0])" "find_window 0 (DESKTOP example_open) = Some ?w" "\<not> minimized ?w"
    "distinct (map w_id (windows (DESKTOP example_open)))"
    using d by (simp_all add: get_at_def taskbar_entries_def grouped_taskbar_entries_def group_by_kind_def find_window_def Window_new_def)
  have o: "anim_over 1000 180 500000 1000000" by (simp add: anim_over_def)
  from reopen_lost [OF a(1-3) d(2) a(4) refl o, of 0 600000] show ?thesis by blast
qed

end
