(* ===== verification/Desktop_Paste.thy ===== *)
theory Desktop_Paste
  imports Desktop_Windows HepFs_Dir
begin

text \<open>
  A fault of the window manager: the paste from the context menu of a file window (\<open>desktop.rs\<close>) refreshes the desktop
  icons, which asks for the lock the main loop holds around the handler.
\<close>

section \<open>A paste that never returns\<close>

lemma with_fs_static: "with_fs f s = Ret (x, s1) \<Longrightarrow> DESKTOP_HELD s1 = DESKTOP_HELD s \<and> NVME_PRESENT s1 = NVME_PRESENT s"
  by (auto simp: with_fs_def split: sum.splits prod.splits)

lemma stat_entries_held: "stat_entries es s = Ret (r, s1) \<Longrightarrow> DESKTOP_HELD s1 = DESKTOP_HELD s"
proof (induction es s arbitrary: r rule: stat_entries.induct)
  case (2 ino nm es s)
  from "2.prems" obtain b n s0 r' where w: "with_fs (stat ino) s = Ret ((b, n), s0)" and r: "stat_entries es s0 = Ret (r', s1)"
    by (auto simp: obind_Ret)
  have "DESKTOP_HELD s1 = DESKTOP_HELD s0" by (rule "2.IH" [OF r])
  then show ?case using with_fs_static [OF w] by simp
qed simp

lemma paste_entries_held: "paste_entries fuel p es s = Ret s1 \<Longrightarrow> DESKTOP_HELD s1 = DESKTOP_HELD s \<and> NVME_PRESENT s1 = NVME_PRESENT s"
proof (induction fuel p es s rule: paste_entries.induct)
  case (2 fuel p q i nm b es s)
  then obtain rr x s0 where c: "copy_entry_unique fuel q p nm (FS s) = Some rr" "with_fs (\<lambda>_. rr) s = Ret (x, s0)" "paste_entries fuel p es s0 = Ret s1"
    by (auto simp: obind_Ret split: option.splits)
  have "DESKTOP_HELD s1 = DESKTOP_HELD s0 \<and> NVME_PRESENT s1 = NVME_PRESENT s0" by (rule "2.IH" [OF c(1,3)])
  then show ?case using with_fs_static [OF c(2)] by simp
qed simp

text \<open>The refresh does the same reads whether the lock is held or not, and then asks for it.\<close>

lemma with_fs_lock: "with_fs f (s\<lparr>DESKTOP_HELD := b\<rparr>) = obind (with_fs f s) (\<lambda>(x, s). Ret (x, s\<lparr>DESKTOP_HELD := b\<rparr>))"
  by (simp add: with_fs_def split: sum.split prod.split)

lemma stat_entries_lock: "stat_entries es (s\<lparr>DESKTOP_HELD := b\<rparr>) = obind (stat_entries es s) (\<lambda>(x, s). Ret (x, s\<lparr>DESKTOP_HELD := b\<rparr>))"
proof (induction es arbitrary: s)
  case (Cons e es)
  obtain ino nm where e: "e = (ino, nm)" by (cases e)
  show ?case
  proof (cases "with_fs (stat ino) s")
    case (Ret r)
    then obtain d n s1 where r: "with_fs (stat ino) s = Ret ((d, n), s1)" by (cases r) auto
    show ?thesis using Cons.IH [of s1] by (cases "stat_entries es s1") (auto simp: e with_fs_lock r)
  qed (simp_all add: e with_fs_lock)
qed simp

lemma refresh_spins:
  assumes "DESKTOP_HELD s" "NVME_PRESENT s" "lookup home_desktop (FS s) = Inr (Some ino, f)"
    "refresh_desktop_icons (s\<lparr>DESKTOP_HELD := False\<rparr>) = Ret s'"
  shows "refresh_desktop_icons s = Spins"
proof -
  obtain s1 where l: "with_fs (lookup home_desktop) s = Ret (Some ino, s1)" using assms(3) by (simp add: with_fs_def)
  obtain es s2 where d: "with_fs (list_dir ino) s1 = Ret (es, s2)"
    using assms(2,4) by (auto simp: refresh_desktop_icons_def with_fs_lock l obind_Ret)
  obtain r s3 where e: "stat_entries es s2 = Ret (r, s3)"
    using assms(2,4) by (auto simp: refresh_desktop_icons_def with_fs_lock l d stat_entries_lock obind_Ret)
  have "DESKTOP_HELD s3" using assms(1) with_fs_static [OF l] with_fs_static [OF d] stat_entries_held [OF e] by simp
  then show ?thesis using assms(2) by (simp add: refresh_desktop_icons_def l d e)
qed

text \<open>Nothing is being dragged and no button is down.\<close>

definition idle :: "Desktop \<Rightarrow> bool" where
  "idle d \<longleftrightarrow> prev_btn d = 0 \<and> text_prompt d = None \<and> (\<forall>w \<in> set (windows d). \<not> dragging w \<and> \<not> resizing w) \<and> taskbar_dragging d = None \<and>
     icon_dragging d = None \<and> marquee_start d = None \<and> \<not> volume_drag d"

lemma idle_held: "idle (DESKTOP s) \<Longrightarrow> held e mx my (s\<lparr>DESKTOP := (moved mx my (DESKTOP s))\<lparr>prev_btn := b\<rparr>\<rparr>) =
    (False, s\<lparr>DESKTOP := (moved mx my (DESKTOP s))\<lparr>prev_btn := b\<rparr>\<rparr>)"
proof -
  let ?d = "(moved mx my (DESKTOP s))\<lparr>prev_btn := b\<rparr>"
  assume i: "idle (DESKTOP s)"
  have w: "\<not> dragging w \<and> \<not> resizing w" if "find_window fid ?d = Some w" for fid w
    using i find_id [of fid "windows (DESKTOP s)" w] that by (simp add: idle_def find_window_def moved_def split: if_splits)
  have "held_window mx my ?d = None"
  proof (cases "focused ?d")
    case (Some fid)
    then show ?thesis using w [of fid] by (cases "find_window fid ?d") (simp_all add: held_window_def)
  qed (simp add: held_window_def)
  moreover have "held_taskbar mx ?d = ?d" "held_icon mx my ?d = None" "held_marquee mx my ?d = None" "\<not> volume_drag ?d"
    using i by (simp_all add: held_taskbar_def held_icon_def held_marquee_def moved_def idle_def)
  ultimately show ?thesis by (simp add: held_def)
qed

definition paste_state :: "int \<Rightarrow> int \<Rightarrow> wm_state \<Rightarrow> wm_state" where
  "paste_state mx my s = s\<lparr>DESKTOP_HELD := True, DESKTOP := (moved mx my (DESKTOP s))\<lparr>prev_btn := 1, context_menu := None, dirty := True\<rparr>\<rparr>"

lemma paste_click:
  assumes "idle (DESKTOP s)" "context_menu_kind (DESKTOP s) = FsPane win p path" "context_menu_item_at mx my s = Some 0" "\<not> DESKTOP_HELD s"
  shows "mouse_turn e mx my 1 s = obind (paste_clip (e_fuel e) p (paste_state mx my s)) (\<lambda>s. Ret (False, s\<lparr>DESKTOP_HELD := False\<rparr>))"
proof -
  let ?s = "s\<lparr>DESKTOP_HELD := True\<rparr>"
  let ?d = "(moved mx my (DESKTOP s))\<lparr>prev_btn := 1\<rparr>"
  have idle: "idle (DESKTOP ?s)" using assms(1) by simp
  have m: "context_menu ?d \<noteq> None" "context_menu_kind ?d = FsPane win p path" "context_menu_item_at mx my (?s\<lparr>DESKTOP := ?d\<rparr>) = Some 0"
    using assms(2,3) by (auto simp: context_menu_item_at_def context_menu_labels_def moved_def split: option.splits)
  have "prev_btn (DESKTOP s) = 0" "\<not> dismissed mx my ?d"
    using assms(1) by (simp_all add: idle_def dismissed_def prompt_rect_def moved_def)
  then have "update_mouse e mx my 1 ?s = left_click e mx my (?s\<lparr>DESKTOP := ?d\<rparr>)"
    using idle_held [OF idle, of e mx my 1] by (simp add: update_mouse_def Let_def)
  also have "\<dots> = obind (paste_clip (e_fuel e) p (paste_state mx my s)) (\<lambda>s. Ret (False, s))"
    using m by (simp add: left_click_def context_click_def Let_def paste_state_def)
  finally have "update_mouse e mx my 1 ?s = obind (paste_clip (e_fuel e) p (paste_state mx my s)) (\<lambda>s. Ret (False, s))" .
  then show ?thesis using assms(4) by (cases "paste_clip (e_fuel e) p (paste_state mx my s)") (simp_all add: mouse_turn_def)
qed

text \<open>
  C38: Choosing Paste in the context menu of a file window never returns on a machine with an NVMe controller and something
  copied, once the copying is done and \<open>/home/desktop\<close> exists: the handler then refreshes the desktop icons, whose reads would
  succeed and which would return if the lock of the desktop were free, but the main loop holds that lock around the handler, so
  the handler spins on it for ever.
\<close>

theorem paste_hangs:
  assumes "idle (DESKTOP s)" "context_menu_kind (DESKTOP s) = FsPane win p path" "context_menu_item_at mx my s = Some 0"
    "\<not> DESKTOP_HELD s" "NVME_PRESENT s" "FS_CLIPBOARD s \<noteq> []"
    "paste_entries (e_fuel e) p (FS_CLIPBOARD s) (paste_state mx my s) = Ret t"
    "lookup home_desktop (FS t) = Inr (Some ino, f)" "refresh_desktop_icons (t\<lparr>DESKTOP_HELD := False\<rparr>) = Ret t'"
  shows "mouse_turn e mx my 1 s = Spins"
proof -
  let ?t = "paste_state mx my s"
  have t0: "NVME_PRESENT ?t" "DESKTOP_HELD ?t" "FS_CLIPBOARD ?t = FS_CLIPBOARD s" using assms(5) by (simp_all add: paste_state_def)
  have "refresh_desktop_icons t = Spins"
    using paste_entries_held [OF assms(7)] t0(1,2) by (intro refresh_spins [OF _ _ assms(8,9)]) simp_all
  then show ?thesis using t0 assms(6,7) unfolding paste_click [OF assms(1-4)] by (simp add: paste_clip_def)
qed

section \<open>A disk on which it hangs\<close>

text \<open>
  Two directories share a block with the entries \<open>home\<close> and \<open>desktop\<close>, both of which lead to the second: the root and the
  inode 1.
\<close>

definition paste_dir :: buffer where
  "paste_dir = put_entry (put_entry (\<lambda>_. 0) 0 (make_entry 1 (str_bytes ''home''))) 1 (make_entry 1 (str_bytes ''desktop''))"

definition paste_disk :: fs_state where
  "paste_disk = example_disk\<lparr>DISK := \<lambda>a. if a div BLOCK_SIZE = 5000 then paste_dir (a mod BLOCK_SIZE) else 0\<rparr>"

lemma paste_dir_entries:
  assumes "i < ENTRIES_PER_BLK"
  shows "entry_at (clip paste_dir) i = (if i = 0 then make_entry 1 (str_bytes ''home'')
    else if i = 1 then make_entry 1 (str_bytes ''desktop'') else entry_at (\<lambda>_. 0) i)"
proof -
  have "length (e_name (make_entry 1 (str_bytes ''home''))) = 27" "length (e_name (make_entry 1 (str_bytes ''desktop''))) = 27"
    by (simp_all add: make_entry_def str_bytes_def)
  then show ?thesis using assms by (simp add: entry_at_clip paste_dir_def entry_at_put)
qed

lemma paste_dir_names:
  assumes "i < ENTRIES_PER_BLK"
  shows "names nm (entry_at (clip paste_dir) i) \<longleftrightarrow> i = 0 \<and> nm = str_bytes ''home'' \<or> i = 1 \<and> nm = str_bytes ''desktop''"
proof -
  have u: "utf8_valid (str_bytes ''home'')" "utf8_valid (str_bytes ''desktop'')" by code_simp+
  have r: "(1 :: u32) \<noteq> 0" by simp
  have "names nm (make_entry 1 (str_bytes ''home'')) \<longleftrightarrow> nm = str_bytes ''home''"
    "names nm (make_entry 1 (str_bytes ''desktop'')) \<longleftrightarrow> nm = str_bytes ''desktop''"
    by (rule names_make_entry(1) [OF _ u(1) r], simp add: str_bytes_def, rule names_make_entry(1) [OF _ u(2) r], simp add: str_bytes_def)
  then show ?thesis using assms by (auto simp: paste_dir_entries entry_at_zeros names_def)
qed

lemma paste_dir_find:
  "slot_find (str_bytes ''home'') (clip paste_dir) = Some 1" "slot_find (str_bytes ''desktop'') (clip paste_dir) = Some 1"
  "slot_find [97] (clip paste_dir) = None"
proof -
  have two: "0 < ENTRIES_PER_BLK" "1 < ENTRIES_PER_BLK" by (simp_all add: fs_consts)
  have ino: "e_inode (entry_at (clip paste_dir) i) = 1" if "i < ENTRIES_PER_BLK" "names nm (entry_at (clip paste_dir) i)" for i nm
  proof -
    have "i = 0 \<or> i = 1" using that(2) by (auto simp: paste_dir_names [OF that(1)])
    then show ?thesis by (auto simp: paste_dir_entries [OF that(1)] make_entry_def)
  qed
  have hit: "slot_find nm (clip paste_dir) = Some 1" if "i < ENTRIES_PER_BLK" "names nm (entry_at (clip paste_dir) i)" for i nm
  proof -
    have "find_slot (names nm) (clip paste_dir) \<noteq> None" using that by (auto simp: find_slot_None)
    then obtain j where j: "find_slot (names nm) (clip paste_dir) = Some j" by blast
    then show ?thesis using ino [OF find_slot_Some(1,2) [OF j]] by (simp add: slot_find_def)
  qed
  show "slot_find (str_bytes ''home'') (clip paste_dir) = Some 1" "slot_find (str_bytes ''desktop'') (clip paste_dir) = Some 1"
    using hit [OF two(1)] hit [OF two(2)] two by (simp_all add: paste_dir_names)
  show "slot_find [97] (clip paste_dir) = None"
    by (auto simp: slot_find_def find_slot_None paste_dir_names str_bytes_def)
qed

text \<open>The directories are those, and there are pages enough for \<open>n\<close> reads.\<close>

definition paste_ready :: "nat \<Rightarrow> fs_state \<Rightarrow> bool" where
  "paste_ready n s \<longleftrightarrow> (\<forall>d \<in> {ROOT_INO, 1}. inode_at s d = example_dir \<and> dir_ok s d) \<and> page_of s 5000 = clip paste_dir \<and>
     n \<le> page_budget s"

lemma paste_ready_same:
  "paste_ready n s \<Longrightarrow> page_of s' = page_of s \<Longrightarrow> blk_ok s' = blk_ok s \<Longrightarrow> m \<le> page_budget s' \<Longrightarrow> paste_ready m s'"
  by (simp add: paste_ready_def inode_at_def dir_ok_def)

lemma paste_ready_pages: "paste_ready n s \<Longrightarrow> n \<le> page_budget s"
  by (simp add: paste_ready_def)

lemma paste_disk_ready:
  obtains s0 s where "write_inode ROOT_INO example_dir paste_disk = Inr s0" "write_inode 1 example_dir s0 = Inr s" "paste_ready 10000 s"
proof -
  have k: "blk_ok paste_disk = blk_ok example_disk" "page_budget paste_disk = page_budget example_disk"
    by (simp_all add: fun_eq_iff paste_disk_def example_disk_def blk_ok_def lba_size_def lba_count_def page_budget_def free_set_def is_used_def)
  have b: "inode_blk 1 < 5000" by (simp add: inode_blk_def fs_consts)
  have "blk_ok paste_disk (inode_blk ROOT_INO)" "0 < page_budget paste_disk"
    using example_dir_facts(3) by (simp_all add: k example_disk_ok example_disk_budget MAX_PAGES_def)
  then obtain s0 where s0: "write_inode ROOT_INO example_dir paste_disk = Inr s0" "blk_ok s0 = blk_ok paste_disk"
    "page_budget s0 = page_budget paste_disk - 1" "\<And>b. b \<noteq> inode_blk ROOT_INO \<Longrightarrow> page_of s0 b = page_of paste_disk b"
    "inode_at s0 = (inode_at paste_disk)(ROOT_INO := example_dir)"
    using example_dir_facts(1) by (rule write_inode_spec) blast
  have "blk_ok s0 (inode_blk 1)" "0 < page_budget s0" using b s0(2,3) by (simp_all add: k example_disk_ok example_disk_budget MAX_PAGES_def)
  then obtain s where s: "write_inode 1 example_dir s0 = Inr s" "blk_ok s = blk_ok s0" "page_budget s = page_budget s0 - 1"
    "\<And>b. b \<noteq> inode_blk 1 \<Longrightarrow> page_of s b = page_of s0 b" "inode_at s = (inode_at s0)(1 := example_dir)"
    using example_dir_facts(1) by (rule write_inode_spec) blast
  have "(5000 * 4096 + i) div 4096 = 5000 \<and> (5000 * 4096 + i) mod 4096 = i" if "i < 4096" for i :: nat
    using that by (simp only: div_mult_self3 mod_mult_self3) simp
  then have "page_of paste_disk 5000 = clip paste_dir"
    by (auto simp: page_of_def paste_disk_def clip_def fun_eq_iff BLOCK_SIZE_def)
  then have p: "page_of s 5000 = clip paste_dir" using s(4) [of 5000] s0(4) [of 5000] b example_dir_facts(3) by simp
  have a: "inode_at s d = example_dir" if "d \<in> {ROOT_INO, 1}" for d using that s(5) s0(5) by auto
  have "dir_ok s d" if "d \<in> {ROOT_INO, 1}" for d
    using a [OF that] that s(2) s0(2) k b example_dir_facts(2,3) by (auto simp: dir_ok_def example_disk_ok)
  then show thesis using a p s(3) s0(3) k by (intro that [OF s0(1) s(1)]) (simp add: paste_ready_def example_disk_budget MAX_PAGES_def)
qed

lemma paste_find:
  assumes "paste_ready (n + 13) s" "d \<in> {ROOT_INO, 1}"
  obtains s' where "find_in_dir d nm s = Inr (slot_find nm (clip paste_dir), s')" "paste_ready n s'"
proof -
  have d: "dir_ok s d" "12 < page_budget s" "used_ptrs (i_direct (inode_at s d)) = [5000]" "page_of s 5000 = clip paste_dir"
    using assms example_dir_facts(2) by (auto simp: paste_ready_def)
  obtain s' where s': "find_in_dir d nm s = Inr (dir_lookup (page_of s) nm [5000], s')" "page_of s' = page_of s"
      "blk_ok s' = blk_ok s" "page_budget s - 13 \<le> page_budget s'"
    using find_in_dir_spec [OF d(1,2), of nm] d(3) by auto
  have "dir_lookup (page_of s) nm [5000] = slot_find nm (clip paste_dir)" using d(4) by (simp split: option.split)
  moreover have "paste_ready n s'" by (rule paste_ready_same [OF assms(1) s'(2,3)]) (use s'(4) paste_ready_pages [OF assms(1)] in linarith)
  ultimately show thesis using s'(1) by (intro that) simp_all
qed

text \<open>Copying a name that is gone copies nothing, under whichever new name.\<close>

lemma copy_missing:
  "paste_ready (n + 26 * length ks) s \<Longrightarrow>
   \<exists>s'. copy_unique_from (Suc fuel) ROOT_INO ROOT_INO [97] ks s = Some (Inr (None, s')) \<and> paste_ready n s'"
proof (induction ks arbitrary: s)
  case (Cons k ks)
  let ?m = "n + 26 * length ks"
  have b: "paste_ready (?m + 13 + 13) s" using Cons.prems by (simp add: algebra_simps)
  obtain s1 where s1: "find_in_dir ROOT_INO (numbered [97] k) s = Inr (slot_find (numbered [97] k) (clip paste_dir), s1)" "paste_ready (?m + 13) s1"
    by (rule paste_find [OF b, of ROOT_INO]) simp_all
  obtain s2 where s2: "find_in_dir ROOT_INO [97] s1 = Inr (None, s2)" "paste_ready ?m s2"
    by (rule paste_find [OF s1(2), of ROOT_INO "[97]"]) (simp_all add: paste_dir_find)
  have "\<exists>s3. copy_entry (Suc fuel) ROOT_INO ROOT_INO [97] (numbered [97] k) s = Some (Inr (None, s3)) \<and> paste_ready ?m s3"
  proof (cases "slot_find (numbered [97] k) (clip paste_dir)")
    case None
    then show ?thesis using s1(1) s2 by simp
  next
    case (Some i)
    have "paste_ready ?m s1" using s1(2) by (simp add: paste_ready_def)
    then show ?thesis using s1(1) Some by simp
  qed
  then show ?case using Cons.IH by auto
qed simp

lemma paste_lookup:
  assumes "paste_ready (n + 26) s"
  obtains s' where "lookup (str_bytes ''/home/desktop'') s = Inr (Some 1, s')" "paste_ready n s'"
proof -
  have p: "path_parts (str_bytes ''/home/desktop'') = [str_bytes ''home'', str_bytes ''desktop'']" by code_simp
  have a: "paste_ready (n + 13 + 13) s" using assms by (simp add: add.assoc)
  obtain s1 where s1: "find_in_dir ROOT_INO (str_bytes ''home'') s = Inr (Some 1, s1)" "paste_ready (n + 13) s1"
    by (rule paste_find [OF a, of ROOT_INO "str_bytes ''home''"]) (simp_all add: paste_dir_find)
  obtain s2 where s2: "find_in_dir 1 (str_bytes ''desktop'') s1 = Inr (Some 1, s2)" "paste_ready n s2"
    by (rule paste_find [OF s1(2), of 1 "str_bytes ''desktop''"]) (simp_all add: paste_dir_find)
  show thesis by (rule that [OF _ s2(2)]) (simp add: lookup_def p s1(1) s2(1))
qed

lemma paste_list:
  assumes "paste_ready (n + 2) s"
  obtains s' es where "list_dir 1 s = Inr (es, s')" "paste_ready n s'" "length es \<le> 128" "\<forall>e \<in> set es. fst e = 1"
proof -
  have d: "blk_ok s (inode_blk 1)" "blk_ok s 5000" "inode_at s 1 = example_dir" "page_of s 5000 = clip paste_dir" "0 < page_budget s"
    using assms example_dir_facts(2) by (auto simp: paste_ready_def dir_ok_def)
  obtain s1 where s1: "read_inode 1 s = Inr (example_dir, s1)" "page_of s1 = page_of s" "blk_ok s1 = blk_ok s" "page_budget s1 = page_budget s - 1"
    using read_inode_spec [OF d(1,5)] d(3) by metis
  have "blk_ok s1 5000" "0 < page_budget s1" using d(2) s1(3,4) paste_ready_pages [OF assms] by simp_all
  then obtain s2 where s2: "read_block 5000 s1 = Inr (clip paste_dir, s2)" "page_of s2 = page_of s1" "blk_ok s2 = blk_ok s1" "page_budget s2 = page_budget s1 - 1"
    using disk.rd_obtain [of s1 5000] s1(2) d(4) by metis
  let ?fs = "filter (\<lambda>e. e_inode e \<noteq> 0) (entries (clip paste_dir))"
  let ?es = "map (\<lambda>e. (e_inode e, name_str e)) ?fs"
  have "list_dir 1 s = Inr (?es, s2)"
    using s1(1) s2(1) example_dir_facts(2) by (simp add: list_dir_def) (simp add: example_dir_def)
  moreover have "paste_ready n s2" by (rule paste_ready_same [OF assms]) (use s1 s2 paste_ready_pages [OF assms] in simp_all)
  moreover have "length ?es \<le> 128"
    using length_filter_le [of "\<lambda>e. e_inode e \<noteq> 0" "entries (clip paste_dir)"] by (simp add: entries_def fs_consts del: length_filter_le)
  moreover have "\<forall>e \<in> set ?es. fst e = 1"
    by (auto simp: entries_def entry_at_def [symmetric] paste_dir_entries entry_at_zeros make_entry_def)
  ultimately show thesis by (rule that)
qed

lemma paste_stat:
  assumes "paste_ready (n + 1) s"
  obtains s' d z where "stat 1 s = Inr ((d, z), s')" "paste_ready n s'"
proof -
  have d: "blk_ok s (inode_blk 1)" "0 < page_budget s" using assms by (simp_all add: paste_ready_def dir_ok_def)
  obtain s1 where s1: "read_inode 1 s = Inr (inode_at s 1, s1)" "page_of s1 = page_of s" "blk_ok s1 = blk_ok s" "page_budget s1 = page_budget s - 1"
    using read_inode_spec [OF d] by metis
  have "paste_ready n s1" by (rule paste_ready_same [OF assms s1(2,3)]) (use s1(4) paste_ready_pages [OF assms] in simp)
  then show thesis by (rule that [rotated]) (simp add: stat_def s1(1))
qed

lemma stat_ready:
  "paste_ready (n + length es) (FS s) \<Longrightarrow> \<forall>e \<in> set es. fst e = 1 \<Longrightarrow> \<exists>r s'. stat_entries es s = Ret (r, s')"
proof (induction es arbitrary: s)
  case (Cons e es)
  obtain nm where e: "e = (1, nm)" using Cons.prems(2) by (cases e) simp
  have a: "paste_ready (n + length es + 1) (FS s)" using Cons.prems(1) by simp
  obtain f d z where f: "stat 1 (FS s) = Inr ((d, z), f)" "paste_ready (n + length es) f" by (rule paste_stat [OF a])
  obtain r s' where "stat_entries es (s\<lparr>FS := f\<rparr>) = Ret (r, s')" using Cons.IH [of "s\<lparr>FS := f\<rparr>"] f(2) Cons.prems(2) by auto
  then show ?case by (simp add: e with_fs_def f(1))
qed simp

lemma refresh_ready:
  assumes "paste_ready 156 (FS s)" "NVME_PRESENT s" "\<not> DESKTOP_HELD s"
  shows "\<exists>s'. refresh_desktop_icons s = Ret s'"
proof -
  have a: "paste_ready (130 + 26) (FS s)" using assms(1) by simp
  obtain f where f: "lookup home_desktop (FS s) = Inr (Some 1, f)" "paste_ready 130 f"
    unfolding home_desktop_def by (rule paste_lookup [OF a])
  have b: "paste_ready (128 + 2) f" using f(2) by simp
  obtain g es where g: "list_dir 1 f = Inr (es, g)" "paste_ready 128 g" "length es \<le> 128" "\<forall>e \<in> set es. fst e = 1"
    by (rule paste_list [OF b])
  let ?s = "s\<lparr>FS := g\<rparr>"
  have "paste_ready (0 + length es) (FS ?s)" using g(2,3) by (simp add: paste_ready_def)
  then obtain r s' where e: "stat_entries es ?s = Ret (r, s')" using stat_ready g(4) by blast
  then have "\<not> DESKTOP_HELD s'" using stat_entries_held [OF e] assms(3) by simp
  then show ?thesis using assms(2) e by (simp add: refresh_desktop_icons_def with_fs_def f(1) g(1))
qed

text \<open>The click at Paste, with the controller there and a name copied that is gone from the root directory.\<close>

definition example_menu :: "fs_state \<Rightarrow> wm_state" where
  "example_menu fs = example_wm\<lparr>FS := fs, NVME_PRESENT := True, FS_CLIPBOARD := [(ROOT_INO, 5, [97], False)],
     DESKTOP := (DESKTOP example_wm)\<lparr>context_menu := Some (100, 100), context_menu_kind := FsPane 1 ROOT_INO []\<rparr>\<rparr>"

definition example_click :: mouse_env where
  "example_click = \<lparr>e_tsc = 0, e_ticks = 0, e_shift = False, e_volume = (\<lambda>_. 0), e_grab = (\<lambda>_ _ _. 0), e_fuel = 9\<rparr>"

theorem paste_hangs_witness:
  "\<exists>s fs. write_inode ROOT_INO example_dir paste_disk = Inr s \<and> write_inode 1 example_dir s = Inr fs \<and>
     mouse_turn example_click 120 120 1 (example_menu fs) = Spins"
proof -
  obtain s fs where w: "write_inode ROOT_INO example_dir paste_disk = Inr s" "write_inode 1 example_dir s = Inr fs" "paste_ready 10000 fs"
    by (rule paste_disk_ready)
  let ?s = "example_menu fs"
  have i: "idle (DESKTOP ?s)" by (simp add: idle_def example_menu_def example_wm_def Desktop_new_def)
  have k: "context_menu_kind (DESKTOP ?s) = FsPane 1 ROOT_INO []" "FS_CLIPBOARD ?s \<noteq> []" "NVME_PRESENT ?s" "\<not> DESKTOP_HELD ?s"
    by (simp_all add: example_menu_def example_wm_def)
  have a: "context_menu_item_at 120 120 ?s = Some 0"
    by (simp add: example_menu_def example_wm_def Desktop_new_def context_menu_item_at_def context_menu_labels_def TASKBAR_H_def)
  have "paste_ready (182 + 26 * length [0 ..< 101]) fs" using w(3) by (simp add: paste_ready_def)
  then obtain f where f: "copy_unique_from (Suc 8) ROOT_INO ROOT_INO [97] [0 ..< 101] fs = Some (Inr (None, f))" "paste_ready 182 f"
    using copy_missing [of 182 "[0 ..< 101]" fs 8] by blast
  define t where "t = (paste_state 120 120 ?s)\<lparr>FS := f\<rparr>"
  have p: "paste_entries (e_fuel example_click) ROOT_INO (FS_CLIPBOARD ?s) (paste_state 120 120 ?s) = Ret t"
    using f(1) by (simp add: example_click_def example_menu_def copy_entry_unique_def with_fs_def paste_state_def t_def eval_nat_numeral
        del: copy_unique_from.simps upt.simps)
  obtain g where g: "lookup home_desktop (FS t) = Inr (Some 1, g)"
    using paste_lookup [of 156 f] f(2) by (auto simp: t_def home_desktop_def)
  obtain t' where r: "refresh_desktop_icons (t\<lparr>DESKTOP_HELD := False\<rparr>) = Ret t'"
    using refresh_ready [of "t\<lparr>DESKTOP_HELD := False\<rparr>"] f(2) k(3) by (auto simp: t_def paste_state_def paste_ready_def)
  show ?thesis using paste_hangs [OF i k(1) a k(4,3,2) p g r] w(1,2) by blast
qed

end
