(* ===== verification/Spec2Isabelle.thy ===== *)
theory Spec2Isabelle
  imports Pmm Pmm_Concurrent Memory Paging Heap Scheduler HepFs_File Net Input Elf Process Process_Memory Process_Output Services Syscall Nvme_Queue Disk_Mailbox Editor Image Gopd Rtc Desktop_Taskbar Desktop_Paste
begin

text \<open>
  A verification development for HepOS, a Rust kernel (\<open>kernel/\<close>), its UEFI boot loader
  (\<open>hepbl/\<close>) and its ring-3 services and runtime (\<open>userspace/\<close>).

  \<^bold>\<open>The parts and their theories.\<close> The state of the kernel is an extensible record that grows with the
  components, so that an operation proved for a lower component applies unchanged in the states of the
  upper ones.

  \<^item> \<open>Prelude\<close>: word sizes, panics as the left of a sum with the bind \<open>rbind\<close> and its weakest
    precondition \<open>wp\<close>, byte codecs in both orders, buffers as functions from offset to byte.
  \<^item> \<open>Rust_Text\<close>: Rust strings as UTF-8 bytes: validation, splitting, decimal printing and parsing.
  \<^item> \<open>Pmm\<close>, \<open>Pmm_Concurrent\<close> (\<open>kernel/src/pmm.rs\<close>): the physical page allocator over its bitmap;
    the second theory splits \<open>alloc_page\<close> at its atomic operations and interleaves callers.
  \<^item> \<open>Memory\<close> (\<open>kernel/src/vmm.rs\<close> and the raw pointer accesses of its users): physical memory as bytes
    behind the direct map.
  \<^item> \<open>Paging\<close> (\<open>kernel/src/paging.rs\<close>): the page-table functions writing entries in that memory, and
    the page walk of the processor as the specification they are proved against.
  \<^item> \<open>Heap\<close> (\<open>kernel/src/heap.rs\<close>): the slab allocator with its intrusive free lists.
  \<^item> \<open>Scheduler\<close> (\<open>kernel/src/scheduler.rs\<close>): tasks, the round-robin switch, the timer tick, sleeping,
    interrupt waits, spawn and exit, and the assembly context switch on registers and stack bytes.
  \<^item> \<open>HepFs\<close>, \<open>HepFs_Blocks\<close>, \<open>HepFs_Dir\<close>, \<open>HepFs_File\<close> (\<open>kernel/src/hepfs.rs\<close>): the filesystem on a sector device;
    the first theory holds every operation, the second the block store, inode table and bitmap proofs, the third
    what adding a directory entry does to later lookups, the fourth writing and reading a file.
  \<^item> \<open>Nvme\<close>, \<open>Nvme_Queue\<close> (\<open>kernel/src/nvme.rs\<close>, \<open>userspace/nvmed/src/main.rs\<close>): the disk driver of the kernel and the one in
    ring 3: queue pairs in memory, bring-up, commands, requests through the mailbox and the hand-over of the I/O queue; the
    second theory proves the queue protocol and what the calls do to the medium.
  \<^item> \<open>Disk_Mailbox\<close> (the mailbox of \<open>nvme.rs\<close> and \<open>ahci.rs\<close> with their drivers): kernel and driver interleaved at the grain of
    their accesses to the shared page.
  \<^item> \<open>Net\<close> (\<open>kernel/src/net.rs\<close>): packets, checksums, parsers, and the polled network job.
  \<^item> \<open>Input\<close> (\<open>kernel/src/ps2.rs\<close>, \<open>kernel/src/mouse.rs\<close>): the key buffer, scancode decoding and mouse packets.
  \<^item> \<open>Elf\<close> (\<open>kernel/src/elf.rs\<close>): the loader, writing an image into fresh frames and mapping them.
  \<^item> \<open>Process\<close> (\<open>kernel/src/process.rs\<close>): slots, mappings, output, process table, address spaces, entry to
    ring 3 and return, and background jobs, the latter also at the grain of their shared accesses.
  \<^item> \<open>Process_Memory\<close>: the physical pages of a process from its start to its end, across \<open>Process\<close>, \<open>Elf\<close>, \<open>Paging\<close>
    and \<open>Pmm\<close>.
  \<^item> \<open>Process_Output\<close>: what a background process writes and the message its issuer gets.
  \<^item> \<open>Services\<close> (the service functions of \<open>rtl8139.rs\<close>, \<open>hda.rs\<close>, \<open>ahci.rs\<close>, \<open>xhci.rs\<close>): starting and stopping the
    ring-3 drivers.
  \<^item> \<open>Syscall\<close> (\<open>kernel/src/syscall.rs\<close>): entry stub, dispatch, every call, permissions and job mailboxes, on top
    of \<open>Process\<close>, \<open>Services\<close>, \<open>HepFs\<close> and \<open>Input\<close>.
  \<^item> \<open>Editor\<close> (\<open>kernel/src/editor.rs\<close>, \<open>kernel/src/clipboard.rs\<close>): the text editor's buffer, keys, selection, find mode
    and saving.
  \<^item> \<open>Framebuffer\<close> (\<open>kernel/src/framebuffer.rs\<close>): the display, its back buffer, rectangles, text and the font.
  \<^item> \<open>Gopd\<close> (\<open>request_flush\<close> of \<open>framebuffer.rs\<close>, \<open>userspace/gopd/src/main.rs\<close>): presenting frames through the ring-3 driver, kernel
    and driver interleaved.
  \<^item> \<open>Image\<close> (\<open>kernel/src/image.rs\<close>): the BMP decoder and the drawing of an image, on \<open>Framebuffer\<close>.
  \<^item> \<open>Rtc\<close> (\<open>kernel/src/rtc.rs\<close>): reading the clock and printing time and date.
  \<^item> \<open>Desktop\<close>, \<open>Desktop_Mouse\<close>, \<open>Desktop_Windows\<close>, \<open>Desktop_Taskbar\<close>, \<open>Desktop_Paste\<close> (\<open>kernel/src/desktop.rs\<close> and
    its callers in \<open>kernel/src/main.rs\<close>): the window manager. The first theory has windows, icons, pins, prompts and taskbar, the
    second the mouse handler \<open>update_mouse\<close> part by part, the third what every event keeps, the fourth the taskbar and a window
    hidden against its user's wish, the fifth a paste that hangs.

  \<^bold>\<open>How definitions correspond to the code.\<close> Each function of the source is one definition of the same
  name (a suffix or prefix is added where HOL uses the name, as in \<open>pmm_init\<close>); loops are recursive
  functions over the list of indices they visit or over the data they consume. The kernel is built in
  release mode: machine integers are words and wrap. \<open>assert!\<close>, \<open>expect\<close>, indexing and slicing that can
  go wrong are \<open>Inl (Panic msg)\<close>. Statics are fields of the state record. Spin locks are not part of the
  state: an operation runs as one step except where its interleaving is the subject
  (\<open>Pmm_Concurrent\<close>, \<open>Disk_Mailbox\<close>, \<open>Gopd\<close>, the jobs of \<open>Process\<close>), and except for the lock of the desktop, which its
  callers may hold (\<open>DESKTOP_HELD\<close>). Where the source returns in the middle of a long function, each part is a definition
  that says whether it returned.

  \<^bold>\<open>Interfaces.\<close> The locale \<open>frame_allocator\<close> is what the page allocator promises and is interpreted on
  \<open>alloc_page\<close>, \<open>free_page\<close> and \<open>alloc_contiguous\<close>; \<open>block_allocator\<close> is what the heap promises,
  interpreted on \<open>slab_alloc\<close> and \<open>slab_dealloc\<close>; \<open>block_store\<close> is what \<open>read_block\<close> and \<open>write_block\<close>
  promise, under which the inode table and the bitmaps are proved; \<open>bounded_queue\<close> is what the key buffer
  promises its readers, in any order of pushes and pops; \<open>kept_by_memory\<close> and its extension \<open>kept_by_process\<close> carry a property of
  the machine through the loading of an image, interpreted on the free pages and on the state outside memory.

  \<^bold>\<open>What is shown.\<close> Page allocator: first fit, the partition of usable pages into free and owned ones over
  any sequence of calls, exclusiveness of interleaved allocations, agreement of the atomic-step model
  with the sequential one, the result of \<open>init\<close>, first free run for contiguous requests. Page tables:
  mapping changes exactly one translation and writes only table frames. Heap: fresh disjoint
  blocks, aligned as requested for alignments up to a page, no live byte changes, null exactly when nothing can satisfy the request, reuse after release.
  Scheduler: the one-running-task invariant, round-robin choice, absence of starvation, wake-up times,
  transparency of a context switch. Filesystem: the inode table stores each inode independently, bitmap
  allocation is least-bit and touches nothing else, a name added to a directory is found and no other changes, a file
  written is read back. Disk: any sequence of direct calls reads and writes the medium as an array of blocks, the hand-over of
  the queue to the ring-3 driver and back keeps both in step with the controller, a mailbox call that returns was served;
  and three faults: a block that partly goes to physical page zero, a request that is lost, and an answer taken for the wrong
  request. Network: checksums verify, segments and addresses
  read back, \<open>poll\<close> ends when the card runs dry and not while it is flooded, and the one frame shape that panics the handler.
  Input: the key buffer is a bounded queue under any order of pushes and pops, letters and modifiers, a mouse packet moves the pointer and keeps it on the screen. Loader: an
  image owns distinct frames that were free, copies stay inside their page, and one malformed header
  panics. Processes: the trip into ring 3 and back, the halves of a new address space, captured output per
  slot, the bound of the process table, jobs neither lost nor duplicated under interleaving, the output
  of a job delivered to its issuer, pages each given back once when a process ends and lost when it cannot be started. System
  calls: what the caller keeps and what it loses, the filesystem mailbox, which device memory is mapped and where, path splitting. Editor: insertion as insertion into the text, no panic without a selection, exactness of the
  find scan, and two faults of a selection anchor that a click leaves behind. Drawing: rectangles colour exactly their
  pixels, text stays in its box, a presented frame is never mixed with a later one. Images: decoding is total and gives the stored colours. Desktop: no window is lost or
  doubled and the focus is valid after any events, the taskbar shows exactly the pinned and the shown, a paste that waits
  for a lock its caller holds, and a window that is hidden although it was opened again.

  \<^bold>\<open>Bounds and fuel.\<close> \<open>poll\<close> takes fuel for its loop over received frames; one more than the number of receives before the
  first that finds nothing is proved enough, and without such a receive no fuel need be. \<open>wait_update\<close> takes fuel for the wait of the clock; any fuel
  that reaches the first read without an update is enough. \<open>copy_entry\<close> takes fuel because the source recurses into directories
  without a cycle check; a paste that uses it up is \<open>Unfinished\<close>, which is not the hang \<open>Spins\<close>. The context switch is proved for stacks with room for the seven saved words;
  the checksum property for packets below 32 KB, where the 32-bit sum cannot wrap. Ring 3 may never exit, so
  \<open>run_elf\<close> and the functions above it are options, \<open>None\<close> for a process that runs on. The spin loops of the disk drivers
  run over the bound the source gives them; that a controller answers within it is the law \<open>prompt\<close>. Drawing is proved for
  screens below \<open>2 ^ 62\<close> pixels and text whose box does not wrap around; the desktop takes coordinates as integers, its
  screens being far below the range of \<open>i32\<close>.

  \<^bold>\<open>Parameters.\<close> The NVMe controller is a function of its state with the laws \<open>conforms\<close> and \<open>prompt\<close>, which a concrete
  controller satisfies. The values of two floating-point expressions of the mouse handler are given to it. The sector device moves whole sectors and fails on a range it does not have; what
  each receive of a network card finds is arbitrary, and a card takes every frame sent; what the compiled system call dispatcher
  leaves in the registers a function may change is arbitrary; the time stamp counter is an arbitrary sequence of
  readings; the values the processor keeps (control register, translation buffer, registers) are fields
  of the state. What ring 3 and the other tasks do between the entry of a process and its exit, or while a
  caller spins for a driver to start or stop, is a function of the state; the page tables' answer to a user
  address, and which locks are held during a system call, are given to the call.

  \<^bold>\<open>Not modelled.\<close> Register-level drivers other than NVMe (AHCI, xHCI, HDA, e1000, RTL8139, virtio, PCI, APIC, serial port;
  of AHCI the request timeout and of several the service functions are modelled), descriptor and interrupt table setup: their
  content is sequences of device accesses. The drawing of \<open>icons.rs\<close>, \<open>desktop.rs\<close>, \<open>terminal.rs\<close> and \<open>main.rs\<close>:
  sequences of the drawing calls of \<open>Framebuffer\<close>, or floating-point animation. The shell of
  \<open>terminal.rs\<close>, the render loop of \<open>main.rs\<close>, the boot loader, the runtime and the other programs of user space are listed in
  the manifest with their state.
\<close>

end
